(* ===== verification/Prelude.thy ===== *)
theory Prelude
  imports Main "HOL-Library.Word" "HOL-Library.Char_ord" "HOL-Library.List_Lexorder"
    "HOL-Library.Multiset"
begin

text \<open>
  Shared types, automation and generic lemmas of the development: Go's machine integers and
  its truncating division, decimal rendering (\<open>fmt\<close>'s \<open>%d\<close>, \<open>strconv.Itoa\<close>), hexadecimal
  rendering (\<open>%x\<close>), ordered key-value buckets, polling loops, and the counting lemmas behind
  every quorum argument.
\<close>

named_theorems store_simps \<open>read-after-write equations of the replica store\<close>
named_theorems frame_simps \<open>fields an operation leaves alone\<close>

subsection \<open>Go types\<close>

text \<open>
  A Go \<open>string\<close> or \<open>[]byte\<close> is a list of bytes (\<open>char\<close>). Amounts and balances are \<open>int64\<close>
  and wrap, so they are 64-bit words compared as signed numbers. Identifiers, sequence numbers,
  views and timestamps are counters that stay far from the 64-bit bound: \<open>int\<close>.
\<close>

type_synonym bytes = string
type_synonym int64 = "64 word"

definition sum64 :: "int64 list \<Rightarrow> int64" where
  "sum64 xs = fold (+) xs 0"

lemma fold_plus_word: "fold (+) xs (a::int64) = a + sum64 xs"
proof (induction xs arbitrary: a)
  case Nil
  then show ?case by (simp add: sum64_def)
next
  case (Cons x xs)
  have "sum64 (x # xs) = x + sum64 xs"
    using Cons.IH [of x] by (simp add: sum64_def)
  then show ?case using Cons.IH [of "x + a"] by (simp add: algebra_simps)
qed

lemma sum64_simps [simp]: "sum64 [] = 0" "sum64 (x # xs) = x + sum64 xs"
  using fold_plus_word [of xs x] by (simp_all add: sum64_def)

lemma sum64_append [simp]: "sum64 (xs @ ys) = sum64 xs + sum64 ys"
  by (induction xs) (simp_all add: algebra_simps)

text \<open>Go's \<open>/\<close> and \<open>%\<close> on signed integers truncate towards zero.\<close>

definition go_div :: "int \<Rightarrow> int \<Rightarrow> int" where
  "go_div a b = sgn a * sgn b * (\<bar>a\<bar> div \<bar>b\<bar>)"

definition go_mod :: "int \<Rightarrow> int \<Rightarrow> int" where
  "go_mod a b = a - go_div a b * b"

lemma go_div_nonneg: "0 \<le> a \<Longrightarrow> 0 < b \<Longrightarrow> go_div a b = a div b"
  by (cases "a = 0") (simp_all add: go_div_def)

lemma go_mod_nonneg: "0 \<le> a \<Longrightarrow> 0 < b \<Longrightarrow> go_mod a b = a mod b"
  by (simp add: go_mod_def go_div_nonneg minus_div_mult_eq_mod)

lemma go_div_neg_le: "a \<le> 0 \<Longrightarrow> 0 < b \<Longrightarrow> go_div a b \<le> 0"
  by (cases "a = 0") (auto simp: go_div_def mult_nonpos_nonneg pos_imp_zdiv_nonneg_iff)

lemma go_mod_bounds: "0 < b \<Longrightarrow> - b < go_mod a b \<and> go_mod a b < b"
proof (cases "0 \<le> a")
  case True
  assume b: "0 < b"
  then have "0 \<le> a mod b" and "a mod b < b" by simp_all
  with True b show ?thesis by (simp add: go_mod_nonneg)
next
  case False
  assume b: "0 < b"
  have "go_mod a b = - ((- a) mod b)"
    using False b by (simp add: go_mod_def go_div_def minus_div_mult_eq_mod [symmetric])
  moreover have "0 \<le> (- a) mod b" and "(- a) mod b < b" using b by simp_all
  ultimately show ?thesis using b by linarith
qed

lemma int_le_div_iff: "0 < (k::int) \<Longrightarrow> q \<le> a div k \<longleftrightarrow> q * k \<le> a"
proof
  assume k: "0 < k" and "q \<le> a div k"
  then have "q * k \<le> a div k * k" by (simp add: mult_right_mono)
  also have "\<dots> \<le> a" using k div_mult_mod_eq [of a k] pos_mod_sign [of k a] by linarith
  finally show "q * k \<le> a" .
next
  assume k: "0 < k" and "q * k \<le> a"
  then have "q * k div k \<le> a div k" by (intro zdiv_mono1)
  moreover have "q * k div k = q" using k by simp
  ultimately show "q \<le> a div k" by (simp only:)
qed

lemma int_div_iff: "0 < (k::int) \<Longrightarrow> a div k = q \<longleftrightarrow> q * k \<le> a \<and> a < q * k + k"
  using int_le_div_iff [of k q a] int_le_div_iff [of k "q + 1" a] by (auto simp: algebra_simps)

text \<open>The idiom \<open>((v % n) + n) % n\<close> is the mathematical remainder for every sign of \<open>v\<close>.\<close>

lemma go_mod_wrap: "0 < n \<Longrightarrow> go_mod (go_mod v n + n) n = v mod n"
proof -
  assume n: "0 < n"
  then have "0 \<le> go_mod v n + n" using go_mod_bounds [of n v] by linarith
  then have "go_mod (go_mod v n + n) n = (go_mod v n + n) mod n"
    using n by (rule go_mod_nonneg)
  also have "\<dots> = v mod n"
    by (simp add: go_mod_def) (metis mod_mult_self4 mult.commute minus_mult_left uminus_add_conv_diff add.commute)
  finally show ?thesis .
qed


subsection \<open>Rendering numbers\<close>

text \<open>Decimal digits, most significant first; \<open>itoa\<close> is \<open>strconv.Itoa\<close> and \<open>fmt\<close>'s \<open>%d\<close>.\<close>

definition digit_char :: "nat \<Rightarrow> char" where
  "digit_char d = char_of (48 + d)"

fun nat_digits :: "nat \<Rightarrow> string" where
  "nat_digits n = (if n < 10 then [digit_char n] else nat_digits (n div 10) @ [digit_char (n mod 10)])"

declare nat_digits.simps [simp del]

definition itoa :: "int \<Rightarrow> string" where
  "itoa i = (if i < 0 then CHR ''-'' # nat_digits (nat (- i)) else nat_digits (nat i))"

lemma digit_char_inj: "a < 10 \<Longrightarrow> b < 10 \<Longrightarrow> digit_char a = digit_char b \<Longrightarrow> a = b"
proof -
  assume "a < 10" "b < 10" "digit_char a = digit_char b"
  then have "of_char (char_of (48 + a) :: char) = (of_char (char_of (48 + b) :: char) :: nat)"
    by (simp add: digit_char_def)
  with \<open>a < 10\<close> \<open>b < 10\<close> show "a = b" by (simp add: of_char_of)
qed

lemma digit_char_code: "d < 10 \<Longrightarrow> of_char (digit_char d) = (48 + d :: nat)"
  by (simp add: digit_char_def of_char_of)

text \<open>Only the digits occur, so neither a separator nor a minus sign does.\<close>

lemma nat_digits_chars: "c \<in> set (nat_digits n) \<Longrightarrow> \<exists>d<10. c = digit_char d"
proof (induction n rule: nat_digits.induct)
  case (1 n)
  show ?case
  proof (cases "n < 10")
    case True
    with 1 show ?thesis by (auto simp: nat_digits.simps [of n])
  next
    case False
    then have "c \<in> set (nat_digits (n div 10)) \<or> c = digit_char (n mod 10)"
      using "1.prems" by (auto simp: nat_digits.simps [of n])
    moreover have "n mod 10 < 10" by simp
    ultimately show ?thesis using "1.IH" [OF False] by blast
  qed
qed

lemma digit_char_neq: "d < 10 \<Longrightarrow> digit_char d \<noteq> CHR ''|'' \<and> digit_char d \<noteq> CHR ''-''"
proof -
  assume d: "d < 10"
  have "of_char (digit_char d) \<noteq> (124::nat)" "of_char (digit_char d) \<noteq> (45::nat)"
    using d by (simp_all add: digit_char_code)
  then show ?thesis by (auto simp: of_char_def)
qed

lemma nat_digits_nonempty [simp]: "nat_digits n \<noteq> []"
  by (subst nat_digits.simps) simp

lemma nat_digits_sep: "CHR ''|'' \<notin> set (nat_digits n)" "CHR ''-'' \<notin> set (nat_digits n)"
  using nat_digits_chars digit_char_neq by metis+

lemma itoa_sep: "CHR ''|'' \<notin> set (itoa i)"
  using nat_digits_sep by (auto simp: itoa_def)

lemma nat_digits_inj: "nat_digits m = nat_digits n \<Longrightarrow> m = n"
proof (induction m arbitrary: n rule: nat_digits.induct)
  case (1 m)
  have len: "10 \<le> k \<Longrightarrow> \<exists>ys. ys \<noteq> [] \<and> nat_digits k = ys @ [digit_char (k mod 10)]" for k
    by (subst nat_digits.simps) auto
  have sm: "k < 10 \<Longrightarrow> nat_digits k = [digit_char k]" for k
    by (subst nat_digits.simps) simp
  show ?case
  proof (cases "m < 10"; cases "n < 10")
    assume "m < 10" "n < 10"
    with "1.prems" show "m = n" by (simp add: sm digit_char_inj)
  next
    assume "m < 10" "\<not> n < 10"
    with "1.prems" len [of n] show "m = n" by (auto simp: sm)
  next
    assume "\<not> m < 10" "n < 10"
    with "1.prems" len [of m] show "m = n" by (auto simp: sm)
  next
    assume m: "\<not> m < 10" and n: "\<not> n < 10"
    have "nat_digits (m div 10) @ [digit_char (m mod 10)] = nat_digits (n div 10) @ [digit_char (n mod 10)]"
      using "1.prems" m n by (simp add: nat_digits.simps [of m] nat_digits.simps [of n])
    then have "nat_digits (m div 10) = nat_digits (n div 10)"
      and "digit_char (m mod 10) = digit_char (n mod 10)" by simp_all
    moreover from this have "m div 10 = n div 10" using "1.IH" [OF m] by blast
    moreover have "m mod 10 = n mod 10"
      using \<open>digit_char (m mod 10) = digit_char (n mod 10)\<close> by (simp add: digit_char_inj)
    ultimately show "m = n" by (metis div_mult_mod_eq)
  qed
qed

lemma itoa_inj: "itoa i = itoa j \<longleftrightarrow> i = j"
proof
  assume eq: "itoa i = itoa j"
  have minus: "k \<ge> 0 \<Longrightarrow> itoa k \<noteq> CHR ''-'' # xs" for k xs
    using nat_digits_sep(2) [of "nat k"] by (auto simp: itoa_def)
  show "i = j"
  proof (cases "i < 0"; cases "j < 0")
    assume "i < 0" "j < 0"
    with eq show ?thesis by (auto simp: itoa_def dest: nat_digits_inj)
  next
    assume "\<not> i < 0" "\<not> j < 0"
    with eq show ?thesis by (auto simp: itoa_def dest: nat_digits_inj)
  next
    assume "i < 0" "\<not> j < 0"
    with eq minus [of j] show ?thesis by (metis itoa_def not_le)
  next
    assume "\<not> i < 0" "j < 0"
    with eq minus [of i] show ?thesis by (metis itoa_def not_le)
  qed
qed simp

text \<open>\<open>strconv.Atoi\<close>: an optional sign and at least one digit; \<open>None\<close> for its syntax error.\<close>

definition digit_val :: "char \<Rightarrow> nat option" where
  "digit_val c = (let k = of_char c in if 48 \<le> k \<and> k \<le> 57 then Some (k - 48) else None)"

fun digits_val :: "nat \<Rightarrow> string \<Rightarrow> nat option" where
  "digits_val a [] = Some a"
| "digits_val a (c # cs) = (case digit_val c of None \<Rightarrow> None | Some d \<Rightarrow> digits_val (10 * a + d) cs)"

fun Atoi :: "string \<Rightarrow> int option" where
  "Atoi [] = None"
| "Atoi (c # cs) =
     (if c = CHR ''-'' then (if cs = [] then None else map_option (\<lambda>n. - int n) (digits_val 0 cs))
      else if c = CHR ''+'' then (if cs = [] then None else map_option int (digits_val 0 cs))
      else map_option int (digits_val 0 (c # cs)))"

lemma digit_val_digit [simp]: "d < 10 \<Longrightarrow> digit_val (digit_char d) = Some d"
  by (simp add: digit_val_def digit_char_code Let_def)

lemma digits_val_append: "digits_val a (xs @ ys) = (case digits_val a xs of None \<Rightarrow> None | Some b \<Rightarrow> digits_val b ys)"
  by (induction xs arbitrary: a) (auto split: option.split)

lemma digits_val_nat_digits: "digits_val 0 (nat_digits n) = Some n"
proof (induction n rule: nat_digits.induct)
  case (1 n)
  show ?case
  proof (cases "n < 10")
    case True
    then show ?thesis by (simp add: nat_digits.simps [of n])
  next
    case False
    with 1 show ?thesis by (simp add: nat_digits.simps [of n] digits_val_append)
  qed
qed

lemma Atoi_itoa [simp]: "Atoi (itoa i) = Some i"
proof (cases "i < 0")
  case True
  then show ?thesis by (simp add: itoa_def digits_val_nat_digits)
next
  case False
  obtain c cs where c: "nat_digits (nat i) = c # cs"
    using nat_digits_nonempty by (meson list.exhaust)
  then obtain d where "d < 10" "c = digit_char d" using nat_digits_chars [of c "nat i"] by auto
  then have "of_char c = 48 + d" and "d < 10" by (simp_all add: digit_char_code)
  then have "c \<noteq> CHR ''-''" "c \<noteq> CHR ''+''" by (auto simp: of_char_def)
  with False c digits_val_nat_digits [of "nat i"] show ?thesis by (simp add: itoa_def)
qed

text \<open>Splitting at the first separator is unambiguous when the head has none.\<close>

lemma sep_split:
  assumes "a @ CHR ''|'' # x = b @ CHR ''|'' # y" and "CHR ''|'' \<notin> set a" and "CHR ''|'' \<notin> set b"
  shows "a = b \<and> x = y"
  using assms
proof (induction a arbitrary: b)
  case Nil
  then show ?case by (cases b) auto
next
  case (Cons c a)
  then show ?case by (cases b) auto
qed

text \<open>Hexadecimal rendering of a byte string (\<open>%x\<close>): two lower-case digits per byte.\<close>

definition hex_char :: "nat \<Rightarrow> char" where
  "hex_char d = char_of (if d < 10 then 48 + d else 87 + d)"

definition hex_byte :: "char \<Rightarrow> string" where
  "hex_byte c = [hex_char (of_char c div 16), hex_char (of_char c mod 16)]"

fun hex :: "bytes \<Rightarrow> string" where
  "hex [] = []"
| "hex (c # cs) = hex_byte c @ hex cs"

lemma hex_char_inj: "a < 16 \<Longrightarrow> b < 16 \<Longrightarrow> hex_char a = hex_char b \<Longrightarrow> a = b"
proof -
  assume ab: "a < 16" "b < 16" and eq: "hex_char a = hex_char b"
  have code: "of_char (hex_char k) = (if k < 10 then 48 + k else 87 + k :: nat)" if "k < 16" for k
    using that by (simp add: hex_char_def of_char_of)
  have "of_char (hex_char a) = (of_char (hex_char b) :: nat)" using eq by simp
  with ab show "a = b" by (simp add: code split: if_splits)
qed

lemma hex_byte_inj: "hex_byte c = hex_byte d \<longleftrightarrow> c = d"
proof
  assume eq: "hex_byte c = hex_byte d"
  have lt: "of_char (k::char) div 16 < (16::nat)" "of_char k mod 16 < (16::nat)" for k
    using nat_of_char_less_256 [of k] by (simp_all add: less_mult_imp_div_less)
  have "of_char c div 16 = (of_char d div 16 :: nat)" and "of_char c mod 16 = (of_char d mod 16 :: nat)"
    using eq lt by (auto simp: hex_byte_def intro: hex_char_inj)
  then have "of_char c = (of_char d :: nat)" by (metis div_mult_mod_eq)
  then show "c = d" by simp
qed simp

lemma hex_inj: "hex xs = hex ys \<longleftrightarrow> xs = ys"
proof
  assume "hex xs = hex ys"
  then show "xs = ys"
  proof (induction xs arbitrary: ys)
    case Nil
    then show ?case by (cases ys) (auto simp: hex_byte_def)
  next
    case (Cons x xs)
    from Cons.prems obtain y ys' where ys: "ys = y # ys'" by (cases ys) (auto simp: hex_byte_def)
    have "hex_byte x = hex_byte y" and "hex xs = hex ys'"
      using Cons.prems by (simp_all add: ys hex_byte_def)
    then show ?case using Cons.IH ys by (simp add: hex_byte_inj)
  qed
qed simp


subsection \<open>Ordered buckets\<close>

text \<open>
  A bucket of key-value pairs kept in ascending key order, as the program's stores and registers
  are iterated: a write replaces the value of its key, a delete drops the key.
\<close>

type_synonym ('k, 'v) bucket = "('k \<times> 'v) list"

abbreviation bget :: "('k, 'v) bucket \<Rightarrow> 'k \<Rightarrow> 'v option" where
  "bget b k \<equiv> map_of b k"

fun bput :: "'k::linorder \<Rightarrow> 'v \<Rightarrow> ('k, 'v) bucket \<Rightarrow> ('k, 'v) bucket" where
  "bput k v [] = [(k, v)]"
| "bput k v ((k', v') # b) =
     (if k < k' then (k, v) # (k', v') # b
      else if k = k' then (k, v) # b
      else (k', v') # bput k v b)"

definition bdel :: "'k \<Rightarrow> ('k, 'v) bucket \<Rightarrow> ('k, 'v) bucket" where
  "bdel k b = filter (\<lambda>p. fst p \<noteq> k) b"

definition bkeys_ok :: "('k::linorder, 'v) bucket \<Rightarrow> bool" where
  "bkeys_ok b \<longleftrightarrow> sorted_wrt (<) (map fst b)"

lemma map_of_bput [simp]: "map_of (bput k v b) = (map_of b)(k \<mapsto> v)"
  by (induction k v b rule: bput.induct) (auto simp: fun_eq_iff)

lemma map_of_bdel [simp]: "map_of (bdel k b) = (map_of b)(k := None)"
  unfolding bdel_def by (induction b) (auto simp: fun_eq_iff)

lemma bput_keys [simp]: "fst ` set (bput k v b) = insert k (fst ` set b)"
  by (induction k v b rule: bput.induct) auto

lemma bdel_keys: "fst ` set (bdel k b) = fst ` set b - {k}"
  by (auto simp: bdel_def)

lemma bkeys_ok_Nil [simp]: "bkeys_ok []"
  by (simp add: bkeys_ok_def)

lemma bkeys_ok_Cons: "bkeys_ok (p # b) \<longleftrightarrow> (\<forall>k\<in>fst ` set b. fst p < k) \<and> bkeys_ok b"
  by (auto simp: bkeys_ok_def)

lemma bkeys_ok_bput [simp]: "bkeys_ok b \<Longrightarrow> bkeys_ok (bput k v b)"
  by (induction k v b rule: bput.induct) (auto simp: bkeys_ok_Cons)

lemma bkeys_ok_bdel [simp]: "bkeys_ok b \<Longrightarrow> bkeys_ok (bdel k b)"
  by (auto simp: bkeys_ok_def bdel_def sorted_wrt_map sorted_wrt_filter)

lemma bkeys_distinct: "bkeys_ok b \<Longrightarrow> distinct (map fst b)"
  by (induction b) (auto simp: bkeys_ok_Cons)

text \<open>Writing the pairs of an ordered bucket into an empty one rebuilds it.\<close>

lemma bput_last: "bkeys_ok b \<Longrightarrow> \<forall>k'\<in>fst ` set b. k' < k \<Longrightarrow> bput k v b = b @ [(k, v)]"
  by (induction k v b rule: bput.induct) (auto simp: bkeys_ok_Cons)

lemma fold_bput_append:
  "bkeys_ok (b @ c) \<Longrightarrow> fold (\<lambda>(k, v). bput k v) c b = b @ c"
proof (induction c arbitrary: b)
  case Nil
  then show ?case by simp
next
  case (Cons p c)
  obtain k v where p: "p = (k, v)" by (cases p)
  have "bkeys_ok b" and "\<forall>k'\<in>fst ` set b. k' < k"
    using Cons.prems by (auto simp: p bkeys_ok_def sorted_wrt_append)
  then have "bput k v b = b @ [p]" by (simp add: bput_last p)
  with Cons.IH [of "b @ [p]"] Cons.prems show ?case by (simp add: p)
qed

lemma fold_bput_id: "bkeys_ok b \<Longrightarrow> fold (\<lambda>(k, v). bput k v) b [] = b"
  using fold_bput_append [of "[]" b] by simp

text \<open>Copying pairs under renamed keys.\<close>

lemma fold_bput_lookup:
  "distinct (map fst xs) \<Longrightarrow>
     map_of (fold (\<lambda>(k, v). bput k v) xs m) k = (case map_of xs k of None \<Rightarrow> map_of m k | Some v \<Rightarrow> Some v)"
proof (induction xs arbitrary: m)
  case (Cons p xs)
  obtain k' v' where p: "p = (k', v')" by (cases p)
  have "map_of xs k' = None" using Cons.prems by (simp add: p map_of_eq_None_iff)
  with Cons show ?case by (auto simp: p split: option.split)
qed simp

lemma fold_bput_rename:
  "fold (\<lambda>(k, v). bput (g k) v) xs m = fold (\<lambda>(k, v). bput k v) (map (\<lambda>(k, v). (g k, v)) xs) m"
  by (induction xs arbitrary: m) auto

lemma map_of_rename:
  "inj_on g (insert k (fst ` set xs)) \<Longrightarrow> map_of (map (\<lambda>(k, v). (g k, v)) xs) (g k) = map_of xs k"
  by (induction xs) (auto simp: inj_on_def)

lemma distinct_rename:
  "inj_on g (fst ` set xs) \<Longrightarrow> distinct (map fst xs) \<Longrightarrow>
     distinct (map fst (map (\<lambda>(k, v). (g k, v)) xs))"
proof (induction xs)
  case (Cons p xs)
  then show ?case by (cases p) (force simp: inj_on_def)
qed simp

lemma fold_bput_keys: "fst ` set (fold (\<lambda>(k, v). bput (g k) v) xs m) = g ` fst ` set xs \<union> fst ` set m"
proof (induction xs arbitrary: m)
  case (Cons p xs)
  then show ?case by (cases p) simp
qed simp

lemma fold_bput_ok: "bkeys_ok m \<Longrightarrow> bkeys_ok (fold (\<lambda>(k, v). bput (g k) v) xs m)"
  by (induction xs arbitrary: m) auto

lemma bput_length_new: "k \<notin> fst ` set b \<Longrightarrow> length (bput k v b) = Suc (length b)"
  by (induction k v b rule: bput.induct) auto

lemma bput_length_le: "length b \<le> length (bput k v b)"
  by (induction k v b rule: bput.induct) auto

subsection \<open>Polling loops\<close>

text \<open>
  \<open>poll n P obs\<close> is the value of a loop that tests \<open>P\<close> until a deadline and once more at the
  end: \<open>n\<close> is the number of rounds the clock leaves and \<open>obs i\<close> is the state seen in round \<open>i\<close>.
\<close>

fun poll :: "nat \<Rightarrow> ('s \<Rightarrow> bool) \<Rightarrow> (nat \<Rightarrow> 's) \<Rightarrow> bool" where
  "poll 0 P obs = P (obs 0)"
| "poll (Suc n) P obs = (if P (obs 0) then True else poll n P (\<lambda>i. obs (Suc i)))"

lemma poll_iff: "poll n P obs \<longleftrightarrow> (\<exists>i\<le>n. P (obs i))"
proof (induction n arbitrary: obs)
  case 0
  then show ?case by simp
next
  case (Suc n)
  have "(\<exists>i\<le>Suc n. P (obs i)) \<longleftrightarrow> P (obs 0) \<or> (\<exists>i\<le>n. P (obs (Suc i)))"
    by (metis Suc_le_mono le0 not0_implies_Suc)
  with Suc show ?case by simp
qed

lemma poll_const [simp]: "poll n P (\<lambda>_. s) = P s"
  by (auto simp: poll_iff)

subsection \<open>Counting\<close>

lemma card_inter_ge:
  assumes "finite U" and "A \<subseteq> U" and "B \<subseteq> U"
  shows "card A + card B \<le> card U + card (A \<inter> B)"
proof -
  have fin: "finite A" "finite B" using assms finite_subset by auto
  have "card A + card B = card (A \<union> B) + card (A \<inter> B)" using fin by (rule card_Un_Int)
  moreover have "card (A \<union> B) \<le> card U" using assms by (intro card_mono) auto
  ultimately show ?thesis by simp
qed

text \<open>Two large sets share a member outside any small set.\<close>

lemma quorum_common:
  assumes "finite U" and "A \<subseteq> U" and "B \<subseteq> U" and "F \<subseteq> U"
    and "card U + card F < card A + card B"
  shows "\<exists>x\<in>A \<inter> B. x \<notin> F"
proof (rule ccontr)
  assume "\<not> ?thesis"
  then have "A \<inter> B \<subseteq> F" by auto
  then have "card (A \<inter> B) \<le> card F" using assms(1,4) by (meson card_mono finite_subset)
  with card_inter_ge [OF assms(1-3)] assms(5) show False by simp
qed

end
