(* ===== verification/Config.thy ===== *)
theory Config
  imports Prelude
begin

text \<open>
  The static topology (\<open>internal/config/topology.go\<close>): servers numbered in contiguous blocks, one
  block per cluster, the shard map from items to clusters, the rotating primary and the PBFT
  thresholds derived from the cluster size.
\<close>

record server =
  srv_ID :: int
  srv_Cluster :: int
  srv_Host :: string
  srv_Port :: int

record topology =
  NumClusters :: int
  ClusterSize :: int
  TotalItems :: int
  BasePort :: int
  Host :: string
  InitialBalance :: int64
  Servers :: "server list"

text \<open>The two nested loops of \<open>New\<close>, cluster by cluster and inside it member by member.\<close>

definition cluster_block :: "int \<Rightarrow> int \<Rightarrow> string \<Rightarrow> int \<Rightarrow> server list" where
  "cluster_block clusterSize basePort host c =
     map (\<lambda>i. \<lparr>srv_ID = c * clusterSize + i + 1, srv_Cluster = c + 1, srv_Host = host,
               srv_Port = basePort + (c * clusterSize + i + 1)\<rparr>) [0..clusterSize - 1]"

definition New :: "int \<Rightarrow> int \<Rightarrow> int \<Rightarrow> int \<Rightarrow> string \<Rightarrow> int64 \<Rightarrow> topology" where
  "New numClusters clusterSize totalItems basePort host initialBalance =
     \<lparr>NumClusters = numClusters, ClusterSize = clusterSize, TotalItems = totalItems,
      BasePort = basePort, Host = host, InitialBalance = initialBalance,
      Servers = concat (map (cluster_block clusterSize basePort host) [0..numClusters - 1])\<rparr>"

definition Default :: topology where
  "Default = New 3 12 3000 9000 ''127.0.0.1'' 10"

definition TotalServers :: "topology \<Rightarrow> int" where
  "TotalServers t = NumClusters t * ClusterSize t"

definition F :: "topology \<Rightarrow> int" where
  "F t = go_div (ClusterSize t - 1) 3"

definition Quorum :: "topology \<Rightarrow> int" where
  "Quorum t = 2 * F t + 1"

definition CollectorQuorum :: "topology \<Rightarrow> int" where
  "CollectorQuorum t = ClusterSize t - F t"

definition ClientQuorum :: "topology \<Rightarrow> int" where
  "ClientQuorum t = F t + 1"

text \<open>
  Integer division by zero panics in Go. \<open>ClusterOf_go\<close> and \<open>PrimaryOf_go\<close> keep the panic as a
  value; on the topologies the program runs (at least one cluster, one member and one item per
  cluster) they return, and the rest of the development uses the value they return.
\<close>

datatype panic = DivideByZero

definition ItemsPerCluster :: "topology \<Rightarrow> int" where
  "ItemsPerCluster t = go_div (TotalItems t) (NumClusters t)"

definition ClusterOf :: "topology \<Rightarrow> int \<Rightarrow> int" where
  "ClusterOf t item =
     (let per = ItemsPerCluster t; idx = go_div (item - 1) per;
          idx = (if idx < 0 then 0 else idx);
          idx = (if idx \<ge> NumClusters t then NumClusters t - 1 else idx)
      in idx + 1)"

definition ClusterOf_go :: "topology \<Rightarrow> int \<Rightarrow> panic + int" where
  "ClusterOf_go t item =
     (if NumClusters t = 0 then Inl DivideByZero
      else if ItemsPerCluster t = 0 then Inl DivideByZero
      else Inr (ClusterOf t item))"

definition PrimaryOf :: "topology \<Rightarrow> int \<Rightarrow> int \<Rightarrow> int" where
  "PrimaryOf t cluster view =
     (let base = (cluster - 1) * ClusterSize t;
          offset = go_mod (go_mod view (ClusterSize t) + ClusterSize t) (ClusterSize t)
      in base + offset + 1)"

definition PrimaryOf_go :: "topology \<Rightarrow> int \<Rightarrow> int \<Rightarrow> panic + int" where
  "PrimaryOf_go t cluster view =
     (if ClusterSize t = 0 then Inl DivideByZero else Inr (PrimaryOf t cluster view))"

definition ServersInCluster :: "topology \<Rightarrow> int \<Rightarrow> server list" where
  "ServersInCluster t cluster = filter (\<lambda>s. srv_Cluster s = cluster) (Servers t)"

text \<open>The second result of \<open>ServerByID\<close> (\<open>found\<close>) is whether the option holds a server.\<close>

definition ServerByID :: "topology \<Rightarrow> int \<Rightarrow> server option" where
  "ServerByID t i = find (\<lambda>s. srv_ID s = i) (Servers t)"

definition SameCluster :: "topology \<Rightarrow> int \<Rightarrow> int \<Rightarrow> bool" where
  "SameCluster t x y \<longleftrightarrow> ClusterOf t x = ClusterOf t y"

text \<open>The server ids of a cluster, the universe of its quorums.\<close>

definition members :: "topology \<Rightarrow> int \<Rightarrow> int set" where
  "members t c = srv_ID ` set (ServersInCluster t c)"

text \<open>A topology as \<open>New\<close> builds it, from parameters the program can run with.\<close>

definition wf_topology :: "topology \<Rightarrow> bool" where
  "wf_topology t \<longleftrightarrow> 1 \<le> NumClusters t \<and> 1 \<le> ClusterSize t \<and> 1 \<le> ItemsPerCluster t \<and>
     Servers t = Servers (New (NumClusters t) (ClusterSize t) (TotalItems t) (BasePort t) (Host t)
                            (InitialBalance t))"

subsection \<open>The server list\<close>

lemma New_fields [simp]:
  "NumClusters (New nc cs n p h b) = nc" "ClusterSize (New nc cs n p h b) = cs"
  "TotalItems (New nc cs n p h b) = n" "BasePort (New nc cs n p h b) = p"
  "Host (New nc cs n p h b) = h" "InitialBalance (New nc cs n p h b) = b"
  by (simp_all add: New_def)

lemma wf_New: "1 \<le> nc \<Longrightarrow> 1 \<le> cs \<Longrightarrow> nc \<le> items \<Longrightarrow> wf_topology (New nc cs items p h b)"
proof -
  assume "1 \<le> nc" "1 \<le> cs" "nc \<le> items"
  moreover from this have "0 < items div nc" by (simp add: pos_imp_zdiv_pos_iff)
  ultimately show ?thesis
    by (simp add: wf_topology_def ItemsPerCluster_def go_div_nonneg)
qed

lemma wf_Default: "wf_topology Default"
  unfolding Default_def by (rule wf_New) simp_all

lemma set_cluster_block:
  "s \<in> set (cluster_block cs p h c) \<longleftrightarrow>
     (\<exists>i. 0 \<le> i \<and> i < cs \<and> s = \<lparr>srv_ID = c * cs + i + 1, srv_Cluster = c + 1, srv_Host = h,
                                 srv_Port = p + (c * cs + i + 1)\<rparr>)"
  by (auto simp: cluster_block_def)

lemma set_Servers_New:
  "s \<in> set (Servers (New nc cs n p h b)) \<longleftrightarrow>
     (\<exists>c i. 0 \<le> c \<and> c < nc \<and> 0 \<le> i \<and> i < cs \<and>
        s = \<lparr>srv_ID = c * cs + i + 1, srv_Cluster = c + 1, srv_Host = h, srv_Port = p + (c * cs + i + 1)\<rparr>)"
  by (simp add: New_def set_cluster_block Bex_def zle_diff1_eq)

text \<open>Ids determine the block and the place in it.\<close>

lemma block_unique:
  assumes "(c::int) * cs + i = c' * cs + i'" and "0 \<le> i" "i < cs" "0 \<le> i'" "i' < cs"
  shows "c = c'" "i = i'"
proof -
  have "(c * cs + i) div cs = c" and "(c' * cs + i') div cs = c'" using assms(2-5) by simp_all
  with assms(1) show "c = c'" by simp
  with assms(1) show "i = i'" by simp
qed

lemma wf_server:
  assumes "wf_topology t"
  shows "s \<in> set (Servers t) \<longleftrightarrow>
     (\<exists>c i. 0 \<le> c \<and> c < NumClusters t \<and> 0 \<le> i \<and> i < ClusterSize t \<and>
        s = \<lparr>srv_ID = c * ClusterSize t + i + 1, srv_Cluster = c + 1, srv_Host = Host t,
             srv_Port = BasePort t + (c * ClusterSize t + i + 1)\<rparr>)"
  using assms by (auto simp: wf_topology_def set_Servers_New)

lemma server_id_inj:
  assumes "wf_topology t" "s \<in> set (Servers t)" "s' \<in> set (Servers t)" "srv_ID s = srv_ID s'"
  shows "s = s'"
proof -
  obtain c i c' i' where *: "0 \<le> i" "i < ClusterSize t" "0 \<le> i'" "i' < ClusterSize t"
    "s = \<lparr>srv_ID = c * ClusterSize t + i + 1, srv_Cluster = c + 1, srv_Host = Host t,
             srv_Port = BasePort t + (c * ClusterSize t + i + 1)\<rparr>"
    "s' = \<lparr>srv_ID = c' * ClusterSize t + i' + 1, srv_Cluster = c' + 1, srv_Host = Host t,
             srv_Port = BasePort t + (c' * ClusterSize t + i' + 1)\<rparr>"
    using assms(2,3) wf_server [OF assms(1)] by auto
  have "c * ClusterSize t + i = c' * ClusterSize t + i'" using assms(4) * by simp
  from block_unique [OF this] * show ?thesis by simp
qed

lemma ServerByID_Some:
  assumes "wf_topology t"
  shows "ServerByID t i = Some s \<longleftrightarrow> s \<in> set (Servers t) \<and> srv_ID s = i"
proof
  assume "ServerByID t i = Some s"
  then show "s \<in> set (Servers t) \<and> srv_ID s = i"
    by (auto simp: ServerByID_def find_Some_iff)
next
  assume s: "s \<in> set (Servers t) \<and> srv_ID s = i"
  then have "find (\<lambda>s. srv_ID s = i) (Servers t) \<noteq> None" by (auto simp: find_None_iff)
  then obtain s' where s': "find (\<lambda>s. srv_ID s = i) (Servers t) = Some s'" by blast
  then have "s' \<in> set (Servers t)" "srv_ID s' = i" by (auto simp: find_Some_iff)
  with s server_id_inj [OF assms] have "s' = s" by blast
  with s' show "ServerByID t i = Some s" by (simp add: ServerByID_def)
qed

lemma members_eq:
  assumes "wf_topology t" and "1 \<le> c" "c \<le> NumClusters t"
  shows "members t c = {(c - 1) * ClusterSize t + 1 .. c * ClusterSize t}"
proof (rule set_eqI)
  fix k
  have cs: "1 \<le> ClusterSize t" using assms(1) by (simp add: wf_topology_def)
  have "k \<in> members t c \<longleftrightarrow> (\<exists>i. 0 \<le> i \<and> i < ClusterSize t \<and> k = (c - 1) * ClusterSize t + i + 1)"
  proof
    assume "k \<in> members t c"
    then obtain s where "s \<in> set (Servers t)" "srv_Cluster s = c" "k = srv_ID s"
      by (auto simp: members_def ServersInCluster_def)
    then show "\<exists>i. 0 \<le> i \<and> i < ClusterSize t \<and> k = (c - 1) * ClusterSize t + i + 1"
      using wf_server [OF assms(1)] by auto
  next
    assume "\<exists>i. 0 \<le> i \<and> i < ClusterSize t \<and> k = (c - 1) * ClusterSize t + i + 1"
    then obtain i where i: "0 \<le> i" "i < ClusterSize t" "k = (c - 1) * ClusterSize t + i + 1" by blast
    let ?s = "\<lparr>srv_ID = (c - 1) * ClusterSize t + i + 1, srv_Cluster = c, srv_Host = Host t,
               srv_Port = BasePort t + ((c - 1) * ClusterSize t + i + 1)\<rparr>"
    have "?s \<in> set (Servers t)"
      unfolding wf_server [OF assms(1)] using assms(2,3) i by (intro exI [of _ "c - 1"] exI [of _ i]) simp
    then show "k \<in> members t c" using i by (force simp: members_def ServersInCluster_def)
  qed
  also have "\<dots> \<longleftrightarrow> k \<in> {(c - 1) * ClusterSize t + 1 .. c * ClusterSize t}"
    by (auto simp: algebra_simps intro!: exI [of _ "k - 1 - (c - 1) * ClusterSize t"])
  finally show "k \<in> members t c \<longleftrightarrow> k \<in> {(c - 1) * ClusterSize t + 1 .. c * ClusterSize t}" .
qed

lemma members_empty:
  assumes "wf_topology t" and "c < 1 \<or> NumClusters t < c"
  shows "members t c = {}"
proof -
  have "srv_Cluster s \<noteq> c" if "s \<in> set (Servers t)" for s
    using that assms by (auto simp: wf_server)
  then show ?thesis by (auto simp: members_def ServersInCluster_def)
qed

lemma finite_members [simp]: "finite (members t c)"
  by (simp add: members_def)

lemma card_members:
  assumes "wf_topology t" and "1 \<le> c" "c \<le> NumClusters t"
  shows "card (members t c) = nat (ClusterSize t)"
  using assms by (simp add: members_eq algebra_simps)

lemma members_disjoint: "wf_topology t \<Longrightarrow> c \<noteq> c' \<Longrightarrow> members t c \<inter> members t c' = {}"
  using server_id_inj by (auto simp: members_def ServersInCluster_def)


lemma block_ids: "map srv_ID (cluster_block cs p h c) = [c * cs + 1 .. c * cs + cs]"
proof -
  have shift: "map (\<lambda>i. k + i) [a..b] = [k + a..k + b]" for k a b :: int
  proof (induction a b rule: upto.induct)
    case (1 a b)
    show ?case
    proof (cases "a \<le> b")
      case True
      have "[k + a..k + b] = (k + a) # [k + (a + 1)..k + b]"
        using True upto_rec1 [of "k + a" "k + b"] by (simp add: algebra_simps)
      with True "1.IH" show ?thesis by (simp only: upto_rec1 list.map)
    qed simp
  qed
  have "map srv_ID (cluster_block cs p h c) = map (\<lambda>i. (c * cs + 1) + i) [0..cs - 1]"
    by (auto simp: cluster_block_def o_def)
  then show ?thesis by (simp add: shift)
qed

lemma blocks_ids:
  "0 \<le> cs \<Longrightarrow> map srv_ID (concat (map (cluster_block cs p h) [0..int n - 1])) = [1 .. int n * cs]"
proof (induction n)
  case 0
  then show ?case by simp
next
  case (Suc n)
  have "[0..int (Suc n) - 1] = [0..int n - 1] @ [int n]"
    using upto_rec2 [of 0 "int n"] by simp
  moreover have "[1..int n * cs + cs] = [1..int n * cs] @ [int n * cs + 1..int n * cs + cs]"
  proof (cases "int n * cs = 0")
    case False
    then have "1 \<le> int n * cs" using Suc.prems by (simp add: int_one_le_iff_zero_less zero_less_mult_iff)
    then show ?thesis using Suc.prems by (intro upto_split2) simp_all
  qed auto
  ultimately show ?case using Suc by (simp add: block_ids algebra_simps)
qed

lemma members_block: "wf_topology t \<Longrightarrow> k \<in> members t c \<longleftrightarrow>
   (\<exists>s. ServerByID t k = Some s \<and> srv_Cluster s = c)"
  by (auto simp: members_def ServersInCluster_def ServerByID_Some)

subsection \<open>Thresholds\<close>

lemma F_div: "1 \<le> ClusterSize t \<Longrightarrow> F t = (ClusterSize t - 1) div 3"
  by (simp add: F_def go_div_nonneg)

lemma F_bounds: "1 \<le> ClusterSize t \<Longrightarrow> 0 \<le> F t \<and> 3 * F t + 1 \<le> ClusterSize t \<and> ClusterSize t \<le> 3 * F t + 3"
proof -
  assume n: "1 \<le> ClusterSize t"
  have "0 \<le> (ClusterSize t - 1) div 3" using n by simp
  moreover have "(ClusterSize t - 1) div 3 * 3 + (ClusterSize t - 1) mod 3 = ClusterSize t - 1"
    and "0 \<le> (ClusterSize t - 1) mod 3" and "(ClusterSize t - 1) mod 3 < 3" by simp_all
  ultimately show ?thesis unfolding F_div [OF n] by linarith
qed

text \<open>
  What a threshold must promise so that two certificates agree: any two sets of that many
  members share a member outside every set of at most \<open>f\<close> faulty ones.
\<close>

locale quorum_system =
  fixes univ :: "'t \<Rightarrow> int \<Rightarrow> int set"
    and threshold :: "'t \<Rightarrow> nat"
    and faults :: "'t \<Rightarrow> nat"
    and valid :: "'t \<Rightarrow> int \<Rightarrow> bool"
  assumes finite_univ: "valid t c \<Longrightarrow> finite (univ t c)"
    and overlap: "valid t c \<Longrightarrow> card (univ t c) + faults t < 2 * threshold t"
begin

lemma common_correct_member:
  assumes "valid t c" "A \<subseteq> univ t c" "B \<subseteq> univ t c" "Bad \<subseteq> univ t c"
    and "threshold t \<le> card A" "threshold t \<le> card B" "card Bad \<le> faults t"
  shows "\<exists>x\<in>A \<inter> B. x \<notin> Bad"
proof (rule quorum_common [OF finite_univ [OF assms(1)] assms(2-4)])
  show "card (univ t c) + card Bad < card A + card B"
    using overlap [OF assms(1)] assms(5-7) by linarith
qed

lemma quorums_meet:
  assumes "valid t c" "A \<subseteq> univ t c" "B \<subseteq> univ t c" "threshold t \<le> card A" "threshold t \<le> card B"
  shows "A \<inter> B \<noteq> {}"
  using common_correct_member [OF assms(1-3), of "{}"] assms(4,5) by auto

end

definition valid_cluster :: "topology \<Rightarrow> int \<Rightarrow> bool" where
  "valid_cluster t c \<longleftrightarrow> wf_topology t \<and> 1 \<le> c \<and> c \<le> NumClusters t"

text \<open>A cluster whose size is exactly \<open>3f+1\<close>, the only sizes for which \<open>2f+1\<close> is a quorum.\<close>

definition tight_cluster :: "topology \<Rightarrow> int \<Rightarrow> bool" where
  "tight_cluster t c \<longleftrightarrow> valid_cluster t c \<and> ClusterSize t = 3 * F t + 1"

lemma card_members_int: "valid_cluster t c \<Longrightarrow> int (card (members t c)) = ClusterSize t"
  by (auto simp: valid_cluster_def card_members) (simp add: wf_topology_def)

interpretation collector_quorum: quorum_system members "\<lambda>t. nat (CollectorQuorum t)" "\<lambda>t. nat (F t)" valid_cluster
proof unfold_locales
  fix t c assume v: "valid_cluster t c"
  then have "1 \<le> ClusterSize t" by (simp add: valid_cluster_def wf_topology_def)
  from F_bounds [OF this] card_members_int [OF v]
  show "card (members t c) + nat (F t) < 2 * nat (CollectorQuorum t)"
    unfolding CollectorQuorum_def by linarith
qed simp

interpretation commit_quorum: quorum_system members "\<lambda>t. nat (Quorum t)" "\<lambda>t. nat (F t)" tight_cluster
proof unfold_locales
  fix t c assume v: "tight_cluster t c"
  then have "1 \<le> ClusterSize t" by (simp add: tight_cluster_def valid_cluster_def wf_topology_def)
  from F_bounds [OF this] card_members_int [of t c] v
  show "card (members t c) + nat (F t) < 2 * nat (Quorum t)"
    unfolding Quorum_def tight_cluster_def by linarith
qed simp

subsection \<open>Properties\<close>

text \<open>\<open>New\<close> numbers the servers S1..SN without gap or repetition, \<open>ServerByID\<close> finds exactly
  those ids, and the server it finds carries the cluster of its block and the port \<open>basePort + id\<close>.\<close>

theorem topology_layout:
  fixes nc cs items port :: int and host :: string and bal :: int64
  assumes "1 \<le> nc" "1 \<le> cs" "nc \<le> items"
  defines "t \<equiv> New nc cs items port host bal"
  shows "map srv_ID (Servers t) = [1 .. TotalServers t] \<and>
    (\<forall>i. (ServerByID t i \<noteq> None) = (1 \<le> i \<and> i \<le> TotalServers t)) \<and>
    (\<forall>i s. ServerByID t i = Some s \<longrightarrow>
           srv_ID s = i \<and> srv_Cluster s = (i - 1) div cs + 1 \<and> srv_Port s = port + i)"
proof (intro conjI allI impI)
  show ids: "map srv_ID (Servers t) = [1 .. TotalServers t]"
    using blocks_ids [of cs port host "nat nc"] assms(1,2)
    by (simp add: t_def New_def TotalServers_def mult.commute)
  have wf: "wf_topology t" unfolding t_def using assms(1-3) by (rule wf_New)
  have "(ServerByID t i \<noteq> None) = (i \<in> set (map srv_ID (Servers t)))" for i
    by (auto simp: ServerByID_def find_None_iff)
  then show "(ServerByID t i \<noteq> None) = (1 \<le> i \<and> i \<le> TotalServers t)" for i by (simp add: ids)
  fix i s assume "ServerByID t i = Some s"
  then have "s \<in> set (Servers t)" and i: "srv_ID s = i" by (simp_all add: ServerByID_Some [OF wf])
  then obtain c k where k: "0 \<le> k" "k < cs" and s: "s = \<lparr>srv_ID = c * cs + k + 1, srv_Cluster = c + 1,
      srv_Host = host, srv_Port = port + (c * cs + k + 1)\<rparr>"
    by (auto simp: t_def set_Servers_New)
  from k have "(c * cs + k) div cs = c" by simp
  with i s show "srv_ID s = i" "srv_Cluster s = (i - 1) div cs + 1" "srv_Port s = port + i" by auto
qed

theorem topology_layout_witness:
  "map srv_ID (Servers (New 3 4 30 9000 ''h'' 10)) = [1 .. TotalServers (New 3 4 30 9000 ''h'' 10)]"
  using topology_layout [of 3 4 30 9000 "''h''" 10] by simp

text \<open>The primary of every view, negative views included, is a member of the cluster, and any
  \<open>clusterSize\<close> consecutive views make every member primary exactly once.\<close>

theorem primary_rotation:
  assumes "valid_cluster t c"
  shows "PrimaryOf t c v \<in> members t c \<and>
         bij_betw (PrimaryOf t c) {v ..< v + ClusterSize t} (members t c)"
proof -
  let ?n = "ClusterSize t"
  have n: "0 < ?n" and mem: "members t c = {(c - 1) * ?n + 1 .. c * ?n}"
    using assms by (auto simp: valid_cluster_def wf_topology_def members_eq)
  have P: "PrimaryOf t c w = (c - 1) * ?n + w mod ?n + 1" for w
    using n by (simp add: PrimaryOf_def go_mod_wrap)
  have in_mem: "PrimaryOf t c w \<in> members t c" for w
  proof -
    have "c * ?n = (c - 1) * ?n + ?n" by (simp add: algebra_simps)
    with pos_mod_bound [OF n, of w] pos_mod_sign [OF n, of w] show ?thesis
      unfolding P mem atLeastAtMost_iff by linarith
  qed
  have "inj_on (PrimaryOf t c) {v ..< v + ?n}"
  proof (rule inj_onI)
    fix a b assume ab: "a \<in> {v ..< v + ?n}" "b \<in> {v ..< v + ?n}" "PrimaryOf t c a = PrimaryOf t c b"
    then have "?n dvd a - b" by (simp add: P mod_eq_dvd_iff)
    moreover have "\<bar>a - b\<bar> < ?n" using ab by auto
    ultimately show "a = b" using zdvd_not_zless [of "\<bar>a - b\<bar>" ?n] by auto
  qed
  moreover have "card (members t c) = card {v ..< v + ?n}"
    using n by (simp add: mem algebra_simps)
  ultimately have "PrimaryOf t c ` {v ..< v + ?n} = members t c"
    using in_mem by (intro card_subset_eq) (auto simp: card_image)
  with \<open>inj_on _ _\<close> in_mem show ?thesis by (simp add: bij_betw_def)
qed

theorem primary_rotation_witness: "PrimaryOf Default 2 (- 5) \<in> members Default 2"
proof -
  have "valid_cluster Default 2" by (simp add: valid_cluster_def wf_Default) (simp add: Default_def)
  from primary_rotation [OF this, of "- 5"] show ?thesis by simp
qed

text \<open>The shard map never panics on a well-formed topology, sends every item to an existing
  cluster, gives cluster \<open>c\<close> below the last exactly the items \<open>(c-1)*per+1 .. c*per\<close>, and gives the
  items above, the remainder of the division included, to the last one.\<close>

theorem shard_map:
  assumes wf: "wf_topology t" and item: "1 \<le> x"
  defines "per \<equiv> ItemsPerCluster t"
  shows "ClusterOf_go t x = Inr (ClusterOf t x) \<and>
    1 \<le> ClusterOf t x \<and> ClusterOf t x \<le> NumClusters t \<and>
    (\<forall>c<NumClusters t. ClusterOf t x = c \<longleftrightarrow> (c - 1) * per + 1 \<le> x \<and> x \<le> c * per) \<and>
    (ClusterOf t x = NumClusters t \<longleftrightarrow> (NumClusters t - 1) * per + 1 \<le> x)"
proof (intro conjI allI impI)
  have per: "1 \<le> per" and nc: "1 \<le> NumClusters t" using wf by (auto simp: wf_topology_def per_def)
  show "ClusterOf_go t x = Inr (ClusterOf t x)"
    using per nc by (simp add: ClusterOf_go_def per_def)
  have idx: "go_div (x - 1) per = (x - 1) div per" using item per by (simp add: go_div_nonneg)
  have nn: "0 \<le> (x - 1) div per" using item per by (simp add: pos_imp_zdiv_nonneg_iff)
  have C: "ClusterOf t x = (if NumClusters t \<le> (x - 1) div per then NumClusters t else (x - 1) div per + 1)"
    using nn by (auto simp: ClusterOf_def Let_def per_def [symmetric] idx)
  show "1 \<le> ClusterOf t x" "ClusterOf t x \<le> NumClusters t" using nn nc by (auto simp: C)
  show "ClusterOf t x = c \<longleftrightarrow> (c - 1) * per + 1 \<le> x \<and> x \<le> c * per" if "c < NumClusters t" for c
    using that per int_div_iff [of per "x - 1" "c - 1"] by (auto simp: C algebra_simps)
  show "ClusterOf t x = NumClusters t \<longleftrightarrow> (NumClusters t - 1) * per + 1 \<le> x"
    using per int_le_div_iff [of per "NumClusters t - 1" "x - 1"] by (auto simp: C)
qed

theorem shard_map_witness: "ClusterOf Default 1000 = 1 \<and> ClusterOf Default 1001 = 2"
proof -
  have per: "ItemsPerCluster Default = 1000" "NumClusters Default = 3"
    by (simp_all add: Default_def ItemsPerCluster_def go_div_def)
  show ?thesis
    using shard_map [OF wf_Default, of 1000] shard_map [OF wf_Default, of 1001] by (simp add: per)
qed

text \<open>\<open>F\<close> is the largest \<open>f\<close> with \<open>3f+1 <= clusterSize\<close>, and then the collector threshold
  \<open>n-f\<close> is at least the commit threshold \<open>2f+1\<close>, which exceeds the client's \<open>f+1\<close> when \<open>f > 0\<close>.\<close>

theorem fault_bound:
  assumes "1 \<le> ClusterSize t"
  shows "(3 * f + 1 \<le> ClusterSize t \<longleftrightarrow> f \<le> F t) \<and> 0 \<le> F t \<and>
         Quorum t \<le> CollectorQuorum t \<and> CollectorQuorum t \<le> ClusterSize t \<and>
         ClientQuorum t \<le> Quorum t"
  using F_bounds [OF assms] by (auto simp: Quorum_def CollectorQuorum_def ClientQuorum_def)

theorem fault_bound_witness: "3 * 3 + 1 \<le> ClusterSize Default \<longleftrightarrow> 3 \<le> F Default"
proof -
  have "1 \<le> ClusterSize Default" by (simp add: Default_def)
  from fault_bound [OF this, of 3] show ?thesis by blast
qed

text \<open>The collector threshold \<open>n-f\<close> is Byzantine-safe for every cluster size: two sets of
  that many members share a member outside any \<open>f\<close> faulty ones.\<close>

theorem collector_quorum_safe:
  assumes "valid_cluster t c" "A \<subseteq> members t c" "B \<subseteq> members t c" "Bad \<subseteq> members t c"
    and "CollectorQuorum t \<le> int (card A)" "CollectorQuorum t \<le> int (card B)" "int (card Bad) \<le> F t"
  shows "\<exists>x\<in>A \<inter> B. x \<notin> Bad"
  by (rule collector_quorum.common_correct_member [OF assms(1-4)]) (use assms(5-7) in simp_all)

theorem collector_quorum_safe_witness: "\<exists>x\<in>{1..9::int} \<inter> {4..12}. x \<notin> {5, 6, 7}"
proof (rule collector_quorum_safe)
  show v: "valid_cluster Default 1" by (simp add: valid_cluster_def wf_Default) (simp add: Default_def)
  have m: "members Default 1 = {1..12}"
    using members_eq [OF wf_Default, of 1] by (simp add: Default_def)
  show "{1..9} \<subseteq> members Default 1" "{4..12} \<subseteq> members Default 1" "{5, 6, 7} \<subseteq> members Default 1"
    by (auto simp: m)
qed (simp_all add: CollectorQuorum_def F_def Default_def go_div_def)

text \<open>C13: The threshold the engine uses for every certificate, \<open>2f+1\<close>, guarantees a common correct
  member exactly when the cluster size is \<open>3f+1\<close>; with any slack two certificates may have only
  faulty members in common.\<close>

theorem commit_quorum_safe_iff:
  assumes v: "valid_cluster t c"
  shows "(\<forall>A B Bad. A \<subseteq> members t c \<longrightarrow> B \<subseteq> members t c \<longrightarrow> Bad \<subseteq> members t c \<longrightarrow>
            Quorum t \<le> int (card A) \<longrightarrow> Quorum t \<le> int (card B) \<longrightarrow> int (card Bad) \<le> F t \<longrightarrow>
            (\<exists>x\<in>A \<inter> B. x \<notin> Bad)) \<longleftrightarrow> ClusterSize t = 3 * F t + 1" (is "?safe \<longleftrightarrow> ?tight")
proof
  assume ?tight
  then have "tight_cluster t c" using v by (simp add: tight_cluster_def)
  then show ?safe
    by (auto intro!: commit_quorum.common_correct_member simp: nat_le_iff)
next
  assume safe: ?safe
  show ?tight
  proof (rule ccontr)
    assume slack: "\<not> ?tight"
    have n: "1 \<le> ClusterSize t" using v by (simp add: valid_cluster_def wf_topology_def)
    let ?n = "ClusterSize t" and ?f = "F t" and ?b = "(c - 1) * ClusterSize t"
    have fb: "0 \<le> ?f" "3 * ?f + 2 \<le> ?n" using F_bounds [OF n] slack by auto
    have mem: "members t c = {?b + 1 .. ?b + ?n}"
      using v by (simp add: valid_cluster_def members_eq algebra_simps)
    let ?A = "{?b + 1 .. ?b + 2 * ?f + 1}" and ?B = "{?b + ?n - 2 * ?f .. ?b + ?n}"
    have "\<exists>x\<in>?A \<inter> ?B. x \<notin> ?A \<inter> ?B"
    proof (rule safe [rule_format])
      show "?A \<subseteq> members t c" "?B \<subseteq> members t c" "?A \<inter> ?B \<subseteq> members t c"
        using fb by (auto simp: mem)
      show "Quorum t \<le> int (card ?A)" "Quorum t \<le> int (card ?B)" using fb by (simp_all add: Quorum_def)
      have "?A \<inter> ?B = {?b + ?n - 2 * ?f .. ?b + 2 * ?f + 1}" using fb by auto
      then show "int (card (?A \<inter> ?B)) \<le> ?f" using fb by simp
    qed
    then show False by blast
  qed
qed

theorem commit_quorum_safe_iff_witness:
  "\<not> (\<forall>A B Bad. A \<subseteq> members Default 1 \<longrightarrow> B \<subseteq> members Default 1 \<longrightarrow> Bad \<subseteq> members Default 1 \<longrightarrow>
        Quorum Default \<le> int (card A) \<longrightarrow> Quorum Default \<le> int (card B) \<longrightarrow>
        int (card Bad) \<le> F Default \<longrightarrow> (\<exists>x\<in>A \<inter> B. x \<notin> Bad))"
proof -
  have v: "valid_cluster Default 1" by (simp add: valid_cluster_def wf_Default) (simp add: Default_def)
  have "ClusterSize Default \<noteq> 3 * F Default + 1" by (simp add: Default_def F_def go_div_def)
  then show ?thesis by (simp only: commit_quorum_safe_iff [OF v] not_False_eq_True)
qed

end
