(* ===== verification/Crypto.thy ===== *)
theory Crypto
  imports Config
begin

text \<open>
  Keys, signatures and certificates (\<open>internal/crypto/crypto.go\<close>, \<open>keys.go\<close>). The primitives the
  code takes from Go's \<open>crypto\<close> packages, SHA-256 and ed25519, are an argument \<open>C\<close> of every
  definition that calls them; what a property needs of them (a signature made with a private key
  verifies under its public key, no collision among given inputs) is a named hypothesis.
\<close>

record crypto_ops =
  sha256 :: "bytes \<Rightarrow> bytes"
  ed_sign :: "bytes \<Rightarrow> bytes \<Rightarrow> bytes"
  ed_verify :: "bytes \<Rightarrow> bytes \<Rightarrow> bytes \<Rightarrow> bool"

text \<open>Documented behaviour of a key pair: what \<open>priv\<close> signs verifies under \<open>pub\<close>.\<close>

definition keypair_ok :: "crypto_ops \<Rightarrow> bytes \<Rightarrow> bytes \<Rightarrow> bool" where
  "keypair_ok C pub priv \<longleftrightarrow> (\<forall>m. ed_verify C pub m (ed_sign C priv m))"

text \<open>A concrete instance for closed examples: the key is the signer's name, a signature is the
  key followed by the message, and the hash is the identity.\<close>

definition plain_crypto :: crypto_ops where
  "plain_crypto = \<lparr>sha256 = (\<lambda>m. m), ed_sign = (\<lambda>k m. k @ m), ed_verify = (\<lambda>k m s. s = k @ m)\<rparr>"

lemma keypair_ok_plain [simp]: "keypair_ok plain_crypto k k"
  by (simp add: keypair_ok_def plain_crypto_def)

subsection \<open>Hexadecimal key strings\<close>

text \<open>\<open>hex.DecodeString\<close>: both letter cases, even length, \<open>None\<close> for its error.\<close>

definition unhex_char :: "char \<Rightarrow> nat option" where
  "unhex_char c = (let k = of_char c in
     if 48 \<le> k \<and> k \<le> 57 then Some (k - 48)
     else if 97 \<le> k \<and> k \<le> 102 then Some (k - 87)
     else if 65 \<le> k \<and> k \<le> 70 then Some (k - 55)
     else None)"

fun DecodeString :: "string \<Rightarrow> bytes option" where
  "DecodeString [] = Some []"
| "DecodeString [_] = None"
| "DecodeString (a # b # s) =
     (case (unhex_char a, unhex_char b) of
        (Some x, Some y) \<Rightarrow> map_option (\<lambda>r. char_of (16 * x + y) # r) (DecodeString s)
      | _ \<Rightarrow> None)"

lemma unhex_hex_char: "d < 16 \<Longrightarrow> unhex_char (hex_char d) = Some d"
  by (auto simp: unhex_char_def hex_char_def of_char_of Let_def)

lemma DecodeString_hex: "DecodeString (hex bs) = Some bs"
proof (induction bs)
  case (Cons c bs)
  have "of_char c div 16 < (16::nat)" "of_char c mod 16 < (16::nat)"
    using nat_of_char_less_256 [of c] by (simp_all add: less_mult_imp_div_less)
  moreover have "16 * (of_char c div 16) + of_char c mod 16 = (of_char c :: nat)" by simp
  ultimately show ?case using Cons by (simp add: hex_byte_def unhex_hex_char)
qed simp

datatype key_error = BadHex | BadLength

definition ParsePublicKeyHex :: "string \<Rightarrow> key_error + bytes" where
  "ParsePublicKeyHex s = (case DecodeString s of None \<Rightarrow> Inl BadHex
     | Some b \<Rightarrow> if length b \<noteq> 32 then Inl BadLength else Inr b)"

definition ParsePrivateKeyHex :: "string \<Rightarrow> key_error + bytes" where
  "ParsePrivateKeyHex s = (case DecodeString s of None \<Rightarrow> Inl BadHex
     | Some b \<Rightarrow> if length b \<noteq> 64 then Inl BadLength else Inr b)"

subsection \<open>Key files and key rings\<close>

text \<open>
  The directory of key files is a map from paths to file contents, already decoded from JSON;
  \<open>Some None\<close> is a file that is not a key file.
\<close>

record KeyFile =
  kf_ServerID :: int
  kf_PublicHex :: string
  kf_PrivateHex :: string

type_synonym keydir = "string \<Rightarrow> KeyFile option option"

record KeyRing =
  Self :: int
  Private :: bytes
  Public :: bytes
  peers :: "(int, bytes) bucket"

definition server_name :: "int \<Rightarrow> string" where
  "server_name i = CHR ''S'' # itoa i"

definition keyPath :: "string \<Rightarrow> int \<Rightarrow> string" where
  "keyPath dir i = dir @ ''/'' @ server_name i @ ''.json''"

text \<open>\<open>GenerateAllKeys\<close> writes one fresh pair per server; \<open>fresh i\<close> is the pair the random source
  yields for server \<open>i\<close>. Its errors, of the file system and of that source, are left out: the directory can
  be made and written to.\<close>

definition writeKeyFile :: "string \<Rightarrow> int \<Rightarrow> bytes \<times> bytes \<Rightarrow> keydir \<Rightarrow> keydir" where
  "writeKeyFile dir i kp files = files(keyPath dir i \<mapsto>
     Some \<lparr>kf_ServerID = i, kf_PublicHex = hex (fst kp), kf_PrivateHex = hex (snd kp)\<rparr>)"

definition GenerateAllKeys :: "topology \<Rightarrow> string \<Rightarrow> (int \<Rightarrow> bytes \<times> bytes) \<Rightarrow> keydir \<Rightarrow> keydir" where
  "GenerateAllKeys t dir fresh files =
     fold (\<lambda>s. writeKeyFile dir (srv_ID s) (fresh (srv_ID s))) (Servers t) files"

datatype ring_error = ReadKey int | ParseKey int | BadPublic int | MissingPrivate | BadPrivate | SelfNotLoaded

fun load_keys :: "int \<Rightarrow> string \<Rightarrow> keydir \<Rightarrow> server list \<Rightarrow> KeyRing \<Rightarrow> ring_error + KeyRing" where
  "load_keys self dir files [] ring = Inr ring"
| "load_keys self dir files (s # ss) ring =
     (case files (keyPath dir (srv_ID s)) of
        None \<Rightarrow> Inl (ReadKey (srv_ID s))
      | Some None \<Rightarrow> Inl (ParseKey (srv_ID s))
      | Some (Some f) \<Rightarrow>
          (case ParsePublicKeyHex (kf_PublicHex f) of
             Inl _ \<Rightarrow> Inl (BadPublic (srv_ID s))
           | Inr pub \<Rightarrow>
               (let ring = ring\<lparr>peers := bput (srv_ID s) pub (peers ring)\<rparr> in
                if srv_ID s = self then
                  (if kf_PrivateHex f = [] then Inl MissingPrivate
                   else case ParsePrivateKeyHex (kf_PrivateHex f) of
                          Inl _ \<Rightarrow> Inl BadPrivate
                        | Inr priv \<Rightarrow> load_keys self dir files ss (ring\<lparr>Private := priv, Public := pub\<rparr>))
                else load_keys self dir files ss ring)))"

definition LoadKeyRing :: "topology \<Rightarrow> int \<Rightarrow> string \<Rightarrow> keydir \<Rightarrow> ring_error + KeyRing" where
  "LoadKeyRing t self dir files =
     (case load_keys self dir files (Servers t) \<lparr>Self = self, Private = [], Public = [], peers = []\<rparr> of
        Inl e \<Rightarrow> Inl e
      | Inr ring \<Rightarrow> if Private ring = [] then Inl SelfNotLoaded else Inr ring)"

definition LoadOrCreateKeyRing ::
    "topology \<Rightarrow> int \<Rightarrow> string \<Rightarrow> (int \<Rightarrow> bytes \<times> bytes) \<Rightarrow> keydir \<Rightarrow> (ring_error + KeyRing) \<times> keydir" where
  "LoadOrCreateKeyRing t self dir fresh files =
     (let files = (if files (keyPath dir self) = None then GenerateAllKeys t dir fresh files else files)
      in (LoadKeyRing t self dir files, files))"

definition PublicKey :: "KeyRing \<Rightarrow> int \<Rightarrow> bytes option" where
  "PublicKey k i = bget (peers k) i"

definition ring_Sign :: "crypto_ops \<Rightarrow> KeyRing \<Rightarrow> bytes \<Rightarrow> bytes" where
  "ring_Sign C k msg = ed_sign C (Private k) msg"

definition ring_Verify :: "crypto_ops \<Rightarrow> KeyRing \<Rightarrow> int \<Rightarrow> bytes \<Rightarrow> bytes \<Rightarrow> bool" where
  "ring_Verify C k sender msg sig =
     (case PublicKey k sender of None \<Rightarrow> False | Some pub \<Rightarrow> ed_verify C pub msg sig)"

lemma append_sep_name: "server_name i @ ''.json'' = server_name j @ ''.json'' \<Longrightarrow> i = j"
  by (simp add: server_name_def itoa_inj)

lemma keyPath_inj: "keyPath dir i = keyPath dir j \<longleftrightarrow> i = j"
  using append_sep_name by (auto simp: keyPath_def)

lemma fold_writeKeyFile:
  "fold (\<lambda>s. writeKeyFile dir (srv_ID s) (fresh (srv_ID s))) ss files (keyPath dir i) =
     (if i \<in> srv_ID ` set ss
      then Some (Some \<lparr>kf_ServerID = i, kf_PublicHex = hex (fst (fresh i)), kf_PrivateHex = hex (snd (fresh i))\<rparr>)
      else files (keyPath dir i))"
  by (induction ss arbitrary: files) (auto simp: writeKeyFile_def keyPath_inj)

lemma hex_nonempty: "bs \<noteq> [] \<Longrightarrow> hex bs \<noteq> []"
  by (cases bs) (auto simp: hex_byte_def)

lemma load_keys_ok:
  assumes "\<forall>s\<in>set ss. files (keyPath dir (srv_ID s)) =
      Some (Some \<lparr>kf_ServerID = srv_ID s, kf_PublicHex = hex (fst (fresh (srv_ID s))),
                  kf_PrivateHex = hex (snd (fresh (srv_ID s)))\<rparr>)"
    and "\<forall>s\<in>set ss. length (fst (fresh (srv_ID s))) = 32 \<and> length (snd (fresh (srv_ID s))) = 64"
  shows "\<exists>ring'. load_keys self dir files ss ring = Inr ring' \<and> Self ring' = Self ring \<and>
     (\<forall>i. bget (peers ring') i = (if i \<in> srv_ID ` set ss then Some (fst (fresh i)) else bget (peers ring) i)) \<and>
     (if self \<in> srv_ID ` set ss then Private ring' = snd (fresh self) \<and> Public ring' = fst (fresh self)
      else Private ring' = Private ring \<and> Public ring' = Public ring)"
  using assms
proof (induction ss arbitrary: ring)
  case (Cons s ss)
  have priv: "hex (snd (fresh (srv_ID s))) \<noteq> []"
    using Cons.prems(2) by (intro hex_nonempty) auto
  show ?case
    using Cons.prems Cons.IH [of "ring\<lparr>peers := bput (srv_ID s) (fst (fresh (srv_ID s))) (peers ring)\<rparr>"]
      Cons.IH [of "ring\<lparr>peers := bput (srv_ID s) (fst (fresh (srv_ID s))) (peers ring),
                        Private := snd (fresh (srv_ID s)), Public := fst (fresh (srv_ID s))\<rparr>"] priv
    by (cases "srv_ID s = self")
       (fastforce simp: ParsePublicKeyHex_def ParsePrivateKeyHex_def DecodeString_hex Let_def)+
qed simp


subsection \<open>Collecting votes\<close>

text \<open>
  The contract shared by every place that gathers votes from distinct servers (certificates, the
  collector's PREPARE and COMMIT registers, participant acks, VIEW-CHANGE registers): an
  accepted vote adds its sender to the voters, a rejected one changes nothing, and the count is
  the number of distinct voters.
\<close>

definition cast_all :: "('e \<Rightarrow> 's \<Rightarrow> 'id \<Rightarrow> 'v \<Rightarrow> 's) \<Rightarrow> 'e \<Rightarrow> 's \<Rightarrow> ('id \<times> 'v) list \<Rightarrow> 's" where
  "cast_all add e s votes = fold (\<lambda>(i, v) s. add e s i v) votes s"

locale vote_box =
  fixes add :: "'e \<Rightarrow> 's \<Rightarrow> 'id \<Rightarrow> 'v \<Rightarrow> 's"
    and accepts :: "'e \<Rightarrow> 's \<Rightarrow> 'id \<Rightarrow> 'v \<Rightarrow> bool"
    and voters :: "'s \<Rightarrow> 'id set"
    and count :: "'s \<Rightarrow> nat"
    and invar :: "'e \<Rightarrow> 's \<Rightarrow> bool"
  assumes voters_add: "invar e s \<Longrightarrow>
        voters (add e s i v) = (if accepts e s i v then insert i (voters s) else voters s)"
    and invar_add: "invar e s \<Longrightarrow> invar e (add e s i v)"
    and finite_voters: "invar e s \<Longrightarrow> finite (voters s)"
    and count_voters: "invar e s \<Longrightarrow> count s = card (voters s)"
begin

lemma invar_add_all: "invar e s \<Longrightarrow> invar e (cast_all add e s votes)"
  unfolding cast_all_def by (induction votes arbitrary: s) (auto simp: invar_add)

lemma voters_add_all:
  "invar e s \<Longrightarrow> voters s \<subseteq> voters (cast_all add e s votes) \<and>
     voters (cast_all add e s votes) \<subseteq> voters s \<union> fst ` set votes"
  unfolding cast_all_def
proof (induction votes arbitrary: s)
  case Nil
  then show ?case by simp
next
  case (Cons p votes)
  obtain i v where p: "p = (i, v)" by (cases p)
  have "voters s \<subseteq> voters (add e s i v)" and "voters (add e s i v) \<subseteq> insert i (voters s)"
    using Cons.prems by (auto simp: voters_add)
  moreover note Cons.IH [OF invar_add [OF Cons.prems, of i v]]
  ultimately show ?case by (auto simp: p)
qed

text \<open>A box that takes every vote has exactly the senders as voters.\<close>

lemma voters_open:
  assumes "\<And>s i v. invar e s \<Longrightarrow> accepts e s i v"
  shows "invar e s \<Longrightarrow> voters (cast_all add e s votes) = voters s \<union> fst ` set votes"
  unfolding cast_all_def
proof (induction votes arbitrary: s)
  case (Cons p votes)
  obtain i v where p: "p = (i, v)" by (cases p)
  have "voters (add e s i v) = insert i (voters s)" using Cons.prems assms by (simp add: voters_add)
  with Cons.IH [OF invar_add [OF Cons.prems, of i v]] show ?case by (simp add: p)
qed simp

lemma count_mono: "invar e s \<Longrightarrow> count s \<le> count (cast_all add e s votes)"
  using voters_add_all [of e s votes] invar_add_all [of e s votes]
  by (simp add: count_voters card_mono finite_voters)

text \<open>No threshold is reached without that many distinct senders.\<close>

lemma count_le_senders:
  assumes "invar e s" and "voters s = {}"
  shows "count (cast_all add e s votes) \<le> card (fst ` set votes)"
proof -
  have "voters (cast_all add e s votes) \<subseteq> fst ` set votes"
    using voters_add_all [OF assms(1), of votes] assms(2) by auto
  then show ?thesis
    using invar_add_all [OF assms(1), of votes] by (simp add: count_voters card_mono)
qed

end

subsection \<open>Certificates\<close>

record CertEntry =
  ce_SignerID :: int
  ce_Signer :: string
  ce_Sig :: bytes

record Certificate =
  c_Digest :: bytes
  c_Quorum :: int
  c_Entries :: "CertEntry list"
  c_seen :: "int list"

definition NewCertificate :: "bytes \<Rightarrow> int \<Rightarrow> Certificate" where
  "NewCertificate digest quorum = \<lparr>c_Digest = digest, c_Quorum = quorum, c_Entries = [], c_seen = []\<rparr>"

text \<open>\<open>Add\<close> returns whether the vote counted, and the certificate, kept sorted by signer.\<close>

definition Certificate_Add ::
    "crypto_ops \<Rightarrow> Certificate \<Rightarrow> int \<Rightarrow> string \<Rightarrow> bytes \<Rightarrow> bytes \<Rightarrow> bool \<times> Certificate" where
  "Certificate_Add C c signerID signerLabel pub sig =
     (if signerID \<in> set (c_seen c) then (False, c)
      else if \<not> ed_verify C pub (c_Digest c) sig then (False, c)
      else (True, c\<lparr>c_seen := signerID # c_seen c,
        c_Entries := sort_key ce_SignerID
          (c_Entries c @ [\<lparr>ce_SignerID = signerID, ce_Signer = signerLabel, ce_Sig = sig\<rparr>])\<rparr>))"

definition Certificate_Complete :: "Certificate \<Rightarrow> bool" where
  "Certificate_Complete c \<longleftrightarrow> c_Quorum c \<le> int (length (c_Entries c))"

definition Certificate_Count :: "Certificate \<Rightarrow> int" where
  "Certificate_Count c = int (length (c_Entries c))"

definition cert_signers :: "Certificate \<Rightarrow> int set" where
  "cert_signers c = ce_SignerID ` set (c_Entries c)"

text \<open>What \<open>Add\<close> maintains: entries strictly ascending by signer, exactly the signers seen.\<close>

definition cert_ok :: "Certificate \<Rightarrow> bool" where
  "cert_ok c \<longleftrightarrow> sorted (map ce_SignerID (c_Entries c)) \<and> distinct (map ce_SignerID (c_Entries c)) \<and>
     set (c_seen c) = cert_signers c"

lemma cert_ok_New [simp]: "cert_ok (NewCertificate d q)"
  by (simp add: cert_ok_def NewCertificate_def cert_signers_def)

lemma cert_ok_Add: "cert_ok c \<Longrightarrow> cert_ok (snd (Certificate_Add C c i l pub sig))"
proof -
  assume ok: "cert_ok c"
  show ?thesis
  proof (cases "i \<in> set (c_seen c) \<or> \<not> ed_verify C pub (c_Digest c) sig")
    case False
    let ?xs = "c_Entries c @ [\<lparr>ce_SignerID = i, ce_Signer = l, ce_Sig = sig\<rparr>]"
    have "mset (map ce_SignerID (sort_key ce_SignerID ?xs)) = mset (map ce_SignerID ?xs)"
      by simp
    moreover have "distinct (map ce_SignerID ?xs)"
      using ok False by (auto simp: cert_ok_def cert_signers_def)
    ultimately have "distinct (map ce_SignerID (sort_key ce_SignerID ?xs))"
      using mset_eq_imp_distinct_iff by blast
    with ok False show ?thesis
      by (auto simp: cert_ok_def Certificate_Add_def cert_signers_def)
  qed (use ok in \<open>auto simp: Certificate_Add_def\<close>)
qed

text \<open>Votes into a certificate: the vote carries the label, the public key and the signature.\<close>

definition cert_vote :: "crypto_ops \<Rightarrow> Certificate \<Rightarrow> int \<Rightarrow> string \<times> bytes \<times> bytes \<Rightarrow> Certificate" where
  "cert_vote C c i v = (case v of (l, pub, sig) \<Rightarrow> snd (Certificate_Add C c i l pub sig))"

definition cert_accepts :: "crypto_ops \<Rightarrow> Certificate \<Rightarrow> int \<Rightarrow> string \<times> bytes \<times> bytes \<Rightarrow> bool" where
  "cert_accepts C c i v = (case v of (l, pub, sig) \<Rightarrow> fst (Certificate_Add C c i l pub sig))"

interpretation certificate: vote_box cert_vote cert_accepts cert_signers
  "\<lambda>c. length (c_Entries c)" "\<lambda>_. cert_ok"
proof unfold_locales
  fix C c i and v :: "string \<times> bytes \<times> bytes"
  assume ok: "cert_ok c"
  obtain l pub sig where v: "v = (l, pub, sig)" by (cases v)
  show "cert_signers (cert_vote C c i v) =
      (if cert_accepts C c i v then insert i (cert_signers c) else cert_signers c)"
    by (auto simp: v cert_vote_def cert_accepts_def Certificate_Add_def cert_signers_def)
  show "cert_ok (cert_vote C c i v)" using ok by (simp add: v cert_vote_def cert_ok_Add)
  show "finite (cert_signers c)" by (simp add: cert_signers_def)
  show "length (c_Entries c) = card (cert_signers c)"
    using ok distinct_card [of "map ce_SignerID (c_Entries c)"] by (simp add: cert_ok_def cert_signers_def)
qed

lemma cert_vote_fields [simp]: "c_Digest (cert_vote C c i v) = c_Digest c"
  "c_Quorum (cert_vote C c i v) = c_Quorum c"
  by (auto simp: cert_vote_def Certificate_Add_def split: prod.splits)

lemma cert_all_fields [simp]:
  "c_Digest (cast_all cert_vote C c votes) = c_Digest c"
  "c_Quorum (cast_all cert_vote C c votes) = c_Quorum c"
  unfolding cast_all_def by (induction votes arbitrary: c) auto

text \<open>Every entry of a certificate was an offered vote whose signature verified.\<close>

lemma cert_entries_verified:
  assumes "\<forall>e\<in>set (c_Entries c). \<exists>pub. ed_verify C pub (c_Digest c) (ce_Sig e)"
  shows "\<forall>e\<in>set (c_Entries (cast_all cert_vote C c votes)).
           \<exists>pub. ed_verify C pub (c_Digest c) (ce_Sig e)"
  using assms unfolding cast_all_def
proof (induction votes arbitrary: c)
  case (Cons p votes)
  obtain i l pub sig where p: "p = (i, l, pub, sig)" by (cases p)
  have "\<forall>e\<in>set (c_Entries (cert_vote C c i (l, pub, sig))). \<exists>pub. ed_verify C pub (c_Digest c) (ce_Sig e)"
    using Cons.prems by (auto simp: cert_vote_def Certificate_Add_def)
  with Cons.IH [of "cert_vote C c i (l, pub, sig)"] show ?case by (simp add: p)
qed simp

subsection \<open>Properties\<close>

lemma load_generated:
  assumes "\<forall>s\<in>set (Servers t). length (fst (fresh (srv_ID s))) = 32 \<and> length (snd (fresh (srv_ID s))) = 64"
    and k: "k \<in> srv_ID ` set (Servers t)"
  shows "\<exists>r. LoadKeyRing t k dir (GenerateAllKeys t dir fresh files) = Inr r \<and> Private r = snd (fresh k) \<and>
      (\<forall>i\<in>srv_ID ` set (Servers t). PublicKey r i = Some (fst (fresh i)))"
proof -
  let ?dir = "GenerateAllKeys t dir fresh files"
  have files: "\<forall>s\<in>set (Servers t). ?dir (keyPath dir (srv_ID s)) =
      Some (Some \<lparr>kf_ServerID = srv_ID s, kf_PublicHex = hex (fst (fresh (srv_ID s))),
                  kf_PrivateHex = hex (snd (fresh (srv_ID s)))\<rparr>)"
    by (simp add: GenerateAllKeys_def fold_writeKeyFile)
  have "snd (fresh k) \<noteq> []" using assms(1) k by auto
  then show ?thesis
    using load_keys_ok [OF files assms(1), of k "\<lparr>Self = k, Private = [], Public = [], peers = []\<rparr>"] k
    by (auto simp: LoadKeyRing_def PublicKey_def)
qed

text \<open>Keys that \<open>GenerateAllKeys\<close> writes load back into a key ring that holds the public key of
  every server of the topology, and any message one server signs with its own loaded ring verifies
  in any other server's ring under that server's id.\<close>

theorem keyring_roundtrip:
  assumes "\<forall>s\<in>set (Servers t). length (fst (fresh (srv_ID s))) = 32 \<and> length (snd (fresh (srv_ID s))) = 64"
    and "\<forall>s\<in>set (Servers t). keypair_ok C (fst (fresh (srv_ID s))) (snd (fresh (srv_ID s)))"
    and "a \<in> srv_ID ` set (Servers t)" and "b \<in> srv_ID ` set (Servers t)"
  shows "\<exists>ra rb. LoadKeyRing t a dir (GenerateAllKeys t dir fresh files) = Inr ra \<and>
           LoadKeyRing t b dir (GenerateAllKeys t dir fresh files) = Inr rb \<and>
           ring_Verify C rb a msg (ring_Sign C ra msg)"
proof -
  let ?dir = "GenerateAllKeys t dir fresh files"
  note load = load_generated [OF assms(1)]
  from load [OF assms(3)] load [OF assms(4)] assms(2,3)
  show ?thesis by (fastforce simp: ring_Verify_def ring_Sign_def keypair_ok_def)
qed

theorem keyring_roundtrip_witness:
  "\<exists>ra rb. LoadKeyRing (New 1 1 1 0 ''h'' 10) 1 ''d'' (GenerateAllKeys (New 1 1 1 0 ''h'' 10) ''d''
        (\<lambda>_. (replicate 32 CHR ''k'', replicate 64 CHR ''p'')) (\<lambda>_. None)) = Inr ra \<and>
     LoadKeyRing (New 1 1 1 0 ''h'' 10) 1 ''d'' (GenerateAllKeys (New 1 1 1 0 ''h'' 10) ''d''
        (\<lambda>_. (replicate 32 CHR ''k'', replicate 64 CHR ''p'')) (\<lambda>_. None)) = Inr rb \<and>
     ring_Verify (plain_crypto\<lparr>ed_verify := \<lambda>_ m s. s = replicate 64 CHR ''p'' @ m\<rparr>) rb 1 ''m''
       (ring_Sign (plain_crypto\<lparr>ed_verify := \<lambda>_ m s. s = replicate 64 CHR ''p'' @ m\<rparr>) ra ''m'')"
  by (rule keyring_roundtrip)
     (simp_all add: keypair_ok_def plain_crypto_def New_def cluster_block_def)

text \<open>A certificate built by any sequence of \<open>Add\<close> calls is complete only if at least \<open>quorum\<close>
  distinct signers are in it, its entries are strictly ascending by signer, each entry's signature
  verified over the certificate's digest, and it never holds more entries than distinct ids offered.\<close>

theorem certificate_sound:
  fixes C :: crypto_ops and d :: bytes and q :: int and votes :: "(int \<times> string \<times> bytes \<times> bytes) list"
  defines "c \<equiv> cast_all cert_vote C (NewCertificate d q) votes"
  shows "Certificate_Complete c = (q \<le> int (card (cert_signers c))) \<and>
     sorted_wrt (<) (map ce_SignerID (c_Entries c)) \<and>
     (\<forall>e\<in>set (c_Entries c). \<exists>pub. ed_verify C pub d (ce_Sig e)) \<and>
     Certificate_Count c \<le> int (card (fst ` set votes))"
proof (intro conjI)
  have ok: "cert_ok c" unfolding c_def by (rule certificate.invar_add_all) simp
  show "Certificate_Complete c = (q \<le> int (card (cert_signers c)))"
    using certificate.count_voters [OF ok]
    by (simp add: Certificate_Complete_def c_def) (simp add: NewCertificate_def)
  show "sorted_wrt (<) (map ce_SignerID (c_Entries c))"
    using ok by (simp add: cert_ok_def strict_sorted_iff)
  show "\<forall>e\<in>set (c_Entries c). \<exists>pub. ed_verify C pub d (ce_Sig e)"
    using cert_entries_verified [of "NewCertificate d q" C votes] by (simp add: c_def NewCertificate_def)
  have "length (c_Entries c) \<le> card (fst ` set votes)"
    unfolding c_def by (rule certificate.count_le_senders) (simp_all add: NewCertificate_def cert_signers_def cert_ok_def)
  then show "Certificate_Count c \<le> int (card (fst ` set votes))" by (simp add: Certificate_Count_def)
qed

theorem certificate_sound_witness:
  "Certificate_Count (cast_all cert_vote plain_crypto (NewCertificate ''m'' 1)
     [(7, ''S7'', ''k'', ''km''), (7, ''S7'', ''k'', ''km''), (8, ''S8'', ''k'', ''forged'')]) = 1 \<and>
   Certificate_Complete (cast_all cert_vote plain_crypto (NewCertificate ''m'' 1)
     [(7, ''S7'', ''k'', ''km''), (7, ''S7'', ''k'', ''km''), (8, ''S8'', ''k'', ''forged'')])"
proof -
  let ?c = "cast_all cert_vote plain_crypto (NewCertificate ''m'' 1)
     [(7, ''S7'', ''k'', ''km''), (7, ''S7'', ''k'', ''km''), (8, ''S8'', ''k'', ''forged'')]"
  have "cert_signers ?c = {7}" and n: "Certificate_Count ?c = 1"
    by (simp_all add: cast_all_def cert_vote_def Certificate_Add_def NewCertificate_def plain_crypto_def
        cert_signers_def Certificate_Count_def)
  then show ?thesis
    using certificate_sound [of plain_crypto "''m''" 1
      "[(7, ''S7'', ''k'', ''km''), (7, ''S7'', ''k'', ''km''), (8, ''S8'', ''k'', ''forged'')]"] by simp
qed

end
