(* ===== verification/Store.thy ===== *)
theory Store
  imports Config
begin

text \<open>
  The per-replica store (\<open>internal/store/store.go\<close>, \<open>types.go\<close>): balances, the append-only
  datastore, item locks, the write-ahead preimages and the client timestamps. Each bucket of the
  database is an ordered bucket of decoded values. One operation is one transaction of the
  database: it either applies completely or, when the closure returns an error, not at all.
\<close>

datatype TxnKind = TxnIntra | TxnCross
datatype Phase = PhasePrepare | PhaseCommit

text \<open>\<open>Outcome\<close> is a string that also arrives in messages, so a third case holds any other text.\<close>

datatype Outcome = OutcomeCommit | OutcomeAbort | OutcomeOther string

record DatastoreEntry =
  e_Seq :: nat
  e_Type :: TxnKind
  e_Phase :: Phase
  e_X :: int
  e_Y :: int
  e_Amt :: int64
  e_BallotOrViewSeq :: int
  e_Outcome :: Outcome

type_synonym WALPreimage = "(int, int64) bucket"

definition NewWALPreimage :: "(int, int64) bucket \<Rightarrow> WALPreimage" where
  "NewWALPreimage items = fold (\<lambda>(k, v) cp. bput k v cp) items []"

record store =
  initialBalance :: int64
  totalItems :: int
  balances :: "(int, int64) bucket"
  datastore :: "(nat, DatastoreEntry) bucket"
  datastoreSeq :: "nat option"
  locks :: "(int, int) bucket"
  wal :: "(string, WALPreimage) bucket"
  clientTS :: "(string, int) bucket"

datatype store_error = PathRequired | OpenFailed string | Insufficient int int64 int64 | WALMissing string | KeyRefused string

text \<open>The database refuses to put under a key that is empty or too long. Keys of items, sequence numbers
  and transactions never are; the id of a client is whatever the client says.\<close>

definition key_ok :: "string \<Rightarrow> bool" where
  "key_ok k \<longleftrightarrow> k \<noteq> [] \<and> length k \<le> 32768"

subsection \<open>Opening\<close>

record Options =
  o_Path :: string
  o_InitialBalance :: int64
  o_TotalItems :: int

definition DefaultOptions :: "string \<Rightarrow> Options" where
  "DefaultOptions path = \<lparr>o_Path = path, o_InitialBalance = InitialBalance Default,
                          o_TotalItems = TotalItems Default\<rparr>"

text \<open>\<open>Open\<close> keeps what the database file already holds and fills in zero options. \<open>disk\<close> is what making the
  directory, opening the database and creating its buckets comes to: the error, or the file's content.\<close>

definition Open :: "Options \<Rightarrow> string + store \<Rightarrow> store_error + store" where
  "Open opts disk =
     (if o_Path opts = [] then Inl PathRequired
      else case disk of
             Inl err \<Rightarrow> Inl (OpenFailed err)
           | Inr st \<Rightarrow> Inr (st\<lparr>
               initialBalance := (if o_InitialBalance opts = 0 then 10 else o_InitialBalance opts),
               totalItems := (if o_TotalItems opts = 0 then TotalItems Default else o_TotalItems opts)\<rparr>))"

definition empty_store :: "int64 \<Rightarrow> int \<Rightarrow> store" where
  "empty_store bal items = \<lparr>initialBalance = bal, totalItems = items, balances = [], datastore = [],
     datastoreSeq = None, locks = [], wal = [], clientTS = []\<rparr>"

subsection \<open>Balances\<close>

definition GetBalance :: "store \<Rightarrow> int \<Rightarrow> int64" where
  "GetBalance s item = (case bget (balances s) item of None \<Rightarrow> initialBalance s | Some b \<Rightarrow> b)"

definition setBalanceTx :: "int \<Rightarrow> int64 \<Rightarrow> store \<Rightarrow> store" where
  "setBalanceTx item bal s = s\<lparr>balances := bput item bal (balances s)\<rparr>"

text \<open>Both balances are read before either is written.\<close>

definition ApplyTransfer :: "store \<Rightarrow> int \<Rightarrow> int \<Rightarrow> int64 \<Rightarrow> store_error + store" where
  "ApplyTransfer s x y amt =
     (let xBal = GetBalance s x; yBal = GetBalance s y in
      if xBal <s amt then Inl (Insufficient x xBal amt)
      else Inr (setBalanceTx y (yBal + amt) (setBalanceTx x (xBal - amt) s)))"

definition ApplyDebitOnly :: "store \<Rightarrow> int \<Rightarrow> int64 \<Rightarrow> store_error + store" where
  "ApplyDebitOnly s x amt =
     (let bal = GetBalance s x in
      if bal <s amt then Inl (Insufficient x bal amt) else Inr (setBalanceTx x (bal - amt) s))"

definition ApplyCreditOnly :: "store \<Rightarrow> int \<Rightarrow> int64 \<Rightarrow> store_error + store" where
  "ApplyCreditOnly s y amt = Inr (setBalanceTx y (GetBalance s y + amt) s)"

subsection \<open>Locks\<close>

definition IsLocked :: "store \<Rightarrow> int \<Rightarrow> bool" where
  "IsLocked s item \<longleftrightarrow> bget (locks s) item \<noteq> None"

definition LockSeq :: "store \<Rightarrow> int \<Rightarrow> int" where
  "LockSeq s item = (case bget (locks s) item of None \<Rightarrow> 0 | Some seq \<Rightarrow> seq)"

definition AcquireLock :: "store \<Rightarrow> int \<Rightarrow> int \<Rightarrow> bool \<times> store" where
  "AcquireLock s item seq =
     (if bget (locks s) item \<noteq> None then (False, s)
      else (True, s\<lparr>locks := bput item seq (locks s)\<rparr>))"

definition AcquireLockForSeq :: "store \<Rightarrow> int \<Rightarrow> int \<Rightarrow> bool \<times> store" where
  "AcquireLockForSeq s item seq =
     (if IsLocked s item then (LockSeq s item = seq, s) else AcquireLock s item seq)"

definition ReleaseLock :: "store \<Rightarrow> int \<Rightarrow> store" where
  "ReleaseLock s item = s\<lparr>locks := bdel item (locks s)\<rparr>"

subsection \<open>Datastore\<close>

definition AppendDatastore :: "store \<Rightarrow> DatastoreEntry \<Rightarrow> store" where
  "AppendDatastore s entry =
     (let next = (case datastoreSeq s of None \<Rightarrow> 0 | Some n \<Rightarrow> n + 1);
          entry = entry\<lparr>e_Seq := next\<rparr>
      in s\<lparr>datastore := bput next entry (datastore s), datastoreSeq := Some next\<rparr>)"

definition Datastore :: "store \<Rightarrow> DatastoreEntry list" where
  "Datastore s = map snd (datastore s)"

subsection \<open>Write-ahead preimages, client timestamps, housekeeping\<close>

text \<open>The transaction ids of all callers are hexadecimal SHA-256 digests (\<open>TxnID\<close>), never empty nor too
  long for a key of the database, so \<open>WALWrite\<close> has no error here; \<open>db_WALWrite\<close> keeps the check.\<close>

definition WALWrite :: "store \<Rightarrow> string \<Rightarrow> WALPreimage \<Rightarrow> store" where
  "WALWrite s txnID preimage = s\<lparr>wal := bput txnID preimage (wal s)\<rparr>"

definition WALUndo :: "store \<Rightarrow> string \<Rightarrow> store_error + store" where
  "WALUndo s txnID =
     (case bget (wal s) txnID of
        None \<Rightarrow> Inl (WALMissing txnID)
      | Some pre \<Rightarrow> Inr (fold (\<lambda>(item, oldBal). setBalanceTx item oldBal) pre s))"

definition WALDelete :: "store \<Rightarrow> string \<Rightarrow> store" where
  "WALDelete s txnID = s\<lparr>wal := bdel txnID (wal s)\<rparr>"

definition WALExists :: "store \<Rightarrow> string \<Rightarrow> bool" where
  "WALExists s txnID \<longleftrightarrow> bget (wal s) txnID \<noteq> None"

record Outstanding =
  WALCount :: nat
  LockCount :: nat
  WALTxnIDs :: "string list"

definition Outstanding2PC :: "store \<Rightarrow> Outstanding" where
  "Outstanding2PC s = \<lparr>WALCount = length (wal s), LockCount = length (locks s),
                       WALTxnIDs = map fst (wal s)\<rparr>"

text \<open>All callers of \<open>SetClientTS\<close> ignore its error.\<close>

definition SetClientTS :: "store \<Rightarrow> string \<Rightarrow> int \<Rightarrow> store" where
  "SetClientTS s clientID ts = (if key_ok clientID then s\<lparr>clientTS := bput clientID ts (clientTS s)\<rparr> else s)"

definition GetClientTS :: "store \<Rightarrow> string \<Rightarrow> int" where
  "GetClientTS s clientID = (case bget (clientTS s) clientID of None \<Rightarrow> 0 | Some ts \<Rightarrow> ts)"

definition ClearLocksAndWAL :: "store \<Rightarrow> store" where
  "ClearLocksAndWAL s = s\<lparr>locks := [], wal := []\<rparr>"

subsection \<open>Printing\<close>

definition kind_str :: "TxnKind \<Rightarrow> string" where
  "kind_str k = (case k of TxnIntra \<Rightarrow> ''intra'' | TxnCross \<Rightarrow> ''cross'')"

definition phase_str :: "Phase \<Rightarrow> string" where
  "phase_str p = (case p of PhasePrepare \<Rightarrow> ''prepare'' | PhaseCommit \<Rightarrow> ''commit'')"

definition outcome_str :: "Outcome \<Rightarrow> string" where
  "outcome_str r = (case r of OutcomeCommit \<Rightarrow> ''commit'' | OutcomeAbort \<Rightarrow> ''abort'' | OutcomeOther s \<Rightarrow> s)"

definition triple_str :: "DatastoreEntry \<Rightarrow> string" where
  "triple_str e = ''('' @ itoa (e_X e) @ '','' @ itoa (e_Y e) @ '','' @ itoa (sint (e_Amt e)) @ '')''"

definition entry_String :: "DatastoreEntry \<Rightarrow> string" where
  "entry_String e = ''seq='' @ itoa (int (e_Seq e)) @ '' '' @ kind_str (e_Type e) @ '' '' @ triple_str e @
     '' phase='' @ phase_str (e_Phase e) @ '' outcome='' @ outcome_str (e_Outcome e) @
     '' view='' @ itoa (e_BallotOrViewSeq e)"

definition OracleString :: "DatastoreEntry \<Rightarrow> string" where
  "OracleString e =
     (case e_Type e of
        TxnIntra \<Rightarrow> ''INTRA '' @ triple_str e @ '' COMMIT''
      | TxnCross \<Rightarrow>
          (case e_Phase e of
             PhasePrepare \<Rightarrow> ''CROSS '' @ triple_str e @ '' PREPARE''
           | PhaseCommit \<Rightarrow>
               if e_Outcome e = OutcomeAbort then ''CROSS '' @ triple_str e @ '' COMMIT(ABORT)''
               else ''CROSS '' @ triple_str e @ '' COMMIT''))"

definition PrintBalance :: "store \<Rightarrow> int \<Rightarrow> string" where
  "PrintBalance s item = ''bal['' @ itoa item @ ''] = '' @ itoa (sint (GetBalance s item))"

fun join_lines :: "string list \<Rightarrow> string" where
  "join_lines [] = []"
| "join_lines [l] = l"
| "join_lines (l # ls) = l @ [CHR 0x0A] @ join_lines ls"

definition PrintDatastore :: "store \<Rightarrow> string" where
  "PrintDatastore s = (if Datastore s = [] then ''(empty datastore)''
                       else join_lines (map entry_String (Datastore s)))"

subsection \<open>Read-after-write\<close>

text \<open>Every reader after every writer, so that a component proof is one \<open>simp add: store_simps\<close>.\<close>

lemma GetBalance_set [store_simps]:
  "GetBalance (setBalanceTx i b s) j = (if i = j then b else GetBalance s j)"
  by (simp add: GetBalance_def setBalanceTx_def split: option.split)

lemma GetBalance_frame [store_simps]:
  "GetBalance (ReleaseLock s i) j = GetBalance s j"
  "GetBalance (snd (AcquireLock s i q)) j = GetBalance s j"
  "GetBalance (snd (AcquireLockForSeq s i q)) j = GetBalance s j"
  "GetBalance (AppendDatastore s e) j = GetBalance s j"
  "GetBalance (WALWrite s t p) j = GetBalance s j"
  "GetBalance (WALDelete s t) j = GetBalance s j"
  "GetBalance (SetClientTS s c n) j = GetBalance s j"
  "GetBalance (ClearLocksAndWAL s) j = GetBalance s j"
  by (simp_all add: GetBalance_def ReleaseLock_def AcquireLock_def AcquireLockForSeq_def Let_def
      AppendDatastore_def WALWrite_def WALDelete_def SetClientTS_def ClearLocksAndWAL_def split: option.split)

lemma wal_frame [store_simps]:
  "wal (setBalanceTx i b s) = wal s" "wal (ReleaseLock s i) = wal s"
  "wal (snd (AcquireLock s i q)) = wal s" "wal (snd (AcquireLockForSeq s i q)) = wal s"
  "wal (AppendDatastore s e) = wal s" "wal (SetClientTS s c n) = wal s"
  by (simp_all add: setBalanceTx_def ReleaseLock_def AcquireLock_def AcquireLockForSeq_def
      AppendDatastore_def SetClientTS_def Let_def)

lemma WALExists_simps [store_simps]:
  "WALExists (setBalanceTx i b s) t = WALExists s t" "WALExists (ReleaseLock s i) t = WALExists s t"
  "WALExists (snd (AcquireLock s i q)) t = WALExists s t"
  "WALExists (snd (AcquireLockForSeq s i q)) t = WALExists s t"
  "WALExists (AppendDatastore s e) t = WALExists s t" "WALExists (SetClientTS s c n) t = WALExists s t"
  "WALExists (WALWrite s u p) t = (t = u \<or> WALExists s t)"
  "WALExists (WALDelete s u) t = (t \<noteq> u \<and> WALExists s t)"
  by (simp_all add: WALExists_def wal_frame) (auto simp: WALWrite_def WALDelete_def)

lemma locks_frame [store_simps]:
  "locks (setBalanceTx i b s) = locks s" "locks (AppendDatastore s e) = locks s"
  "locks (WALWrite s t p) = locks s" "locks (WALDelete s t) = locks s"
  "locks (SetClientTS s c n) = locks s"
  by (simp_all add: setBalanceTx_def AppendDatastore_def WALWrite_def WALDelete_def SetClientTS_def Let_def)

lemma IsLocked_simps [store_simps]:
  "IsLocked (setBalanceTx i b s) j = IsLocked s j" "IsLocked (AppendDatastore s e) j = IsLocked s j"
  "IsLocked (WALWrite s t p) j = IsLocked s j" "IsLocked (WALDelete s t) j = IsLocked s j"
  "IsLocked (SetClientTS s c n) j = IsLocked s j"
  "IsLocked (ReleaseLock s i) j = (i \<noteq> j \<and> IsLocked s j)"
  by (simp_all add: IsLocked_def locks_frame) (auto simp: ReleaseLock_def)

lemma LockSeq_simps [store_simps]:
  "LockSeq (ReleaseLock s i) j = (if i = j then 0 else LockSeq s j)"
  by (simp add: LockSeq_def ReleaseLock_def split: option.split)

lemma GetClientTS_simps [store_simps]:
  "GetClientTS (SetClientTS s c n) d = (if c = d \<and> key_ok c then n else GetClientTS s d)"
  "GetClientTS (setBalanceTx i b s) d = GetClientTS s d" "GetClientTS (ReleaseLock s i) d = GetClientTS s d"
  "GetClientTS (AppendDatastore s e) d = GetClientTS s d" "GetClientTS (WALWrite s t p) d = GetClientTS s d"
  "GetClientTS (WALDelete s t) d = GetClientTS s d"
  "GetClientTS (snd (AcquireLock s i q)) d = GetClientTS s d"
  "GetClientTS (snd (AcquireLockForSeq s i q)) d = GetClientTS s d"
  by (simp_all add: GetClientTS_def SetClientTS_def setBalanceTx_def ReleaseLock_def
      AppendDatastore_def WALWrite_def WALDelete_def AcquireLock_def AcquireLockForSeq_def Let_def
      split: option.split)

lemma datastore_frame [store_simps]:
  "datastore (setBalanceTx i b s) = datastore s" "datastore (ReleaseLock s i) = datastore s"
  "datastore (WALWrite s t p) = datastore s" "datastore (WALDelete s t) = datastore s"
  "datastore (SetClientTS s c n) = datastore s" "datastore (snd (AcquireLock s i q)) = datastore s"
  "datastore (snd (AcquireLockForSeq s i q)) = datastore s"
  "datastoreSeq (setBalanceTx i b s) = datastoreSeq s" "datastoreSeq (ReleaseLock s i) = datastoreSeq s"
  "datastoreSeq (WALWrite s t p) = datastoreSeq s" "datastoreSeq (WALDelete s t) = datastoreSeq s"
  "datastoreSeq (SetClientTS s c n) = datastoreSeq s" "datastoreSeq (snd (AcquireLock s i q)) = datastoreSeq s"
  "datastoreSeq (snd (AcquireLockForSeq s i q)) = datastoreSeq s"
  by (simp_all add: setBalanceTx_def ReleaseLock_def WALWrite_def WALDelete_def SetClientTS_def
      AcquireLock_def AcquireLockForSeq_def)


subsection \<open>The store as a machine\<close>

text \<open>Every call that changes the store, as one datatype; a failing call leaves it unchanged.\<close>

datatype store_op =
    Transfer int int int64
  | Debit int int64
  | Credit int int64
  | Lock int int
  | LockFor int int
  | Release int
  | Append DatastoreEntry
  | Write string WALPreimage
  | Undo string
  | Delete string
  | Stamp string int
  | Clear

definition or_unchanged :: "store \<Rightarrow> store_error + store \<Rightarrow> store" where
  "or_unchanged s r = (case r of Inl _ \<Rightarrow> s | Inr s' \<Rightarrow> s')"

fun apply_op :: "store \<Rightarrow> store_op \<Rightarrow> store" where
  "apply_op s (Transfer x y a) = or_unchanged s (ApplyTransfer s x y a)"
| "apply_op s (Debit x a) = or_unchanged s (ApplyDebitOnly s x a)"
| "apply_op s (Credit y a) = or_unchanged s (ApplyCreditOnly s y a)"
| "apply_op s (Lock i q) = snd (AcquireLock s i q)"
| "apply_op s (LockFor i q) = snd (AcquireLockForSeq s i q)"
| "apply_op s (Release i) = ReleaseLock s i"
| "apply_op s (Append e) = AppendDatastore s e"
| "apply_op s (Write t p) = WALWrite s t p"
| "apply_op s (Undo t) = or_unchanged s (WALUndo s t)"
| "apply_op s (Delete t) = WALDelete s t"
| "apply_op s (Stamp c n) = SetClientTS s c n"
| "apply_op s Clear = ClearLocksAndWAL s"

definition apply_ops :: "store \<Rightarrow> store_op list \<Rightarrow> store" where
  "apply_ops s ops = fold (\<lambda>op s. apply_op s op) ops s"

text \<open>The datastore is numbered 0, 1, 2, \<dots> and \<open>seq\<close> is the last number given.\<close>

definition log_ok :: "store \<Rightarrow> bool" where
  "log_ok s \<longleftrightarrow> map fst (datastore s) = [0..<length (datastore s)] \<and>
     (\<forall>(k, e)\<in>set (datastore s). e_Seq e = k) \<and>
     (case datastoreSeq s of None \<Rightarrow> datastore s = [] | Some n \<Rightarrow> length (datastore s) = Suc n)"

definition store_ok :: "store \<Rightarrow> bool" where
  "store_ok s \<longleftrightarrow> bkeys_ok (balances s) \<and> bkeys_ok (locks s) \<and> bkeys_ok (wal s) \<and>
     bkeys_ok (clientTS s) \<and> fst ` set (clientTS s) \<subseteq> Collect key_ok \<and> log_ok s"

lemma undo_frame [store_simps]:
  fixes pre :: WALPreimage
  shows "wal (fold (\<lambda>(i, b). setBalanceTx i b) pre s) = wal s"
    "locks (fold (\<lambda>(i, b). setBalanceTx i b) pre s) = locks s"
    "datastore (fold (\<lambda>(i, b). setBalanceTx i b) pre s) = datastore s"
    "datastoreSeq (fold (\<lambda>(i, b). setBalanceTx i b) pre s) = datastoreSeq s"
    "clientTS (fold (\<lambda>(i, b). setBalanceTx i b) pre s) = clientTS s"
  by (induction pre arbitrary: s) (auto simp: setBalanceTx_def)

lemma undo_balances:
  "bkeys_ok pre \<Longrightarrow> GetBalance (fold (\<lambda>(i, b). setBalanceTx i b) pre s) j =
     (case bget pre j of None \<Rightarrow> GetBalance s j | Some b \<Rightarrow> b)"
proof (induction pre arbitrary: s)
  case (Cons p pre)
  obtain i b where p: "p = (i, b)" by (cases p)
  have "bget pre i = None" using Cons.prems by (force simp: p bkeys_ok_Cons map_of_eq_None_iff)
  with Cons show ?case by (auto simp: p bkeys_ok_Cons store_simps split: option.split)
qed simp

lemma undo_keys: "bkeys_ok (balances s) \<Longrightarrow> bkeys_ok (balances (fold (\<lambda>(i, b). setBalanceTx i b) pre s))"
  by (induction pre arbitrary: s) (auto simp: setBalanceTx_def)

lemma log_ok_cong: "datastore s' = datastore s \<Longrightarrow> datastoreSeq s' = datastoreSeq s \<Longrightarrow> log_ok s' = log_ok s"
  by (simp add: log_ok_def split: option.split)

lemma log_ok_upd [simp]:
  "log_ok (s\<lparr>balances := b\<rparr>) = log_ok s" "log_ok (s\<lparr>locks := l\<rparr>) = log_ok s"
  "log_ok (s\<lparr>wal := w\<rparr>) = log_ok s" "log_ok (s\<lparr>clientTS := c\<rparr>) = log_ok s"
  by (rule log_ok_cong; simp)+

lemma log_ok_undo: "log_ok (fold (\<lambda>(i, b). setBalanceTx i b) (pre :: WALPreimage) s) = log_ok s"
  by (rule log_ok_cong) (simp_all add: store_simps)

lemma store_ok_setBalance: "store_ok s \<Longrightarrow> store_ok (setBalanceTx i b s)"
  by (simp add: store_ok_def setBalanceTx_def)

lemma store_ok_locks: "store_ok s \<Longrightarrow> store_ok (snd (AcquireLock s i q))"
  "store_ok s \<Longrightarrow> store_ok (snd (AcquireLockForSeq s i q))" "store_ok s \<Longrightarrow> store_ok (ReleaseLock s i)"
  by (simp_all add: store_ok_def AcquireLock_def AcquireLockForSeq_def ReleaseLock_def)

lemma log_keys_bound: "log_ok s \<Longrightarrow> k \<in> fst ` set (datastore s) \<Longrightarrow> k < length (datastore s)"
  by (metis atLeast_upt image_set lessThan_iff log_ok_def)

lemma log_ok_sorted: "log_ok s \<Longrightarrow> bkeys_ok (datastore s)"
  by (simp add: log_ok_def bkeys_ok_def sorted_wrt_upt)

lemma AppendDatastore_log:
  assumes "log_ok s"
  shows "log_ok (AppendDatastore s e)"
    and "datastore (AppendDatastore s e) =
      datastore s @ [(length (datastore s), e\<lparr>e_Seq := length (datastore s)\<rparr>)]"
proof -
  have nxt: "(case datastoreSeq s of None \<Rightarrow> 0 | Some n \<Rightarrow> n + 1) = length (datastore s)"
    using assms by (auto simp: log_ok_def split: option.splits)
  have last: "bput (length (datastore s)) e' (datastore s) = datastore s @ [(length (datastore s), e')]" for e'
    using bput_last [OF log_ok_sorted [OF assms]] log_keys_bound [OF assms] by blast
  show app: "datastore (AppendDatastore s e) =
      datastore s @ [(length (datastore s), e\<lparr>e_Seq := length (datastore s)\<rparr>)]"
    by (simp add: AppendDatastore_def nxt last Let_def)
  show "log_ok (AppendDatastore s e)"
    using assms by (auto simp: AppendDatastore_def nxt last Let_def log_ok_def)
qed

lemma other_fields_frame [store_simps]:
  "clientTS (setBalanceTx i b s) = clientTS s" "clientTS (ReleaseLock s i) = clientTS s"
  "clientTS (snd (AcquireLock s i q)) = clientTS s" "clientTS (snd (AcquireLockForSeq s i q)) = clientTS s"
  "clientTS (AppendDatastore s e) = clientTS s" "clientTS (WALWrite s t p) = clientTS s"
  "clientTS (WALDelete s t) = clientTS s"
  "balances (ReleaseLock s i) = balances s" "balances (snd (AcquireLock s i q)) = balances s"
  "balances (snd (AcquireLockForSeq s i q)) = balances s" "balances (AppendDatastore s e) = balances s"
  "balances (WALWrite s t p) = balances s" "balances (WALDelete s t) = balances s"
  "balances (SetClientTS s c n) = balances s"
  by (simp_all add: setBalanceTx_def ReleaseLock_def WALWrite_def WALDelete_def SetClientTS_def
      AcquireLock_def AcquireLockForSeq_def AppendDatastore_def Let_def)

lemma store_ok_apply_op: "store_ok s \<Longrightarrow> store_ok (apply_op s op)"
proof (cases op)
  case (Append e)
  assume "store_ok s"
  then show ?thesis
    using Append by (simp add: store_ok_def AppendDatastore_log store_simps)
next
  case (Undo t)
  assume "store_ok s"
  then show ?thesis
    using Undo by (auto simp: store_ok_def or_unchanged_def WALUndo_def store_simps undo_keys
        log_ok_undo split: option.split)
qed (auto simp: or_unchanged_def ApplyTransfer_def ApplyDebitOnly_def ApplyCreditOnly_def Let_def
      store_ok_setBalance store_ok_locks,
     auto simp: store_ok_def WALWrite_def WALDelete_def SetClientTS_def ClearLocksAndWAL_def)

lemma store_ok_empty [simp]: "store_ok (empty_store b n)"
  by (simp add: store_ok_def log_ok_def empty_store_def)

lemma store_ok_apply_ops: "store_ok s \<Longrightarrow> store_ok (apply_ops s ops)"
  unfolding apply_ops_def by (induction ops arbitrary: s) (auto simp: store_ok_apply_op)

lemma datastore_apply_op:
  assumes "store_ok s"
  shows "\<exists>es. datastore (apply_op s op) = datastore s @ es"
proof (cases op)
  case (Append e)
  then show ?thesis using assms by (simp add: AppendDatastore_log store_ok_def)
qed (auto simp: or_unchanged_def ApplyTransfer_def ApplyDebitOnly_def ApplyCreditOnly_def WALUndo_def
      store_simps ClearLocksAndWAL_def Let_def split: option.split)

lemma apply_ops_append: "apply_ops s (xs @ ys) = apply_ops (apply_ops s xs) ys"
  by (simp add: apply_ops_def)

lemma datastore_apply_ops: "store_ok s \<Longrightarrow> \<exists>es. datastore (apply_ops s ops) = datastore s @ es"
proof (induction ops arbitrary: s)
  case (Cons op ops)
  obtain es where es: "datastore (apply_op s op) = datastore s @ es"
    using datastore_apply_op [OF Cons.prems] by blast
  obtain es' where "datastore (apply_ops (apply_op s op) ops) = datastore (apply_op s op) @ es'"
    using Cons.IH [OF store_ok_apply_op [OF Cons.prems]] by blast
  with es show ?case by (simp add: apply_ops_def)
qed (simp add: apply_ops_def)

subsection \<open>Locks as an interface\<close>

text \<open>
  What the engine relies on when it locks the items of a request: a successful acquisition makes
  the caller's sequence number the owner of an item nobody else owned and touches no other lock,
  a failed one changes nothing, and a release frees exactly its item.
\<close>

locale lock_table =
  fixes owner :: "'s \<Rightarrow> int \<Rightarrow> int option"
    and acquire :: "'s \<Rightarrow> int \<Rightarrow> int \<Rightarrow> bool \<times> 's"
    and release :: "'s \<Rightarrow> int \<Rightarrow> 's"
  assumes acquired: "fst (acquire s i q) \<Longrightarrow>
        owner (snd (acquire s i q)) = (owner s)(i \<mapsto> q) \<and> (owner s i = None \<or> owner s i = Some q)"
    and refused: "\<not> fst (acquire s i q) \<Longrightarrow> snd (acquire s i q) = s \<and> owner s i \<noteq> None"
    and released: "owner (release s i) = (owner s)(i := None)"

fun acquire_items :: "('s \<Rightarrow> int \<Rightarrow> int \<Rightarrow> bool \<times> 's) \<Rightarrow> int \<Rightarrow> int list \<Rightarrow> 's \<Rightarrow> bool \<times> 's" where
  "acquire_items acquire seq [] s = (True, s)"
| "acquire_items acquire seq (i # is) s =
     (case acquire s i seq of (ok, s') \<Rightarrow> if \<not> ok then (False, s') else acquire_items acquire seq is s')"

context lock_table
begin

lemma acquire_items_success:
  "acquire_items acquire q is s = (True, s') \<Longrightarrow>
     (\<forall>j. owner s' j = (if j \<in> set is then Some q else owner s j)) \<and>
     (\<forall>j\<in>set is. owner s j = None \<or> owner s j = Some q)"
proof (induction "is" arbitrary: s)
  case (Cons i "is")
  obtain ok s1 where a: "acquire s i q = (ok, s1)" by (cases "acquire s i q")
  with Cons.prems have ok: "ok" and rest: "acquire_items acquire q is s1 = (True, s')"
    by (auto split: if_splits)
  from acquired [of s i q] a ok have "owner s1 = (owner s)(i \<mapsto> q)" "owner s i = None \<or> owner s i = Some q"
    by auto
  with Cons.IH [OF rest] show ?case by (auto split: if_splits)
qed simp

text \<open>Even a failed attempt never takes a lock away from another owner.\<close>

lemma acquire_items_keeps_others:
  "acquire_items acquire q is s = (ok, s') \<Longrightarrow> owner s j = Some p \<Longrightarrow> owner s' j = Some p"
proof (induction "is" arbitrary: s)
  case (Cons i "is")
  obtain ok1 s1 where a: "acquire s i q = (ok1, s1)" by (cases "acquire s i q")
  have "owner s1 j = Some p"
  proof (cases ok1)
    case True
    with acquired [of s i q] a Cons.prems(2) show ?thesis by auto
  next
    case False
    with refused [of s i q] a Cons.prems(2) show ?thesis by auto
  qed
  with Cons a show ?case by (auto split: if_splits)
qed auto

lemma release_items: "owner (fold (\<lambda>i s. release s i) is s) j = (if j \<in> set is then None else owner s j)"
  by (induction "is" arbitrary: s) (auto simp: released)

end

definition lock_owner :: "store \<Rightarrow> int \<Rightarrow> int option" where
  "lock_owner s i = bget (locks s) i"

interpretation exclusive: lock_table lock_owner AcquireLock ReleaseLock
  by unfold_locales (auto simp: lock_owner_def AcquireLock_def ReleaseLock_def fun_eq_iff split: if_splits)

interpretation reentrant: lock_table lock_owner AcquireLockForSeq ReleaseLock
  by unfold_locales
     (auto simp: lock_owner_def AcquireLockForSeq_def AcquireLock_def ReleaseLock_def IsLocked_def
        LockSeq_def fun_eq_iff split: if_splits option.splits)


subsection \<open>Properties\<close>

text \<open>The total of a set of items, in the wrapping arithmetic of the balances.\<close>

definition total_bal :: "store \<Rightarrow> int set \<Rightarrow> int64" where
  "total_bal s I = (\<Sum>i\<in>I. GetBalance s i)"

lemma total_cong: "\<forall>i\<in>I. GetBalance s' i = GetBalance s i \<Longrightarrow> total_bal s' I = total_bal s I"
  by (simp add: total_bal_def)

lemma total_set: "finite I \<Longrightarrow> i \<in> I \<Longrightarrow> total_bal (setBalanceTx i b s) I = total_bal s I - GetBalance s i + b"
proof -
  assume fin: "finite I" and i: "i \<in> I"
  have "(\<Sum>j\<in>I - {i}. GetBalance (setBalanceTx i b s) j) = (\<Sum>j\<in>I - {i}. GetBalance s j)"
    by (rule sum.cong) (auto simp: store_simps)
  then show ?thesis
    using fin i by (simp add: total_bal_def sum.remove [of I i] store_simps)
qed

lemma total_set_notin: "i \<notin> I \<Longrightarrow> total_bal (setBalanceTx i b s) I = total_bal s I"
  by (rule total_cong) (auto simp: store_simps)

text \<open>\<open>ApplyTransfer\<close> between two different items fails exactly on an insufficient balance of
  \<open>x\<close>, changing nothing; otherwise \<open>x\<close> loses and \<open>y\<close> gains \<open>amt\<close>, no other balance moves, and the
  total of any set of items that contains both is conserved, wrap-around included. On one and the
  same item the second write wins and the transfer creates \<open>amt\<close> out of nothing.\<close>

theorem transfer_effect:
  "case ApplyTransfer s x y amt of
     Inl e \<Rightarrow> GetBalance s x <s amt \<and> e = Insufficient x (GetBalance s x) amt \<and>
              or_unchanged s (Inl e) = s
   | Inr s' \<Rightarrow> \<not> GetBalance s x <s amt \<and>
       (if x = y then GetBalance s' x = GetBalance s x + amt
        else GetBalance s' x = GetBalance s x - amt \<and> GetBalance s' y = GetBalance s y + amt \<and>
             (\<forall>I. finite I \<longrightarrow> x \<in> I \<longrightarrow> y \<in> I \<longrightarrow> total_bal s' I = total_bal s I)) \<and>
       (\<forall>i. i \<noteq> x \<longrightarrow> i \<noteq> y \<longrightarrow> GetBalance s' i = GetBalance s i)"
proof (cases "GetBalance s x <s amt")
  case True
  then show ?thesis by (simp add: ApplyTransfer_def Let_def or_unchanged_def)
next
  case False
  let ?s' = "setBalanceTx y (GetBalance s y + amt) (setBalanceTx x (GetBalance s x - amt) s)"
  have "ApplyTransfer s x y amt = Inr ?s'" using False by (simp add: ApplyTransfer_def Let_def)
  moreover have "total_bal ?s' I = total_bal s I" if "finite I" "x \<in> I" "y \<in> I" "x \<noteq> y" for I
    using that by (simp add: total_set GetBalance_set)
  ultimately show ?thesis using False by (simp add: GetBalance_set)
qed

theorem transfer_effect_witness:
  "case ApplyTransfer (empty_store 10 100) 5 7 3 of Inl e \<Rightarrow> False
   | Inr s' \<Rightarrow> total_bal s' {5, 7} = 20"
proof -
  have g: "GetBalance (empty_store 10 100) i = 10" for i by (simp add: empty_store_def GetBalance_def)
  then have tot: "total_bal (empty_store 10 100) {5, 7} = 20" by (simp add: total_bal_def)
  obtain s' where s': "ApplyTransfer (empty_store 10 100) 5 7 3 = Inr s'"
    by (simp add: ApplyTransfer_def g)
  then have "total_bal s' {5, 7} = total_bal (empty_store 10 100) {5, 7}"
    using transfer_effect [where s = "empty_store 10 100" and x = 5 and y = 7 and amt = 3] by simp
  with s' tot show ?thesis by simp
qed

text \<open>A difference that does not wrap.\<close>

lemma sint_minus_covered:
  assumes "0 \<le> sint a" and "\<not> b <s (a :: int64)"
  shows "sint (b - a) = sint b - sint a" "0 \<le> sint (b - a)"
proof -
  have le: "sint a \<le> sint b" using assms(2) by (auto simp: word_sless_alt)
  have "sint b < 2 ^ 63" and "- (2 ^ 63) \<le> sint b" using sint_lt [of b] sint_ge [of b] by simp_all
  with assms(1) le show "sint (b - a) = sint b - sint a"
    by (simp add: sint_word_diff signed_take_bit_int_eq_self)
  with le show "0 \<le> sint (b - a)" by simp
qed

text \<open>C14: Balances never go negative through a debit. With a non-negative amount, a cross-shard debit
  that succeeds, and a transfer between two different items that succeeds, leave the item they take
  from at exactly \<open>old - amt \<ge> 0\<close> as signed numbers, without wrapping, and every item but the two
  untouched. A transfer from an item to itself is no debit: the second write wins and the item ends
  at \<open>old + amt\<close>, modulo \<open>2\<^sup>6\<^sup>4\<close>.\<close>

theorem debit_never_negative:
  assumes "0 \<le> sint amt"
  shows "(\<forall>s'. ApplyDebitOnly s x amt = Inr s' \<longrightarrow>
        sint (GetBalance s' x) = sint (GetBalance s x) - sint amt \<and> 0 \<le> sint (GetBalance s' x) \<and>
        (\<forall>i. i \<noteq> x \<longrightarrow> GetBalance s' i = GetBalance s i)) \<and>
    (\<forall>y s'. x \<noteq> y \<longrightarrow> ApplyTransfer s x y amt = Inr s' \<longrightarrow>
        sint (GetBalance s' x) = sint (GetBalance s x) - sint amt \<and> 0 \<le> sint (GetBalance s' x) \<and>
        (\<forall>i. i \<noteq> x \<longrightarrow> i \<noteq> y \<longrightarrow> GetBalance s' i = GetBalance s i)) \<and>
    (\<forall>s'. ApplyTransfer s x x amt = Inr s' \<longrightarrow> GetBalance s' x = GetBalance s x + amt)"
  using sint_minus_covered [OF assms, of "GetBalance s x"]
  by (auto simp: ApplyDebitOnly_def ApplyTransfer_def Let_def store_simps split: if_splits)

theorem debit_never_negative_witness:
  "sint (GetBalance (setBalanceTx 5 6 (empty_store 10 100)) 5) = 6 \<and>
   sint (GetBalance (setBalanceTx 7 14 (setBalanceTx 5 6 (empty_store 10 100))) 5) = 6"
proof -
  have g: "GetBalance (empty_store 10 100) i = 10" for i by (simp add: empty_store_def GetBalance_def)
  have "ApplyDebitOnly (empty_store 10 100) 5 4 = Inr (setBalanceTx 5 6 (empty_store 10 100))"
    "ApplyTransfer (empty_store 10 100) 5 7 4 = Inr (setBalanceTx 7 14 (setBalanceTx 5 6 (empty_store 10 100)))"
    by (simp_all add: ApplyDebitOnly_def ApplyTransfer_def g)
  then show ?thesis
    using debit_never_negative [of 4 "empty_store 10 100" 5, THEN conjunct1]
      debit_never_negative [of 4 "empty_store 10 100" 5, THEN conjunct2, THEN conjunct1, rule_format, of 7] g by simp
qed

text \<open>The store calls that leave item \<open>x\<close> and the preimage of transaction \<open>t\<close> alone: what other
  transactions may do while \<open>x\<close> is locked for \<open>t\<close>.\<close>

fun leaves :: "int \<Rightarrow> string \<Rightarrow> store_op \<Rightarrow> bool" where
  "leaves x t (Transfer a b _) = (a \<noteq> x \<and> b \<noteq> x)"
| "leaves x t (Debit a _) = (a \<noteq> x)"
| "leaves x t (Credit a _) = (a \<noteq> x)"
| "leaves x t (Write u p) = (u \<noteq> t \<and> bget p x = None \<and> bkeys_ok p)"
| "leaves x t (Undo u) = (u \<noteq> t)"
| "leaves x t (Delete u) = (u \<noteq> t)"
| "leaves x t Clear = False"
| "leaves x t _ = True"

text \<open>Two stores, the first ahead by a debit of \<open>x\<close> for \<open>t\<close> whose preimage holds the balance \<open>b\<close> of
  the second.\<close>

definition debited :: "int \<Rightarrow> string \<Rightarrow> int64 \<Rightarrow> store \<Rightarrow> store \<Rightarrow> bool" where
  "debited x t b u v \<longleftrightarrow> (\<forall>i. i \<noteq> x \<longrightarrow> GetBalance u i = GetBalance v i) \<and> GetBalance v x = b \<and>
     bget (wal u) t = Some [(x, b)] \<and>
     (\<forall>t'. t' \<noteq> t \<longrightarrow> bget (wal u) t' = bget (wal v) t' \<and>
        (\<forall>p. bget (wal v) t' = Some p \<longrightarrow> bkeys_ok p \<and> bget p x = None))"

lemma wal_upd: "wal (WALWrite s t p) = bput t p (wal s)" "wal (WALDelete s t) = bdel t (wal s)"
  by (simp_all add: WALWrite_def WALDelete_def)

lemma debited_apply_op:
  assumes d: "debited x t b u v" and l: "leaves x t op"
  shows "debited x t b (apply_op u op) (apply_op v op)"
proof -
  have bal: "GetBalance u i = GetBalance v i" if "i \<noteq> x" for i using d that by (simp add: debited_def)
  show ?thesis
  proof (cases op)
    case (Undo t')
    then have t': "t' \<noteq> t" using l by simp
    show ?thesis
    proof (cases "bget (wal v) t'")
      case None
      then show ?thesis using d t' Undo by (simp add: debited_def WALUndo_def or_unchanged_def)
    next
      case (Some p)
      then have "bkeys_ok p" "bget p x = None" "bget (wal u) t' = Some p" using d t' by (auto simp: debited_def)
      then show ?thesis
        using d Some Undo by (auto simp: debited_def WALUndo_def or_unchanged_def store_simps undo_balances split: option.split)
    qed
  qed (use d l bal in \<open>auto simp: debited_def or_unchanged_def ApplyTransfer_def ApplyDebitOnly_def
          ApplyCreditOnly_def Let_def store_simps wal_upd\<close>)
qed

lemma debited_apply_ops:
  "debited x t b u v \<Longrightarrow> \<forall>op\<in>set ops. leaves x t op \<Longrightarrow> debited x t b (apply_ops u ops) (apply_ops v ops)"
  unfolding apply_ops_def by (induction ops arbitrary: u v) (simp_all add: debited_apply_op)

lemma debited_WALUndo:
  assumes "debited x t b u v"
  shows "\<exists>w. WALUndo u t = Inr w \<and> (\<forall>i. GetBalance w i = GetBalance v i) \<and> wal w = wal u"
  using assms by (auto simp: debited_def WALUndo_def store_simps)

text \<open>C15: Undo is exact. Take a store whose log holds no preimage of item \<open>x\<close> under another
  transaction (and none with two values for one item). Debit \<open>x\<close> for a transaction, write the preimage, let other
  transactions do whatever they like to the store without touching \<open>x\<close> or this transaction's preimage
  (transfers, debits, credits, their own preimages and undos, locks, log entries), then undo: every
  balance, of \<open>x\<close> and of all other items, is what the same calls would have left had the debit never
  happened, and the preimage is still there.\<close>

theorem wal_undo_restores:
  assumes "ApplyDebitOnly s x amt = Inr s1"
    and "\<forall>t' p. t' \<noteq> t \<longrightarrow> bget (wal s) t' = Some p \<longrightarrow> bkeys_ok p \<and> bget p x = None"
    and "\<forall>op\<in>set ops. leaves x t op"
  shows "\<exists>s2. WALUndo (apply_ops (WALWrite s1 t (NewWALPreimage [(x, GetBalance s x)])) ops) t = Inr s2 \<and>
    (\<forall>i. GetBalance s2 i = GetBalance (apply_ops s ops) i) \<and> WALExists s2 t"
proof -
  have "debited x t (GetBalance s x) (WALWrite s1 t (NewWALPreimage [(x, GetBalance s x)])) s"
    using assms(1,2) by (auto simp: debited_def ApplyDebitOnly_def Let_def store_simps wal_upd NewWALPreimage_def split: if_splits)
  from debited_apply_ops [OF this assms(3)]
  have d: "debited x t (GetBalance s x) (apply_ops (WALWrite s1 t (NewWALPreimage [(x, GetBalance s x)])) ops) (apply_ops s ops)" .
  then show ?thesis using debited_WALUndo [OF d] by (auto simp: debited_def WALExists_def)
qed

theorem wal_undo_restores_witness:
  "\<exists>s2. WALUndo (apply_ops (WALWrite (setBalanceTx 5 6 (empty_store 10 100)) ''t'' (NewWALPreimage [(5, 10)]))
        [Transfer 7 8 3, Write ''u'' [(9, 10)], Debit 9 2, Undo ''u'']) ''t'' = Inr s2 \<and>
     GetBalance s2 5 = 10 \<and> GetBalance s2 7 = 7 \<and> GetBalance s2 9 = 10"
proof -
  let ?ops = "[Transfer 7 8 3, Write ''u'' [(9, 10)], Debit 9 2, Undo ''u'']"
  have g: "GetBalance (empty_store 10 100) i = 10" for i by (simp add: empty_store_def GetBalance_def)
  have d: "ApplyDebitOnly (empty_store 10 100) 5 4 = Inr (setBalanceTx 5 6 (empty_store 10 100))"
    by (simp add: ApplyDebitOnly_def g)
  have "GetBalance (apply_ops (empty_store 10 100) ?ops) 5 = 10" "GetBalance (apply_ops (empty_store 10 100) ?ops) 7 = 7"
    "GetBalance (apply_ops (empty_store 10 100) ?ops) 9 = 10"
    by (simp_all add: apply_ops_def ApplyTransfer_def ApplyDebitOnly_def WALUndo_def or_unchanged_def Let_def g store_simps wal_upd)
  moreover have "\<exists>s2. WALUndo (apply_ops (WALWrite (setBalanceTx 5 6 (empty_store 10 100)) ''t''
        (NewWALPreimage [(5, GetBalance (empty_store 10 100) 5)])) ?ops) ''t'' = Inr s2 \<and>
      (\<forall>i. GetBalance s2 i = GetBalance (apply_ops (empty_store 10 100) ?ops) i) \<and> WALExists s2 ''t''"
    by (rule wal_undo_restores [OF d]) (simp_all add: empty_store_def bkeys_ok_def)
  ultimately show ?thesis by (auto simp: g)
qed

text \<open>Once a lock is acquired, no sequence of store operations short of releasing that item or
  clearing all locks changes its owner, and \<open>AcquireLock\<close> on it keeps failing for everybody.\<close>

theorem lock_is_exclusive:
  assumes "fst (AcquireLock s item seq)" and "Release item \<notin> set ops" and "Clear \<notin> set ops"
  shows "let s' = apply_ops (snd (AcquireLock s item seq)) ops in
           IsLocked s' item \<and> LockSeq s' item = seq \<and> (\<forall>q. AcquireLock s' item q = (False, s'))"
proof -
  have step: "bget (locks (apply_op u op)) item = Some seq"
    if "bget (locks u) item = Some seq" "op \<noteq> Release item" "op \<noteq> Clear" for u op
    using that
    by (cases op)
       (auto simp: or_unchanged_def ApplyTransfer_def ApplyDebitOnly_def ApplyCreditOnly_def Let_def
          WALUndo_def store_simps AcquireLock_def AcquireLockForSeq_def IsLocked_def ReleaseLock_def
          split: option.split)
  have "bget (locks (apply_ops u ops)) item = Some seq"
    if "bget (locks u) item = Some seq" "Release item \<notin> set ops" "Clear \<notin> set ops" for u ops
    using that unfolding apply_ops_def
  proof (induction ops arbitrary: u)
    case (Cons op ops)
    have "bget (locks (apply_op u op)) item = Some seq" using Cons.prems by (intro step) auto
    with Cons show ?case by simp
  qed simp
  moreover have "bget (locks (snd (AcquireLock s item seq))) item = Some seq"
    using assms(1) by (auto simp: AcquireLock_def split: if_splits)
  ultimately show ?thesis
    using assms(2,3) by (simp add: IsLocked_def LockSeq_def AcquireLock_def Let_def)
qed

theorem lock_is_exclusive_witness:
  "let s' = apply_ops (snd (AcquireLock (empty_store 10 100) 42 1)) [Lock 42 2, Release 7, LockFor 42 3] in
     IsLocked s' 42 \<and> LockSeq s' 42 = 1 \<and> (\<forall>q. AcquireLock s' 42 q = (False, s'))"
  by (rule lock_is_exclusive) (simp_all add: AcquireLock_def empty_store_def)

text \<open>The datastore is append-only and numbered without gaps: whatever operations run on a
  fresh store, its entries so far are a prefix of its entries later, and the \<open>k\<close>-th entry carries
  sequence number \<open>k\<close>.\<close>

theorem datastore_append_only:
  fixes ops :: "store_op list" and items :: int and bal :: int64
  defines "s \<equiv> \<lambda>n. apply_ops (empty_store bal items) (take n ops)"
  shows "(m \<le> n \<longrightarrow> (\<exists>es. Datastore (s n) = Datastore (s m) @ es)) \<and>
         map e_Seq (Datastore (s n)) = [0..<length (Datastore (s n))]"
proof (intro conjI impI)
  have ok: "store_ok (s k)" for k by (simp add: s_def store_ok_apply_ops)
  show "\<exists>es. Datastore (s n) = Datastore (s m) @ es" if "m \<le> n"
  proof -
    have "take n ops = take m ops @ take (n - m) (drop m ops)"
      using that by (metis le_add_diff_inverse take_add)
    then have "s n = apply_ops (s m) (take (n - m) (drop m ops))"
      by (simp add: s_def apply_ops_append)
    then obtain es where "datastore (s n) = datastore (s m) @ es"
      using datastore_apply_ops [OF ok [of m]] by auto
    then show ?thesis by (auto simp: Datastore_def)
  qed
  have "log_ok (s n)" using ok [of n] by (simp add: store_ok_def)
  then have "map fst (datastore (s n)) = [0..<length (datastore (s n))]"
    and "\<forall>p\<in>set (datastore (s n)). (e_Seq \<circ> snd) p = fst p"
    by (auto simp: log_ok_def)
  moreover from this(2) have "map (e_Seq \<circ> snd) (datastore (s n)) = map fst (datastore (s n))"
    by (intro map_cong) auto
  ultimately show "map e_Seq (Datastore (s n)) = [0..<length (Datastore (s n))]"
    by (simp add: Datastore_def)
qed

theorem datastore_append_only_witness:
  "\<exists>es. Datastore (apply_ops (empty_store 10 100) (take 2 [Credit 1 5, Clear])) =
        Datastore (apply_ops (empty_store 10 100) (take 1 [Credit 1 5, Clear])) @ es"
  using datastore_append_only [of 1 2 10 100 "[Credit 1 5, Clear]"] by simp

end
