(* ===== verification/Database.thy ===== *)
theory Database
  imports Store
begin

text \<open>
  The store as it lies in the database (\<open>internal/store/store.go\<close>): five buckets of byte keys and byte
  values, kept by bolt in the order of the keys. An item is keyed by its decimal text, an entry of the
  datastore by its big-endian number; numbers are stored as eight big-endian bytes, entries and
  preimages as JSON, a parameter. The operations on bytes implement those of \<open>Store\<close>, which the rest of
  the development uses. \<open>None\<close> is a panic: Go's \<open>Uint64\<close> needs eight bytes.
\<close>

subsection \<open>Numbers as bytes\<close>

fun be :: "nat \<Rightarrow> nat \<Rightarrow> bytes" where
  "be 0 n = []"
| "be (Suc k) n = char_of (n div 256 ^ k mod 256) # be k n"

definition be_val :: "bytes \<Rightarrow> nat" where
  "be_val b = fold (\<lambda>c a. 256 * a + of_char c) b 0"

definition Uint64 :: "bytes \<Rightarrow> nat option" where
  "Uint64 b = (if length b < 8 then None else Some (be_val (take 8 b)))"

definition itemKey :: "int \<Rightarrow> bytes" where
  "itemKey item = itoa item"

definition seqKey :: "nat \<Rightarrow> bytes" where
  "seqKey seq = be 8 seq"

definition int64ToBytes :: "int64 \<Rightarrow> bytes" where
  "int64ToBytes v = be 8 (unat v)"

definition bytesToInt64 :: "bytes \<Rightarrow> int64 option" where
  "bytesToInt64 b =
     (if length b = 8 then map_option of_nat (Uint64 b)
      else if 8 < length b then None
      else map_option of_nat (Uint64 (replicate (8 - length b) (CHR 0x00) @ b)))"

lemma length_be [simp]: "length (be k n) = k"
  by (induction k) simp_all

lemma be_digits: "n mod 256 ^ Suc k = n div 256 ^ k mod 256 * 256 ^ k + n mod (256 ^ k :: nat)"
  using mod_mult2_eq [of n "256 ^ k" 256] by (simp add: ac_simps)

lemma be_val_be: "be_val (be k n) = n mod 256 ^ k"
proof -
  have "fold (\<lambda>c a. 256 * a + of_char c) (be k n) a = a * 256 ^ k + n mod 256 ^ k" for a
  proof (induction k arbitrary: a)
    case (Suc k)
    have "fold (\<lambda>c a. 256 * a + of_char c) (be (Suc k) n) a = (256 * a + n div 256 ^ k mod 256) * 256 ^ k + n mod 256 ^ k"
      by (simp add: Suc.IH of_char_of)
    then show ?case unfolding be_digits [of n k] by (simp add: algebra_simps)
  qed simp
  then show ?thesis by (simp add: be_val_def)
qed

lemma be_less: "m mod 256 ^ k < n mod 256 ^ k \<Longrightarrow> be k m < be k n"
proof (induction k)
  case (Suc k)
  let ?a = "m div 256 ^ k mod 256" and ?b = "n div 256 ^ k mod 256"
  have code: "char_of i < (char_of j :: char) \<longleftrightarrow> i < j" if "i < 256" "j < 256" for i j :: nat
    using that by (simp add: less_char_def of_char_of)
  have "?a * 256 ^ k + m mod 256 ^ k < ?b * 256 ^ k + n mod 256 ^ k"
    using Suc.prems unfolding be_digits .
  moreover have "n mod 256 ^ k < 256 ^ k" by simp
  ultimately have "?a * 256 ^ k < ?b * 256 ^ k + 256 ^ k" by linarith
  then have "?a * 256 ^ k < (?b + 1) * 256 ^ k" by (simp add: algebra_simps)
  then have "?a \<le> ?b" by (metis less_Suc_eq_le mult_less_cancel2 Suc_eq_plus1)
  then consider "?a < ?b" | "?a = ?b" "m mod 256 ^ k < n mod 256 ^ k"
    using \<open>?a * 256 ^ k + m mod 256 ^ k < _\<close> by fastforce
  then show ?case by cases (use Suc.IH code [of ?a ?b] in simp_all)
qed simp

lemma Uint64_be [simp]: "n < 2 ^ 64 \<Longrightarrow> Uint64 (be 8 n) = Some n"
  by (simp add: Uint64_def be_val_be)

lemma bytes_roundtrip [simp]: "bytesToInt64 (int64ToBytes v) = Some v"
proof -
  have "unat v < 2 ^ LENGTH(64)" by (rule unsigned_less)
  then have "unat v < 2 ^ 64" by simp
  then show ?thesis by (simp add: bytesToInt64_def int64ToBytes_def)
qed

lemma itemKey_inj [simp]: "itemKey i = itemKey j \<longleftrightarrow> i = j"
  by (simp add: itemKey_def itoa_inj)

lemma seqKey_less: "m < n \<Longrightarrow> n < 2 ^ 64 \<Longrightarrow> seqKey m < seqKey n"
  unfolding seqKey_def by (rule be_less) simp

lemma seqKey_meta: "n < 2 ^ 62 \<Longrightarrow> seqKey n < ''seq''"
proof -
  assume n: "n < 2 ^ 62"
  have "seqKey n = char_of (n div 256 ^ 7 mod 256) # be 7 n" using be.simps(2) [of 7 n] unfolding seqKey_def by simp
  moreover have "n div 256 ^ 7 < 64" using n by (simp add: less_mult_imp_div_less)
  then have "(char_of (n div 256 ^ 7 mod 256) :: char) < CHR ''s''" by (simp add: less_char_def of_char_of)
  ultimately show ?thesis by simp
qed

subsection \<open>Operations\<close>

type_synonym raw = "(bytes, bytes) bucket"

record database =
  db_initialBalance :: int64
  db_balances :: raw
  db_datastore :: raw
  db_locks :: raw
  db_wal :: raw
  db_clientTS :: raw

record store_json =
  enc_Entry :: "DatastoreEntry \<Rightarrow> bytes"
  dec_Entry :: "bytes \<Rightarrow> string + DatastoreEntry"
  enc_Pre :: "WALPreimage \<Rightarrow> bytes"
  dec_Pre :: "bytes \<Rightarrow> string + WALPreimage"

datatype db_error = StoreError store_error | JsonError string

text \<open>A transaction: \<open>None\<close> panics, an error rolls back.\<close>

type_synonym tx = "(db_error + database) option"

definition db_Open :: "int64 \<Rightarrow> database" where
  "db_Open bal = \<lparr>db_initialBalance = bal, db_balances = [], db_datastore = [], db_locks = [], db_wal = [], db_clientTS = []\<rparr>"

definition db_GetBalance :: "database \<Rightarrow> int \<Rightarrow> int64 option" where
  "db_GetBalance db item =
     (case bget (db_balances db) (itemKey item) of None \<Rightarrow> Some (db_initialBalance db) | Some v \<Rightarrow> bytesToInt64 v)"

definition db_setBalance :: "int \<Rightarrow> int64 \<Rightarrow> database \<Rightarrow> database" where
  "db_setBalance item bal db = db\<lparr>db_balances := bput (itemKey item) (int64ToBytes bal) (db_balances db)\<rparr>"

definition db_ApplyTransfer :: "database \<Rightarrow> int \<Rightarrow> int \<Rightarrow> int64 \<Rightarrow> tx" where
  "db_ApplyTransfer db x y amt =
     (case db_GetBalance db x of
        None \<Rightarrow> None
      | Some xBal \<Rightarrow>
          (case db_GetBalance db y of
             None \<Rightarrow> None
           | Some yBal \<Rightarrow>
               Some (if xBal <s amt then Inl (StoreError (Insufficient x xBal amt))
                     else Inr (db_setBalance y (yBal + amt) (db_setBalance x (xBal - amt) db)))))"

definition db_ApplyDebitOnly :: "database \<Rightarrow> int \<Rightarrow> int64 \<Rightarrow> tx" where
  "db_ApplyDebitOnly db x amt =
     (case db_GetBalance db x of
        None \<Rightarrow> None
      | Some bal \<Rightarrow> Some (if bal <s amt then Inl (StoreError (Insufficient x bal amt)) else Inr (db_setBalance x (bal - amt) db)))"

definition db_ApplyCreditOnly :: "database \<Rightarrow> int \<Rightarrow> int64 \<Rightarrow> tx" where
  "db_ApplyCreditOnly db y amt =
     (case db_GetBalance db y of None \<Rightarrow> None | Some bal \<Rightarrow> Some (Inr (db_setBalance y (bal + amt) db)))"

definition db_IsLocked :: "database \<Rightarrow> int \<Rightarrow> bool" where
  "db_IsLocked db item \<longleftrightarrow> bget (db_locks db) (itemKey item) \<noteq> None"

definition db_LockSeq :: "database \<Rightarrow> int \<Rightarrow> int option" where
  "db_LockSeq db item =
     (case bget (db_locks db) (itemKey item) of None \<Rightarrow> Some 0 | Some v \<Rightarrow> map_option sint (bytesToInt64 v))"

definition db_AcquireLock :: "database \<Rightarrow> int \<Rightarrow> int \<Rightarrow> bool \<times> database" where
  "db_AcquireLock db item seq =
     (if bget (db_locks db) (itemKey item) \<noteq> None then (False, db)
      else (True, db\<lparr>db_locks := bput (itemKey item) (int64ToBytes (word_of_int seq)) (db_locks db)\<rparr>))"

definition db_AcquireLockForSeq :: "database \<Rightarrow> int \<Rightarrow> int \<Rightarrow> (bool \<times> database) option" where
  "db_AcquireLockForSeq db item seq =
     (if db_IsLocked db item then map_option (\<lambda>s. (s = seq, db)) (db_LockSeq db item)
      else Some (db_AcquireLock db item seq))"

definition db_ReleaseLock :: "database \<Rightarrow> int \<Rightarrow> database" where
  "db_ReleaseLock db item = db\<lparr>db_locks := bdel (itemKey item) (db_locks db)\<rparr>"

definition db_AppendDatastore :: "store_json \<Rightarrow> database \<Rightarrow> DatastoreEntry \<Rightarrow> database option" where
  "db_AppendDatastore J db entry =
     (case (case bget (db_datastore db) ''seq'' of
              None \<Rightarrow> Some 0 | Some v \<Rightarrow> map_option (\<lambda>n. (n + 1) mod 2 ^ 64) (Uint64 v)) of
        None \<Rightarrow> None
      | Some next \<Rightarrow>
          Some (db\<lparr>db_datastore :=
            bput ''seq'' (seqKey next) (bput (seqKey next) (enc_Entry J (entry\<lparr>e_Seq := next\<rparr>)) (db_datastore db))\<rparr>))"

text \<open>The cursor goes through the keys in order and skips the counter.\<close>

fun db_entries :: "store_json \<Rightarrow> raw \<Rightarrow> string + DatastoreEntry list" where
  "db_entries J [] = Inr []"
| "db_entries J ((k, v) # b) =
     (if k = ''seq'' then db_entries J b
      else case dec_Entry J v of
             Inl err \<Rightarrow> Inl err
           | Inr e \<Rightarrow> (case db_entries J b of Inl err \<Rightarrow> Inl err | Inr es \<Rightarrow> Inr (e # es)))"

definition db_Datastore :: "store_json \<Rightarrow> database \<Rightarrow> string + DatastoreEntry list" where
  "db_Datastore J db = db_entries J (db_datastore db)"

definition db_WALWrite :: "store_json \<Rightarrow> database \<Rightarrow> string \<Rightarrow> WALPreimage \<Rightarrow> db_error + database" where
  "db_WALWrite J db txnID preimage =
     (if key_ok txnID then Inr (db\<lparr>db_wal := bput txnID (enc_Pre J preimage) (db_wal db)\<rparr>)
      else Inl (StoreError (KeyRefused txnID)))"

definition db_WALUndo :: "store_json \<Rightarrow> database \<Rightarrow> string \<Rightarrow> db_error + database" where
  "db_WALUndo J db txnID =
     (case bget (db_wal db) txnID of
        None \<Rightarrow> Inl (StoreError (WALMissing txnID))
      | Some body \<Rightarrow>
          (case dec_Pre J body of
             Inl err \<Rightarrow> Inl (JsonError err)
           | Inr pre \<Rightarrow> Inr (fold (\<lambda>(item, oldBal). db_setBalance item oldBal) pre db)))"

definition db_WALDelete :: "database \<Rightarrow> string \<Rightarrow> database" where
  "db_WALDelete db txnID = db\<lparr>db_wal := bdel txnID (db_wal db)\<rparr>"

definition db_WALExists :: "database \<Rightarrow> string \<Rightarrow> bool" where
  "db_WALExists db txnID \<longleftrightarrow> bget (db_wal db) txnID \<noteq> None"

definition db_Outstanding2PC :: "database \<Rightarrow> Outstanding" where
  "db_Outstanding2PC db = \<lparr>WALCount = length (db_wal db), LockCount = length (db_locks db), WALTxnIDs = map fst (db_wal db)\<rparr>"

definition db_SetClientTS :: "database \<Rightarrow> string \<Rightarrow> int \<Rightarrow> db_error + database" where
  "db_SetClientTS db clientID ts =
     (if key_ok clientID then Inr (db\<lparr>db_clientTS := bput clientID (int64ToBytes (word_of_int ts)) (db_clientTS db)\<rparr>)
      else Inl (StoreError (KeyRefused clientID)))"

definition db_GetClientTS :: "database \<Rightarrow> string \<Rightarrow> int option" where
  "db_GetClientTS db clientID =
     (case bget (db_clientTS db) clientID of None \<Rightarrow> Some 0 | Some v \<Rightarrow> map_option sint (bytesToInt64 v))"

definition db_ClearLocksAndWAL :: "database \<Rightarrow> database" where
  "db_ClearLocksAndWAL db = db\<lparr>db_locks := [], db_wal := []\<rparr>"

subsection \<open>The store on top of the database\<close>

definition db_after :: "database \<Rightarrow> tx \<Rightarrow> database option" where
  "db_after db r = map_option (\<lambda>r. case r of Inl _ \<Rightarrow> db | Inr db' \<Rightarrow> db') r"

fun db_op :: "store_json \<Rightarrow> database \<Rightarrow> store_op \<Rightarrow> database option" where
  "db_op J db (Transfer x y a) = db_after db (db_ApplyTransfer db x y a)"
| "db_op J db (Debit x a) = db_after db (db_ApplyDebitOnly db x a)"
| "db_op J db (Credit y a) = db_after db (db_ApplyCreditOnly db y a)"
| "db_op J db (Lock i q) = Some (snd (db_AcquireLock db i q))"
| "db_op J db (LockFor i q) = map_option snd (db_AcquireLockForSeq db i q)"
| "db_op J db (Release i) = Some (db_ReleaseLock db i)"
| "db_op J db (Append e) = db_AppendDatastore J db e"
| "db_op J db (Write t p) = db_after db (Some (db_WALWrite J db t p))"
| "db_op J db (Undo t) = db_after db (Some (db_WALUndo J db t))"
| "db_op J db (Delete t) = Some (db_WALDelete db t)"
| "db_op J db (Stamp c n) = db_after db (Some (db_SetClientTS db c n))"
| "db_op J db Clear = Some (db_ClearLocksAndWAL db)"

fun db_ops :: "store_json \<Rightarrow> database \<Rightarrow> store_op list \<Rightarrow> database option" where
  "db_ops J db [] = Some db"
| "db_ops J db (op # ops) = (case db_op J db op of None \<Rightarrow> None | Some db \<Rightarrow> db_ops J db ops)"

text \<open>What an operation may carry: numbers of 64 bits and transaction ids that are keys.\<close>

definition int64_range :: "int \<Rightarrow> bool" where
  "int64_range n \<longleftrightarrow> - (2 ^ 63) \<le> n \<and> n < 2 ^ 63"

fun op_ok :: "store_op \<Rightarrow> bool" where
  "op_ok (Lock i q) = int64_range q"
| "op_ok (LockFor i q) = int64_range q"
| "op_ok (Stamp c n) = int64_range n"
| "op_ok (Write t p) = key_ok t"
| "op_ok _ = True"

lemma int64_range_sint: "int64_range n \<Longrightarrow> sint (word_of_int n :: int64) = n"
  by (simp add: int64_range_def sint_sbintrunc' signed_take_bit_int_eq_self)

text \<open>A bucket keyed by items, and one keyed by text, as they lie in the database.\<close>

definition items_as :: "('v \<Rightarrow> bytes) \<Rightarrow> (int, 'v) bucket \<Rightarrow> raw \<Rightarrow> bool" where
  "items_as f b r \<longleftrightarrow> bkeys_ok r \<and> fst ` set r = itemKey ` fst ` set b \<and> (\<forall>i. bget r (itemKey i) = map_option f (bget b i))"

lemma items_as_put: "items_as f b r \<Longrightarrow> items_as f (bput i v b) (bput (itemKey i) (f v) r)"
  by (simp add: items_as_def)

lemma items_as_del: "items_as f b r \<Longrightarrow> items_as f (bdel i b) (bdel (itemKey i) r)"
  by (auto simp: items_as_def bdel_keys)

lemma items_as_length:
  assumes "items_as f b r" "bkeys_ok b"
  shows "length r = length b"
proof -
  have len: "length m = card (fst ` set m)" if "distinct (map fst m)" for m :: "('k \<times> 'w) list"
    using distinct_card [OF that] by simp
  have "inj_on itemKey (fst ` set b)" by (simp add: inj_on_def)
  then have "card (fst ` set r) = card (fst ` set b)" using assms(1) by (simp add: items_as_def card_image)
  then show ?thesis using assms len [OF bkeys_distinct, of r] len [OF bkeys_distinct, of b] by (simp add: items_as_def)
qed

definition texts_as :: "('v \<Rightarrow> bytes) \<Rightarrow> (string, 'v) bucket \<Rightarrow> raw" where
  "texts_as f b = map (\<lambda>(k, v). (k, f v)) b"

lemma texts_as_put: "bput k (f v) (texts_as f b) = texts_as f (bput k v b)"
  unfolding texts_as_def by (induction k v b rule: bput.induct) auto

lemma texts_as_del: "bdel k (texts_as f b) = texts_as f (bdel k b)"
  unfolding texts_as_def bdel_def by (induction b) auto

lemma texts_as_get: "bget (texts_as f b) k = map_option f (bget b k)"
  unfolding texts_as_def by (induction b) auto

lemma texts_as_simps: "texts_as f [] = []" "length (texts_as f b) = length b" "map fst (texts_as f b) = map fst b"
  by (auto simp: texts_as_def)

text \<open>The datastore: the entries in the order of their numbers, then the counter.\<close>

definition log_as :: "store_json \<Rightarrow> (nat, DatastoreEntry) bucket \<Rightarrow> nat option \<Rightarrow> raw" where
  "log_as J b n = map (\<lambda>(k, e). (seqKey k, enc_Entry J e)) b @ (case n of None \<Rightarrow> [] | Some n \<Rightarrow> [(''seq'', seqKey n)])"

lemma bput_before_last:
  fixes k m :: "'k::linorder"
  assumes "\<forall>k'\<in>fst ` set a. k' < k" "k < m" "b = [] \<or> (\<exists>y. b = [(m, y)])"
  shows "bput m x (bput k w (a @ b)) = a @ [(k, w), (m, x)]"
  using assms(1)
proof (induction a)
  case Nil
  then show ?case using assms(2,3) by auto
next
  case (Cons p a)
  obtain k' v where p: "p = (k', v)" by (cases p)
  then have k: "k' < k" using Cons.prems by simp
  then have m: "k' < m" using assms(2) by (rule less_trans)
  have ih: "bput m x (bput k w (a @ b)) = a @ [(k, w), (m, x)]" using Cons by simp
  have "bput k w ((p # a) @ b) = p # bput k w (a @ b)" using k by (auto simp: p)
  moreover have "bput m x (p # c) = p # bput m x c" for c using m by (auto simp: p)
  ultimately show ?case by (simp add: ih)
qed

lemma log_as_put:
  assumes "log_ok s" "length (datastore s) < 2 ^ 62"
  shows "bput ''seq'' (seqKey (length (datastore s)))
     (bput (seqKey (length (datastore s))) (enc_Entry J e) (log_as J (datastore s) (datastoreSeq s))) =
     log_as J (datastore s @ [(length (datastore s), e)]) (Some (length (datastore s)))"
proof -
  let ?n = "length (datastore s)" and ?a = "map (\<lambda>(k, e). (seqKey k, enc_Entry J e)) (datastore s)"
  have k: "k < ?n" if "k \<in> fst ` set (datastore s)" for k
  proof -
    have "k \<in> set [0..<?n]" using that assms(1) unfolding log_ok_def by (metis list.set_map)
    then show ?thesis by simp
  qed
  have num: "\<exists>m<?n. k = seqKey m" if "k \<in> fst ` set ?a" for k using that k by force
  have "?n < 2 ^ 64" using assms(2) by simp
  then have less1: "\<forall>k\<in>fst ` set ?a. k < seqKey ?n"
    by (intro ballI) (metis num seqKey_less)
  let ?b = "case datastoreSeq s of None \<Rightarrow> [] | Some n \<Rightarrow> [(''seq'', seqKey n)]"
  have "?b = [] \<or> (\<exists>y. ?b = [(''seq'', y)])" by (cases "datastoreSeq s") simp_all
  note put = bput_before_last [OF less1 seqKey_meta [OF assms(2)] this, of "seqKey ?n" "enc_Entry J e"]
  have old: "log_as J (datastore s) (datastoreSeq s) = ?a @ ?b" by (rule log_as_def)
  have new: "log_as J (datastore s @ [(?n, e)]) (Some ?n) = ?a @ [(seqKey ?n, enc_Entry J e), (''seq'', seqKey ?n)]"
    by (simp add: log_as_def)
  show ?thesis unfolding old new by (rule put)
qed

definition json_ok :: "store_json \<Rightarrow> bool" where
  "json_ok J \<longleftrightarrow> (\<forall>e. dec_Entry J (enc_Entry J e) = Inr e) \<and> (\<forall>p. dec_Pre J (enc_Pre J p) = Inr p)"

definition rep :: "store_json \<Rightarrow> database \<Rightarrow> store \<Rightarrow> bool" where
  "rep J db s \<longleftrightarrow> db_initialBalance db = initialBalance s \<and>
     items_as int64ToBytes (balances s) (db_balances db) \<and>
     items_as (\<lambda>q. int64ToBytes (word_of_int q)) (locks s) (db_locks db) \<and>
     db_wal db = texts_as (enc_Pre J) (wal s) \<and>
     db_clientTS db = texts_as (\<lambda>n. int64ToBytes (word_of_int n)) (clientTS s) \<and>
     db_datastore db = log_as J (datastore s) (datastoreSeq s) \<and>
     (\<forall>i q. bget (locks s) i = Some q \<longrightarrow> int64_range q) \<and> (\<forall>c n. bget (clientTS s) c = Some n \<longrightarrow> int64_range n)"

lemma rep_reads:
  assumes "rep J db s"
  shows "db_GetBalance db i = Some (GetBalance s i)" and "db_IsLocked db i = IsLocked s i"
    and "db_LockSeq db i = Some (LockSeq s i)" and "db_WALExists db t = WALExists s t"
    and "db_GetClientTS db c = Some (GetClientTS s c)"
  using assms
  by (auto simp: rep_def items_as_def db_GetBalance_def GetBalance_def db_IsLocked_def IsLocked_def db_LockSeq_def LockSeq_def
      db_WALExists_def WALExists_def db_GetClientTS_def GetClientTS_def texts_as_get int64_range_sint split: option.split)

lemma rep_set: "rep J db s \<Longrightarrow> rep J (db_setBalance i b db) (setBalanceTx i b s)"
  by (simp add: rep_def db_setBalance_def setBalanceTx_def items_as_put)

lemma rep_set_fold:
  "rep J db s \<Longrightarrow> rep J (fold (\<lambda>(i, b). db_setBalance i b) pre db) (fold (\<lambda>(i, b). setBalanceTx i b) pre s)"
  by (induction pre arbitrary: db s) (auto simp: rep_set)

lemma rep_lock: "rep J db s \<Longrightarrow> int64_range q \<Longrightarrow> rep J (snd (db_AcquireLock db i q)) (snd (AcquireLock s i q))"
  using items_as_put [of "\<lambda>q. int64ToBytes (word_of_int q)" "locks s" "db_locks db" i q]
  by (auto simp: rep_def db_AcquireLock_def AcquireLock_def items_as_def)

lemma rep_transfer:
  "rep J db s \<Longrightarrow> (case db_ApplyTransfer db x y a of None \<Rightarrow> False
     | Some r \<Rightarrow> (case (r, ApplyTransfer s x y a) of (Inl (StoreError err), Inl err') \<Rightarrow> err = err'
                   | (Inr db', Inr s') \<Rightarrow> rep J db' s' | _ \<Rightarrow> False))"
  by (simp add: db_ApplyTransfer_def ApplyTransfer_def rep_reads rep_set Let_def)

lemma seqKey_not_meta [simp]: "seqKey k \<noteq> ''seq''"
proof
  assume "seqKey k = ''seq''"
  then have "length (seqKey k) = length ''seq''" by simp
  then show False by (simp add: seqKey_def)
qed

lemma meta_not_seqKey [simp]: "''seq'' \<noteq> seqKey k"
  using seqKey_not_meta by (rule not_sym)

lemma log_as_counter: "bget (log_as J b n) ''seq'' = map_option seqKey n"
proof -
  have "bget (map (\<lambda>(k, e). (seqKey k, enc_Entry J e)) b) ''seq'' = None" by (induction b) auto
  then show ?thesis by (simp add: log_as_def map_add_def split: option.split)
qed

lemma log_as_entries:
  assumes "json_ok J"
  shows "db_entries J (log_as J b n) = Inr (map snd b)"
  unfolding log_as_def using assms by (induction b) (auto simp: json_ok_def split: option.split)

lemma AppendDatastore_initial: "initialBalance (AppendDatastore s e) = initialBalance s"
  by (simp add: AppendDatastore_def Let_def)

lemma nxt_seq: "log_ok s \<Longrightarrow> datastoreSeq (AppendDatastore s e) = Some (length (datastore s))"
  by (auto simp: AppendDatastore_def log_ok_def Let_def split: option.splits)

text \<open>One operation.\<close>

lemma rep_op:
  assumes J: "json_ok J" and r: "rep J db s" and ok: "store_ok s" "op_ok op" "length (datastore s) < 2 ^ 62"
  shows "\<exists>db'. db_op J db op = Some db' \<and> rep J db' (apply_op s op)"
proof (cases op)
  case (Transfer x y a)
  then show ?thesis
    by (simp add: db_ApplyTransfer_def ApplyTransfer_def rep_reads [OF r] rep_set r Let_def db_after_def or_unchanged_def)
next
  case (Debit x a)
  then show ?thesis
    by (simp add: db_ApplyDebitOnly_def ApplyDebitOnly_def rep_reads [OF r] rep_set r Let_def db_after_def or_unchanged_def)
next
  case (Credit y a)
  then show ?thesis
    by (simp add: db_ApplyCreditOnly_def ApplyCreditOnly_def rep_reads [OF r] rep_set r db_after_def or_unchanged_def)
next
  case (Lock i q)
  then show ?thesis using rep_lock [OF r] ok(2) by simp
next
  case (LockFor i q)
  then show ?thesis using rep_lock [OF r, of q i] ok(2) r
    by (cases "db_AcquireLock db i q") (simp add: db_AcquireLockForSeq_def AcquireLockForSeq_def rep_reads [OF r])
next
  case (Release i)
  then show ?thesis using r by (auto simp: rep_def db_ReleaseLock_def ReleaseLock_def items_as_del)
next
  case (Append e)
  have log: "log_ok s" using ok(1) by (simp add: store_ok_def)
  have raw: "db_datastore db = log_as J (datastore s) (datastoreSeq s)" using r by (simp add: rep_def)
  let ?n = "length (datastore s)" and ?e = "e\<lparr>e_Seq := length (datastore s)\<rparr>"
  have "(case bget (db_datastore db) ''seq'' of None \<Rightarrow> Some 0 | Some v \<Rightarrow> map_option (\<lambda>n. (n + 1) mod 2 ^ 64) (Uint64 v)) = Some ?n"
    using log ok(3) by (auto simp: raw log_as_counter log_ok_def seqKey_def split: option.splits)
  then have "db_AppendDatastore J db e = Some (db\<lparr>db_datastore := log_as J (datastore s @ [(?n, ?e)]) (Some ?n)\<rparr>)"
    unfolding db_AppendDatastore_def raw using log_as_put [OF log ok(3), of J ?e] by simp
  then show ?thesis
    using r Append AppendDatastore_log(2) [OF log, of e] nxt_seq [OF log, of e] by (simp add: rep_def store_simps AppendDatastore_initial)
next
  case (Write t p)
  then show ?thesis using r ok(2) by (simp add: rep_def db_WALWrite_def WALWrite_def db_after_def texts_as_put)
next
  case (Undo t)
  show ?thesis
  proof (cases "bget (wal s) t")
    case None
    then show ?thesis using r Undo by (simp add: rep_def db_WALUndo_def WALUndo_def db_after_def or_unchanged_def texts_as_get)
  next
    case (Some pre)
    then have "bget (db_wal db) t = Some (enc_Pre J pre)" using r by (simp add: rep_def texts_as_get)
    then show ?thesis
      using Undo Some J rep_set_fold [OF r, of pre] by (simp add: db_WALUndo_def WALUndo_def db_after_def or_unchanged_def json_ok_def)
  qed
next
  case (Delete t)
  then show ?thesis using r by (simp add: rep_def db_WALDelete_def WALDelete_def texts_as_del)
next
  case (Stamp c n)
  then show ?thesis using r ok(2)
    by (auto simp: rep_def db_SetClientTS_def SetClientTS_def db_after_def
        texts_as_put [of c "\<lambda>n. int64ToBytes (word_of_int n)" n])
next
  case Clear
  then show ?thesis using r by (simp add: rep_def db_ClearLocksAndWAL_def ClearLocksAndWAL_def items_as_def texts_as_simps)
qed

lemma apply_op_grows: "store_ok s \<Longrightarrow> length (datastore (apply_op s op)) \<le> Suc (length (datastore s))"
proof (cases op)
  case (Append e)
  assume "store_ok s"
  then show ?thesis using Append by (simp add: AppendDatastore_log store_ok_def)
qed (auto simp: or_unchanged_def ApplyTransfer_def ApplyDebitOnly_def ApplyCreditOnly_def WALUndo_def
      store_simps ClearLocksAndWAL_def Let_def split: option.split)

lemma rep_ops:
  assumes J: "json_ok J"
  shows "rep J db s \<Longrightarrow> store_ok s \<Longrightarrow> list_all op_ok ops \<Longrightarrow> length (datastore s) + length ops \<le> 2 ^ 62 \<Longrightarrow>
    \<exists>db'. db_ops J db ops = Some db' \<and> rep J db' (apply_ops s ops)"
proof (induction ops arbitrary: db s)
  case (Cons op ops)
  then obtain db1 where 1: "db_op J db op = Some db1" "rep J db1 (apply_op s op)"
    using rep_op [OF J, of db s op] by auto
  have "length (datastore (apply_op s op)) \<le> Suc (length (datastore s))"
    by (rule apply_op_grows [OF Cons.prems(2)])
  then show ?case
    using Cons.IH [OF 1(2) store_ok_apply_op [OF Cons.prems(2)]] Cons.prems(3,4) 1(1) by (simp add: apply_ops_def)
qed (simp add: apply_ops_def)

text \<open>C16: The database implements the store. Run any calls on an empty database and the same calls
  on the record of maps that the rest of the development calls the store: no call panics, and
  afterwards every query gives the same answer, the list of entries in the order of their numbers
  (the database keeps its keys in byte order) and the counts of preimages and locks included. JSON
  has to decode what it encodes, and fewer than \<open>2 ^ 62\<close> calls are made.\<close>

theorem database_implements_store:
  assumes json: "json_ok J" and ops: "list_all op_ok ops" "length ops \<le> 2 ^ 62"
  shows "\<exists>db. db_ops J (db_Open bal) ops = Some db \<and>
    (let s = apply_ops (empty_store bal items) ops in
      (\<forall>i. db_GetBalance db i = Some (GetBalance s i) \<and> db_IsLocked db i = IsLocked s i \<and> db_LockSeq db i = Some (LockSeq s i)) \<and>
      (\<forall>t. db_WALExists db t = WALExists s t) \<and> (\<forall>c. db_GetClientTS db c = Some (GetClientTS s c)) \<and>
      db_Datastore J db = Inr (Datastore s) \<and> db_Outstanding2PC db = Outstanding2PC s)"
proof -
  have start: "rep J (db_Open bal) (empty_store bal items)"
    by (simp add: rep_def db_Open_def empty_store_def items_as_def texts_as_simps log_as_def)
  have "datastore (empty_store bal items) = []" by (simp add: empty_store_def)
  then obtain db where db: "db_ops J (db_Open bal) ops = Some db" "rep J db (apply_ops (empty_store bal items) ops)"
    using rep_ops [OF json start store_ok_empty ops(1)] ops(2) by auto
  let ?s = "apply_ops (empty_store bal items) ops"
  have ok: "store_ok ?s" by (simp add: store_ok_apply_ops)
  have "db_Datastore J db = Inr (Datastore ?s)"
    using db(2) log_as_entries [OF json] by (simp add: rep_def db_Datastore_def Datastore_def)
  moreover have "db_Outstanding2PC db = Outstanding2PC ?s"
    using db(2) ok items_as_length [of "\<lambda>q. int64ToBytes (word_of_int q)" "locks ?s" "db_locks db"]
    by (simp add: rep_def db_Outstanding2PC_def Outstanding2PC_def texts_as_simps store_ok_def)
  ultimately show ?thesis using db(1) rep_reads [OF db(2)] by (auto simp: Let_def)
qed

text \<open>A concrete encoding in the place of JSON: the fields in a row.\<close>

definition next_field :: "bytes \<Rightarrow> int \<times> bytes" where
  "next_field s = (case Atoi (takeWhile (\<lambda>c. c \<noteq> CHR ''|'') s) of None \<Rightarrow> 0 | Some i \<Rightarrow> i, drop 1 (dropWhile (\<lambda>c. c \<noteq> CHR ''|'') s))"

lemma next_field_itoa [simp]: "next_field (itoa i @ CHR ''|'' # r) = (i, r)"
proof -
  have "\<And>c. c \<in> set (itoa i) \<Longrightarrow> c \<noteq> CHR ''|''" using itoa_sep by metis
  then show ?thesis by (simp add: next_field_def takeWhile_append2 dropWhile_append2)
qed

lemma next_field_less: "s \<noteq> [] \<Longrightarrow> length (snd (next_field s)) < length s"
  using length_dropWhile_le [of "\<lambda>c. c \<noteq> CHR ''|''" s] by (cases s) (auto simp: next_field_def)

definition plain_enc_entry :: "DatastoreEntry \<Rightarrow> bytes" where
  "plain_enc_entry e = itoa (int (e_Seq e)) @ CHR ''|'' # itoa (if e_Type e = TxnIntra then 0 else 1) @ CHR ''|'' #
     itoa (if e_Phase e = PhasePrepare then 0 else 1) @ CHR ''|'' # itoa (e_X e) @ CHR ''|'' # itoa (e_Y e) @ CHR ''|'' #
     itoa (sint (e_Amt e)) @ CHR ''|'' # itoa (e_BallotOrViewSeq e) @ CHR ''|'' #
     (case e_Outcome e of OutcomeCommit \<Rightarrow> ''c'' | OutcomeAbort \<Rightarrow> ''a'' | OutcomeOther s \<Rightarrow> CHR ''o'' # s)"

definition plain_dec_entry :: "bytes \<Rightarrow> string + DatastoreEntry" where
  "plain_dec_entry s =
     (case next_field s of (seq, s) \<Rightarrow> case next_field s of (kind, s) \<Rightarrow> case next_field s of (phase, s) \<Rightarrow>
      case next_field s of (x, s) \<Rightarrow> case next_field s of (y, s) \<Rightarrow> case next_field s of (amt, s) \<Rightarrow> case next_field s of (ballot, s) \<Rightarrow>
        Inr \<lparr>e_Seq = nat seq, e_Type = (if kind = 0 then TxnIntra else TxnCross), e_Phase = (if phase = 0 then PhasePrepare else PhaseCommit),
             e_X = x, e_Y = y, e_Amt = word_of_int amt, e_BallotOrViewSeq = ballot,
             e_Outcome = (if s = ''c'' then OutcomeCommit else if s = ''a'' then OutcomeAbort else OutcomeOther (tl s))\<rparr>)"

fun plain_enc_pre :: "WALPreimage \<Rightarrow> bytes" where
  "plain_enc_pre [] = []"
| "plain_enc_pre ((i, v) # p) = itoa i @ CHR ''|'' # itoa (sint v) @ CHR ''|'' # plain_enc_pre p"

function plain_dec_pre :: "bytes \<Rightarrow> WALPreimage" where
  "plain_dec_pre s =
     (if s = [] then []
      else case next_field s of (i, r) \<Rightarrow>
             if r = [] then [(i, 0)] else (case next_field r of (v, r) \<Rightarrow> (i, word_of_int v) # plain_dec_pre r))"
  by pat_completeness auto
termination
proof (relation "measure length", goal_cases)
  case (2 s i r v r')
  then have "length r < length s" "length r' < length r"
    using next_field_less [of s] next_field_less [of r] by (metis snd_conv)+
  then show ?case by simp
qed simp

declare plain_dec_pre.simps [simp del]

definition plain_json :: store_json where
  "plain_json = \<lparr>enc_Entry = plain_enc_entry, dec_Entry = plain_dec_entry, enc_Pre = plain_enc_pre, dec_Pre = \<lambda>b. Inr (plain_dec_pre b)\<rparr>"

lemma plain_json_ok: "json_ok plain_json"
proof -
  have "plain_dec_entry (plain_enc_entry e) = Inr e" for e
    by (cases e, cases "e_Outcome e"; cases "e_Type e"; cases "e_Phase e")
      (simp_all add: plain_dec_entry_def plain_enc_entry_def)
  moreover have nonempty: "itoa j \<noteq> []" for j
  proof
    assume "itoa j = []"
    then have "Atoi [] = Some j" using Atoi_itoa [of j] by (simp only:)
    then show False by simp
  qed
  have "plain_dec_pre (plain_enc_pre p) = p" for p
  proof (induction p rule: plain_enc_pre.induct)
    case (2 i v p)
    then show ?case by (subst plain_dec_pre.simps) (simp add: nonempty)
  qed (simp add: plain_dec_pre.simps)
  ultimately show ?thesis by (simp add: json_ok_def plain_json_def)
qed

theorem database_implements_store_witness:
  "\<exists>db. db_ops plain_json (db_Open 10) [Write ''t'' [(7, 10)], Debit 7 4, Lock 7 3, Undo ''t''] = Some db \<and>
     db_GetBalance db 7 = Some 10 \<and> db_LockSeq db 7 = Some 3"
proof -
  let ?ops = "[Write ''t'' [(7, 10)], Debit 7 4, Lock 7 3, Undo ''t'']"
  have "list_all op_ok ?ops" "length ?ops \<le> 2 ^ 62" by (simp_all add: key_ok_def int64_range_def)
  from database_implements_store [OF plain_json_ok this, of 10 100]
  obtain db where db: "db_ops plain_json (db_Open 10) ?ops = Some db"
    "\<forall>i. db_GetBalance db i = Some (GetBalance (apply_ops (empty_store 10 100) ?ops) i) \<and>
       db_LockSeq db i = Some (LockSeq (apply_ops (empty_store 10 100) ?ops) i)"
    unfolding Let_def by blast
  have "GetBalance (apply_ops (empty_store 10 100) ?ops) 7 = 10" "LockSeq (apply_ops (empty_store 10 100) ?ops) 7 = 3"
    by (simp_all add: apply_ops_def empty_store_def WALWrite_def ApplyDebitOnly_def GetBalance_def setBalanceTx_def Let_def
        or_unchanged_def AcquireLock_def WALUndo_def LockSeq_def word_sless_alt)
  with db show ?thesis by metis
qed

end
