(* ===== verification/Snapshot.thy ===== *)
theory Snapshot
  imports Store
begin

text \<open>
  Copying the committed state of a replica (\<open>internal/store/snapshot.go\<close>): balances, client
  timestamps and datastore travel, locks and preimages do not.
\<close>

record Snapshot =
  sn_Balances :: "(string, int64) bucket"
  sn_ClientTS :: "(string, int) bucket"
  sn_Datastore :: "DatastoreEntry list"
  sn_DatastoreSeq :: nat

definition ExportSnapshot :: "store \<Rightarrow> Snapshot" where
  "ExportSnapshot s =
     \<lparr>sn_Balances = fold (\<lambda>(item, v). bput (itoa item) v) (balances s) [],
      sn_ClientTS = fold (\<lambda>(k, v). bput k v) (clientTS s) [],
      sn_Datastore = map snd (datastore s),
      sn_DatastoreSeq = (case datastoreSeq s of None \<Rightarrow> 0 | Some n \<Rightarrow> n)\<rparr>"

text \<open>Items are numbers of 64 bits, so the text of one is never out of the range of \<open>Atoi\<close>; the range
  error, which would clamp the number, is left out.\<close>

definition mustAtoi :: "string \<Rightarrow> int" where
  "mustAtoi s = (case Atoi s of None \<Rightarrow> 0 | Some n \<Rightarrow> n)"

text \<open>A client id the database refuses ends the transaction, which then changes nothing.\<close>

definition ImportSnapshot :: "store \<Rightarrow> Snapshot \<Rightarrow> store_error + store" where
  "ImportSnapshot s snap =
    (case find (\<lambda>(k, v). \<not> key_ok k) (sn_ClientTS snap) of
       Some (k, v) \<Rightarrow> Inl (KeyRefused k)
     | None \<Rightarrow> Inr (s\<lparr>balances := fold (\<lambda>(item, v). bput (mustAtoi item) v) (sn_Balances snap) [],
       datastore := fold (\<lambda>e. bput (e_Seq e) e) (sn_Datastore snap) [],
       datastoreSeq := Some (sn_DatastoreSeq snap),
       locks := [],
       wal := [],
       clientTS := fold (\<lambda>(k, v). bput k v) (sn_ClientTS snap) []\<rparr>))"

lemma mustAtoi_itoa [simp]: "mustAtoi (itoa i) = i"
  by (simp add: mustAtoi_def)

lemma exported_balance:
  assumes "bkeys_ok b"
  shows "map_of (fold (\<lambda>(item, v). bput (itoa item) v) b []) (itoa i) = map_of b i"
proof -
  have "distinct (map fst (map (\<lambda>(k, v). (itoa k, v)) b))"
    using bkeys_distinct [OF assms] by (intro distinct_rename) (auto simp: inj_on_def itoa_inj)
  moreover have "map_of (map (\<lambda>(k, v). (itoa k, v)) b) (itoa i) = map_of b i"
    by (rule map_of_rename) (auto simp: inj_on_def itoa_inj)
  ultimately show ?thesis
    by (subst fold_bput_rename) (simp add: fold_bput_lookup split: option.split)
qed

lemma imported_balance:
  assumes "bkeys_ok b"
  defines "exp \<equiv> fold (\<lambda>(item, v). bput (itoa item) v) b []"
  shows "map_of (fold (\<lambda>(item, v). bput (mustAtoi item) v) exp []) i = map_of b i"
proof -
  have keys: "fst ` set exp = itoa ` fst ` set b" by (simp add: exp_def fold_bput_keys)
  have ok: "bkeys_ok exp" unfolding exp_def by (rule fold_bput_ok) simp
  have "distinct (map fst (map (\<lambda>(k, v). (mustAtoi k, v)) exp))"
    using bkeys_distinct [OF ok] keys by (intro distinct_rename) (auto simp: inj_on_def)
  moreover have "map_of (map (\<lambda>(k, v). (mustAtoi k, v)) exp) (mustAtoi (itoa i)) = map_of exp (itoa i)"
    by (rule map_of_rename) (auto simp: inj_on_def keys)
  ultimately show ?thesis
    using exported_balance [OF assms(1), of i]
    by (subst fold_bput_rename) (simp add: fold_bput_lookup exp_def split: option.split)
qed

lemma imported_log:
  assumes "log_ok s"
  shows "fold (\<lambda>e. bput (e_Seq e) e) (map snd (datastore s)) [] = datastore s"
proof -
  have "fold (\<lambda>e. bput (e_Seq e) e) (map snd xs) m = fold (\<lambda>(k, v). bput k v) xs m"
    if "\<forall>(k, e)\<in>set xs. e_Seq e = k" for xs and m :: "(nat, DatastoreEntry) bucket"
    using that by (induction xs arbitrary: m) auto
  then show ?thesis
    using assms fold_bput_id [OF log_ok_sorted [OF assms]] by (simp add: log_ok_def)
qed



end
