(* ===== verification/Messages.thy ===== *)
theory Messages
  imports Crypto Store
begin

text \<open>
  Protocol messages, request digests and signing bytes (\<open>internal/pbft/messages.go\<close>). The JSON
  encoding of a message is Go's \<open>encoding/json\<close>; messages travel decoded here.
\<close>

text \<open>The \<open>Op\<close> string of a request: empty for a client's request, one of the eight operation kinds,
  or any other text a message may carry.\<close>

datatype op_kind =
    OpEmpty
  | OpIntra
  | OpCoordPrepare
  | OpPartPrepareCommit
  | OpPartPrepareAbort
  | OpCoordCommit
  | OpCoordAbort
  | OpPartCommit
  | OpPartAbort
  | OpOther string

fun op_str :: "op_kind \<Rightarrow> string" where
  "op_str OpEmpty = ''''"
| "op_str OpIntra = ''intra''"
| "op_str OpCoordPrepare = ''coord_prepare''"
| "op_str OpPartPrepareCommit = ''part_prepare_commit''"
| "op_str OpPartPrepareAbort = ''part_prepare_abort''"
| "op_str OpCoordCommit = ''coord_commit''"
| "op_str OpCoordAbort = ''coord_abort''"
| "op_str OpPartCommit = ''part_commit''"
| "op_str OpPartAbort = ''part_abort''"
| "op_str (OpOther s) = s"

record Request =
  r_ClientID :: string
  r_TS :: int
  r_X :: int
  r_Y :: int
  r_Amt :: int64
  r_Op :: op_kind

datatype Result = ResultCommitted | ResultAbort | ResultInsufficient

record Reply =
  rp_ClientID :: string
  rp_TS :: int
  rp_Seq :: int
  rp_X :: int
  rp_Y :: int
  rp_Amt :: int64
  rp_Result :: Result

record DiscardSeqMsg =
  ds_Seq :: int
  ds_View :: int

record PrePrepareMsg =
  pp_Seq :: int
  pp_View :: int
  pp_Digest :: bytes
  pp_Req :: Request

text \<open>PREPARE and COMMIT messages have the same three fields.\<close>

record PhaseMsg =
  pm_Seq :: int
  pm_View :: int
  pm_Digest :: bytes

record SigEntry =
  se_ServerID :: int
  se_Sig :: bytes

record CertificateMsg =
  cm_Seq :: int
  cm_View :: int
  cm_Digest :: bytes
  cm_Sigs :: "SigEntry list"

record PreparedEntry =
  pe_Seq :: int
  pe_View :: int
  pe_Digest :: bytes
  pe_Req :: Request

record ViewChangeMsg =
  vc_NewView :: int
  vc_LatestStable :: int
  vc_Prepared :: "PreparedEntry list"
  vc_PendingReqs :: "Request list"

record NewViewMsg =
  nv_NewView :: int
  nv_PrePrepares :: "PrePrepareMsg list"
  nv_ViewChanges :: "ViewChangeMsg list"

subsection \<open>Digests\<close>

text \<open>The local \<open>op\<close> of many functions: the empty operation stands for \<open>intra\<close>.\<close>

definition norm_op :: "op_kind \<Rightarrow> op_kind" where
  "norm_op op = (if op = OpEmpty then OpIntra else op)"

abbreviation sep :: string where
  "sep \<equiv> [CHR ''|'']"

definition transfer_fields :: "Request \<Rightarrow> string" where
  "transfer_fields req = itoa (r_TS req) @ sep @ itoa (r_X req) @ sep @ itoa (r_Y req) @ sep @ itoa (sint (r_Amt req))"

definition digest_input :: "Request \<Rightarrow> bytes" where
  "digest_input req =
     (let op = norm_op (r_Op req) in
      if op = OpIntra then r_ClientID req @ sep @ transfer_fields req
      else r_ClientID req @ sep @ op_str op @ sep @ transfer_fields req)"

definition Digest :: "crypto_ops \<Rightarrow> Request \<Rightarrow> bytes" where
  "Digest C req = sha256 C (digest_input req)"

definition clientReq :: "Request \<Rightarrow> Request" where
  "clientReq req = req\<lparr>r_Op := OpEmpty\<rparr>"

definition TxnID :: "crypto_ops \<Rightarrow> Request \<Rightarrow> string" where
  "TxnID C req = hex (Digest C (clientReq req))"

definition PhaseSigningBytes :: "string \<Rightarrow> int \<Rightarrow> int \<Rightarrow> bytes \<Rightarrow> bytes" where
  "PhaseSigningBytes phase seq view digest = phase @ sep @ itoa seq @ sep @ itoa view @ sep @ hex digest"

lemma clientReq_simps [simp]:
  "r_ClientID (clientReq r) = r_ClientID r" "r_TS (clientReq r) = r_TS r" "r_X (clientReq r) = r_X r"
  "r_Y (clientReq r) = r_Y r" "r_Amt (clientReq r) = r_Amt r" "r_Op (clientReq r) = OpEmpty"
  "clientReq (clientReq r) = clientReq r" "clientReq (r\<lparr>r_Op := op\<rparr>) = clientReq r"
  by (simp_all add: clientReq_def)

lemma TxnID_op [simp]: "TxnID C (r\<lparr>r_Op := op\<rparr>) = TxnID C r" "TxnID C (clientReq r) = TxnID C r"
  by (simp_all add: TxnID_def)

text \<open>Two requests of the same client transaction, whatever phase they are for.\<close>

definition same_txn :: "Request \<Rightarrow> Request \<Rightarrow> bool" where
  "same_txn a b \<longleftrightarrow> r_ClientID a = r_ClientID b \<and> r_TS a = r_TS b \<and> r_X a = r_X b \<and>
     r_Y a = r_Y b \<and> r_Amt a = r_Amt b"

lemma same_txn_clientReq: "same_txn a b \<longleftrightarrow> clientReq a = clientReq b"
  by (cases a; cases b) (auto simp: same_txn_def clientReq_def)

text \<open>A client id or operation name that cannot be confused with the separator.\<close>

definition sep_free :: "Request \<Rightarrow> bool" where
  "sep_free r \<longleftrightarrow> CHR ''|'' \<notin> set (r_ClientID r) \<and> CHR ''|'' \<notin> set (op_str (r_Op r)) \<and>
     (\<forall>s. r_Op r = OpOther s \<longrightarrow> s \<noteq> [] \<and> op_str (r_Op r) \<notin> op_str ` {OpIntra, OpCoordPrepare,
        OpPartPrepareCommit, OpPartPrepareAbort, OpCoordCommit, OpCoordAbort, OpPartCommit, OpPartAbort})"

lemma sint_inj: "sint (a::int64) = sint b \<longleftrightarrow> a = b"
  by (auto intro: signed_word_eqI)

lemma transfer_fields_eq:
  "transfer_fields a = transfer_fields b \<longleftrightarrow>
     r_TS a = r_TS b \<and> r_X a = r_X b \<and> r_Y a = r_Y b \<and> r_Amt a = r_Amt b"
proof
  assume eq: "transfer_fields a = transfer_fields b"
  from sep_split [OF eq [unfolded transfer_fields_def, simplified] itoa_sep itoa_sep]
  have 1: "itoa (r_TS a) = itoa (r_TS b)" and
    r1: "itoa (r_X a) @ CHR ''|'' # itoa (r_Y a) @ CHR ''|'' # itoa (sint (r_Amt a)) =
         itoa (r_X b) @ CHR ''|'' # itoa (r_Y b) @ CHR ''|'' # itoa (sint (r_Amt b))" by auto
  from sep_split [OF r1 itoa_sep itoa_sep]
  have 2: "itoa (r_X a) = itoa (r_X b)" and
    r2: "itoa (r_Y a) @ CHR ''|'' # itoa (sint (r_Amt a)) = itoa (r_Y b) @ CHR ''|'' # itoa (sint (r_Amt b))"
    by auto
  from sep_split [OF r2 itoa_sep itoa_sep] 1 2
  show "r_TS a = r_TS b \<and> r_X a = r_X b \<and> r_Y a = r_Y b \<and> r_Amt a = r_Amt b"
    by (simp add: itoa_inj sint_inj)
qed (simp add: transfer_fields_def)

text \<open>Four fields never read as an operation name followed by four fields: a separator too many.\<close>

lemma transfer_fields_no_op:
  assumes "CHR ''|'' \<notin> set p"
  shows "transfer_fields a \<noteq> p @ sep @ transfer_fields b"
proof
  assume eq: "transfer_fields a = p @ sep @ transfer_fields b"
  from sep_split [OF eq [unfolded transfer_fields_def, simplified] itoa_sep assms]
  have r1: "itoa (r_X a) @ CHR ''|'' # itoa (r_Y a) @ CHR ''|'' # itoa (sint (r_Amt a)) =
      itoa (r_TS b) @ CHR ''|'' # itoa (r_X b) @ CHR ''|'' # itoa (r_Y b) @ CHR ''|'' # itoa (sint (r_Amt b))"
    by auto
  from sep_split [OF r1 itoa_sep itoa_sep]
  have r2: "itoa (r_Y a) @ CHR ''|'' # itoa (sint (r_Amt a)) =
      itoa (r_X b) @ CHR ''|'' # itoa (r_Y b) @ CHR ''|'' # itoa (sint (r_Amt b))" by auto
  from sep_split [OF r2 itoa_sep itoa_sep]
  have "itoa (sint (r_Amt a)) = itoa (r_Y b) @ CHR ''|'' # itoa (sint (r_Amt b))" by auto
  then have "CHR ''|'' \<in> set (itoa (sint (r_Amt a)))" by simp
  then show False using itoa_sep by blast
qed

lemma op_str_inj:
  assumes "sep_free a" "sep_free b" "norm_op (r_Op a) \<noteq> OpIntra" "norm_op (r_Op b) \<noteq> OpIntra"
    and "op_str (r_Op a) = op_str (r_Op b)"
  shows "r_Op a = r_Op b"
  using assms by (cases "r_Op a"; cases "r_Op b") (auto simp: norm_op_def sep_free_def)

definition digest_tail :: "Request \<Rightarrow> string" where
  "digest_tail r = (if norm_op (r_Op r) = OpIntra then transfer_fields r
      else op_str (norm_op (r_Op r)) @ sep @ transfer_fields r)"

lemma digest_input_tail: "digest_input r = r_ClientID r @ CHR ''|'' # digest_tail r"
  by (simp add: digest_input_def digest_tail_def Let_def)

lemma digest_input_inj:
  assumes "sep_free a" "sep_free b"
  shows "digest_input a = digest_input b \<longleftrightarrow> same_txn a b \<and> norm_op (r_Op a) = norm_op (r_Op b)"
proof
  assume eq: "digest_input a = digest_input b"
  from sep_split [OF eq [unfolded digest_input_tail]] assms
  have cl: "r_ClientID a = r_ClientID b" and tl: "digest_tail a = digest_tail b"
    by (auto simp: sep_free_def)
  have ops: "CHR ''|'' \<notin> set (op_str (norm_op (r_Op a)))" "CHR ''|'' \<notin> set (op_str (norm_op (r_Op b)))"
    using assms by (auto simp: sep_free_def norm_op_def)
  have "transfer_fields a = transfer_fields b \<and> norm_op (r_Op a) = norm_op (r_Op b)"
  proof (cases "norm_op (r_Op a) = OpIntra"; cases "norm_op (r_Op b) = OpIntra")
    assume ni: "norm_op (r_Op a) \<noteq> OpIntra" "norm_op (r_Op b) \<noteq> OpIntra"
    with tl have eq2: "op_str (norm_op (r_Op a)) @ CHR ''|'' # transfer_fields a =
        op_str (norm_op (r_Op b)) @ CHR ''|'' # transfer_fields b" by (simp add: digest_tail_def)
    from sep_split [OF eq2 ops] have "op_str (norm_op (r_Op a)) = op_str (norm_op (r_Op b))"
      and "transfer_fields a = transfer_fields b" by auto
    moreover have "norm_op (r_Op a) = r_Op a" "norm_op (r_Op b) = r_Op b"
      using ni by (auto simp: norm_op_def split: if_splits)
    ultimately show ?thesis using op_str_inj [OF assms ni] by simp
  next
    assume "norm_op (r_Op a) = OpIntra" "norm_op (r_Op b) = OpIntra"
    with tl show ?thesis by (simp add: digest_tail_def)
  next
    assume "norm_op (r_Op a) = OpIntra" "norm_op (r_Op b) \<noteq> OpIntra"
    with tl transfer_fields_no_op [OF ops(2), of a b] show ?thesis by (simp add: digest_tail_def)
  next
    assume "norm_op (r_Op a) \<noteq> OpIntra" "norm_op (r_Op b) = OpIntra"
    with tl [symmetric] transfer_fields_no_op [OF ops(1), of b a] show ?thesis by (simp add: digest_tail_def)
  qed
  with cl show "same_txn a b \<and> norm_op (r_Op a) = norm_op (r_Op b)"
    by (simp add: same_txn_def transfer_fields_eq)
next
  assume "same_txn a b \<and> norm_op (r_Op a) = norm_op (r_Op b)"
  then show "digest_input a = digest_input b"
    by (simp add: same_txn_def digest_input_def transfer_fields_def Let_def)
qed

lemma sep_free_clientReq: "CHR ''|'' \<notin> set (r_ClientID r) \<Longrightarrow> sep_free (clientReq r)"
  by (simp add: sep_free_def)

lemma TxnID_eq:
  assumes "CHR ''|'' \<notin> set (r_ClientID a)" "CHR ''|'' \<notin> set (r_ClientID b)"
    and "inj_on (sha256 C) {digest_input (clientReq a), digest_input (clientReq b)}"
  shows "TxnID C a = TxnID C b \<longleftrightarrow> same_txn a b"
proof -
  have "TxnID C a = TxnID C b \<longleftrightarrow> digest_input (clientReq a) = digest_input (clientReq b)"
    using assms(3) by (simp add: TxnID_def hex_inj Digest_def inj_on_def) metis
  also have "\<dots> \<longleftrightarrow> same_txn a b"
    unfolding digest_input_inj [OF sep_free_clientReq [OF assms(1)] sep_free_clientReq [OF assms(2)]]
    by (simp add: same_txn_def)
  finally show ?thesis .
qed

lemma PhaseSigningBytes_inj:
  assumes "CHR ''|'' \<notin> set p" "CHR ''|'' \<notin> set q"
  shows "PhaseSigningBytes p s v d = PhaseSigningBytes q s' v' d' \<longleftrightarrow> p = q \<and> s = s' \<and> v = v' \<and> d = d'"
proof
  assume eq: "PhaseSigningBytes p s v d = PhaseSigningBytes q s' v' d'"
  from sep_split [OF eq [unfolded PhaseSigningBytes_def, simplified] assms]
  have 1: "p = q" and r1: "itoa s @ CHR ''|'' # itoa v @ CHR ''|'' # hex d =
      itoa s' @ CHR ''|'' # itoa v' @ CHR ''|'' # hex d'" by auto
  from sep_split [OF r1 itoa_sep itoa_sep]
  have 2: "itoa s = itoa s'" and r2: "itoa v @ CHR ''|'' # hex d = itoa v' @ CHR ''|'' # hex d'" by auto
  from sep_split [OF r2 itoa_sep itoa_sep] 1 2 show "p = q \<and> s = s' \<and> v = v' \<and> d = d'"
    by (simp add: itoa_inj hex_inj)
qed simp


subsection \<open>Properties\<close>

text \<open>C18: When neither client id contains the separator and SHA-256 does not collide on the two inputs,
  equal digests mean the same client transaction in the same phase (with the empty operation read
  as \<open>intra\<close>), while the WAL key \<open>TxnID\<close> is shared by all phases of one transaction and by nothing else.\<close>

theorem digest_identifies_request:
  assumes "sep_free a" "sep_free b"
    and "inj_on (sha256 C) {digest_input a, digest_input b, digest_input (clientReq a), digest_input (clientReq b)}"
  shows "(Digest C a = Digest C b \<longleftrightarrow> same_txn a b \<and> norm_op (r_Op a) = norm_op (r_Op b)) \<and>
         (TxnID C a = TxnID C b \<longleftrightarrow> same_txn a b)"
proof
  have "Digest C a = Digest C b \<longleftrightarrow> digest_input a = digest_input b"
    using inj_on_eq_iff [OF assms(3), of "digest_input a" "digest_input b"] by (simp add: Digest_def)
  then show "Digest C a = Digest C b \<longleftrightarrow> same_txn a b \<and> norm_op (r_Op a) = norm_op (r_Op b)"
    by (simp add: digest_input_inj [OF assms(1,2)])
  show "TxnID C a = TxnID C b \<longleftrightarrow> same_txn a b"
  proof (rule TxnID_eq)
    show "CHR ''|'' \<notin> set (r_ClientID a)" "CHR ''|'' \<notin> set (r_ClientID b)"
      using assms(1,2) by (simp_all add: sep_free_def)
    show "inj_on (sha256 C) {digest_input (clientReq a), digest_input (clientReq b)}"
      using assms(3) by (rule inj_on_subset) simp
  qed
qed

definition sample_req :: Request where
  "sample_req = \<lparr>r_ClientID = ''c'', r_TS = 1, r_X = 5, r_Y = 7, r_Amt = 3, r_Op = OpEmpty\<rparr>"

theorem digest_identifies_request_witness:
  "Digest plain_crypto sample_req \<noteq> Digest plain_crypto (sample_req\<lparr>r_Op := OpCoordPrepare\<rparr>) \<and>
   TxnID plain_crypto sample_req = TxnID plain_crypto (sample_req\<lparr>r_Op := OpCoordPrepare\<rparr>)"
proof -
  have f: "sep_free sample_req" "sep_free (sample_req\<lparr>r_Op := OpCoordPrepare\<rparr>)"
    by (simp_all add: sep_free_def sample_req_def)
  have i: "inj_on (sha256 plain_crypto) S" for S by (simp add: plain_crypto_def)
  from digest_identifies_request [OF f i] show ?thesis
    by (simp add: norm_op_def same_txn_def) (simp add: sample_req_def)
qed

text \<open>A client id that contains the separator breaks this for every hash function: an ordinary
  intra-shard request of client \<open>c|coord_prepare\<close> has the digest of the coordinator-prepare request of
  client \<open>c\<close> with the same fields.\<close>

theorem digest_separator_collision:
  "Digest C \<lparr>r_ClientID = c @ ''|coord_prepare'', r_TS = ts, r_X = x, r_Y = y, r_Amt = amt, r_Op = OpEmpty\<rparr> =
   Digest C \<lparr>r_ClientID = c, r_TS = ts, r_X = x, r_Y = y, r_Amt = amt, r_Op = OpCoordPrepare\<rparr>"
  by (simp add: Digest_def digest_input_def norm_op_def transfer_fields_def)

text \<open>A phase signature is good for one phase, slot, view and digest only: the bytes signed for
  PREPARE and COMMIT differ, and for either phase they determine sequence, view and digest.\<close>

theorem phase_signatures_separate:
  "PhaseSigningBytes ''PREPARE'' s v d \<noteq> PhaseSigningBytes ''COMMIT'' s' v' d' \<and>
   (PhaseSigningBytes ''COMMIT'' s v d = PhaseSigningBytes ''COMMIT'' s' v' d' \<longleftrightarrow> s = s' \<and> v = v' \<and> d = d') \<and>
   (PhaseSigningBytes ''PREPARE'' s v d = PhaseSigningBytes ''PREPARE'' s' v' d' \<longleftrightarrow> s = s' \<and> v = v' \<and> d = d')"
  by (simp add: PhaseSigningBytes_inj)

end
