(* ===== verification/Engine.thy ===== *)
theory Engine
  imports Messages
begin

text \<open>
  The state of one PBFT replica and its helpers (\<open>internal/pbft/engine.go\<close>, \<open>fault.go\<close>,
  \<open>timers.go\<close>, \<open>hooks.go\<close>, \<open>debug.go\<close>). A handler is a function from the engine to the engine:
  it runs from its first statement to its last without another handler in between, and what it does
  to the outside (messages, client replies, calls of the cross-shard hooks, goroutines it starts,
  signatures it makes) is appended to the list of effects. A loop that polls until a deadline polls
  a store nobody else writes meanwhile.
\<close>

subsection \<open>Faults and timers\<close>

record FaultConfig =
  Alive :: bool
  ByzantineLeader :: bool
  ByzantineBackup :: bool
  ClusterHonestLive :: int

definition DefaultFaultConfig :: FaultConfig where
  "DefaultFaultConfig = \<lparr>Alive = True, ByzantineLeader = False, ByzantineBackup = False, ClusterHonestLive = 0\<rparr>"

text \<open>Durations in milliseconds.\<close>

record Tunables =
  ViewChangeTimeout :: int
  CoordPrepareTimeout :: int
  CoordPrepareAbortTimeout :: int
  LockWaitTimeout :: int
  LockPollInterval :: int
  ClientPrimaryWait :: int
  ClientTotalWait :: int
  AckRetryInterval :: int
  AckRetryDeadline :: int
  SettlePollInterval :: int
  SettleDeadlineBase :: int
  SettlePerTxn :: int
  SettlePerCrossTxn :: int
  ReclaimDrainWait :: int

definition DefaultTunables :: "topology \<Rightarrow> Tunables" where
  "DefaultTunables t =
     (let scale = ClusterSize t * 50; scale = (if scale < 500 then 500 else scale); vc = 2 * scale + 500
      in \<lparr>ViewChangeTimeout = vc, CoordPrepareTimeout = 12 * vc, CoordPrepareAbortTimeout = 45000,
          LockWaitTimeout = scale + 200, LockPollInterval = 10, ClientPrimaryWait = scale + 3000,
          ClientTotalWait = 30000, AckRetryInterval = 300, AckRetryDeadline = 45000,
          SettlePollInterval = 50, SettleDeadlineBase = 15000, SettlePerTxn = 2000,
          SettlePerCrossTxn = 20000, ReclaimDrainWait = 2 * scale + 500\<rparr>)"

definition SettleDeadline :: "Tunables \<Rightarrow> int \<Rightarrow> int" where
  "SettleDeadline t txnCount =
     (let d = SettleDeadlineBase t + txnCount * SettlePerTxn t in if d > 120000 then 120000 else d)"

subsection \<open>State\<close>

text \<open>A nil digest is the empty byte string; the maps of votes are ordered by server id.\<close>

record seqState =
  sDigest :: bytes
  sReq :: Request
  sPrePrepare :: bool
  sDiscarded :: bool
  sPrepares :: "(int, bytes) bucket"
  sPrepareCert :: "CertificateMsg option"
  sCommits :: "(int, bytes) bucket"
  sCommitCert :: "CertificateMsg option"
  sExecuted :: bool

text \<open>Messages between replicas; \<open>Malformed\<close> is a payload that does not decode.\<close>

datatype payload =
    MClientRequest Request
  | MPrePrepare PrePrepareMsg
  | MPrepare PhaseMsg
  | MPrepareCert CertificateMsg
  | MCommit PhaseMsg
  | MCommitCert CertificateMsg
  | MViewChange ViewChangeMsg
  | MNewView NewViewMsg
  | MDiscardSeq DiscardSeqMsg
  | Malformed

record Envelope =
  env_SenderId :: int
  env_Payload :: payload
  env_Signature :: bytes

text \<open>The calls of the \<open>CrossShardHooks\<close> interface.\<close>

datatype hook =
    HandleClientRequestHook Request
  | CrossPrepareDroppedHook Request
  | CoordPrepareExecutedHook Request int CertificateMsg
  | PartPrepareExecutedHook Request int CertificateMsg Outcome
  | CoordCommitExecutedHook Request int CertificateMsg Outcome
  | PartCommitExecutedHook Request int CertificateMsg Outcome

datatype effect =
    ESend int payload bytes
  | EBroadcast payload
  | EReply Reply
  | EHook hook
  | EWatch int Request
  | ESign bytes

record engine =
  eSelf :: int
  eCluster :: int
  eTopo :: topology
  eRing :: KeyRing
  eStore :: store
  eSink :: bool
  eHooks :: bool
  eF :: int
  ePrepareCollect :: int
  eCommitQuorum :: int
  eClientQuorum :: int
  eFault :: FaultConfig
  eTunables :: Tunables
  eClientIngress :: "Request list"
  eInternalIngress :: "Request list"
  eView :: int
  eNextSeq :: int
  eExecSeq :: int
  eLog :: "(int, seqState) bucket"
  eTimeout :: int
  eTimerSet :: bool
  eInViewChange :: bool
  eViewChangeTarget :: int
  eViewChangeSent :: "int set"
  eViewChangeLog :: "(int, (int, ViewChangeMsg) bucket) bucket"
  eViewChangeReceived :: "ViewChangeMsg list"
  eNewViewIssued :: "int set"
  eNewViewLog :: "NewViewMsg list"
  ePendingClients :: "(string, Request) bucket"
  eRecentReplies :: "(string, Reply) bucket"
  eSenderView :: int
  eEffects :: "effect list"

text \<open>The engine \<open>NewEngine\<close> allocates once the server is found in the topology.\<close>

definition fresh_engine :: "int \<Rightarrow> int \<Rightarrow> topology \<Rightarrow> KeyRing \<Rightarrow> store \<Rightarrow> bool \<Rightarrow> engine" where
  "fresh_engine self cluster t ring st sink =
     (let tn = DefaultTunables t in
      \<lparr>eSelf = self, eCluster = cluster, eTopo = t, eRing = ring, eStore = st,
       eSink = sink, eHooks = False, eF = F t, ePrepareCollect = Quorum t,
       eCommitQuorum = Quorum t, eClientQuorum = ClientQuorum t, eFault = DefaultFaultConfig,
       eTunables = tn, eClientIngress = [], eInternalIngress = [], eView = 0, eNextSeq = 1,
       eExecSeq = 1, eLog = [], eTimeout = ViewChangeTimeout tn, eTimerSet = False,
       eInViewChange = False, eViewChangeTarget = 0, eViewChangeSent = {}, eViewChangeLog = [],
       eViewChangeReceived = [], eNewViewIssued = {}, eNewViewLog = [], ePendingClients = [],
       eRecentReplies = [], eSenderView = 0, eEffects = []\<rparr>)"

definition NewEngine :: "int \<Rightarrow> topology \<Rightarrow> KeyRing \<Rightarrow> store \<Rightarrow> bool \<Rightarrow> string + engine" where
  "NewEngine self t ring st sink =
     (case ServerByID t self of
        None \<Rightarrow> Inl (''server '' @ server_name self @ '' not in topology'')
      | Some srv \<Rightarrow> Inr (fresh_engine self (srv_Cluster srv) t ring st sink))"

definition emit :: "effect \<Rightarrow> engine \<Rightarrow> engine" where
  "emit x e = e\<lparr>eEffects := eEffects e @ [x]\<rparr>"

definition on_store :: "(store \<Rightarrow> store) \<Rightarrow> engine \<Rightarrow> engine" where
  "on_store f e = e\<lparr>eStore := f (eStore e)\<rparr>"

definition put_slot :: "int \<Rightarrow> seqState \<Rightarrow> engine \<Rightarrow> engine" where
  "put_slot seq s e = e\<lparr>eLog := bput seq s (eLog e)\<rparr>"

text \<open>\<open>HubSender.Primary\<close>: the sender keeps its own copy of the view.\<close>

definition Primary :: "engine \<Rightarrow> int" where
  "Primary e = (case ServerByID (eTopo e) (eSelf e) of
                  None \<Rightarrow> eSelf e
                | Some srv \<Rightarrow> PrimaryOf (eTopo e) (srv_Cluster srv) (eSenderView e))"

definition is_primary :: "engine \<Rightarrow> bool" where
  "is_primary e \<longleftrightarrow> Primary e = eSelf e"

definition SetFault :: "engine \<Rightarrow> FaultConfig \<Rightarrow> engine" where
  "SetFault e fc = e\<lparr>eFault := (if \<not> Alive fc then fc\<lparr>ByzantineLeader := False, ByzantineBackup := False\<rparr> else fc)\<rparr>"

definition LookupReply :: "crypto_ops \<Rightarrow> engine \<Rightarrow> Request \<Rightarrow> Reply option" where
  "LookupReply C e req = bget (eRecentReplies e) (TxnID C req)"

subsection \<open>Operations and locks\<close>

fun isCommitPhaseOp :: "op_kind \<Rightarrow> bool" where
  "isCommitPhaseOp OpCoordCommit = True"
| "isCommitPhaseOp OpCoordAbort = True"
| "isCommitPhaseOp OpPartCommit = True"
| "isCommitPhaseOp OpPartAbort = True"
| "isCommitPhaseOp _ = False"

definition locksHeldForCommitOp :: "engine \<Rightarrow> Request \<Rightarrow> bool" where
  "locksHeldForCommitOp e req =
     (if r_Op req = OpCoordCommit \<or> r_Op req = OpCoordAbort then IsLocked (eStore e) (r_X req)
      else if r_Op req = OpPartCommit \<or> r_Op req = OpPartAbort then IsLocked (eStore e) (r_Y req)
      else True)"

definition emptyRequest :: Request where
  "emptyRequest = \<lparr>r_ClientID = [], r_TS = 0, r_X = 0, r_Y = 0, r_Amt = 0, r_Op = OpEmpty\<rparr>"

definition emptySlot :: seqState where
  "emptySlot = \<lparr>sDigest = [], sReq = emptyRequest, sPrePrepare = False, sDiscarded = False, sPrepares = [],
                sPrepareCert = None, sCommits = [], sCommitCert = None, sExecuted = False\<rparr>"

text \<open>\<open>ensureSeqLocked\<close> returns the slot and the log that holds it.\<close>

definition ensureSeqLocked :: "engine \<Rightarrow> int \<Rightarrow> seqState \<times> engine" where
  "ensureSeqLocked e seq =
     (case bget (eLog e) seq of
        Some s \<Rightarrow> (s, e)
      | None \<Rightarrow> (emptySlot, put_slot seq emptySlot e))"

definition assignSeq :: "engine \<Rightarrow> int \<times> engine" where
  "assignSeq e = (eNextSeq e, e\<lparr>eNextSeq := eNextSeq e + 1\<rparr>)"

text \<open>The gap check walks the numbers from 1 to \<open>seq - 1\<close>.\<close>

definition gap_ok :: "engine \<Rightarrow> int \<Rightarrow> bool" where
  "gap_ok e i = (if i < eExecSeq e then True
     else (case bget (eLog e) i of None \<Rightarrow> False
           | Some s \<Rightarrow> if sDiscarded s then True else sPrePrepare s))"

definition gapClearLocked :: "engine \<Rightarrow> int \<Rightarrow> bool" where
  "gapClearLocked e seq = list_all (gap_ok e) [1..seq - 1]"

definition opMatchesCluster :: "engine \<Rightarrow> Request \<Rightarrow> bool" where
  "opMatchesCluster e req =
     (case norm_op (r_Op req) of
        OpIntra \<Rightarrow> SameCluster (eTopo e) (r_X req) (r_Y req)
      | OpCoordPrepare \<Rightarrow> ClusterOf (eTopo e) (r_X req) = eCluster e
      | OpCoordCommit \<Rightarrow> ClusterOf (eTopo e) (r_X req) = eCluster e
      | OpCoordAbort \<Rightarrow> ClusterOf (eTopo e) (r_X req) = eCluster e
      | OpPartPrepareCommit \<Rightarrow> ClusterOf (eTopo e) (r_Y req) = eCluster e
      | OpPartPrepareAbort \<Rightarrow> ClusterOf (eTopo e) (r_Y req) = eCluster e
      | OpPartCommit \<Rightarrow> ClusterOf (eTopo e) (r_Y req) = eCluster e
      | OpPartAbort \<Rightarrow> ClusterOf (eTopo e) (r_Y req) = eCluster e
      | _ \<Rightarrow> False)"

fun lockItemsForOp :: "Request \<Rightarrow> int list" where
  "lockItemsForOp req =
     (case r_Op req of
        OpIntra \<Rightarrow> [r_X req, r_Y req]
      | OpEmpty \<Rightarrow> [r_X req, r_Y req]
      | OpCoordPrepare \<Rightarrow> [r_X req]
      | OpPartPrepareCommit \<Rightarrow> [r_Y req]
      | _ \<Rightarrow> [])"

declare lockItemsForOp.simps [simp del]

definition canAcquireForOp :: "store \<Rightarrow> Request \<Rightarrow> bool" where
  "canAcquireForOp st req = list_all (\<lambda>item. \<not> IsLocked st item) (lockItemsForOp req)"

text \<open>Polling rounds the clock leaves before a lock-wait deadline.\<close>

definition lock_rounds :: "engine \<Rightarrow> nat" where
  "lock_rounds e = nat (go_div (LockWaitTimeout (eTunables e)) (LockPollInterval (eTunables e)))"

definition waitAcquirableForOp :: "engine \<Rightarrow> Request \<Rightarrow> bool" where
  "waitAcquirableForOp e req = poll (lock_rounds e) (\<lambda>st. canAcquireForOp st req) (\<lambda>_. eStore e)"

definition awaitStartable :: "engine \<Rightarrow> Request \<Rightarrow> bool" where
  "awaitStartable e req =
     (if r_Op req = OpIntra \<and> GetClientTS (eStore e) (r_ClientID req) \<ge> r_TS req then False
      else if r_Op req = OpIntra \<or> r_Op req = OpCoordPrepare then
        (if \<not> waitAcquirableForOp e req then False
         else \<not> GetBalance (eStore e) (r_X req) <s r_Amt req)
      else if r_Op req = OpPartPrepareCommit then waitAcquirableForOp e req
      else True)"

definition acquireLocksForOp :: "engine \<Rightarrow> int \<Rightarrow> Request \<Rightarrow> bool \<times> engine" where
  "acquireLocksForOp e seq req =
     (case acquire_items AcquireLock seq (lockItemsForOp req) (eStore e) of
        (ok, st) \<Rightarrow> (ok, e\<lparr>eStore := st\<rparr>))"

definition releaseLocksForOp :: "engine \<Rightarrow> Request \<Rightarrow> engine" where
  "releaseLocksForOp e req = on_store (fold (\<lambda>item st. ReleaseLock st item) (lockItemsForOp req)) e"

definition ensureLocksForOp :: "engine \<Rightarrow> int \<Rightarrow> Request \<Rightarrow> bool \<times> engine" where
  "ensureLocksForOp e seq req =
     (case acquire_items AcquireLockForSeq seq (lockItemsForOp req) (eStore e) of
        (ok, st) \<Rightarrow> (ok, e\<lparr>eStore := st\<rparr>))"

definition slot_live :: "seqState \<Rightarrow> bool" where
  "slot_live s \<longleftrightarrow> \<not> (sDiscarded s \<or> sExecuted s \<or> \<not> sPrePrepare s)"

definition clientTxnInFlight :: "crypto_ops \<Rightarrow> engine \<Rightarrow> Request \<Rightarrow> bool" where
  "clientTxnInFlight C e req =
     list_ex (\<lambda>(_, s). slot_live s \<and> TxnID C (clientReq (sReq s)) = TxnID C (clientReq req)) (eLog e)"

definition validateForStartQuick :: "crypto_ops \<Rightarrow> engine \<Rightarrow> Request \<Rightarrow> bool" where
  "validateForStartQuick C e req =
     (let op = norm_op (r_Op req); st = eStore e in
      if op = OpIntra \<and> GetClientTS st (r_ClientID req) \<ge> r_TS req then False
      else (case op of
          OpIntra \<Rightarrow> (if clientTxnInFlight C e req then False else if \<not> canAcquireForOp st req then False
                      else \<not> GetBalance st (r_X req) <s r_Amt req)
        | OpCoordPrepare \<Rightarrow> (if clientTxnInFlight C e req then False else if \<not> canAcquireForOp st req then False
                      else \<not> GetBalance st (r_X req) <s r_Amt req)
        | OpPartPrepareCommit \<Rightarrow> canAcquireForOp st req
        | OpPartPrepareAbort \<Rightarrow> True
        | OpCoordCommit \<Rightarrow> IsLocked st (r_X req) \<and> WALExists st (TxnID C req)
        | OpCoordAbort \<Rightarrow> IsLocked st (r_X req)
        | OpPartCommit \<Rightarrow> IsLocked st (r_Y req) \<and> WALExists st (TxnID C req)
        | OpPartAbort \<Rightarrow> True
        | _ \<Rightarrow> False))"

definition locksReadyForSeq :: "int \<Rightarrow> Request \<Rightarrow> store \<Rightarrow> bool" where
  "locksReadyForSeq seq req st =
     list_all (\<lambda>item. \<not> (IsLocked st item \<and> LockSeq st item \<noteq> seq)) (lockItemsForOp req)"

definition validateRequest :: "engine \<Rightarrow> Request \<Rightarrow> int \<Rightarrow> bool" where
  "validateRequest e req seq =
     (let op = norm_op (r_Op req); st = eStore e in
      if op = OpIntra \<and> GetClientTS st (r_ClientID req) \<ge> r_TS req then False
      else if (op = OpIntra \<or> op = OpCoordPrepare) \<and> GetBalance st (r_X req) <s r_Amt req then False
      else if op = OpPartPrepareAbort \<or> isCommitPhaseOp op then locksHeldForCommitOp e req
      else poll (lock_rounds e) (locksReadyForSeq seq req) (\<lambda>_. eStore e))"

definition clusterHonestLive :: "engine \<Rightarrow> int" where
  "clusterHonestLive e = (let n = ClusterHonestLive (eFault e) in if n \<le> 0 then ClusterSize (eTopo e) else n)"

definition prepareWatchDeadline :: "engine \<Rightarrow> int" where
  "prepareWatchDeadline e =
     (let mult = (if clusterHonestLive e = ePrepareCollect e then 12 else 4)
      in ViewChangeTimeout (eTunables e) * mult)"

definition insufficientBalance :: "engine \<Rightarrow> Request \<Rightarrow> bool" where
  "insufficientBalance e req =
     (let op = norm_op (r_Op req) in
      if op = OpIntra \<or> op = OpCoordPrepare then GetBalance (eStore e) (r_X req) <s r_Amt req else False)"

definition dropCrossPrepare :: "engine \<Rightarrow> Request \<Rightarrow> engine" where
  "dropCrossPrepare e req =
     (if r_Op req \<noteq> OpCoordPrepare \<or> \<not> eHooks e then e else emit (EHook (CrossPrepareDroppedHook req)) e)"

subsection \<open>Replies\<close>

definition sendClientReply :: "crypto_ops \<Rightarrow> engine \<Rightarrow> Reply \<Rightarrow> engine" where
  "sendClientReply C e reply =
     (let key = TxnID C \<lparr>r_ClientID = rp_ClientID reply, r_TS = rp_TS reply, r_X = rp_X reply,
                         r_Y = rp_Y reply, r_Amt = rp_Amt reply, r_Op = OpEmpty\<rparr>;
          e = e\<lparr>eRecentReplies := bput key reply (eRecentReplies e)\<rparr>
      in if eSink e then emit (EReply reply) e else e)"

definition mk_reply :: "Request \<Rightarrow> int \<Rightarrow> Result \<Rightarrow> Reply" where
  "mk_reply req seq result = \<lparr>rp_ClientID = r_ClientID req, rp_TS = r_TS req, rp_Seq = seq, rp_X = r_X req,
                              rp_Y = r_Y req, rp_Amt = r_Amt req, rp_Result = result\<rparr>"

definition sendClientReject :: "crypto_ops \<Rightarrow> engine \<Rightarrow> Request \<Rightarrow> int \<Rightarrow> Result \<Rightarrow> engine" where
  "sendClientReject C e req seq result = sendClientReply C e (mk_reply req seq result)"

definition maybeRejectInsufficient :: "crypto_ops \<Rightarrow> engine \<Rightarrow> Request \<Rightarrow> bool \<Rightarrow> engine" where
  "maybeRejectInsufficient C e req isPrimary =
     (if \<not> isPrimary \<or> \<not> insufficientBalance e req then e
      else sendClientReject C e req 0 ResultInsufficient)"

definition RejectInsufficient :: "crypto_ops \<Rightarrow> engine \<Rightarrow> Request \<Rightarrow> engine" where
  "RejectInsufficient C e req =
     (if \<not> is_primary e then e else sendClientReject C e req 0 ResultInsufficient)"

subsection \<open>Inspection\<close>

definition HasPendingClientPBFT :: "engine \<Rightarrow> bool" where
  "HasPendingClientPBFT e =
     (if list_ex (\<lambda>(_, s). slot_live s \<and> norm_op (r_Op (sReq s)) = OpIntra) (eLog e) then True
      else eClientIngress e \<noteq> [])"

definition CoordPrepareInFlight :: "engine \<Rightarrow> int" where
  "CoordPrepareInFlight e =
     int (length (filter (\<lambda>(_, s). slot_live s \<and> r_Op (sReq s) = OpCoordPrepare) (eLog e)))"

definition StatusCode :: "engine \<Rightarrow> int \<Rightarrow> string" where
  "StatusCode e seq =
     (case bget (eLog e) seq of
        None \<Rightarrow> ''X''
      | Some s \<Rightarrow>
          if \<not> sPrePrepare s then ''X''
          else if sExecuted s then ''E''
          else if sCommitCert s \<noteq> None then ''C''
          else if sPrepareCert s \<noteq> None \<or> int (length (sPrepares s)) \<ge> eCommitQuorum e then ''P''
          else ''PP'')"

definition statusSeqsLocked :: "engine \<Rightarrow> int \<Rightarrow> int list" where
  "statusSeqsLocked e seq = (if seq > 0 then [seq] else map fst (eLog e))"

subsection \<open>A concrete deployment\<close>

text \<open>Two clusters of four servers (\<open>f = 1\<close>) and a hundred items, for the examples of the
  development; with \<open>plain_crypto\<close> the two halves of a key are the same.\<close>

definition sample_topo :: topology where
  "sample_topo = New 2 4 100 9000 ''h'' 10"

definition sample_key :: "int \<Rightarrow> bytes" where
  "sample_key i = CHR ''k'' # itoa i"

definition sample_ring :: "int \<Rightarrow> KeyRing" where
  "sample_ring i = \<lparr>Self = i, Private = sample_key i, Public = sample_key i,
                    peers = map (\<lambda>k. (k, sample_key k)) [1..8]\<rparr>"

definition sample_engine :: "int \<Rightarrow> engine" where
  "sample_engine i =
     fresh_engine i (if i \<le> 4 then 1 else 2) sample_topo (sample_ring i) (empty_store 10 100) True"

lemma upto_small: "[0..0] = [0::int]" "[1..1] = [1::int]" "[1..2] = [1, 2::int]" "[0..1] = [0, 1::int]" "[0..3] = [0, 1, 2, 3::int]"
  "[1..8] = [1, 2, 3, 4, 5, 6, 7, 8::int]"
  by (simp_all add: upto.simps)

lemma sample_topo_simps [simp]:
  "ClusterSize sample_topo = 4" "NumClusters sample_topo = 2" "topology.TotalItems sample_topo = 100"
  "Servers sample_topo = map (\<lambda>i. \<lparr>srv_ID = i, srv_Cluster = (if i \<le> 4 then 1 else 2), srv_Host = ''h'',
     srv_Port = 9000 + i\<rparr>) [1, 2, 3, 4, 5, 6, 7, 8]"
  by (simp_all add: sample_topo_def New_def cluster_block_def upto_small)

lemma sample_engine_new: "1 \<le> i \<Longrightarrow> i \<le> 8 \<Longrightarrow>
  NewEngine i sample_topo (sample_ring i) (empty_store 10 100) True = Inr (sample_engine i)"
  by (auto simp: NewEngine_def ServerByID_def sample_engine_def)

lemma sample_fields [simp]:
  "eSelf (sample_engine i) = i" "eTopo (sample_engine i) = sample_topo" "eView (sample_engine i) = 0"
  "eSenderView (sample_engine i) = 0" "eLog (sample_engine i) = []" "eEffects (sample_engine i) = []"
  "eStore (sample_engine i) = empty_store 10 100" "eRing (sample_engine i) = sample_ring i"
  "eFault (sample_engine i) = DefaultFaultConfig" "eCommitQuorum (sample_engine i) = 3"
  "ePrepareCollect (sample_engine i) = 3" "eExecSeq (sample_engine i) = 1" "eNextSeq (sample_engine i) = 1"
  "eHooks (sample_engine i) = False" "eSink (sample_engine i) = True"
  by (simp_all add: sample_engine_def fresh_engine_def Let_def Quorum_def F_def go_div_def)

lemma sample_primary: "1 \<le> i \<Longrightarrow> i \<le> 4 \<Longrightarrow> Primary (sample_engine i) = 1"
  by (auto simp: Primary_def ServerByID_def PrimaryOf_def go_mod_def go_div_def)

lemma sample_primary_iff: "1 \<le> i \<Longrightarrow> i \<le> 4 \<Longrightarrow> is_primary (sample_engine i) \<longleftrightarrow> i = 1"
  using sample_primary [of i] by (auto simp: is_primary_def)

lemma sample_cluster: "1 \<le> i \<Longrightarrow> i \<le> 50 \<Longrightarrow> ClusterOf sample_topo i = 1"
  by (simp add: ClusterOf_def ItemsPerCluster_def go_div_def)

end
