(* ===== verification/Exec.thy ===== *)
theory Exec
  imports Engine
begin

text \<open>
  Execution of committed slots (\<open>tryExecute\<close> and the \<open>execute*\<close> methods of
  \<open>internal/pbft/engine.go\<close>): what each operation does to the store, which reply and which hook it
  produces, and the loop that applies slots in order.
\<close>

definition mk_entry :: "engine \<Rightarrow> Request \<Rightarrow> TxnKind \<Rightarrow> Phase \<Rightarrow> Outcome \<Rightarrow> DatastoreEntry" where
  "mk_entry e req kind phase outcome =
     \<lparr>e_Seq = 0, e_Type = kind, e_Phase = phase, e_X = r_X req, e_Y = r_Y req, e_Amt = r_Amt req,
      e_BallotOrViewSeq = eView e, e_Outcome = outcome\<rparr>"

definition append_entry :: "Request \<Rightarrow> TxnKind \<Rightarrow> Phase \<Rightarrow> Outcome \<Rightarrow> engine \<Rightarrow> engine" where
  "append_entry req kind phase outcome e =
     on_store (\<lambda>st. AppendDatastore st (mk_entry e req kind phase outcome)) e"

definition call_hook :: "hook \<Rightarrow> engine \<Rightarrow> engine" where
  "call_hook h e = (if eHooks e then emit (EHook h) e else e)"

definition executeIntra :: "crypto_ops \<Rightarrow> engine \<Rightarrow> Request \<Rightarrow> int \<Rightarrow> engine" where
  "executeIntra C e req seq =
     (case ApplyTransfer (eStore e) (r_X req) (r_Y req) (r_Amt req) of
        Inl _ \<Rightarrow> releaseLocksForOp e req
      | Inr st \<Rightarrow>
          (let e = e\<lparr>eStore := st\<rparr>;
               e = append_entry req TxnIntra PhaseCommit OutcomeCommit e;
               e = on_store (\<lambda>st. SetClientTS st (r_ClientID req) (r_TS req)) e;
               e = releaseLocksForOp e req
           in sendClientReply C e (mk_reply req seq ResultCommitted)))"

definition executeCoordPrepare :: "crypto_ops \<Rightarrow> engine \<Rightarrow> Request \<Rightarrow> int \<Rightarrow> CertificateMsg \<Rightarrow> engine" where
  "executeCoordPrepare C e req seq cert =
     (let oldBal = GetBalance (eStore e) (r_X req) in
      case ApplyDebitOnly (eStore e) (r_X req) (r_Amt req) of
        Inl _ \<Rightarrow> on_store (\<lambda>st. ReleaseLock st (r_X req)) e
      | Inr st \<Rightarrow>
          (let e = e\<lparr>eStore := st\<rparr>;
               e = on_store (\<lambda>st. WALWrite st (TxnID C req) (NewWALPreimage [(r_X req, oldBal)])) e;
               e = append_entry req TxnCross PhasePrepare OutcomeCommit e
           in call_hook (CoordPrepareExecutedHook req seq cert) e))"

definition executePartPrepare ::
    "crypto_ops \<Rightarrow> engine \<Rightarrow> Request \<Rightarrow> int \<Rightarrow> CertificateMsg \<Rightarrow> Outcome \<Rightarrow> engine" where
  "executePartPrepare C e req seq cert outcome =
     (let credited =
        (if outcome = OutcomeCommit \<and> \<not> WALExists (eStore e) (TxnID C req) then
           (let oldBal = GetBalance (eStore e) (r_Y req) in
            case ApplyCreditOnly (eStore e) (r_Y req) (r_Amt req) of
              Inl _ \<Rightarrow> Inl (on_store (\<lambda>st. ReleaseLock st (r_Y req)) e)
            | Inr st \<Rightarrow> Inr (on_store (\<lambda>st. WALWrite st (TxnID C req) (NewWALPreimage [(r_Y req, oldBal)]))
                               (e\<lparr>eStore := st\<rparr>)))
         else Inr e)
      in case credited of
           Inl e \<Rightarrow> e
         | Inr e \<Rightarrow> call_hook (PartPrepareExecutedHook req seq cert outcome)
                      (append_entry req TxnCross PhasePrepare outcome e))"

definition executeCoordCommit :: "crypto_ops \<Rightarrow> engine \<Rightarrow> Request \<Rightarrow> int \<Rightarrow> CertificateMsg \<Rightarrow> engine" where
  "executeCoordCommit C e req seq cert =
     (let e = append_entry req TxnCross PhaseCommit OutcomeCommit e;
          e = on_store (\<lambda>st. WALDelete st (TxnID C req)) e;
          e = on_store (\<lambda>st. ReleaseLock st (r_X req)) e;
          e = on_store (\<lambda>st. SetClientTS st (r_ClientID req) (r_TS req)) e;
          e = sendClientReply C e (mk_reply req seq ResultCommitted)
      in call_hook (CoordCommitExecutedHook req seq cert OutcomeCommit) e)"

text \<open>\<open>WALUndo\<close> and \<open>WALDelete\<close>, errors ignored, when a preimage exists.\<close>

definition undo_wal :: "crypto_ops \<Rightarrow> Request \<Rightarrow> engine \<Rightarrow> engine" where
  "undo_wal C req e =
     (if WALExists (eStore e) (TxnID C req)
      then on_store (\<lambda>st. WALDelete (or_unchanged st (WALUndo st (TxnID C req))) (TxnID C req)) e
      else e)"

definition release_if_locked :: "int \<Rightarrow> engine \<Rightarrow> engine" where
  "release_if_locked item e =
     (if IsLocked (eStore e) item then on_store (\<lambda>st. ReleaseLock st item) e else e)"

definition executeCoordAbort :: "crypto_ops \<Rightarrow> engine \<Rightarrow> Request \<Rightarrow> int \<Rightarrow> CertificateMsg \<Rightarrow> engine" where
  "executeCoordAbort C e req seq cert =
     (let e = undo_wal C req e;
          e = append_entry req TxnCross PhaseCommit OutcomeAbort e;
          e = release_if_locked (r_X req) e;
          e = on_store (\<lambda>st. SetClientTS st (r_ClientID req) (r_TS req)) e;
          e = sendClientReply C e (mk_reply req seq ResultAbort)
      in call_hook (CoordCommitExecutedHook req seq cert OutcomeAbort) e)"

definition executePartCommit :: "crypto_ops \<Rightarrow> engine \<Rightarrow> Request \<Rightarrow> int \<Rightarrow> CertificateMsg \<Rightarrow> engine" where
  "executePartCommit C e req seq cert =
     (let e = append_entry req TxnCross PhaseCommit OutcomeCommit e;
          e = on_store (\<lambda>st. WALDelete st (TxnID C req)) e;
          e = release_if_locked (r_Y req) e
      in call_hook (PartCommitExecutedHook req seq cert OutcomeCommit) e)"

definition executePartAbort :: "crypto_ops \<Rightarrow> engine \<Rightarrow> Request \<Rightarrow> int \<Rightarrow> CertificateMsg \<Rightarrow> engine" where
  "executePartAbort C e req seq cert =
     (let e = undo_wal C req e;
          e = append_entry req TxnCross PhaseCommit OutcomeAbort e;
          e = release_if_locked (r_Y req) e
      in call_hook (PartCommitExecutedHook req seq cert OutcomeAbort) e)"

definition execute_op :: "crypto_ops \<Rightarrow> engine \<Rightarrow> Request \<Rightarrow> int \<Rightarrow> CertificateMsg \<Rightarrow> engine" where
  "execute_op C e req seq cert =
     (case norm_op (r_Op req) of
        OpIntra \<Rightarrow> executeIntra C e req seq
      | OpCoordPrepare \<Rightarrow> executeCoordPrepare C e req seq cert
      | OpPartPrepareCommit \<Rightarrow> executePartPrepare C e req seq cert OutcomeCommit
      | OpPartPrepareAbort \<Rightarrow> executePartPrepare C e req seq cert OutcomeAbort
      | OpCoordCommit \<Rightarrow> executeCoordCommit C e req seq cert
      | OpCoordAbort \<Rightarrow> executeCoordAbort C e req seq cert
      | OpPartCommit \<Rightarrow> executePartCommit C e req seq cert
      | OpPartAbort \<Rightarrow> executePartAbort C e req seq cert
      | _ \<Rightarrow> releaseLocksForOp e req)"

text \<open>One round of the loop; \<open>None\<close> is its return.\<close>

definition exec_round :: "crypto_ops \<Rightarrow> engine \<Rightarrow> engine option" where
  "exec_round C e =
     (case bget (eLog e) (eExecSeq e) of
        None \<Rightarrow> None
      | Some s \<Rightarrow>
          if sDiscarded s then Some (e\<lparr>eExecSeq := eExecSeq e + 1\<rparr>)
          else (case sCommitCert s of
                  None \<Rightarrow> None
                | Some cert \<Rightarrow>
                    if sExecuted s then None
                    else (let seq = eExecSeq e;
                              e = put_slot seq (s\<lparr>sExecuted := True\<rparr>) e;
                              e = e\<lparr>eExecSeq := eExecSeq e + 1\<rparr>
                          in Some (execute_op C e (sReq s) seq cert))))"

subsection \<open>What execution leaves alone\<close>

text \<open>Everything but the store, the replies and the effects: one bundle for every \<open>execute\<close>.\<close>

definition same_core :: "engine \<Rightarrow> engine \<Rightarrow> bool" where
  "same_core a b \<longleftrightarrow> (\<exists>st rr ef. b = a\<lparr>eStore := st, eRecentReplies := rr, eEffects := ef\<rparr>)"

lemma same_core_refl [simp]: "same_core e e"
  unfolding same_core_def by (intro exI [of _ "eStore e"] exI [of _ "eRecentReplies e"] exI [of _ "eEffects e"]) simp

lemma same_core_trans: "same_core a b \<Longrightarrow> same_core b c \<Longrightarrow> same_core a c"
  unfolding same_core_def by force

lemma same_core_fields:
  assumes "same_core a b"
  shows "eLog b = eLog a" "eExecSeq b = eExecSeq a" "eNextSeq b = eNextSeq a" "eView b = eView a"
    "eSelf b = eSelf a" "eCluster b = eCluster a" "eTopo b = eTopo a" "eRing b = eRing a"
    "eFault b = eFault a" "eTunables b = eTunables a" "eCommitQuorum b = eCommitQuorum a"
    "ePrepareCollect b = ePrepareCollect a" "eHooks b = eHooks a" "eSink b = eSink a"
    "eSenderView b = eSenderView a" "ePendingClients b = ePendingClients a" "eF b = eF a"
    "eViewChangeLog b = eViewChangeLog a" "eViewChangeSent b = eViewChangeSent a"
    "eNewViewIssued b = eNewViewIssued a" "eTimerSet b = eTimerSet a" "eNewViewLog b = eNewViewLog a"
  using assms by (auto simp: same_core_def)

lemma same_core_eqs [simp]:
  "same_core a (on_store f e) = same_core a e" "same_core a (emit x e) = same_core a e"
  "same_core a (e\<lparr>eStore := st\<rparr>) = same_core a e" "same_core a (e\<lparr>eRecentReplies := rr\<rparr>) = same_core a e"
proof -
  have iff: "same_core a c = same_core a e" if "same_core e c" "same_core c e" for c
    using that same_core_trans by blast
  have upd: "same_core e (e\<lparr>eStore := x, eRecentReplies := y, eEffects := z\<rparr>)"
    "same_core (e\<lparr>eStore := x, eRecentReplies := y, eEffects := z\<rparr>) e" for x y z
    unfolding same_core_def
    by blast (intro exI [of _ "eStore e"] exI [of _ "eRecentReplies e"] exI [of _ "eEffects e"], simp)
  show "same_core a (on_store f e) = same_core a e"
    using iff [OF upd(1) [where x = "f (eStore e)" and y = "eRecentReplies e" and z = "eEffects e"] upd(2)] by (simp add: on_store_def)
  show "same_core a (emit x e) = same_core a e"
    using iff [OF upd(1) [where x = "eStore e" and y = "eRecentReplies e" and z = "eEffects e @ [x]"] upd(2)] by (simp add: emit_def)
  show "same_core a (e\<lparr>eStore := st\<rparr>) = same_core a e"
    using iff [OF upd(1) [where x = st and y = "eRecentReplies e" and z = "eEffects e"] upd(2)] by simp
  show "same_core a (e\<lparr>eRecentReplies := rr\<rparr>) = same_core a e"
    using iff [OF upd(1) [where x = "eStore e" and y = rr and z = "eEffects e"] upd(2)] by simp
qed

lemma same_core_steps [simp]:
  "same_core a (releaseLocksForOp e req) = same_core a e" "same_core a (append_entry req k p out e) = same_core a e"
  "same_core a (call_hook h e) = same_core a e" "same_core a (undo_wal C req e) = same_core a e"
  "same_core a (release_if_locked i e) = same_core a e"
  "same_core a (sendClientReply C e r) = same_core a e" "same_core a (dropCrossPrepare e req) = same_core a e"
  by (simp_all add: releaseLocksForOp_def append_entry_def call_hook_def undo_wal_def release_if_locked_def
      sendClientReply_def dropCrossPrepare_def Let_def)

lemma same_core_execute:
  "same_core e (executeIntra C e req seq)" "same_core e (executeCoordPrepare C e req seq cert)"
  "same_core e (executePartPrepare C e req seq cert out)"
  "same_core e (executeCoordCommit C e req seq cert)" "same_core e (executeCoordAbort C e req seq cert)"
  "same_core e (executePartCommit C e req seq cert)" "same_core e (executePartAbort C e req seq cert)"
  by (simp_all add: executeIntra_def executeCoordPrepare_def executePartPrepare_def executeCoordCommit_def
      executeCoordAbort_def executePartCommit_def executePartAbort_def Let_def split: sum.split)

lemma same_core_execute_op: "same_core e (execute_op C e req seq cert)"
  unfolding execute_op_def
  by (cases "norm_op (r_Op req)")
     (simp_all add: same_core_execute)

subsection \<open>The execution loop\<close>

lemma exec_round_Some:
  assumes "exec_round C e = Some e'"
  obtains s where "bget (eLog e) (eExecSeq e) = Some s" "eExecSeq e' = eExecSeq e + 1"
    "sDiscarded s \<and> eLog e' = eLog e \<and> eStore e' = eStore e \<and> eView e' = eView e \<or>
     \<not> sDiscarded s \<and> \<not> sExecuted s \<and> sCommitCert s \<noteq> None \<and>
       eLog e' = bput (eExecSeq e) (s\<lparr>sExecuted := True\<rparr>) (eLog e) \<and> eView e' = eView e \<and>
       eStore e' = eStore (execute_op C (put_slot (eExecSeq e) (s\<lparr>sExecuted := True\<rparr>) e\<lparr>eExecSeq := eExecSeq e + 1\<rparr>)
                             (sReq s) (eExecSeq e) (the (sCommitCert s)))"
proof -
  obtain s where s: "bget (eLog e) (eExecSeq e) = Some s"
    using assms by (auto simp: exec_round_def split: option.splits)
  show thesis
  proof (cases "sDiscarded s")
    case True
    then show thesis using assms s by (intro that [of s]) (auto simp: exec_round_def)
  next
    case False
    let ?e = "put_slot (eExecSeq e) (s\<lparr>sExecuted := True\<rparr>) e\<lparr>eExecSeq := eExecSeq e + 1\<rparr>"
    from False assms s obtain cert where c: "sCommitCert s = Some cert" "\<not> sExecuted s"
      "e' = execute_op C ?e (sReq s) (eExecSeq e) cert"
        by (auto simp: exec_round_def Let_def put_slot_def split: option.splits if_splits)
    have core: "same_core ?e e'" unfolding c(3) by (rule same_core_execute_op)
    show thesis
      by (rule that [of s]) (use same_core_fields [OF core] False c s in \<open>auto simp: put_slot_def\<close>)
  qed
qed

lemma bget_key: "bget b k = Some v \<Longrightarrow> k \<in> fst ` set b"
  by (force dest: map_of_SomeD)

lemma exec_round_keys:
  assumes "exec_round C e = Some e'"
  shows "fst ` set (eLog e') = fst ` set (eLog e)"
proof -
  obtain s where s: "bget (eLog e) (eExecSeq e) = Some s"
    and new: "eLog e' = eLog e \<or> eLog e' = bput (eExecSeq e) (s\<lparr>sExecuted := True\<rparr>) (eLog e)"
    using assms by (rule exec_round_Some) blast+
  have "eExecSeq e \<in> fst ` set (eLog e)" using s by (rule bget_key)
  then show ?thesis using new by (metis bput_keys insert_absorb)
qed

text \<open>The loop ends: every round moves past one of the finitely many slots of the log.\<close>

function tryExecute :: "crypto_ops \<Rightarrow> engine \<Rightarrow> engine" where
  "tryExecute C e = (case exec_round C e of None \<Rightarrow> e | Some e' \<Rightarrow> tryExecute C e')"
  by pat_completeness auto
termination
proof (relation "measure (\<lambda>(C, e). card {k \<in> fst ` set (eLog e). eExecSeq e \<le> k})")
  show "wf (measure (\<lambda>(C, e). card {k \<in> fst ` set (eLog e). eExecSeq e \<le> k}))" by simp
next
  fix C :: crypto_ops and e e'
  assume round: "exec_round C e = Some e'"
  then obtain s where s: "bget (eLog e) (eExecSeq e) = Some s" and next_seq: "eExecSeq e' = eExecSeq e + 1"
    by (rule exec_round_Some)
  have "eExecSeq e \<in> fst ` set (eLog e)" using s by (rule bget_key)
  moreover from this have "eExecSeq e \<notin> {k \<in> fst ` set (eLog e). eExecSeq e + 1 \<le> k}" by simp
  ultimately have "{k \<in> fst ` set (eLog e'). eExecSeq e' \<le> k} \<subset> {k \<in> fst ` set (eLog e). eExecSeq e \<le> k}"
    unfolding exec_round_keys [OF round] next_seq by (intro psubsetI subsetI) (simp, force)
  then have "card {k \<in> fst ` set (eLog e'). eExecSeq e' \<le> k} < card {k \<in> fst ` set (eLog e). eExecSeq e \<le> k}"
    by (intro psubset_card_mono) auto
  then show "((C, e'), (C, e)) \<in> measure (\<lambda>(C, e). card {k \<in> fst ` set (eLog e). eExecSeq e \<le> k})" by simp
qed

declare tryExecute.simps [simp del]

text \<open>\<open>DrainExecute\<close> repeats the loop until \<open>execSeq\<close> stands still; one call is already enough.\<close>

lemma tryExecute_stuck: "exec_round C (tryExecute C e) = None"
proof (induction C e rule: tryExecute.induct)
  case (1 C e)
  then show ?case by (cases "exec_round C e") (simp_all add: tryExecute.simps [of C e])
qed

lemma tryExecute_idem: "tryExecute C (tryExecute C e) = tryExecute C e"
  by (subst tryExecute.simps) (simp add: tryExecute_stuck)

function DrainExecute :: "crypto_ops \<Rightarrow> engine \<Rightarrow> engine" where
  "DrainExecute C e =
     (let before = eExecSeq e; e' = tryExecute C e
      in if eExecSeq e' = before then e' else DrainExecute C e')"
  by pat_completeness auto
termination
proof (relation "measure (\<lambda>(C, e). if exec_round C e = None then 0 else 1)")
  fix C e before e'
  assume "before = eExecSeq e" "e' = tryExecute C e" "eExecSeq e' \<noteq> before"
  moreover from this have "exec_round C e \<noteq> None" by (cases "exec_round C e") (simp_all add: tryExecute.simps [of C e])
  ultimately show "((C, e'), C, e) \<in> measure (\<lambda>(C, e). if exec_round C e = None then 0 else 1)"
    by (simp add: tryExecute_stuck)
qed simp

lemma DrainExecute_eq: "DrainExecute C e = tryExecute C e"
proof (cases "eExecSeq (tryExecute C e) = eExecSeq e")
  case True
  then show ?thesis by (simp add: DrainExecute.simps [of C e] Let_def del: DrainExecute.simps)
next
  case False
  then show ?thesis
    by (simp add: DrainExecute.simps [of C e] DrainExecute.simps [of C "tryExecute C e"] tryExecute_idem Let_def
        del: DrainExecute.simps)
qed

declare DrainExecute.simps [simp del]

end
