(* ===== verification/Ledger.thy ===== *)
theory Ledger
  imports Exec
begin

text \<open>
  The abstract specification of execution: a ledger of balances, history, client timestamps and
  pending preimages, and one step of it per executed request. The engine refines it: running
  \<open>tryExecute\<close> on a replica is folding \<open>ledger_step\<close> over the requests of the slots it executes, so
  replicas whose logs agree reach the same ledger; the two-phase commit properties are then
  properties of runs of this ledger.
\<close>

record ledger =
  lg_bal :: "int \<Rightarrow> int64"
  lg_hist :: "DatastoreEntry list"
  lg_ts :: "string \<Rightarrow> int"
  lg_pre :: "string \<Rightarrow> WALPreimage option"

text \<open>The history forgets the numbers a replica gives its entries and the view it was in.\<close>

definition anon :: "DatastoreEntry \<Rightarrow> DatastoreEntry" where
  "anon e = e\<lparr>e_Seq := 0, e_BallotOrViewSeq := 0\<rparr>"

definition ledger_of :: "store \<Rightarrow> ledger" where
  "ledger_of s = \<lparr>lg_bal = GetBalance s, lg_hist = map anon (Datastore s), lg_ts = GetClientTS s,
                  lg_pre = bget (wal s)\<rparr>"

definition lg_entry :: "Request \<Rightarrow> TxnKind \<Rightarrow> Phase \<Rightarrow> Outcome \<Rightarrow> ledger \<Rightarrow> ledger" where
  "lg_entry req kind phase outcome l =
     l\<lparr>lg_hist := lg_hist l @ [\<lparr>e_Seq = 0, e_Type = kind, e_Phase = phase, e_X = r_X req, e_Y = r_Y req,
                               e_Amt = r_Amt req, e_BallotOrViewSeq = 0, e_Outcome = outcome\<rparr>]\<rparr>"

definition lg_stamp :: "Request \<Rightarrow> ledger \<Rightarrow> ledger" where
  "lg_stamp req l = (if key_ok (r_ClientID req) then l\<lparr>lg_ts := (lg_ts l)(r_ClientID req := r_TS req)\<rparr> else l)"

definition lg_forget :: "string \<Rightarrow> ledger \<Rightarrow> ledger" where
  "lg_forget t l = l\<lparr>lg_pre := (lg_pre l)(t := None)\<rparr>"

definition lg_undo :: "string \<Rightarrow> ledger \<Rightarrow> ledger" where
  "lg_undo t l =
     (case lg_pre l t of
        None \<Rightarrow> l
      | Some pre \<Rightarrow> lg_forget t (l\<lparr>lg_bal := fold (\<lambda>(i, b) f. f(i := b)) pre (lg_bal l)\<rparr>))"

text \<open>A balance moves and its old value is kept as the preimage of the transaction.\<close>

definition lg_move :: "string \<Rightarrow> int \<Rightarrow> int64 \<Rightarrow> ledger \<Rightarrow> ledger" where
  "lg_move t item bal l =
     l\<lparr>lg_bal := (lg_bal l)(item := bal), lg_pre := (lg_pre l)(t \<mapsto> [(item, lg_bal l item)])\<rparr>"

definition ledger_step :: "crypto_ops \<Rightarrow> Request \<Rightarrow> ledger \<Rightarrow> ledger" where
  "ledger_step C req l =
     (let x = r_X req; y = r_Y req; amt = r_Amt req; t = TxnID C req in
      case norm_op (r_Op req) of
        OpIntra \<Rightarrow>
          if lg_bal l x <s amt then l
          else lg_stamp req (lg_entry req TxnIntra PhaseCommit OutcomeCommit
                 (l\<lparr>lg_bal := (lg_bal l)(x := lg_bal l x - amt, y := lg_bal l y + amt)\<rparr>))
      | OpCoordPrepare \<Rightarrow>
          if lg_bal l x <s amt then l
          else lg_entry req TxnCross PhasePrepare OutcomeCommit (lg_move t x (lg_bal l x - amt) l)
      | OpPartPrepareCommit \<Rightarrow>
          lg_entry req TxnCross PhasePrepare OutcomeCommit
            (if lg_pre l t = None then lg_move t y (lg_bal l y + amt) l else l)
      | OpPartPrepareAbort \<Rightarrow> lg_entry req TxnCross PhasePrepare OutcomeAbort l
      | OpCoordCommit \<Rightarrow> lg_stamp req (lg_forget t (lg_entry req TxnCross PhaseCommit OutcomeCommit l))
      | OpCoordAbort \<Rightarrow> lg_stamp req (lg_entry req TxnCross PhaseCommit OutcomeAbort (lg_undo t l))
      | OpPartCommit \<Rightarrow> lg_forget t (lg_entry req TxnCross PhaseCommit OutcomeCommit l)
      | OpPartAbort \<Rightarrow> lg_entry req TxnCross PhaseCommit OutcomeAbort (lg_undo t l)
      | _ \<Rightarrow> l)"

lemmas lg_defs = lg_entry_def lg_stamp_def lg_forget_def lg_undo_def lg_move_def

subsection \<open>One request\<close>

lemma abs_set: "ledger_of (setBalanceTx i b s) = (ledger_of s)\<lparr>lg_bal := (lg_bal (ledger_of s))(i := b)\<rparr>"
  by (simp add: ledger_of_def store_simps Datastore_def fun_eq_iff)

lemma abs_release: "ledger_of (ReleaseLock s i) = ledger_of s"
  by (simp add: ledger_of_def store_simps Datastore_def fun_eq_iff)

lemma abs_release_all: "ledger_of (fold (\<lambda>i s. ReleaseLock s i) is s) = ledger_of s"
  by (induction "is" arbitrary: s) (simp_all add: abs_release)

lemma abs_write: "ledger_of (WALWrite s t p) = (ledger_of s)\<lparr>lg_pre := (lg_pre (ledger_of s))(t \<mapsto> p)\<rparr>"
  by (simp add: ledger_of_def store_simps Datastore_def fun_eq_iff) (simp add: WALWrite_def)

lemma abs_delete: "ledger_of (WALDelete s t) = lg_forget t (ledger_of s)"
  by (simp add: ledger_of_def lg_forget_def store_simps Datastore_def fun_eq_iff) (simp add: WALDelete_def)

lemma abs_stamp: "ledger_of (SetClientTS s c n) =
    (if key_ok c then (ledger_of s)\<lparr>lg_ts := (lg_ts (ledger_of s))(c := n)\<rparr> else ledger_of s)"
  by (simp add: ledger_of_def store_simps Datastore_def fun_eq_iff)

lemma abs_append:
  "store_ok s \<Longrightarrow> ledger_of (AppendDatastore s e) = (ledger_of s)\<lparr>lg_hist := lg_hist (ledger_of s) @ [anon e]\<rparr>"
  by (simp add: ledger_of_def store_simps Datastore_def fun_eq_iff AppendDatastore_log store_ok_def anon_def)

lemma abs_undo_fold:
  "ledger_of (fold (\<lambda>(i, b). setBalanceTx i b) pre s) =
     (ledger_of s)\<lparr>lg_bal := fold (\<lambda>(i, b) f. f(i := b)) pre (lg_bal (ledger_of s))\<rparr>"
  by (induction pre arbitrary: s) (auto simp: abs_set)

lemmas abs_simps = abs_set abs_release abs_release_all abs_write abs_delete abs_stamp abs_append abs_undo_fold

lemma store_ok_steps [simp]:
  assumes "store_ok s"
  shows "store_ok (setBalanceTx i b s)" "store_ok (ReleaseLock s i)" "store_ok (WALWrite s t p)"
    "store_ok (WALDelete s t)" "store_ok (SetClientTS s c n)" "store_ok (AppendDatastore s e)"
  using assms store_ok_setBalance store_ok_locks(3) store_ok_apply_op [OF assms, of "Write t p"]
    store_ok_apply_op [OF assms, of "Delete t"] store_ok_apply_op [OF assms, of "Stamp c n"]
    store_ok_apply_op [OF assms, of "Append e"]
  by simp_all

lemma store_ok_release_all [simp]: "store_ok s \<Longrightarrow> store_ok (fold (\<lambda>i s. ReleaseLock s i) is s)"
  by (induction "is" arbitrary: s) simp_all

lemma store_ok_undo [simp]: "store_ok s \<Longrightarrow> store_ok (or_unchanged s (WALUndo s t))"
  using store_ok_apply_op [of s "Undo t"] by simp

lemma eStore_steps [simp]:
  "eStore (on_store f e) = f (eStore e)" "eStore (emit x e) = eStore e" "eStore (put_slot seq s e) = eStore e"
  "eStore (call_hook h e) = eStore e" "eStore (sendClientReply C e r) = eStore e"
  "eStore (dropCrossPrepare e req) = eStore e"
  "eStore (releaseLocksForOp e req) = fold (\<lambda>i st. ReleaseLock st i) (lockItemsForOp req) (eStore e)"
  "eStore (append_entry req k p out e) = AppendDatastore (eStore e) (mk_entry e req k p out)"
  by (simp_all add: on_store_def emit_def put_slot_def call_hook_def sendClientReply_def dropCrossPrepare_def
      releaseLocksForOp_def append_entry_def Let_def)

lemma anon_mk_entry [simp]:
  "anon (mk_entry e req k p out) = \<lparr>e_Seq = 0, e_Type = k, e_Phase = p, e_X = r_X req, e_Y = r_Y req,
     e_Amt = r_Amt req, e_BallotOrViewSeq = 0, e_Outcome = out\<rparr>"
  by (simp add: anon_def mk_entry_def)

lemma undo_wal_refines:
  assumes "store_ok (eStore e)"
  shows "store_ok (eStore (undo_wal C req e)) \<and>
    ledger_of (eStore (undo_wal C req e)) = lg_undo (TxnID C req) (ledger_of (eStore e))"
proof (cases "bget (wal (eStore e)) (TxnID C req)")
  case None
  then show ?thesis using assms by (simp add: undo_wal_def WALExists_def lg_undo_def ledger_of_def)
next
  case (Some pre)
  then have "ledger_of (WALDelete (or_unchanged (eStore e) (WALUndo (eStore e) (TxnID C req))) (TxnID C req)) =
      lg_undo (TxnID C req) (ledger_of (eStore e))"
    by (simp add: WALUndo_def or_unchanged_def abs_simps lg_undo_def) (simp add: ledger_of_def)
  then show ?thesis using assms Some by (simp add: undo_wal_def WALExists_def)
qed

lemma release_if_refines:
  "store_ok (eStore e) \<Longrightarrow> store_ok (eStore (release_if_locked i e)) \<and>
     ledger_of (eStore (release_if_locked i e)) = ledger_of (eStore e)"
  by (simp add: release_if_locked_def abs_simps)

lemma ledger_bal: "lg_bal (ledger_of s) = GetBalance s" "lg_pre (ledger_of s) = bget (wal s)"
  by (simp_all add: ledger_of_def)

lemma execute_finish_refines:
  assumes ok: "store_ok (eStore e)"
  shows "store_ok (eStore (executeCoordAbort C e req seq cert)) \<and>
     ledger_of (eStore (executeCoordAbort C e req seq cert)) =
       lg_stamp req (lg_entry req TxnCross PhaseCommit OutcomeAbort (lg_undo (TxnID C req) (ledger_of (eStore e))))"
    and "store_ok (eStore (executePartAbort C e req seq cert)) \<and>
     ledger_of (eStore (executePartAbort C e req seq cert)) =
       lg_entry req TxnCross PhaseCommit OutcomeAbort (lg_undo (TxnID C req) (ledger_of (eStore e)))"
    and "store_ok (eStore (executePartCommit C e req seq cert)) \<and>
     ledger_of (eStore (executePartCommit C e req seq cert)) =
       lg_forget (TxnID C req) (lg_entry req TxnCross PhaseCommit OutcomeCommit (ledger_of (eStore e)))"
    and "store_ok (eStore (executeCoordCommit C e req seq cert)) \<and>
     ledger_of (eStore (executeCoordCommit C e req seq cert)) =
       lg_stamp req (lg_forget (TxnID C req) (lg_entry req TxnCross PhaseCommit OutcomeCommit (ledger_of (eStore e))))"
  using undo_wal_refines [OF ok, of C req] ok
  by (simp_all add: executeCoordAbort_def executePartAbort_def executePartCommit_def executeCoordCommit_def
      Let_def release_if_refines abs_simps lg_entry_def lg_stamp_def)

lemma execute_prepare_refines:
  assumes ok: "store_ok (eStore e)"
  shows "store_ok (eStore (executeCoordPrepare C e req seq cert)) \<and>
     ledger_of (eStore (executeCoordPrepare C e req seq cert)) =
       (if GetBalance (eStore e) (r_X req) <s r_Amt req then ledger_of (eStore e)
        else lg_entry req TxnCross PhasePrepare OutcomeCommit
               (lg_move (TxnID C req) (r_X req) (GetBalance (eStore e) (r_X req) - r_Amt req) (ledger_of (eStore e))))"
    and "store_ok (eStore (executePartPrepare C e req seq cert out)) \<and>
     ledger_of (eStore (executePartPrepare C e req seq cert out)) =
       lg_entry req TxnCross PhasePrepare out
         (if out = OutcomeCommit \<and> bget (wal (eStore e)) (TxnID C req) = None
          then lg_move (TxnID C req) (r_Y req) (GetBalance (eStore e) (r_Y req) + r_Amt req) (ledger_of (eStore e))
          else ledger_of (eStore e))"
  using ok
  by (simp_all add: executeCoordPrepare_def executePartPrepare_def ApplyDebitOnly_def ApplyCreditOnly_def
      Let_def abs_simps lg_entry_def lg_move_def NewWALPreimage_def ledger_bal WALExists_def)

lemma execute_intra_refines:
  assumes ok: "store_ok (eStore e)"
  shows "store_ok (eStore (executeIntra C e req seq)) \<and>
     ledger_of (eStore (executeIntra C e req seq)) =
       (let l = ledger_of (eStore e); x = r_X req; y = r_Y req; amt = r_Amt req in
        if lg_bal l x <s amt then l
        else lg_stamp req (lg_entry req TxnIntra PhaseCommit OutcomeCommit
               (l\<lparr>lg_bal := (lg_bal l)(x := lg_bal l x - amt, y := lg_bal l y + amt)\<rparr>)))"
  using ok
  by (simp add: executeIntra_def ApplyTransfer_def Let_def abs_simps lg_entry_def lg_stamp_def ledger_bal)

lemma execute_op_refines:
  assumes ok: "store_ok (eStore e)"
  shows "store_ok (eStore (execute_op C e req seq cert)) \<and>
     ledger_of (eStore (execute_op C e req seq cert)) = ledger_step C req (ledger_of (eStore e))"
proof (cases "norm_op (r_Op req)")
  case OpIntra
  then show ?thesis
    using execute_intra_refines [OF ok, of C req seq] by (simp add: execute_op_def ledger_step_def Let_def)
qed (use execute_prepare_refines [OF ok, of C req seq cert] execute_finish_refines [OF ok, of C req seq cert] ok
     in \<open>simp_all add: execute_op_def ledger_step_def Let_def abs_simps ledger_bal\<close>)

subsection \<open>A run of the execution loop\<close>

text \<open>The requests of the slots \<open>lo \<le> k < hi\<close> that are not discarded, in order.\<close>

definition slot_req :: "engine \<Rightarrow> int \<Rightarrow> Request list" where
  "slot_req e k = (case bget (eLog e) k of None \<Rightarrow> [] | Some s \<Rightarrow> if sDiscarded s then [] else [sReq s])"

definition slot_reqs :: "engine \<Rightarrow> int \<Rightarrow> int \<Rightarrow> Request list" where
  "slot_reqs e lo hi = concat (map (slot_req e) [lo..hi - 1])"

lemma slot_reqs_step: "lo < hi \<Longrightarrow> slot_reqs e lo hi = slot_req e lo @ slot_reqs e (lo + 1) hi"
  by (simp add: slot_reqs_def upto_rec1)

lemma slot_reqs_cong:
  "(\<And>k. lo \<le> k \<Longrightarrow> k < hi \<Longrightarrow> slot_req a k = slot_req b k) \<Longrightarrow> slot_reqs a lo hi = slot_reqs b lo hi"
  unfolding slot_reqs_def by (rule arg_cong [where f = concat], rule map_cong) auto

definition runnable :: "seqState \<Rightarrow> bool" where
  "runnable s \<longleftrightarrow> sDiscarded s \<or> sCommitCert s \<noteq> None \<and> \<not> sExecuted s"

definition ran :: "seqState \<Rightarrow> seqState" where
  "ran s = (if sDiscarded s then s else s\<lparr>sExecuted := True\<rparr>)"

lemma exec_round_log:
  assumes "exec_round C e = Some e'"
  shows "\<exists>s. bget (eLog e) (eExecSeq e) = Some s \<and> runnable s \<and> eExecSeq e' = eExecSeq e + 1 \<and>
    (\<forall>k. bget (eLog e') k = (if k = eExecSeq e then Some (ran s) else bget (eLog e) k))"
proof -
  obtain s where s: "bget (eLog e) (eExecSeq e) = Some s" "eExecSeq e' = eExecSeq e + 1"
    and new: "sDiscarded s \<and> eLog e' = eLog e \<or>
      \<not> sDiscarded s \<and> \<not> sExecuted s \<and> sCommitCert s \<noteq> None \<and>
      eLog e' = bput (eExecSeq e) (s\<lparr>sExecuted := True\<rparr>) (eLog e)"
    using assms by (rule exec_round_Some) blast+
  then show ?thesis by (intro exI [of _ s]) (auto simp: runnable_def ran_def)
qed

lemma exec_round_ledger:
  assumes r: "exec_round C e = Some e'" and ok: "store_ok (eStore e)"
  shows "store_ok (eStore e') \<and>
    ledger_of (eStore e') = fold (ledger_step C) (slot_req e (eExecSeq e)) (ledger_of (eStore e))"
proof -
  obtain s where s: "bget (eLog e) (eExecSeq e) = Some s"
    and new: "sDiscarded s \<and> eStore e' = eStore e \<or> \<not> sDiscarded s \<and>
      eStore e' = eStore (execute_op C (put_slot (eExecSeq e) (s\<lparr>sExecuted := True\<rparr>) e\<lparr>eExecSeq := eExecSeq e + 1\<rparr>)
                             (sReq s) (eExecSeq e) (the (sCommitCert s)))"
    using r by (rule exec_round_Some) blast+
  let ?e = "put_slot (eExecSeq e) (s\<lparr>sExecuted := True\<rparr>) e\<lparr>eExecSeq := eExecSeq e + 1\<rparr>"
  have st: "eStore ?e = eStore e" by (simp add: put_slot_def)
  from new show ?thesis
    using execute_op_refines [of ?e C "sReq s" "eExecSeq e" "the (sCommitCert s)"] ok
    by (auto simp: s slot_req_def st)
qed

lemma tryExecute_log:
  "eExecSeq e \<le> eExecSeq (tryExecute C e) \<and>
   (\<forall>k. if eExecSeq e \<le> k \<and> k < eExecSeq (tryExecute C e)
        then \<exists>s. bget (eLog e) k = Some s \<and> runnable s \<and> bget (eLog (tryExecute C e)) k = Some (ran s)
        else bget (eLog (tryExecute C e)) k = bget (eLog e) k)"
proof (induction C e rule: tryExecute.induct)
  case (1 C e)
  show ?case
  proof (cases "exec_round C e")
    case None
    then show ?thesis by (auto simp: tryExecute.simps [of C e])
  next
    case (Some e1)
    let ?n = "eExecSeq e" and ?f = "tryExecute C e1"
    obtain s where s: "bget (eLog e) ?n = Some s" "runnable s" and n1: "eExecSeq e1 = ?n + 1"
      and log: "\<And>k. bget (eLog e1) k = (if k = ?n then Some (ran s) else bget (eLog e) k)"
      using exec_round_log [OF Some] by blast
    note IH = 1 [OF Some, unfolded n1]
    have le: "?n + 1 \<le> eExecSeq ?f" using IH by blast
    have "if ?n \<le> k \<and> k < eExecSeq ?f
        then \<exists>s. bget (eLog e) k = Some s \<and> runnable s \<and> bget (eLog ?f) k = Some (ran s)
        else bget (eLog ?f) k = bget (eLog e) k" for k
    proof (cases "k = ?n")
      case True
      have "bget (eLog ?f) ?n = bget (eLog e1) ?n" using conjunct2 [OF IH, rule_format, of ?n] by simp
      then show ?thesis using True s log [of ?n] le by auto
    next
      case False
      then show ?thesis using conjunct2 [OF IH, rule_format, of k] log [of k] le by (auto split: if_splits)
    qed
    then show ?thesis using Some le by (simp add: tryExecute.simps [of C e])
  qed
qed

lemma tryExecute_ledger:
  "store_ok (eStore e) \<Longrightarrow> store_ok (eStore (tryExecute C e)) \<and>
     ledger_of (eStore (tryExecute C e)) =
       fold (ledger_step C) (slot_reqs e (eExecSeq e) (eExecSeq (tryExecute C e))) (ledger_of (eStore e))"
proof (induction C e rule: tryExecute.induct)
  case (1 C e)
  show ?case
  proof (cases "exec_round C e")
    case None
    then show ?thesis using 1 by (simp add: tryExecute.simps [of C e] slot_reqs_def)
  next
    case (Some e1)
    let ?n = "eExecSeq e" and ?f = "tryExecute C e1"
    obtain s where n1: "eExecSeq e1 = ?n + 1"
      and log: "\<And>k. bget (eLog e1) k = (if k = ?n then Some (ran s) else bget (eLog e) k)"
      using exec_round_log [OF Some] by blast
    have le: "?n < eExecSeq ?f" using tryExecute_log [of e1 C] n1 by linarith
    have "slot_reqs e1 (?n + 1) (eExecSeq ?f) = slot_reqs e (?n + 1) (eExecSeq ?f)"
      by (rule slot_reqs_cong) (simp add: slot_req_def log)
    then have "slot_reqs e ?n (eExecSeq ?f) = slot_req e ?n @ slot_reqs e1 (eExecSeq e1) (eExecSeq ?f)"
      by (simp add: slot_reqs_step [OF le] n1)
    moreover have "store_ok (eStore e1)"
      and "ledger_of (eStore e1) = fold (ledger_step C) (slot_req e ?n) (ledger_of (eStore e))"
      using exec_round_ledger [OF Some 1(2)] by simp_all
    ultimately show ?thesis using 1(1) [OF Some] Some by (simp add: tryExecute.simps [of C e])
  qed
qed

lemma slot_reqs_split: "lo \<le> mid \<Longrightarrow> mid \<le> hi \<Longrightarrow> slot_reqs e lo hi = slot_reqs e lo mid @ slot_reqs e mid hi"
  unfolding slot_reqs_def
  by (cases "mid = hi"; cases "lo = mid") (auto simp: upto_split1 [of lo mid "hi - 1"])

text \<open>Where the loop stops is fixed by the log: at the first slot that cannot run.\<close>

definition stops_at :: "engine \<Rightarrow> int \<Rightarrow> bool" where
  "stops_at e m \<longleftrightarrow> eExecSeq e \<le> m \<and>
     list_all (\<lambda>k. case bget (eLog e) k of None \<Rightarrow> False | Some s \<Rightarrow> runnable s) [eExecSeq e..m - 1] \<and>
     (case bget (eLog e) m of None \<Rightarrow> True | Some s \<Rightarrow> \<not> runnable s)"

lemma tryExecute_not_runnable:
  "case bget (eLog (tryExecute C e)) (eExecSeq (tryExecute C e)) of None \<Rightarrow> True | Some s \<Rightarrow> \<not> runnable s"
  using tryExecute_stuck [of C e]
  by (auto simp: exec_round_def runnable_def Let_def split: option.splits if_splits)

lemma tryExecute_stops:
  assumes "stops_at e m"
  shows "eExecSeq (tryExecute C e) = m"
proof (rule ccontr)
  let ?e = "tryExecute C e"
  assume ne: "eExecSeq ?e \<noteq> m"
  note log = tryExecute_log [of e C, THEN conjunct2, rule_format]
  have le: "eExecSeq e \<le> eExecSeq ?e" using tryExecute_log by blast
  have run: "\<exists>s. bget (eLog e) k = Some s \<and> runnable s" if "eExecSeq e \<le> k" "k < m" for k
  proof -
    have "k \<in> set [eExecSeq e..m - 1]" using that by simp
    then have "case bget (eLog e) k of None \<Rightarrow> False | Some s \<Rightarrow> runnable s"
      using assms by (auto simp: stops_at_def list_all_iff simp del: set_upto)
    then show ?thesis by (simp split: option.splits)
  qed
  show False
  proof (cases "eExecSeq ?e < m")
    case True
    then show False using run [OF le True] log [of "eExecSeq ?e"] tryExecute_not_runnable [of C e] by auto
  next
    case False
    then have "eExecSeq e \<le> m \<and> m < eExecSeq ?e" using ne assms by (auto simp: stops_at_def)
    then show False using log [of m] assms by (auto simp: stops_at_def)
  qed
qed

text \<open>Replicas of the example deployment with committed slots.\<close>

definition committed_slot :: "Request \<Rightarrow> seqState" where
  "committed_slot req = emptySlot\<lparr>sReq := req, sPrePrepare := True,
     sCommitCert := Some \<lparr>cm_Seq = 0, cm_View = 0, cm_Digest = [], cm_Sigs = []\<rparr>\<rparr>"

definition sample_run :: "int \<Rightarrow> (int, seqState) bucket \<Rightarrow> engine" where
  "sample_run i log = (sample_engine i)\<lparr>eLog := log\<rparr>"

lemma sample_run_simps [simp]:
  "eStore (sample_run i log) = empty_store 10 100" "eExecSeq (sample_run i log) = 1" "eLog (sample_run i log) = log"
  by (simp_all add: sample_run_def sample_engine_def fresh_engine_def Let_def)

lemma committed_slot_simps [simp]:
  "runnable (committed_slot r)" "sDiscarded (committed_slot r) = False" "sReq (committed_slot r) = r"
  by (simp_all add: runnable_def committed_slot_def emptySlot_def)

lemma empty_store_simps [simp]:
  "GetBalance (empty_store b n) i = b" "wal (empty_store b n) = []" "GetClientTS (empty_store b n) c = 0"
  "locks (empty_store b n) = []"
  by (simp_all add: GetBalance_def empty_store_def GetClientTS_def)

text \<open>C11: \<open>tryExecute\<close> executes strictly in log order and never past a gap: the slots it passes
  are exactly the run of consecutive numbers from \<open>execSeq\<close> that are discarded or carry a commit
  certificate and were not executed before; it marks each of those executed, leaves every other
  slot of the log as it was, and stops only where no further slot can run (so a second call, and
  \<open>DrainExecute\<close>, do nothing more).\<close>

theorem execution_in_order:
  "let e' = tryExecute C e in
     eExecSeq e \<le> eExecSeq e' \<and>
     (\<forall>k. if eExecSeq e \<le> k \<and> k < eExecSeq e'
          then \<exists>s. bget (eLog e) k = Some s \<and> runnable s \<and> bget (eLog e') k = Some (ran s)
          else bget (eLog e') k = bget (eLog e) k) \<and>
     (case bget (eLog e') (eExecSeq e') of None \<Rightarrow> True | Some s \<Rightarrow> \<not> runnable s) \<and>
     tryExecute C e' = e' \<and> DrainExecute C e = e'"
  using tryExecute_log [of e C] tryExecute_not_runnable [of C e]
  by (simp add: Let_def tryExecute_idem DrainExecute_eq)

text \<open>C7: Execution refines the ledger: whatever the locks, replies and hooks do, the balances,
  history, client timestamps and preimages of the store after \<open>tryExecute\<close> are those of the ledger
  after one \<open>ledger_step\<close> per executed request, in slot order, and the store keeps its invariant.\<close>

theorem execution_refines_ledger:
  assumes "store_ok (eStore e)"
  shows "let e' = tryExecute C e in
    store_ok (eStore e') \<and>
    ledger_of (eStore e') =
      fold (ledger_step C) (slot_reqs e (eExecSeq e) (eExecSeq e')) (ledger_of (eStore e))"
  using tryExecute_ledger [OF assms] by (simp add: Let_def)

theorem execution_refines_ledger_witness:
  "let e' = tryExecute plain_crypto (sample_run 1 [(1, committed_slot sample_req)]) in
     GetBalance (eStore e') 5 = 7 \<and> GetBalance (eStore e') 7 = 13"
proof -
  let ?e = "sample_run 1 [(1, committed_slot sample_req)]"
  have "stops_at ?e 2" by (simp add: stops_at_def upto_small)
  from tryExecute_stops [OF this] have stop: "eExecSeq (tryExecute plain_crypto ?e) = 2" by simp
  have "store_ok (eStore ?e)" by simp
  from execution_refines_ledger [OF this, of plain_crypto]
  have "ledger_of (eStore (tryExecute plain_crypto ?e)) =
      ledger_step plain_crypto sample_req (ledger_of (empty_store 10 100))"
    by (simp add: Let_def stop slot_reqs_def slot_req_def upto_small)
  from arg_cong [OF this, of lg_bal] show ?thesis
    by (simp add: ledger_bal ledger_step_def sample_req_def norm_op_def lg_entry_def lg_stamp_def)
qed

text \<open>State machine replication: two replicas with the same ledger and \<open>execSeq\<close> whose logs
  agree on the slots the slower one executes stay in step. After both run \<open>tryExecute\<close>, the ledger
  of the one that got further is the other's plus the requests of the slots in between; if they
  stopped at the same number, the ledgers are equal.\<close>

theorem replicas_agree:
  assumes ok: "store_ok (eStore a)" "store_ok (eStore b)"
    and same: "ledger_of (eStore a) = ledger_of (eStore b)" "eExecSeq a = eExecSeq b"
    and agree: "\<And>k. eExecSeq a \<le> k \<Longrightarrow> k < eExecSeq (tryExecute C a) \<Longrightarrow> slot_req a k = slot_req b k"
    and slower: "eExecSeq (tryExecute C a) \<le> eExecSeq (tryExecute C b)"
  shows "ledger_of (eStore (tryExecute C b)) =
    fold (ledger_step C) (slot_reqs b (eExecSeq (tryExecute C a)) (eExecSeq (tryExecute C b)))
      (ledger_of (eStore (tryExecute C a)))"
proof -
  let ?a = "tryExecute C a" and ?b = "tryExecute C b"
  have le: "eExecSeq a \<le> eExecSeq ?a" using tryExecute_log by blast
  have common: "slot_reqs b (eExecSeq b) (eExecSeq ?a) = slot_reqs a (eExecSeq a) (eExecSeq ?a)"
    using agree same(2) by (auto intro: slot_reqs_cong)
  have "ledger_of (eStore ?b) = fold (ledger_step C) (slot_reqs b (eExecSeq b) (eExecSeq ?b)) (ledger_of (eStore b))"
    using tryExecute_ledger [OF ok(2)] by blast
  also have "slot_reqs b (eExecSeq b) (eExecSeq ?b) =
      slot_reqs a (eExecSeq a) (eExecSeq ?a) @ slot_reqs b (eExecSeq ?a) (eExecSeq ?b)"
    using slot_reqs_split [of "eExecSeq b" "eExecSeq ?a" "eExecSeq ?b" b] le slower same(2) common by simp
  also have "fold (ledger_step C) \<dots> (ledger_of (eStore b)) =
      fold (ledger_step C) (slot_reqs b (eExecSeq ?a) (eExecSeq ?b)) (ledger_of (eStore ?a))"
    using tryExecute_ledger [OF ok(1), of C] same(1) by simp
  finally show ?thesis .
qed

theorem replicas_agree_witness:
  "ledger_of (eStore (tryExecute plain_crypto (sample_run 2 [(1, committed_slot sample_req), (2, committed_slot sample_req)]))) =
   ledger_step plain_crypto sample_req
     (ledger_of (eStore (tryExecute plain_crypto (sample_run 1 [(1, committed_slot sample_req)]))))"
proof -
  let ?a = "sample_run 1 [(1, committed_slot sample_req)]"
  let ?b = "sample_run 2 [(1, committed_slot sample_req), (2, committed_slot sample_req)]"
  have "stops_at ?a 2" "stops_at ?b 3" by (simp_all add: stops_at_def upto_small)
  then have stop: "eExecSeq (tryExecute C ?a) = 2" "eExecSeq (tryExecute C ?b) = 3" for C
    using tryExecute_stops by blast+
  show ?thesis
    using replicas_agree [of ?a ?b plain_crypto]
    by (simp add: stop slot_req_def slot_reqs_def)
qed

end
