(* ===== verification/CrossShard.thy ===== *)
theory CrossShard
  imports Ledger
begin

text \<open>
  Two-phase commit over ledgers: what the prepare, commit and abort steps of one cross-shard
  transaction do to the balances of its two items while the clusters go on executing other
  transactions that do not lock those items.
\<close>

text \<open>A request of another transaction that does not lock \<open>item\<close>, and a ledger in which no other
  transaction holds a preimage of \<open>item\<close>.\<close>

definition foreign :: "crypto_ops \<Rightarrow> string \<Rightarrow> int \<Rightarrow> Request \<Rightarrow> bool" where
  "foreign C t item req \<longleftrightarrow> TxnID C req \<noteq> t \<and> item \<notin> set (lockItemsForOp req)"

definition secured :: "ledger \<Rightarrow> string \<Rightarrow> int \<Rightarrow> bool" where
  "secured l t item \<longleftrightarrow> (\<forall>t' p. t' \<noteq> t \<longrightarrow> lg_pre l t' = Some p \<longrightarrow> item \<notin> fst ` set p)"

lemma fold_upd_frame: "i \<notin> fst ` set (p :: WALPreimage) \<Longrightarrow> fold (\<lambda>(i, b) f. f(i := b)) p f i = f i"
  by (induction p arbitrary: f) auto

lemma lg_simps [simp]:
  "lg_bal (lg_entry req k ph out l) = lg_bal l" "lg_pre (lg_entry req k ph out l) = lg_pre l"
  "lg_bal (lg_stamp req l) = lg_bal l" "lg_pre (lg_stamp req l) = lg_pre l"
  "lg_bal (lg_forget t l) = lg_bal l" "lg_pre (lg_forget t l) = (lg_pre l)(t := None)"
  "lg_bal (lg_move t i b l) = (lg_bal l)(i := b)"
  "lg_pre (lg_move t i b l) = (lg_pre l)(t \<mapsto> [(i, lg_bal l i)])"
  by (simp_all add: lg_defs)

lemma lg_undo_pre [simp]: "lg_pre (lg_undo t l) = (lg_pre l)(t := None)"
  by (auto simp: lg_undo_def fun_eq_iff lg_forget_def split: option.split)

lemma lg_undo_bal: "lg_bal (lg_undo t l) =
  (case lg_pre l t of None \<Rightarrow> lg_bal l | Some p \<Rightarrow> fold (\<lambda>(i, b) f. f(i := b)) p (lg_bal l))"
  by (simp add: lg_undo_def split: option.split)

lemma foreign_frame:
  assumes f: "foreign C t item req" and s: "secured l t item"
  shows "lg_bal (ledger_step C req l) item = lg_bal l item \<and>
    lg_pre (ledger_step C req l) t = lg_pre l t \<and> secured (ledger_step C req l) t item"
proof -
  have t: "TxnID C req \<noteq> t" and i: "item \<notin> set (lockItemsForOp req)"
    using f by (simp_all add: foreign_def)
  have undo: "lg_bal (lg_undo (TxnID C req) l) item = lg_bal l item"
    using s t by (auto simp: lg_undo_bal secured_def intro!: fold_upd_frame split: option.split)
  show ?thesis
  proof (cases "norm_op (r_Op req)")
    case OpEmpty
    then show ?thesis using s by (simp add: ledger_step_def Let_def)
  qed (use i t s undo in \<open>auto simp: ledger_step_def Let_def secured_def lockItemsForOp.simps norm_op_def
          split: if_splits\<close>)
qed

lemma foreign_run:
  assumes "list_all (foreign C t item) reqs" and "secured l t item"
  shows "lg_bal (fold (ledger_step C) reqs l) item = lg_bal l item \<and>
    lg_pre (fold (ledger_step C) reqs l) t = lg_pre l t \<and> secured (fold (ledger_step C) reqs l) t item"
  using assms
proof (induction reqs arbitrary: l)
  case (Cons r rs)
  then show ?case using foreign_frame [of C t item r l] Cons.IH [of "ledger_step C r l"] by simp
qed simp

text \<open>One cluster's part of transaction \<open>req\<close> on the ledger: its prepare, whatever else, its finish.\<close>

definition ledger_run :: "crypto_ops \<Rightarrow> Request \<Rightarrow> op_kind \<Rightarrow> Request list \<Rightarrow> op_kind \<Rightarrow> ledger \<Rightarrow> ledger" where
  "ledger_run C req prepare others finish l =
     ledger_step C (req\<lparr>r_Op := finish\<rparr>)
       (fold (ledger_step C) others (ledger_step C (req\<lparr>r_Op := prepare\<rparr>) l))"

lemma coord_prepare_step:
  assumes "secured l (TxnID C req) (r_X req)" and "\<not> lg_bal l (r_X req) <s r_Amt req"
  defines "l' \<equiv> ledger_step C (req\<lparr>r_Op := OpCoordPrepare\<rparr>) l"
  shows "lg_bal l' (r_X req) = lg_bal l (r_X req) - r_Amt req \<and> secured l' (TxnID C req) (r_X req) \<and>
    lg_pre l' (TxnID C req) = Some [(r_X req, lg_bal l (r_X req))]"
  using assms by (simp add: ledger_step_def norm_op_def Let_def secured_def)

lemma part_prepare_step:
  assumes "secured l (TxnID C req) (r_Y req)" and "lg_pre l (TxnID C req) = None"
  defines "l' \<equiv> ledger_step C (req\<lparr>r_Op := OpPartPrepareCommit\<rparr>) l"
  shows "lg_bal l' (r_Y req) = lg_bal l (r_Y req) + r_Amt req \<and> secured l' (TxnID C req) (r_Y req) \<and>
    lg_pre l' (TxnID C req) = Some [(r_Y req, lg_bal l (r_Y req))]"
  using assms by (simp add: ledger_step_def norm_op_def Let_def secured_def)

lemma part_refuse_step:
  "lg_bal (ledger_step C (req\<lparr>r_Op := OpPartPrepareAbort\<rparr>) l) = lg_bal l \<and>
   lg_pre (ledger_step C (req\<lparr>r_Op := OpPartPrepareAbort\<rparr>) l) = lg_pre l"
  by (simp add: ledger_step_def norm_op_def Let_def)

lemma finish_step:
  "lg_bal (ledger_step C (req\<lparr>r_Op := OpCoordCommit\<rparr>) l) = lg_bal l"
  "lg_bal (ledger_step C (req\<lparr>r_Op := OpPartCommit\<rparr>) l) = lg_bal l"
  "lg_bal (ledger_step C (req\<lparr>r_Op := OpCoordAbort\<rparr>) l) = lg_bal (lg_undo (TxnID C req) l)"
  "lg_bal (ledger_step C (req\<lparr>r_Op := OpPartAbort\<rparr>) l) = lg_bal (lg_undo (TxnID C req) l)"
  "op \<in> {OpCoordCommit, OpPartCommit, OpCoordAbort, OpPartAbort} \<Longrightarrow>
     lg_pre (ledger_step C (req\<lparr>r_Op := op\<rparr>) l) (TxnID C req) = None"
  by (auto simp: ledger_step_def norm_op_def Let_def)

lemma ledger_atomic:
  fixes C :: crypto_ops and req :: Request
  defines "t \<equiv> TxnID C req" and "x \<equiv> r_X req" and "y \<equiv> r_Y req"
  assumes sx: "secured lx t x" and sy: "secured ly t y" and fresh: "lg_pre ly t = None"
    and cover: "\<not> lg_bal lx x <s r_Amt req"
    and ox: "list_all (foreign C t x) ox" and oy: "list_all (foreign C t y) oy"
  shows "(let lx' = ledger_run C req OpCoordPrepare ox OpCoordCommit lx;
              ly' = ledger_run C req OpPartPrepareCommit oy OpPartCommit ly
          in lg_bal lx' x = lg_bal lx x - r_Amt req \<and> lg_bal ly' y = lg_bal ly y + r_Amt req \<and>
             lg_bal lx' x + lg_bal ly' y = lg_bal lx x + lg_bal ly y \<and>
             lg_pre lx' t = None \<and> lg_pre ly' t = None) \<and>
         (let lx' = ledger_run C req OpCoordPrepare ox OpCoordAbort lx in
             lg_bal lx' x = lg_bal lx x \<and> lg_pre lx' t = None) \<and>
         list_all (\<lambda>prepare. let ly' = ledger_run C req prepare oy OpPartAbort ly in
             lg_bal ly' y = lg_bal ly y \<and> lg_pre ly' t = None) [OpPartPrepareCommit, OpPartPrepareAbort]"
proof -
  note px = coord_prepare_step [of lx C req, folded t_def x_def, OF sx cover]
  note py = part_prepare_step [of ly C req, folded t_def y_def, OF sy fresh]
  have refuse: "secured (ledger_step C (req\<lparr>r_Op := OpPartPrepareAbort\<rparr>) ly) t y"
    using sy by (simp add: secured_def part_refuse_step)
  note rx = foreign_run [OF ox px [THEN conjunct2, THEN conjunct1]]
    and ry = foreign_run [OF oy py [THEN conjunct2, THEN conjunct1]]
    and rr = foreign_run [OF oy refuse]
  note fin = finish_step(1-4) [of C req, folded t_def] finish_step(5) [of _ C req, folded t_def]
  show ?thesis
    unfolding ledger_run_def Let_def
    using px py rx ry rr fresh by (simp add: fin lg_undo_bal part_refuse_step)
qed

subsection \<open>On the engine\<close>

text \<open>The same on a replica: the operations it executes, each with its slot and certificate.\<close>

definition execute_all :: "crypto_ops \<Rightarrow> (Request \<times> int \<times> CertificateMsg) list \<Rightarrow> engine \<Rightarrow> engine" where
  "execute_all C ops e = fold (\<lambda>(req, seq, cert) e. execute_op C e req seq cert) ops e"

definition cluster_run :: "crypto_ops \<Rightarrow> Request \<Rightarrow> op_kind \<Rightarrow> int \<times> CertificateMsg \<Rightarrow>
    (Request \<times> int \<times> CertificateMsg) list \<Rightarrow> op_kind \<Rightarrow> int \<times> CertificateMsg \<Rightarrow> engine \<Rightarrow> engine" where
  "cluster_run C req prepare slot others finish slot' e =
     execute_all C ((req\<lparr>r_Op := prepare\<rparr>, slot) # others @ [(req\<lparr>r_Op := finish\<rparr>, slot')]) e"

lemma execute_all_refines:
  "store_ok (eStore e) \<Longrightarrow> store_ok (eStore (execute_all C ops e)) \<and>
     ledger_of (eStore (execute_all C ops e)) = fold (ledger_step C) (map fst ops) (ledger_of (eStore e))"
proof (induction ops arbitrary: e)
  case (Cons op ops)
  obtain req seq cert where op: "op = (req, seq, cert)" by (cases op)
  show ?case
    using Cons.IH [of "execute_op C e req seq cert"] execute_op_refines [OF Cons.prems, of C req seq cert]
    by (simp add: execute_all_def op)
qed (simp add: execute_all_def)

lemma cluster_run_refines:
  "store_ok (eStore e) \<Longrightarrow> ledger_of (eStore (cluster_run C req prepare slot others finish slot' e)) =
     ledger_run C req prepare (map fst others) finish (ledger_of (eStore e))"
  using execute_all_refines by (simp add: cluster_run_def ledger_run_def)

text \<open>No other transaction has a preimage of \<open>item\<close>.\<close>

definition unclaimed :: "store \<Rightarrow> string \<Rightarrow> int \<Rightarrow> bool" where
  "unclaimed s t item = list_all (\<lambda>(t', p). t' = t \<or> item \<notin> fst ` set p) (wal s)"

lemma unclaimed_secured: "unclaimed s t item \<Longrightarrow> secured (ledger_of s) t item"
  unfolding secured_def ledger_bal
proof (intro allI impI)
  fix t' p
  assume "unclaimed s t item" "t' \<noteq> t" "bget (wal s) t' = Some p"
  moreover from this(3) have "(t', p) \<in> set (wal s)" by (rule map_of_SomeD)
  ultimately show "item \<notin> fst ` set p" unfolding unclaimed_def list_all_iff by blast
qed

lemma ledger_reads:
  "GetBalance s i = lg_bal (ledger_of s) i" "WALExists s t \<longleftrightarrow> lg_pre (ledger_of s) t \<noteq> None"
  by (simp_all add: ledger_bal WALExists_def)

text \<open>C8: Cross-shard atomicity. Let the coordinator cluster execute the prepare of a transfer whose
  debit is covered, and the participant cluster the prepare of its credit, and let both go on with
  any requests of other transactions that do not lock the two items. If both then execute the
  commit, \<open>x\<close> has lost and \<open>y\<close> gained exactly \<open>amt\<close>, so the sum over the two shards is conserved; if
  both execute the abort (whether or not the participant had agreed), both items are back at the
  balances they started from. Either way no preimage of the transaction is left.\<close>

theorem cross_shard_atomic:
  fixes C :: crypto_ops and req :: Request
  defines "t \<equiv> TxnID C req" and "x \<equiv> r_X req" and "y \<equiv> r_Y req"
  assumes ok: "store_ok (eStore a)" "store_ok (eStore b)"
    and sx: "unclaimed (eStore a) t x" and sy: "unclaimed (eStore b) t y" and fresh: "\<not> WALExists (eStore b) t"
    and cover: "\<not> GetBalance (eStore a) x <s r_Amt req"
    and ox: "list_all (foreign C t x) (map fst ox)" and oy: "list_all (foreign C t y) (map fst oy)"
  shows "(let a' = eStore (cluster_run C req OpCoordPrepare s ox OpCoordCommit s' a);
              b' = eStore (cluster_run C req OpPartPrepareCommit u oy OpPartCommit u' b)
          in GetBalance a' x = GetBalance (eStore a) x - r_Amt req \<and>
             GetBalance b' y = GetBalance (eStore b) y + r_Amt req \<and>
             GetBalance a' x + GetBalance b' y = GetBalance (eStore a) x + GetBalance (eStore b) y \<and>
             \<not> WALExists a' t \<and> \<not> WALExists b' t) \<and>
         (let a' = eStore (cluster_run C req OpCoordPrepare s ox OpCoordAbort s' a)
          in GetBalance a' x = GetBalance (eStore a) x \<and> \<not> WALExists a' t) \<and>
         list_all (\<lambda>prepare. let b' = eStore (cluster_run C req prepare u oy OpPartAbort u' b)
          in GetBalance b' y = GetBalance (eStore b) y \<and> \<not> WALExists b' t)
           [OpPartPrepareCommit, OpPartPrepareAbort]"
  using ledger_atomic [of "ledger_of (eStore a)" C req "ledger_of (eStore b)" "map fst ox" "map fst oy",
      folded t_def x_def y_def, OF unclaimed_secured [OF sx] unclaimed_secured [OF sy]] fresh cover ox oy
  by (simp add: Let_def ledger_reads cluster_run_refines [OF ok(1)] cluster_run_refines [OF ok(2)])

theorem cross_shard_atomic_witness:
  "let req = sample_req\<lparr>r_Y := 77\<rparr>;
       cert = \<lparr>cm_Seq = 1, cm_View = 0, cm_Digest = [], cm_Sigs = []\<rparr>;
       other = (sample_req\<lparr>r_TS := 2, r_X := 8, r_Y := 9\<rparr>, 2, cert);
       a = eStore (cluster_run plain_crypto req OpCoordPrepare (1, cert) [other] OpCoordCommit (3, cert) (sample_engine 1));
       b = eStore (cluster_run plain_crypto req OpPartPrepareCommit (1, cert) [] OpPartCommit (2, cert) (sample_engine 5))
   in GetBalance a 5 = 7 \<and> GetBalance b 77 = 13"
proof -
  let ?req = "sample_req\<lparr>r_Y := 77\<rparr>" and ?other = "sample_req\<lparr>r_TS := 2, r_X := 8, r_Y := 9\<rparr>"
  have un: "unclaimed (eStore (sample_engine i)) t j" for i t j by (simp add: unclaimed_def)
  have "TxnID plain_crypto ?other \<noteq> TxnID plain_crypto ?req"
    by (simp add: TxnID_def Digest_def hex_inj plain_crypto_def digest_input_def norm_op_def transfer_fields_def
        sample_req_def itoa_def nat_digits.simps digit_char_def hex_byte_def hex_char_def)
  then have f: "foreign plain_crypto (TxnID plain_crypto ?req) 5 ?other"
    by (simp add: foreign_def lockItemsForOp.simps sample_req_def)
  show ?thesis
    using cross_shard_atomic [of "sample_engine 1" "sample_engine 5" plain_crypto ?req "[(?other, 2, _)]" "[]",
        OF _ _ un un] f
    by (simp add: Let_def sample_req_def WALExists_def)
qed

end
