(* ===== verification/Protocol.thy ===== *)
theory Protocol
  imports Ledger
begin

text \<open>
  The normal-case protocol of one replica (\<open>internal/pbft/engine.go\<close>): the handlers of client
  requests, PRE-PREPARE, PREPARE, COMMIT and the two certificates, the discarding of abandoned
  slots, and the certificates themselves. A replica that is the collector hands its own votes to
  its own handler, so the handlers are defined from the last phase back to the first.
\<close>

subsection \<open>Certificates\<close>

datatype phase = Prep | Comm

definition phase_name :: "phase \<Rightarrow> string" where
  "phase_name p = (case p of Prep \<Rightarrow> ''PREPARE'' | Comm \<Rightarrow> ''COMMIT'')"

text \<open>The sorted entries are the votes of the slot in the order of the server ids.\<close>

definition buildCertLocked :: "engine \<Rightarrow> int \<Rightarrow> seqState \<Rightarrow> phase \<Rightarrow> CertificateMsg option" where
  "buildCertLocked e seq s p =
     (let src = (case p of Prep \<Rightarrow> sPrepares s | Comm \<Rightarrow> sCommits s);
          quorum = (case p of Prep \<Rightarrow> ePrepareCollect e | Comm \<Rightarrow> eCommitQuorum e);
          entries = sort_key se_ServerID (map (\<lambda>(i, sig). \<lparr>se_ServerID = i, se_Sig = sig\<rparr>) src)
      in if int (length entries) < quorum then None
         else Some \<lparr>cm_Seq = seq, cm_View = eView e, cm_Digest = sDigest s, cm_Sigs = entries\<rparr>)"

text \<open>The loop over the entries with the set of ids seen so far, shared by every certificate check:
  \<open>key\<close> looks up a public key, \<open>bytes\<close> is what was signed.\<close>

fun check_sigs :: "crypto_ops \<Rightarrow> (int \<Rightarrow> bytes option) \<Rightarrow> bytes \<Rightarrow> int set \<Rightarrow> SigEntry list \<Rightarrow> bool" where
  "check_sigs C key msg seen [] = True"
| "check_sigs C key msg seen (ent # es) =
     (if se_ServerID ent \<in> seen then False
      else case key (se_ServerID ent) of
             None \<Rightarrow> False
           | Some pub \<Rightarrow> if \<not> ed_verify C pub msg (se_Sig ent) then False
                         else check_sigs C key msg (insert (se_ServerID ent) seen) es)"

definition verifyCert :: "crypto_ops \<Rightarrow> engine \<Rightarrow> CertificateMsg \<Rightarrow> phase \<Rightarrow> int \<Rightarrow> bool" where
  "verifyCert C e cert p quorum =
     (if int (length (cm_Sigs cert)) < quorum then False
      else check_sigs C (PublicKey (eRing e))
             (PhaseSigningBytes (phase_name p) (cm_Seq cert) (cm_View cert) (cm_Digest cert)) {} (cm_Sigs cert))"

subsection \<open>Commit phase\<close>

definition onCommitCert :: "crypto_ops \<Rightarrow> engine \<Rightarrow> CertificateMsg \<Rightarrow> engine" where
  "onCommitCert C e cert =
     (if cm_View cert \<noteq> eView e then e
      else if \<not> verifyCert C e cert Comm (eCommitQuorum e) then e
      else case bget (eLog e) (cm_Seq cert) of
             None \<Rightarrow> e
           | Some s \<Rightarrow>
               if \<not> sPrePrepare s \<or> sDigest s \<noteq> cm_Digest cert then e
               else tryExecute C (put_slot (cm_Seq cert) (s\<lparr>sCommitCert := Some cert\<rparr>) e))"

text \<open>A vote is recorded when its signature verifies and its sender has none yet; the first vote
  that completes the quorum builds the certificate.\<close>

definition add_vote :: "crypto_ops \<Rightarrow> KeyRing \<Rightarrow> bytes \<Rightarrow> (int, bytes) bucket \<Rightarrow> int \<Rightarrow> bytes \<Rightarrow>
    (int, bytes) bucket option" where
  "add_vote C ring msg votes from sig =
     (if \<not> ring_Verify C ring from msg sig then None
      else if bget votes from \<noteq> None then None
      else Some (bput from sig votes))"

definition onCommit :: "crypto_ops \<Rightarrow> engine \<Rightarrow> int \<Rightarrow> PhaseMsg \<Rightarrow> bytes \<Rightarrow> engine" where
  "onCommit C e from msg sig =
     (if \<not> is_primary e then e
      else if pm_View msg \<noteq> eView e then e
      else case bget (eLog e) (pm_Seq msg) of
             None \<Rightarrow> e
           | Some s \<Rightarrow>
               if sPrepareCert s = None \<or> sDigest s \<noteq> pm_Digest msg then e
               else (case add_vote C (eRing e)
                            (PhaseSigningBytes ''COMMIT'' (pm_Seq msg) (pm_View msg) (pm_Digest msg))
                            (sCommits s) from sig of
                       None \<Rightarrow> e
                     | Some votes \<Rightarrow>
                         (let s = s\<lparr>sCommits := votes\<rparr>;
                              ready = int (length votes) \<ge> eCommitQuorum e
                          in if ready \<and> sCommitCert s = None
                             then (let cert = buildCertLocked e (pm_Seq msg) s Comm;
                                       e = put_slot (pm_Seq msg) (s\<lparr>sCommitCert := cert\<rparr>) e
                                   in case cert of
                                        None \<Rightarrow> e
                                      | Some cert \<Rightarrow> onCommitCert C (emit (EBroadcast (MCommitCert cert)) e) cert)
                             else put_slot (pm_Seq msg) s e)))"

definition sendCommit :: "crypto_ops \<Rightarrow> engine \<Rightarrow> int \<Rightarrow> int \<Rightarrow> bytes \<Rightarrow> engine" where
  "sendCommit C e seq view digest =
     (let msg = \<lparr>pm_Seq = seq, pm_View = view, pm_Digest = digest\<rparr>;
          signBytes = PhaseSigningBytes ''COMMIT'' seq view digest;
          sig = ring_Sign C (eRing e) signBytes;
          e = emit (ESign signBytes) e;
          primary = Primary e
      in if primary = eSelf e then onCommit C e (eSelf e) msg sig
         else emit (ESend primary (MCommit msg) sig) e)"

subsection \<open>Prepare phase\<close>

definition onPrepareCert :: "crypto_ops \<Rightarrow> engine \<Rightarrow> CertificateMsg \<Rightarrow> engine" where
  "onPrepareCert C e cert =
     (if cm_View cert \<noteq> eView e then e
      else if \<not> verifyCert C e cert Prep (ePrepareCollect e) then e
      else case bget (eLog e) (cm_Seq cert) of
             None \<Rightarrow> e
           | Some s \<Rightarrow>
               if \<not> sPrePrepare s \<or> sDigest s \<noteq> cm_Digest cert then e
               else sendCommit C (put_slot (cm_Seq cert) (s\<lparr>sPrepareCert := Some cert\<rparr>) e)
                      (cm_Seq cert) (cm_View cert) (cm_Digest cert))"

definition onPrepare :: "crypto_ops \<Rightarrow> engine \<Rightarrow> int \<Rightarrow> PhaseMsg \<Rightarrow> bytes \<Rightarrow> engine" where
  "onPrepare C e from msg sig =
     (if \<not> is_primary e then e
      else if pm_View msg \<noteq> eView e then e
      else case bget (eLog e) (pm_Seq msg) of
             None \<Rightarrow> e
           | Some s \<Rightarrow>
               if \<not> sPrePrepare s \<or> sDigest s \<noteq> pm_Digest msg then e
               else (case add_vote C (eRing e)
                            (PhaseSigningBytes ''PREPARE'' (pm_Seq msg) (pm_View msg) (pm_Digest msg))
                            (sPrepares s) from sig of
                       None \<Rightarrow> e
                     | Some votes \<Rightarrow>
                         (let s = s\<lparr>sPrepares := votes\<rparr>;
                              ready = int (length votes) \<ge> ePrepareCollect e
                          in if ready \<and> sPrepareCert s = None
                             then (let cert = buildCertLocked e (pm_Seq msg) s Prep;
                                       e = put_slot (pm_Seq msg) (s\<lparr>sPrepareCert := cert\<rparr>) e
                                   in case cert of
                                        None \<Rightarrow> e
                                      | Some cert \<Rightarrow> onPrepareCert C (emit (EBroadcast (MPrepareCert cert)) e) cert)
                             else put_slot (pm_Seq msg) s e)))"

definition sendPrepare :: "crypto_ops \<Rightarrow> engine \<Rightarrow> int \<Rightarrow> int \<Rightarrow> bytes \<Rightarrow> engine" where
  "sendPrepare C e seq view digest =
     (if ByzantineBackup (eFault e) \<and> \<not> is_primary e then e
      else (let msg = \<lparr>pm_Seq = seq, pm_View = view, pm_Digest = digest\<rparr>;
                signBytes = PhaseSigningBytes ''PREPARE'' seq view digest;
                sig = ring_Sign C (eRing e) signBytes;
                e = emit (ESign signBytes) e;
                primary = Primary e
            in if primary = eSelf e then onPrepare C e (eSelf e) msg sig
               else emit (ESend primary (MPrepare msg) sig) e))"

subsection \<open>Pre-prepare phase\<close>

definition cancelViewChangeTimerLocked :: "engine \<Rightarrow> engine" where
  "cancelViewChangeTimerLocked e = e\<lparr>eTimerSet := False\<rparr>"

definition scheduleViewChangeTimerLocked :: "engine \<Rightarrow> engine" where
  "scheduleViewChangeTimerLocked e = (if eTimerSet e then e else e\<lparr>eTimerSet := True\<rparr>)"

definition processPrePrepare :: "crypto_ops \<Rightarrow> engine \<Rightarrow> PrePrepareMsg \<Rightarrow> engine" where
  "processPrePrepare C e msg =
     (if ByzantineBackup (eFault e) \<and> \<not> is_primary e then e
      else if \<not> validateRequest e (pp_Req msg) (pp_Seq msg) then
        (if is_primary e \<and> insufficientBalance e (pp_Req msg)
         then sendClientReject C e (pp_Req msg) (pp_Seq msg) ResultInsufficient else e)
      else if isCommitPhaseOp (r_Op (pp_Req msg)) then
        (if \<not> locksHeldForCommitOp e (pp_Req msg) then e
         else sendPrepare C e (pp_Seq msg) (pp_View msg) (pp_Digest msg))
      else (case ensureLocksForOp e (pp_Seq msg) (pp_Req msg) of
              (ok, e) \<Rightarrow> if \<not> ok then e
                         else sendPrepare C e (pp_Seq msg) (pp_View msg) (pp_Digest msg)))"

text \<open>A discarded slot is revived with empty votes; then the proposal is written into it.\<close>

definition revive :: "seqState \<Rightarrow> seqState" where
  "revive s = (if sDiscarded s
     then s\<lparr>sDiscarded := False, sPrepares := [], sCommits := [], sPrepareCert := None,
            sCommitCert := None, sExecuted := False\<rparr> else s)"

definition adopt :: "bytes \<Rightarrow> Request \<Rightarrow> int \<Rightarrow> engine \<Rightarrow> engine" where
  "adopt digest req seq e =
     (case ensureSeqLocked e seq of
        (s, e) \<Rightarrow> cancelViewChangeTimerLocked
          (put_slot seq ((revive s)\<lparr>sDigest := digest, sReq := req, sPrePrepare := True\<rparr>) e))"

definition onPrePrepare :: "crypto_ops \<Rightarrow> engine \<Rightarrow> PrePrepareMsg \<Rightarrow> engine" where
  "onPrePrepare C e msg =
     (if pp_View msg \<noteq> eView e then e
      else if \<not> opMatchesCluster e (pp_Req msg) then e
      else if \<not> gapClearLocked e (pp_Seq msg) then e
      else if (case bget (eLog e) (pp_Seq msg) of None \<Rightarrow> False
               | Some s \<Rightarrow> sPrePrepare s \<and> \<not> sDiscarded s) then e
      else processPrePrepare C (adopt (pp_Digest msg) (pp_Req msg) (pp_Seq msg) e) msg)"

definition broadcastPrePrepare :: "engine \<Rightarrow> PrePrepareMsg \<Rightarrow> engine" where
  "broadcastPrePrepare e msg =
     (if ByzantineLeader (eFault e) then e else emit (EBroadcast (MPrePrepare msg)) e)"

definition watchPrepareQuorum :: "engine \<Rightarrow> int \<Rightarrow> Request \<Rightarrow> engine" where
  "watchPrepareQuorum e seq req = emit (EWatch seq req) e"

text \<open>The proposal itself, once every check has passed.\<close>

definition propose :: "crypto_ops \<Rightarrow> engine \<Rightarrow> Request \<Rightarrow> int \<Rightarrow> bool \<Rightarrow> engine" where
  "propose C e req seq isPrimary =
     (let digest = Digest C req;
          msg = \<lparr>pp_Seq = seq, pp_View = eView e, pp_Digest = digest, pp_Req = req\<rparr>;
          e = adopt digest req seq e;
          e = broadcastPrePrepare e msg;
          e = processPrePrepare C e msg
      in if isPrimary \<and> \<not> isCommitPhaseOp (r_Op req) then watchPrepareQuorum e seq req else e)"

definition startConsensus :: "crypto_ops \<Rightarrow> engine \<Rightarrow> Request \<Rightarrow> engine" where
  "startConsensus C e req =
     (let req = req\<lparr>r_Op := norm_op (r_Op req)\<rparr>;
          isPrimary = is_primary e;
          finishOp = isCommitPhaseOp (r_Op req)
      in if isPrimary \<and> \<not> finishOp \<and> clusterHonestLive e < ePrepareCollect e then dropCrossPrepare e req
         else if isPrimary \<and> \<not> finishOp \<and> \<not> awaitStartable e req then dropCrossPrepare e req
         else if isPrimary \<and> \<not> validateForStartQuick C e req then
           dropCrossPrepare (maybeRejectInsufficient C e req isPrimary) req
         else if \<not> isPrimary \<and> \<not> validateForStartQuick C e req then e
         else (case assignSeq e of
                 (seq, e) \<Rightarrow>
                   if finishOp then
                     (if \<not> locksHeldForCommitOp e req then e else propose C e req seq isPrimary)
                   else (case acquireLocksForOp e seq req of
                           (ok, e) \<Rightarrow> if \<not> ok then dropCrossPrepare (releaseLocksForOp e req) req
                                      else propose C e req seq isPrimary)))"

subsection \<open>Client requests\<close>

definition isPrimaryIngress :: "engine \<Rightarrow> bool" where
  "isPrimaryIngress e = (if \<not> is_primary e then False
                         else Alive (eFault e) \<and> \<not> ByzantineLeader (eFault e))"

text \<open>The two ingress channels hold 512 requests. A request that finds its channel full is offered
  again every poll interval until its context ends; \<open>None\<close> is one attempt that found it full.\<close>

definition ingress_capacity :: nat where
  "ingress_capacity = 512"

definition enqueuePrimary :: "engine \<Rightarrow> Request \<Rightarrow> bool \<Rightarrow> engine option" where
  "enqueuePrimary e req fromClient =
     (if fromClient then
        (if length (eClientIngress e) < ingress_capacity
         then Some (e\<lparr>eClientIngress := eClientIngress e @ [req]\<rparr>) else None)
      else
        (if length (eInternalIngress e) < ingress_capacity
         then Some (e\<lparr>eInternalIngress := eInternalIngress e @ [req]\<rparr>) else None))"

text \<open>Here the context ends with the first attempt, and the request is dropped; the wait of one whose
  context is still open is this step taken again later.\<close>

definition StartClientConsensus :: "crypto_ops \<Rightarrow> engine \<Rightarrow> Request \<Rightarrow> engine" where
  "StartClientConsensus C e req =
     (if isPrimaryIngress e then (case enqueuePrimary e req True of None \<Rightarrow> e | Some e \<Rightarrow> e)
      else startConsensus C e req)"

definition StartConsensus :: "crypto_ops \<Rightarrow> engine \<Rightarrow> Request \<Rightarrow> engine" where
  "StartConsensus C e req =
     (if isPrimaryIngress e then (case enqueuePrimary e req False of None \<Rightarrow> e | Some e \<Rightarrow> e)
      else startConsensus C e req)"

text \<open>One turn of \<open>primaryIngressLoop\<close>; with both channels empty it blocks.\<close>

definition ingress_turn :: "crypto_ops \<Rightarrow> engine \<Rightarrow> engine option" where
  "ingress_turn C e =
     (case eClientIngress e of
        req # rest \<Rightarrow> Some (startConsensus C (e\<lparr>eClientIngress := rest\<rparr>) req)
      | [] \<Rightarrow> (case eInternalIngress e of
                 req # rest \<Rightarrow> Some (startConsensus C (e\<lparr>eInternalIngress := rest\<rparr>) req)
               | [] \<Rightarrow> None))"

definition reqKey :: "crypto_ops \<Rightarrow> Request \<Rightarrow> string" where
  "reqKey C req = Digest C req"

definition onBackupClientRequest :: "crypto_ops \<Rightarrow> engine \<Rightarrow> Request \<Rightarrow> engine" where
  "onBackupClientRequest C e req =
     (if \<not> Alive (eFault e) then e
      else if r_Op req \<noteq> OpEmpty \<and> r_Op req \<noteq> OpIntra then e
      else if \<not> SameCluster (eTopo e) (r_X req) (r_Y req) then e
      else if GetClientTS (eStore e) (r_ClientID req) \<ge> r_TS req then e
      else if GetBalance (eStore e) (r_X req) <s r_Amt req then e
      else scheduleViewChangeTimerLocked (e\<lparr>ePendingClients := bput (reqKey C req) req (ePendingClients e)\<rparr>))"

text \<open>A cross-shard client request is handed to the coordinator hook, whatever it answers.\<close>

definition onClientRequest :: "crypto_ops \<Rightarrow> engine \<Rightarrow> Request \<Rightarrow> engine" where
  "onClientRequest C e req =
     (if \<not> is_primary e then onBackupClientRequest C e req
      else if ByzantineLeader (eFault e) then onBackupClientRequest C e req
      else if norm_op (r_Op req) = OpIntra \<and> \<not> SameCluster (eTopo e) (r_X req) (r_Y req)
        then (if eHooks e then emit (EHook (HandleClientRequestHook req)) e else e)
      else StartClientConsensus C e req)"

subsection \<open>Abandoned slots\<close>

definition discard_slot :: "seqState \<Rightarrow> seqState" where
  "discard_slot s = s\<lparr>sDiscarded := True, sPrePrepare := False, sPrepares := [], sCommits := [],
                      sPrepareCert := None, sCommitCert := None\<rparr>"

definition skipExecSeqIfStuck :: "engine \<Rightarrow> int \<Rightarrow> engine" where
  "skipExecSeqIfStuck e seq = (if eExecSeq e = seq then e\<lparr>eExecSeq := eExecSeq e + 1\<rparr> else e)"

definition onDiscardSeq :: "crypto_ops \<Rightarrow> engine \<Rightarrow> DiscardSeqMsg \<Rightarrow> engine" where
  "onDiscardSeq C e msg =
     (if ds_View msg \<noteq> eView e then e
      else case bget (eLog e) (ds_Seq msg) of
             None \<Rightarrow> e
           | Some s \<Rightarrow>
               if sExecuted s \<or> sCommitCert s \<noteq> None then e
               else (let e = put_slot (ds_Seq msg) (discard_slot s) e;
                         e = releaseLocksForOp e (sReq s);
                         e = skipExecSeqIfStuck e (ds_Seq msg)
                     in tryExecute C e))"

definition reclaimSeq :: "crypto_ops \<Rightarrow> engine \<Rightarrow> int \<Rightarrow> Request \<Rightarrow> engine" where
  "reclaimSeq C e seq req =
     (if \<not> is_primary e then e
      else case bget (eLog e) seq of
             None \<Rightarrow> e
           | Some s \<Rightarrow>
               if sExecuted s \<or> sCommitCert s \<noteq> None \<or> sPrepareCert s \<noteq> None then e
               else if int (length (sPrepares s)) \<ge> ePrepareCollect e then e
               else (let e = put_slot seq (discard_slot s) e;
                         e = releaseLocksForOp e req;
                         e = skipExecSeqIfStuck e seq;
                         e = dropCrossPrepare e req;
                         e = (if eNextSeq e = seq + 1 then e\<lparr>eNextSeq := seq\<rparr> else e);
                         msg = \<lparr>ds_Seq = seq, ds_View = eView e\<rparr>;
                         e = emit (EBroadcast (MDiscardSeq msg)) e
                     in onDiscardSeq C e msg))"

text \<open>The goroutine of \<open>watchPrepareQuorum\<close>: a poll of the slot ends it, or else its deadline does,
  and then the slot is given up. \<open>watch_poll\<close> is the test of one poll.\<close>

definition watch_poll :: "engine \<Rightarrow> int \<Rightarrow> bool" where
  "watch_poll e seq =
     (case bget (eLog e) seq of
        None \<Rightarrow> False
      | Some s \<Rightarrow> (sPrepareCert s \<noteq> None \<or> sCommitCert s \<noteq> None \<or> sExecuted s) \<or> sDiscarded s)"

definition watch_deadline :: "crypto_ops \<Rightarrow> engine \<Rightarrow> int \<Rightarrow> Request \<Rightarrow> engine" where
  "watch_deadline C e seq req =
     (case bget (eLog e) seq of
        None \<Rightarrow> e
      | Some s \<Rightarrow> if sExecuted s \<or> sCommitCert s \<noteq> None \<or> sPrepareCert s \<noteq> None \<or> sDiscarded s then e
                  else reclaimSeq C e seq req)"

definition ResetConsensus :: "engine \<Rightarrow> engine" where
  "ResetConsensus e =
     (cancelViewChangeTimerLocked e)\<lparr>eView := 0, eExecSeq := 1, eNextSeq := 1, eLog := [],
        eInViewChange := False, eViewChangeTarget := 0, eViewChangeSent := {}, eViewChangeLog := [],
        eViewChangeReceived := [], eNewViewIssued := {}, eNewViewLog := [], ePendingClients := [],
        eRecentReplies := [], eSenderView := 0\<rparr>"

end
