(* ===== verification/Safety.thy ===== *)
theory Safety
  imports Protocol
begin

text \<open>
  Safety of the normal case: what a verified certificate is worth, which signatures a replica can
  make within a view, and agreement between certificates of the same slot; then the behaviours
  that break it where the code leaves a check out.
\<close>

subsection \<open>Certificates as an interface\<close>

text \<open>
  Every check of a certificate (PREPARE and COMMIT certificates of the own cluster here, those of
  the other cluster in the two-phase commit) promises the same: enough entries, no id twice, every
  signature valid under the key of its id.
\<close>

definition sigs_valid :: "crypto_ops \<Rightarrow> (int \<Rightarrow> bytes option) \<Rightarrow> bytes \<Rightarrow> SigEntry list \<Rightarrow> bool" where
  "sigs_valid C key msg sigs \<longleftrightarrow> distinct (map se_ServerID sigs) \<and>
     list_all (\<lambda>s. case key (se_ServerID s) of None \<Rightarrow> False | Some pub \<Rightarrow> ed_verify C pub msg (se_Sig s)) sigs"

definition signers :: "CertificateMsg \<Rightarrow> int set" where
  "signers c = se_ServerID ` set (cm_Sigs c)"

lemma check_sigs_iff:
  "check_sigs C key msg seen sigs \<longleftrightarrow>
     sigs_valid C key msg sigs \<and> seen \<inter> se_ServerID ` set sigs = {}"
  by (induction C key msg seen sigs rule: check_sigs.induct)
     (auto simp: sigs_valid_def split: option.split)

locale cert_check =
  fixes verify :: "'x \<Rightarrow> CertificateMsg \<Rightarrow> bool"
    and ops :: "'x \<Rightarrow> crypto_ops"
    and key :: "'x \<Rightarrow> int \<Rightarrow> bytes option"
    and signed_bytes :: "'x \<Rightarrow> CertificateMsg \<Rightarrow> bytes"
    and quorum :: "'x \<Rightarrow> int"
  assumes verify_iff: "verify x c \<longleftrightarrow>
      quorum x \<le> int (length (cm_Sigs c)) \<and> sigs_valid (ops x) (key x) (signed_bytes x c) (cm_Sigs c)"
begin

lemma enough_signers: "verify x c \<Longrightarrow> quorum x \<le> int (card (signers c))"
  using distinct_card [of "map se_ServerID (cm_Sigs c)"] by (simp add: verify_iff sigs_valid_def signers_def)

lemma signer_verifies:
  "verify x c \<Longrightarrow> i \<in> signers c \<Longrightarrow> \<exists>pub sig. key x i = Some pub \<and> ed_verify (ops x) pub (signed_bytes x c) sig"
  by (fastforce simp: verify_iff sigs_valid_def signers_def list_all_iff split: option.splits)

text \<open>Two verified certificates over the same members share a correct signer.\<close>

lemma common_correct_signer:
  assumes "verify x c" "verify y d" and "signers c \<subseteq> M" "signers d \<subseteq> M" "finite M"
    and "int (card M) + int f < quorum x + quorum y" and "card faulty \<le> f" "finite faulty"
  shows "\<exists>i. i \<in> signers c \<and> i \<in> signers d \<and> i \<notin> faulty"
proof (rule ccontr)
  assume "\<not> ?thesis"
  then have sub: "signers c \<inter> signers d \<subseteq> faulty" by blast
  have fin: "finite (signers c)" "finite (signers d)" by (simp_all add: signers_def)
  have "card (signers c) + card (signers d) = card (signers c \<union> signers d) + card (signers c \<inter> signers d)"
    by (rule card_Un_Int [OF fin])
  moreover have "card (signers c \<union> signers d) \<le> card M" using assms(3-5) by (intro card_mono) auto
  moreover have "card (signers c \<inter> signers d) \<le> card faulty" using sub assms(8) by (rule card_mono [rotated])
  ultimately show False
    using enough_signers [OF assms(1)] enough_signers [OF assms(2)] assms(6,7) by linarith
qed

end

text \<open>Both certificate checks of the engine are instances.\<close>

definition cert_bytes :: "phase \<Rightarrow> CertificateMsg \<Rightarrow> bytes" where
  "cert_bytes p c = PhaseSigningBytes (phase_name p) (cm_Seq c) (cm_View c) (cm_Digest c)"

definition phase_quorum :: "engine \<Rightarrow> phase \<Rightarrow> int" where
  "phase_quorum e p = (case p of Prep \<Rightarrow> ePrepareCollect e | Comm \<Rightarrow> eCommitQuorum e)"

interpretation engine_cert: cert_check "\<lambda>(C, e, p) c. verifyCert C e c p (phase_quorum e p)" fst
  "\<lambda>(C, e, p). PublicKey (eRing e)" "\<lambda>(C, e, p). cert_bytes p" "\<lambda>(C, e, p). phase_quorum e p"
  by unfold_locales (auto simp: verifyCert_def check_sigs_iff cert_bytes_def)

subsection \<open>What a replica has signed\<close>

definition signed :: "engine \<Rightarrow> bytes set" where
  "signed e = {b. ESign b \<in> set (eEffects e)}"

text \<open>What a slot proposes (the votes, certificates and the executed flag forgotten), and when a
  proposal with digest \<open>d\<close> is in place.\<close>

definition proposal :: "engine \<Rightarrow> int \<Rightarrow> seqState option" where
  "proposal e k = map_option
     (\<lambda>s. s\<lparr>sPrepares := [], sPrepareCert := None, sCommits := [], sCommitCert := None, sExecuted := False\<rparr>)
     (bget (eLog e) k)"

definition sealed :: "engine \<Rightarrow> int \<Rightarrow> bytes \<Rightarrow> bool" where
  "sealed e k d = (case proposal e k of None \<Rightarrow> False | Some s \<Rightarrow> sPrePrepare s \<and> sDigest s = d)"

text \<open>What every handler after the proposal keeps: identity, quorums and proposals stay, a signature
  once made stays made, and it signs for proposals in place only.\<close>

definition evolves :: "engine \<Rightarrow> engine \<Rightarrow> bool" where
  "evolves e e' \<longleftrightarrow> eView e' = eView e \<and> eNextSeq e' = eNextSeq e \<and> is_primary e' = is_primary e \<and>
     eRing e' = eRing e \<and> eSelf e' = eSelf e \<and> ePrepareCollect e' = ePrepareCollect e \<and>
     eCommitQuorum e' = eCommitQuorum e \<and> eViewChangeSent e' = eViewChangeSent e \<and>
     proposal e' = proposal e \<and> signed e \<subseteq> signed e' \<and>
     (\<forall>b\<in>signed e'. b \<in> signed e \<or>
        (\<exists>p k d. b = PhaseSigningBytes (phase_name p) k (eView e) d \<and> sealed e k d))"

lemma evolves_refl [simp]: "evolves e e"
  by (simp add: evolves_def)

lemma evolves_sealed: "evolves e e' \<Longrightarrow> sealed e' = sealed e"
  by (simp add: evolves_def sealed_def fun_eq_iff)

lemma evolves_trans:
  assumes ab: "evolves a b" and bc: "evolves b c"
  shows "evolves a c"
proof -
  have "b' \<in> signed a \<or> (\<exists>p k d. b' = PhaseSigningBytes (phase_name p) k (eView a) d \<and> sealed a k d)"
    if "b' \<in> signed c" for b'
    using that ab bc evolves_sealed [OF ab] by (auto simp: evolves_def)
  moreover have "signed a \<subseteq> signed c" using ab bc by (auto simp: evolves_def)
  ultimately show ?thesis using ab bc by (simp add: evolves_def)
qed

lemma signed_simps [simp]:
  "signed (on_store f e) = signed e" "signed (put_slot k s e) = signed e"
  "signed (e\<lparr>eStore := st\<rparr>) = signed e" "signed (e\<lparr>eExecSeq := n\<rparr>) = signed e"
  "signed (e\<lparr>eRecentReplies := rr\<rparr>) = signed e" "signed (e\<lparr>eNextSeq := n\<rparr>) = signed e"
  "signed (emit x e) = (case x of ESign b \<Rightarrow> insert b (signed e) | _ \<Rightarrow> signed e)"
  by (auto simp: signed_def on_store_def put_slot_def emit_def split: effect.split)

lemma signed_steps [simp]:
  "signed (releaseLocksForOp e req) = signed e" "signed (append_entry req k p out e) = signed e"
  "signed (call_hook h e) = signed e" "signed (undo_wal C req e) = signed e"
  "signed (release_if_locked i e) = signed e" "signed (sendClientReply C e r) = signed e"
  "signed (dropCrossPrepare e req) = signed e"
  by (simp_all add: releaseLocksForOp_def append_entry_def call_hook_def undo_wal_def release_if_locked_def
      sendClientReply_def dropCrossPrepare_def Let_def)

lemma signed_execute_op [simp]: "signed (execute_op C e req seq cert) = signed e"
  by (cases "norm_op (r_Op req)")
     (simp_all add: execute_op_def executeIntra_def executeCoordPrepare_def executePartPrepare_def
        executeCoordCommit_def executeCoordAbort_def executePartCommit_def executePartAbort_def Let_def
      split: sum.split)

lemma is_primary_cong:
  assumes "eTopo e' = eTopo e" "eSelf e' = eSelf e" "eSenderView e' = eSenderView e"
  shows "is_primary e' = is_primary e"
  unfolding is_primary_def Primary_def assms by (rule refl)

lemma is_primary_upd [simp]:
  "is_primary (put_slot k s e) = is_primary e" "is_primary (emit x e) = is_primary e"
  "is_primary (on_store f e) = is_primary e" "is_primary (e\<lparr>eStore := st\<rparr>) = is_primary e"
  "is_primary (e\<lparr>eExecSeq := n\<rparr>) = is_primary e" "is_primary (e\<lparr>eNextSeq := n\<rparr>) = is_primary e"
  "is_primary (e\<lparr>eTimerSet := b\<rparr>) = is_primary e"
  by (rule is_primary_cong; simp add: put_slot_def emit_def on_store_def)+

lemma proposal_cong: "eLog e' = eLog e \<Longrightarrow> proposal e' = proposal e"
  by (simp add: proposal_def fun_eq_iff)

lemma proposal_upd [simp]:
  "proposal (emit x e) = proposal e" "proposal (on_store f e) = proposal e"
  "proposal (e\<lparr>eExecSeq := n\<rparr>) = proposal e" "proposal (e\<lparr>eNextSeq := n\<rparr>) = proposal e"
  "proposal (e\<lparr>eTimerSet := b\<rparr>) = proposal e" "proposal (e\<lparr>eStore := st\<rparr>) = proposal e"
  by (rule proposal_cong; simp add: emit_def on_store_def)+

lemma evolves_same_core:
  assumes core: "same_core e e'" and "signed e' = signed e"
  shows "evolves e e'"
proof -
  note f = same_core_fields [OF core]
  have "proposal e' = proposal e" by (rule proposal_cong) (rule f)
  moreover have "is_primary e' = is_primary e" by (rule is_primary_cong) (rule f)+
  ultimately show ?thesis using assms(2) by (simp add: evolves_def f)
qed

text \<open>A slot may change in any way that keeps its proposal.\<close>

lemma evolves_put:
  assumes "bget (eLog e) k = Some s" and "sPrePrepare s' = sPrePrepare s" "sDiscarded s' = sDiscarded s"
    "sDigest s' = sDigest s" "sReq s' = sReq s"
  shows "evolves e (put_slot k s' e)"
proof -
  have "s'\<lparr>sPrepares := [], sPrepareCert := None, sCommits := [], sCommitCert := None, sExecuted := False\<rparr> =
        s\<lparr>sPrepares := [], sPrepareCert := None, sCommits := [], sCommitCert := None, sExecuted := False\<rparr>"
    using assms by simp
  then have "proposal (put_slot k s' e) = proposal e"
    using assms(1) by (simp add: proposal_def put_slot_def fun_eq_iff)
  then show ?thesis by (simp add: evolves_def) (simp add: put_slot_def)
qed

lemma evolves_exec_seq: "evolves e (e\<lparr>eExecSeq := n\<rparr>)"
  by (simp add: evolves_def)

lemma evolves_emit: "\<forall>b. x \<noteq> ESign b \<Longrightarrow> evolves e (emit x e)"
  by (cases x) (simp_all add: evolves_def, simp_all add: emit_def)

lemma evolves_emit_sign:
  assumes "sealed e k d"
  shows "evolves e (emit (ESign (PhaseSigningBytes (phase_name p) k (eView e) d)) e)"
proof -
  have "eView (emit x e) = eView e" "eNextSeq (emit x e) = eNextSeq e" "eRing (emit x e) = eRing e"
    "eViewChangeSent (emit x e) = eViewChangeSent e" "eSelf (emit x e) = eSelf e"
    "ePrepareCollect (emit x e) = ePrepareCollect e" "eCommitQuorum (emit x e) = eCommitQuorum e" for x
    by (simp_all add: emit_def)
  with assms show ?thesis by (auto simp: evolves_def)
qed

lemma evolves_exec_round:
  assumes "exec_round C e = Some e'"
  shows "evolves e e'"
proof -
  obtain s where s: "bget (eLog e) (eExecSeq e) = Some s"
    using assms by (auto simp: exec_round_def split: option.splits)
  show ?thesis
  proof (cases "sDiscarded s")
    case True
    then have "e' = e\<lparr>eExecSeq := eExecSeq e + 1\<rparr>" using assms s by (simp add: exec_round_def)
    then show ?thesis by (simp add: evolves_exec_seq)
  next
    case False
    let ?p = "put_slot (eExecSeq e) (s\<lparr>sExecuted := True\<rparr>) e"
    let ?q = "?p\<lparr>eExecSeq := eExecSeq e + 1\<rparr>"
    obtain cert where e': "e' = execute_op C ?q (sReq s) (eExecSeq e) cert"
      using False assms s by (auto simp: exec_round_def Let_def put_slot_def split: option.splits if_splits)
    have "evolves e ?p" using s by (rule evolves_put) simp_all
    moreover have "evolves ?p ?q" by (rule evolves_exec_seq)
    moreover have "evolves ?q e'"
      unfolding e' by (rule evolves_same_core [OF same_core_execute_op]) simp
    ultimately show ?thesis using evolves_trans by blast
  qed
qed

lemma evolves_tryExecute: "evolves e (tryExecute C e)"
proof (induction C e rule: tryExecute.induct)
  case (1 C e)
  show ?case
  proof (cases "exec_round C e")
    case (Some e')
    then show ?thesis
      using evolves_trans [OF evolves_exec_round [OF Some] 1 [OF Some]] by (simp add: tryExecute.simps [of C e])
  qed (simp add: tryExecute.simps [of C e])
qed

lemma evolves_onCommitCert: "evolves e (onCommitCert C e cert)"
proof (cases "bget (eLog e) (cm_Seq cert)")
  case (Some s)
  have "evolves e (tryExecute C (put_slot (cm_Seq cert) (s\<lparr>sCommitCert := Some cert\<rparr>) e))"
    by (rule evolves_trans [OF evolves_put [OF Some] evolves_tryExecute]) simp_all
  with Some show ?thesis by (simp add: onCommitCert_def)
qed (simp add: onCommitCert_def)

lemma evolves_onCommit: "evolves e (onCommit C e from msg sig)"
proof (cases "bget (eLog e) (pm_Seq msg)")
  case (Some s)
  have put: "evolves e (put_slot (pm_Seq msg) (s\<lparr>sCommits := v, sCommitCert := c\<rparr>) e)"
    and put1: "evolves e (put_slot (pm_Seq msg) (s\<lparr>sCommits := v\<rparr>) e)" for v c
    by (rule evolves_put [OF Some]; simp)+
  have "evolves e (onCommitCert C (emit (EBroadcast (MCommitCert cert)) (put_slot (pm_Seq msg) (s\<lparr>sCommits := v, sCommitCert := c\<rparr>) e)) cert)"
    for v c cert
    by (rule evolves_trans [OF put]) (rule evolves_trans [OF evolves_emit evolves_onCommitCert], simp)
  with put put1 Some show ?thesis
    by (simp add: onCommit_def Let_def split: option.split)
qed (simp add: onCommit_def)

lemma evolves_sendCommit:
  assumes "sealed e seq d" and "view = eView e"
  shows "evolves e (sendCommit C e seq view d)"
proof -
  have s: "evolves e (emit (ESign (PhaseSigningBytes ''COMMIT'' seq view d)) e)"
    using evolves_emit_sign [OF assms(1), of Comm] by (simp add: assms(2) phase_name_def)
  show ?thesis
    unfolding sendCommit_def Let_def
    by (auto intro!: evolves_trans [OF s] evolves_onCommit evolves_emit)
qed

lemma evolves_onPrepareCert: "evolves e (onPrepareCert C e cert)"
proof (cases "bget (eLog e) (cm_Seq cert)")
  case (Some s)
  let ?e = "put_slot (cm_Seq cert) (s\<lparr>sPrepareCert := Some cert\<rparr>) e"
  have put: "evolves e ?e" by (rule evolves_put [OF Some]) simp_all
  have "evolves e (sendCommit C ?e (cm_Seq cert) (cm_View cert) (cm_Digest cert))"
    if "sPrePrepare s" "sDigest s = cm_Digest cert" "cm_View cert = eView e"
    by (rule evolves_trans [OF put], rule evolves_sendCommit)
       (use that in \<open>simp_all add: sealed_def proposal_def put_slot_def\<close>)
  with Some show ?thesis by (auto simp: onPrepareCert_def)
qed (simp add: onPrepareCert_def)

lemma evolves_onPrepare: "evolves e (onPrepare C e from msg sig)"
proof (cases "bget (eLog e) (pm_Seq msg)")
  case (Some s)
  have put: "evolves e (put_slot (pm_Seq msg) (s\<lparr>sPrepares := v, sPrepareCert := c\<rparr>) e)"
    and put1: "evolves e (put_slot (pm_Seq msg) (s\<lparr>sPrepares := v\<rparr>) e)" for v c
    by (rule evolves_put [OF Some]; simp)+
  have "evolves e (onPrepareCert C (emit (EBroadcast (MPrepareCert cert))
      (put_slot (pm_Seq msg) (s\<lparr>sPrepares := v, sPrepareCert := c\<rparr>) e)) cert)" for v c cert
    by (rule evolves_trans [OF put]) (rule evolves_trans [OF evolves_emit evolves_onPrepareCert], simp)
  with put put1 Some show ?thesis
    by (simp add: onPrepare_def Let_def split: option.split)
qed (simp add: onPrepare_def)

lemma evolves_sendPrepare:
  assumes "sealed e seq d" and "view = eView e"
  shows "evolves e (sendPrepare C e seq view d)"
proof -
  have s: "evolves e (emit (ESign (PhaseSigningBytes ''PREPARE'' seq view d)) e)"
    using evolves_emit_sign [OF assms(1), of Prep] by (simp add: assms(2) phase_name_def)
  show ?thesis
    unfolding sendPrepare_def Let_def
    by (auto intro!: evolves_trans [OF s] evolves_onPrepare evolves_emit)
qed

lemma evolves_processPrePrepare:
  assumes "sealed e (pp_Seq msg) (pp_Digest msg)" and "pp_View msg = eView e"
  shows "evolves e (processPrePrepare C e msg)"
proof -
  have core: "evolves e (e\<lparr>eStore := st\<rparr>)" for st
    by (rule evolves_same_core) simp_all
  have send: "evolves e (sendPrepare C (e\<lparr>eStore := st\<rparr>) (pp_Seq msg) (pp_View msg) (pp_Digest msg))" for st
    by (rule evolves_trans [OF core], rule evolves_sendPrepare) (use assms in \<open>simp_all add: sealed_def\<close>)
  have rej: "evolves e (sendClientReject C e (pp_Req msg) (pp_Seq msg) ResultInsufficient)"
    by (rule evolves_same_core) (simp_all add: sendClientReject_def)
  show ?thesis
    unfolding processPrePrepare_def ensureLocksForOp_def
    using core send rej evolves_sendPrepare [OF assms(1), of "pp_View msg" C] assms(2)
    by (auto split: prod.split)
qed

subsection \<open>One digest per slot and view\<close>

text \<open>
  A run of one replica inside a view. A backup proposes nothing itself and a primary takes no
  PRE-PREPARE from others; votes, certificates, client requests and execution go on as they come.
  View changes and discarded slots end such a run.
\<close>

inductive view_step :: "crypto_ops \<Rightarrow> engine \<Rightarrow> engine \<Rightarrow> bool" for C where
  preprepare: "\<not> is_primary e \<Longrightarrow> view_step C e (onPrePrepare C e msg)"
| proposes: "is_primary e \<Longrightarrow> view_step C e (startConsensus C e req)"
| prepare: "view_step C e (onPrepare C e from pmsg sig)"
| prepare_cert: "view_step C e (onPrepareCert C e cert)"
| commit: "view_step C e (onCommit C e from pmsg sig)"
| commit_cert: "view_step C e (onCommitCert C e cert)"
| execute: "view_step C e (tryExecute C e)"

inductive view_run :: "crypto_ops \<Rightarrow> engine \<Rightarrow> engine \<Rightarrow> bool" for C where
  start: "view_run C e e"
| step: "view_run C e e1 \<Longrightarrow> view_step C e1 e2 \<Longrightarrow> view_run C e e2"

text \<open>What is signed in this view is the proposal in place; no slot is both in place and discarded;
  a primary's next number is above every slot of its log.\<close>

definition one_proposal :: "engine \<Rightarrow> bool" where
  "one_proposal e \<longleftrightarrow>
     (\<forall>p k d. PhaseSigningBytes (phase_name p) k (eView e) d \<in> signed e \<longrightarrow> sealed e k d) \<and>
     (\<forall>k s. proposal e k = Some s \<longrightarrow> sPrePrepare s \<longrightarrow> \<not> sDiscarded s) \<and>
     (is_primary e \<longrightarrow> (\<forall>k s. proposal e k = Some s \<longrightarrow> k < eNextSeq e))"

lemma phase_bytes_inj:
  "PhaseSigningBytes (phase_name p) k v d = PhaseSigningBytes (phase_name p') k' v' d' \<longleftrightarrow>
     p = p' \<and> k = k' \<and> v = v' \<and> d = d'"
  by (cases p; cases p') (simp_all add: phase_name_def PhaseSigningBytes_inj)

lemma one_proposal_evolves:
  assumes "one_proposal e" and "evolves e e'"
  shows "one_proposal e'"
proof -
  have "sealed e' = sealed e" using assms(2) by (rule evolves_sealed)
  then show ?thesis
    using assms unfolding one_proposal_def evolves_def by (metis phase_bytes_inj)
qed

lemma adopt_steps:
  "eView (adopt d r seq e) = eView e" "eNextSeq (adopt d r seq e) = eNextSeq e"
  "is_primary (adopt d r seq e) = is_primary e" "signed (adopt d r seq e) = signed e"
  "eEffects (adopt d r seq e) = eEffects e" "eStore (adopt d r seq e) = eStore e"
  "eFault (adopt d r seq e) = eFault e" "eRing (adopt d r seq e) = eRing e"
  "eTunables (adopt d r seq e) = eTunables e" "eExecSeq (adopt d r seq e) = eExecSeq e"
proof -
  obtain log where a: "adopt d r seq e = e\<lparr>eLog := log, eTimerSet := False\<rparr>"
    by (cases "bget (eLog e) seq")
       (auto simp: adopt_def ensureSeqLocked_def cancelViewChangeTimerLocked_def put_slot_def)
  show "is_primary (adopt d r seq e) = is_primary e" by (rule is_primary_cong) (simp_all add: a)
  show "eView (adopt d r seq e) = eView e" "eNextSeq (adopt d r seq e) = eNextSeq e"
    "signed (adopt d r seq e) = signed e" "eEffects (adopt d r seq e) = eEffects e"
    "eStore (adopt d r seq e) = eStore e" "eFault (adopt d r seq e) = eFault e"
    "eRing (adopt d r seq e) = eRing e" "eTunables (adopt d r seq e) = eTunables e"
    "eExecSeq (adopt d r seq e) = eExecSeq e"
    by (simp_all add: a signed_def)
qed

lemma adopt_slot:
  "bget (eLog (adopt d r seq e)) k =
     (if k = seq then Some ((revive (case bget (eLog e) seq of None \<Rightarrow> emptySlot | Some s \<Rightarrow> s))
                            \<lparr>sDigest := d, sReq := r, sPrePrepare := True\<rparr>)
      else bget (eLog e) k)"
  by (auto simp: adopt_def ensureSeqLocked_def cancelViewChangeTimerLocked_def put_slot_def split: option.split)

lemma revive_live [simp]: "\<not> sDiscarded (revive s)"
  by (simp add: revive_def)

lemma adopt_proposal:
  "\<exists>s. proposal (adopt d r seq e) seq = Some s \<and> sPrePrepare s \<and> \<not> sDiscarded s \<and> sDigest s = d \<and> sReq s = r"
  "k \<noteq> seq \<Longrightarrow> proposal (adopt d r seq e) k = proposal e k"
  by (simp_all add: proposal_def adopt_slot)

lemma sealed_adopt: "sealed (adopt d r seq e) k d' = (if k = seq then d' = d else sealed e k d')"
  using adopt_proposal(1) [of d r seq e] adopt_proposal(2) [of k seq d r e] by (auto simp: sealed_def)

text \<open>Writing a proposal where none is in place keeps the invariant.\<close>

lemma one_proposal_adopt:
  assumes inv: "one_proposal e" and free: "\<forall>d. \<not> sealed e seq d" and "is_primary e \<Longrightarrow> seq < eNextSeq e"
  shows "one_proposal (adopt d r seq e)"
proof -
  have "sealed (adopt d r seq e) k d'"
    if "PhaseSigningBytes (phase_name p) k (eView e) d' \<in> signed e" for p k d'
    using inv free that by (auto simp: one_proposal_def sealed_adopt)
  moreover have "\<not> sDiscarded s" if "proposal (adopt d r seq e) k = Some s" "sPrePrepare s" for k s
    using inv adopt_proposal(1) [of d r seq e] adopt_proposal(2) [of k seq d r e] that by (cases "k = seq") (auto simp: one_proposal_def)
  moreover have "k < eNextSeq e" if "is_primary e" "proposal (adopt d r seq e) k = Some s" for k s
  proof (cases "k = seq")
    case False
    then have "proposal e k = Some s" using that(2) adopt_proposal(2) [of k seq d r e] by simp
    then show ?thesis using inv that(1) by (auto simp: one_proposal_def)
  qed (use assms(3) that in simp)
  ultimately show ?thesis by (simp add: one_proposal_def adopt_steps)
qed

lemma unsealed:
  assumes "one_proposal e"
    and "\<not> (case bget (eLog e) seq of None \<Rightarrow> False | Some s \<Rightarrow> sPrePrepare s \<and> \<not> sDiscarded s)"
  shows "\<not> sealed e seq d"
proof (cases "bget (eLog e) seq")
  case (Some s)
  have "\<exists>s'. proposal e seq = Some s' \<and> sPrePrepare s' = sPrePrepare s \<and> sDiscarded s' = sDiscarded s"
    by (simp add: proposal_def Some)
  then show ?thesis using assms Some by (auto simp: one_proposal_def sealed_def)
qed (simp add: sealed_def proposal_def)

lemma one_proposal_onPrePrepare:
  assumes inv: "one_proposal e" and backup: "\<not> is_primary e"
  shows "one_proposal (onPrePrepare C e msg)"
proof (cases "pp_View msg \<noteq> eView e \<or> \<not> opMatchesCluster e (pp_Req msg) \<or> \<not> gapClearLocked e (pp_Seq msg) \<or>
    (case bget (eLog e) (pp_Seq msg) of None \<Rightarrow> False | Some s \<Rightarrow> sPrePrepare s \<and> \<not> sDiscarded s)")
  case True
  then show ?thesis using inv by (auto simp: onPrePrepare_def)
next
  case False
  let ?e = "adopt (pp_Digest msg) (pp_Req msg) (pp_Seq msg) e"
  have "\<not> sealed e (pp_Seq msg) d" for d using False inv by (intro unsealed) auto
  then have "one_proposal ?e" by (intro one_proposal_adopt [OF inv]) (auto simp: backup)
  moreover have "evolves ?e (processPrePrepare C ?e msg)"
    by (rule evolves_processPrePrepare) (use False in \<open>simp_all add: sealed_adopt adopt_steps\<close>)
  ultimately show ?thesis using False one_proposal_evolves by (auto simp: onPrePrepare_def)
qed

lemma one_proposal_propose:
  assumes inv: "one_proposal e" and free: "\<forall>d. \<not> sealed e seq d" and "is_primary e \<Longrightarrow> seq < eNextSeq e"
  shows "one_proposal (propose C e req seq prim)"
proof -
  let ?msg = "\<lparr>pp_Seq = seq, pp_View = eView e, pp_Digest = Digest C req, pp_Req = req\<rparr>"
  let ?a = "adopt (Digest C req) req seq e"
  let ?b = "broadcastPrePrepare ?a ?msg"
  have "one_proposal ?a" by (rule one_proposal_adopt [OF assms])
  moreover have b: "evolves ?a ?b" by (simp add: broadcastPrePrepare_def evolves_emit)
  moreover have "evolves ?b (processPrePrepare C ?b ?msg)"
  proof (rule evolves_processPrePrepare)
    have "sealed ?a seq (Digest C req)" by (simp add: sealed_adopt)
    then show "sealed ?b (pp_Seq ?msg) (pp_Digest ?msg)" using b by (simp add: evolves_def sealed_def)
    show "pp_View ?msg = eView ?b" using b by (simp add: evolves_def adopt_steps)
  qed
  ultimately have p: "one_proposal (processPrePrepare C ?b ?msg)"
    using one_proposal_evolves by blast
  moreover have "one_proposal (watchPrepareQuorum (processPrePrepare C ?b ?msg) seq req)"
    unfolding watchPrepareQuorum_def by (rule one_proposal_evolves [OF p evolves_emit]) simp
  ultimately show ?thesis by (simp add: propose_def Let_def)
qed

lemma one_proposal_same_core: "one_proposal e \<Longrightarrow> same_core e e' \<Longrightarrow> signed e' = signed e \<Longrightarrow> one_proposal e'"
  using one_proposal_evolves evolves_same_core by blast

lemma one_proposal_startConsensus:
  assumes inv: "one_proposal e" and prim: "is_primary e"
  shows "one_proposal (startConsensus C e req)"
proof -
  let ?req = "req\<lparr>r_Op := norm_op (r_Op req)\<rparr>" and ?e = "e\<lparr>eNextSeq := eNextSeq e + 1\<rparr>"
  have drop: "one_proposal (dropCrossPrepare e' r)" if "one_proposal e'" for e' r
    using that by (rule one_proposal_same_core) simp_all
  have rej: "one_proposal (maybeRejectInsufficient C e r b)" for r b
    by (rule one_proposal_same_core [OF inv]) (simp_all add: maybeRejectInsufficient_def sendClientReject_def)
  have sealed: "sealed ?e k d = sealed e k d" for k d by (simp add: sealed_def)
  have below: "k < eNextSeq e" if "proposal e k = Some s" for k s
    using inv prim that by (auto simp: one_proposal_def)
  have nxt: "one_proposal ?e"
    using inv below by (auto simp: one_proposal_def sealed dest!: below)
  have free: "\<not> sealed e (eNextSeq e) d" for d
    using below [of "eNextSeq e"] by (cases "proposal e (eNextSeq e)") (auto simp: sealed_def)
  have core: "same_core ?e (?e\<lparr>eStore := st\<rparr>)" for st by simp
  have lock: "one_proposal (?e\<lparr>eStore := st\<rparr>)" for st
    by (rule one_proposal_same_core [OF nxt core]) simp
  have proposed: "one_proposal (propose C (?e\<lparr>eStore := st\<rparr>) ?req (eNextSeq e) b)" for st b
    by (rule one_proposal_propose [OF lock]) (use free in \<open>auto simp: sealed_def\<close>)
  have proposed1: "one_proposal (propose C ?e ?req (eNextSeq e) b)" for b
    by (rule one_proposal_propose [OF nxt]) (use free in \<open>auto simp: sealed_def\<close>)
  have rel: "one_proposal (releaseLocksForOp (?e\<lparr>eStore := st\<rparr>) ?req)" for st
    by (rule one_proposal_same_core [OF lock [of st]]) simp_all
  show ?thesis
    unfolding startConsensus_def Let_def assignSeq_def acquireLocksForOp_def
    using prim by (auto simp: inv drop rej rel proposed proposed1 nxt split: prod.split)
qed

lemma one_proposal_view_step:
  assumes "view_step C e e'" and "one_proposal e"
  shows "one_proposal e'"
  using assms
proof cases
  case (preprepare msg)
  then show ?thesis using assms(2) one_proposal_onPrePrepare by blast
next
  case (proposes req)
  then show ?thesis using assms(2) one_proposal_startConsensus by blast
qed (use assms(2) one_proposal_evolves evolves_onPrepare evolves_onPrepareCert evolves_onCommit
       evolves_onCommitCert evolves_tryExecute in \<open>blast+\<close>)

lemma one_proposal_view_run: "view_run C e e' \<Longrightarrow> one_proposal e \<Longrightarrow> one_proposal e'"
  by (induction rule: view_run.induct) (auto intro: one_proposal_view_step)

lemma one_proposal_start: "signed e = {} \<Longrightarrow> eLog e = [] \<Longrightarrow> one_proposal e"
  by (simp add: one_proposal_def proposal_def)

lemma eView_broadcast [simp]: "eView (broadcastPrePrepare e msg) = eView e"
  by (simp add: broadcastPrePrepare_def emit_def)

lemma sealed_broadcast [simp]: "sealed (broadcastPrePrepare e msg) = sealed e"
  by (simp add: broadcastPrePrepare_def sealed_def fun_eq_iff)

lemma eView_processPrePrepare:
  "sealed e (pp_Seq msg) (pp_Digest msg) \<Longrightarrow> pp_View msg = eView e \<Longrightarrow> eView (processPrePrepare C e msg) = eView e"
  using evolves_processPrePrepare by (simp add: evolves_def)

lemma eView_onPrePrepare: "eView (onPrePrepare C e msg) = eView e"
  by (simp add: onPrePrepare_def eView_processPrePrepare sealed_adopt adopt_steps)

lemma eView_propose: "eView (propose C e req seq b) = eView e"
  by (simp add: propose_def Let_def watchPrepareQuorum_def emit_def eView_processPrePrepare sealed_adopt adopt_steps)

lemma eView_core [simp]:
  "eView (dropCrossPrepare e r) = eView e" "eView (maybeRejectInsufficient C e r b) = eView e"
  "eView (releaseLocksForOp e r) = eView e"
  by (rule same_core_fields(4); simp add: maybeRejectInsufficient_def sendClientReject_def)+

lemma eView_startConsensus: "eView (startConsensus C e req) = eView e"
  by (auto simp: startConsensus_def Let_def assignSeq_def acquireLocksForOp_def eView_propose split: prod.split)

lemma eView_view_run: "view_run C e e' \<Longrightarrow> eView e' = eView e"
proof (induction rule: view_run.induct)
  case (step e e1 e2)
  from step(2) have "eView e2 = eView e1"
    by cases (use evolves_onPrepare evolves_onPrepareCert evolves_onCommit evolves_onCommitCert evolves_tryExecute
        in \<open>auto simp: evolves_def eView_onPrePrepare eView_startConsensus\<close>)
  then show ?case using step.IH by simp
qed simp

lemma sealed_unique: "sealed e k d \<Longrightarrow> sealed e k d' \<Longrightarrow> d = d'"
  by (auto simp: sealed_def split: option.splits)

subsection \<open>Votes and locks\<close>


lemma store_empty_locks: "lock_owner (empty_store b n) i = None"
  by (simp add: lock_owner_def)

lemma IsLocked_owner: "IsLocked s i \<longleftrightarrow> lock_owner s i \<noteq> None"
  by (simp add: IsLocked_def lock_owner_def)

lemma LockSeq_owner: "LockSeq s i = (case lock_owner s i of None \<Rightarrow> 0 | Some q \<Rightarrow> q)"
  by (simp add: LockSeq_def lock_owner_def)

text \<open>Locks that are free or already owned are always obtained.\<close>

lemma reacquire_ok:
  "list_all (\<lambda>i. lock_owner s i = None \<or> lock_owner s i = Some q) is \<Longrightarrow>
     fst (acquire_items AcquireLockForSeq q is s)"
proof (induction "is" arbitrary: s)
  case (Cons i "is")
  have ok: "fst (AcquireLockForSeq s i q)"
    using Cons.prems by (auto simp: AcquireLockForSeq_def AcquireLock_def IsLocked_def LockSeq_def lock_owner_def)
  then have "lock_owner (snd (AcquireLockForSeq s i q)) = (lock_owner s)(i \<mapsto> q)"
    using reentrant.acquired by blast
  then have "fst (acquire_items AcquireLockForSeq q is (snd (AcquireLockForSeq s i q)))"
    using Cons.prems by (intro Cons.IH) (auto simp: list_all_iff)
  then show ?case using ok by (auto split: prod.split)
qed simp

lemma validated_locks:
  assumes "validateRequest e req seq" "\<not> isCommitPhaseOp (r_Op req)"
  shows "fst (acquire_items AcquireLockForSeq seq (lockItemsForOp req) (eStore e))"
proof (rule reacquire_ok)
  have "lockItemsForOp req = [] \<or> locksReadyForSeq seq req (eStore e)"
    using assms
    by (cases "r_Op req") (simp_all add: validateRequest_def Let_def norm_op_def lockItemsForOp.simps split: if_splits)
  then show "list_all (\<lambda>i. lock_owner (eStore e) i = None \<or> lock_owner (eStore e) i = Some seq) (lockItemsForOp req)"
  proof
    assume ready: "locksReadyForSeq seq req (eStore e)"
    have "lock_owner (eStore e) i = None \<or> lock_owner (eStore e) i = Some seq"
      if "i \<in> set (lockItemsForOp req)" for i
      using ready that
      by (cases "lock_owner (eStore e) i") (auto simp: locksReadyForSeq_def IsLocked_owner LockSeq_owner list_all_iff)
    then show ?thesis by (simp add: list_all_iff)
  qed simp
qed

lemma Primary_cong: "eTopo e' = eTopo e \<Longrightarrow> eSelf e' = eSelf e \<Longrightarrow> eSenderView e' = eSenderView e \<Longrightarrow> Primary e' = Primary e"
  by (simp add: Primary_def cong: option.case_cong)

lemma Primary_upd [simp]: "Primary (emit x e) = Primary e" "Primary (e\<lparr>eStore := st\<rparr>) = Primary e"
  by (rule Primary_cong; simp add: emit_def)+

lemma emit_fields [simp]:
  "eSelf (emit x e) = eSelf e" "eEffects (emit x e) = eEffects e @ [x]" "eRing (emit x e) = eRing e"
  by (simp_all add: emit_def)

lemma backup_vote_cases:
  assumes "\<not> is_primary e"
  shows "let e' = processPrePrepare C e msg; seq = pp_Seq msg; req = pp_Req msg;
             b = PhaseSigningBytes ''PREPARE'' seq (pp_View msg) (pp_Digest msg);
             vote = \<lparr>pm_Seq = seq, pm_View = pp_View msg, pm_Digest = pp_Digest msg\<rparr>
         in if \<not> ByzantineBackup (eFault e) \<and> validateRequest e req seq
            then eEffects e' = eEffects e @ [ESign b, ESend (Primary e) (MPrepare vote) (ring_Sign C (eRing e) b)] \<and>
                 lock_owner (eStore e') = (\<lambda>i. if i \<in> set (lockItemsForOp req) then Some seq else lock_owner (eStore e) i)
            else e' = e"
proof (cases "\<not> ByzantineBackup (eFault e) \<and> validateRequest e (pp_Req msg) (pp_Seq msg)")
  case True
  show ?thesis
  proof (cases "isCommitPhaseOp (r_Op (pp_Req msg))")
    case comm: True
    then have "lockItemsForOp (pp_Req msg) = []"
      by (cases "r_Op (pp_Req msg)") (simp_all add: lockItemsForOp.simps)
    moreover have "locksHeldForCommitOp e (pp_Req msg)"
      using True comm by (cases "r_Op (pp_Req msg)") (auto simp: validateRequest_def norm_op_def Let_def)
    ultimately show ?thesis
      using True comm assms
      by (simp add: processPrePrepare_def sendPrepare_def Let_def is_primary_def emit_fields)
  next
    case False
    obtain st where st: "acquire_items AcquireLockForSeq (pp_Seq msg) (lockItemsForOp (pp_Req msg)) (eStore e) = (True, st)"
      using validated_locks [of e "pp_Req msg" "pp_Seq msg"] True False
      by (cases "acquire_items AcquireLockForSeq (pp_Seq msg) (lockItemsForOp (pp_Req msg)) (eStore e)") auto
    have own: "lock_owner st = (\<lambda>i. if i \<in> set (lockItemsForOp (pp_Req msg)) then Some (pp_Seq msg) else lock_owner (eStore e) i)"
      using reentrant.acquire_items_success [OF st] by (auto simp: fun_eq_iff)
    show ?thesis
      using True False assms
      by (simp add: processPrePrepare_def ensureLocksForOp_def st sendPrepare_def Let_def own is_primary_def
          emit_fields)
  qed
next
  case False
  then show ?thesis using assms by (auto simp: processPrePrepare_def Let_def)
qed

subsection \<open>A prepared slot of the example deployment\<close>

definition sample_pp :: PrePrepareMsg where
  "sample_pp = \<lparr>pp_Seq = 1, pp_View = 0, pp_Digest = Digest plain_crypto sample_req, pp_Req = sample_req\<lparr>r_Op := OpIntra\<rparr>\<rparr>"

definition sample_cert :: "phase \<Rightarrow> CertificateMsg" where
  "sample_cert p = \<lparr>cm_Seq = 1, cm_View = 0, cm_Digest = Digest plain_crypto sample_req,
     cm_Sigs = map (\<lambda>i. \<lparr>se_ServerID = i, se_Sig = ring_Sign plain_crypto (sample_ring i)
       (PhaseSigningBytes (phase_name p) 1 0 (Digest plain_crypto sample_req))\<rparr>) [2, 3, 4]\<rparr>"

lemma sample_cert_ok:
  "eRing e = sample_ring i \<Longrightarrow> q \<le> 3 \<Longrightarrow> verifyCert plain_crypto e (sample_cert p) p q"
  by (simp add: verifyCert_def sample_cert_def PublicKey_def sample_ring_def upto_small ring_Sign_def plain_crypto_def)

lemma sample_vote:
  assumes "i \<in> {2, 3, 4}"
  shows "cert_bytes Prep (sample_cert Prep) \<in> signed (onPrePrepare plain_crypto (sample_engine i) sample_pp)"
proof -
  have r: "1 \<le> i" "i \<le> 4" "i \<noteq> 1" using assms by auto
  have b: "\<not> is_primary (sample_engine i)" using sample_primary_iff r by blast
  let ?a = "adopt (pp_Digest sample_pp) (pp_Req sample_pp) 1 (sample_engine i)"
  have on: "onPrePrepare plain_crypto (sample_engine i) sample_pp = processPrePrepare plain_crypto ?a sample_pp"
    by (simp add: onPrePrepare_def sample_pp_def opMatchesCluster_def norm_op_def SameCluster_def sample_req_def
        sample_cluster gapClearLocked_def)
  have val: "validateRequest ?a (pp_Req sample_pp) 1"
    by (simp add: validateRequest_def sample_pp_def norm_op_def sample_req_def Let_def adopt_steps
        locksReadyForSeq_def lockItemsForOp.simps IsLocked_def)
  have "\<not> is_primary ?a" using b by (simp add: adopt_steps)
  from backup_vote_cases [OF this, of plain_crypto sample_pp]
  have "ESign (PhaseSigningBytes ''PREPARE'' 1 0 (Digest plain_crypto sample_req))
      \<in> set (eEffects (processPrePrepare plain_crypto ?a sample_pp))"
    using val by (simp add: Let_def adopt_steps DefaultFaultConfig_def) (simp add: sample_pp_def)
  then show ?thesis by (simp add: on signed_def cert_bytes_def sample_cert_def phase_name_def)
qed

subsection \<open>Properties\<close>

lemma view_run_signs:
  assumes "view_run C e0 e" and "signed e0 = {}" and "eLog e0 = []"
    and "PhaseSigningBytes (phase_name p) k (eView e) d \<in> signed e"
  shows "sealed e k d"
  using one_proposal_view_run [OF assms(1) one_proposal_start [OF assms(2,3)]] assms(4)
  by (auto simp: one_proposal_def)

text \<open>A replica never signs two different digests for the same sequence number in one view,
  whatever PRE-PREPAREs, votes, certificates and client requests it is sent: every PREPARE and
  COMMIT signature it has made there is for the proposal its log still holds.\<close>

theorem one_digest_per_view:
  assumes "view_run C e0 e" and "signed e0 = {}" and "eLog e0 = []"
  shows "(PhaseSigningBytes (phase_name p) k (eView e) d \<in> signed e \<longrightarrow> sealed e k d) \<and>
    (PhaseSigningBytes (phase_name p) k (eView e) d \<in> signed e \<longrightarrow>
     PhaseSigningBytes (phase_name q) k (eView e) d' \<in> signed e \<longrightarrow> d = d')"
  using view_run_signs [OF assms, of p k d] view_run_signs [OF assms, of q k d'] sealed_unique by blast

text \<open>Agreement within a view. Let \<open>M\<close> be the members of a cluster of exactly \<open>3f + 1\<close>
  servers, at most \<open>f\<close> of them faulty, every correct one having run the protocol in view \<open>v\<close> from an
  empty log, and assume signatures of correct servers are not forged. Then any two PREPARE or
  COMMIT certificates of the cluster that replicas accept for the same sequence number in that view
  carry the same digest.\<close>

theorem agreement_in_view:
  assumes tight: "ClusterSize t = 3 * F t + 1" "int (card M) = ClusterSize t" "finite M"
    and faulty: "int (card faulty) \<le> F t" "finite faulty"
    and runs: "\<And>i. i \<in> M - faulty \<Longrightarrow> view_run C (first i) (now i) \<and> signed (first i) = {} \<and>
                 eLog (first i) = [] \<and> eView (first i) = v"
    and acc: "verifyCert C a c p (phase_quorum a p)" "verifyCert C b d q (phase_quorum b q)"
    and quorums: "phase_quorum a p = Quorum t" "phase_quorum b q = Quorum t"
    and members: "signers c \<subseteq> M" "signers d \<subseteq> M"
    and unforged: "\<And>i. i \<in> M - faulty \<Longrightarrow>
        (i \<in> signers c \<longrightarrow> cert_bytes p c \<in> signed (now i)) \<and> (i \<in> signers d \<longrightarrow> cert_bytes q d \<in> signed (now i))"
    and slot: "cm_Seq c = cm_Seq d" "cm_View c = v" "cm_View d = v"
  shows "cm_Digest c = cm_Digest d"
proof -
  have "int (card M) + int (nat (F t)) < Quorum t + Quorum t" using tight by (simp add: Quorum_def)
  moreover have "card faulty \<le> nat (F t)" using faulty(1) by simp
  ultimately obtain i where i: "i \<in> signers c" "i \<in> signers d" "i \<notin> faulty"
    using engine_cert.common_correct_signer [of "(C, a, p)" c "(C, b, q)" d M "nat (F t)" faulty]
      acc members tight(3) faulty(2) quorums by auto
  then have m: "i \<in> M - faulty" using members by blast
  note run = runs [OF m]
  have "eView (now i) = v" using eView_view_run run by metis
  then show ?thesis
    using view_run_signs [of C "first i" "now i" p "cm_Seq c" "cm_Digest c"]
      view_run_signs [of C "first i" "now i" q "cm_Seq c" "cm_Digest d"] run
      unforged [OF m] i slot sealed_unique by (metis cert_bytes_def)
qed

theorem one_digest_per_view_witness:
  "sealed (onPrePrepare plain_crypto (sample_engine 2) sample_pp) 1 (Digest plain_crypto sample_req)"
proof -
  let ?e = "onPrePrepare plain_crypto (sample_engine 2) sample_pp"
  have np: "\<not> is_primary (sample_engine 2)" using sample_primary_iff [of 2] by simp
  have run: "view_run plain_crypto (sample_engine 2) ?e"
    by (rule view_run.step [OF view_run.start view_step.preprepare [OF np]])
  show ?thesis
    using one_digest_per_view [OF run, of Prep 1 "Digest plain_crypto sample_req" Prep "Digest plain_crypto sample_req"]
      sample_vote [of 2]
    by (simp add: cert_bytes_def sample_cert_def eView_onPrePrepare) (simp add: signed_def)
qed

theorem agreement_in_view_witness:
  "verifyCert plain_crypto (sample_engine 1) (sample_cert Prep) Prep 3 \<and>
   cm_Digest (sample_cert Prep) = cm_Digest (sample_cert Prep)"
proof (rule conjI)
  have q: "phase_quorum (sample_engine i) Prep = 3" for i by (simp add: phase_quorum_def)
  show v: "verifyCert plain_crypto (sample_engine 1) (sample_cert Prep) Prep 3"
    by (rule sample_cert_ok [of _ 1]) simp_all
  show "cm_Digest (sample_cert Prep) = cm_Digest (sample_cert Prep)"
  proof (rule agreement_in_view [of sample_topo "{1, 2, 3, 4}" "{1}" plain_crypto sample_engine
        "\<lambda>i. onPrePrepare plain_crypto (sample_engine i) sample_pp" 0 "sample_engine 1" "sample_cert Prep" Prep
        "sample_engine 1" "sample_cert Prep" Prep])
    fix i :: int
    assume i: "i \<in> {1, 2, 3, 4} - {1}"
    then have np: "\<not> is_primary (sample_engine i)" using sample_primary_iff [of i] by auto
    have "view_run plain_crypto (sample_engine i) (onPrePrepare plain_crypto (sample_engine i) sample_pp)"
      by (rule view_run.step [OF view_run.start view_step.preprepare [OF np]])
    then show "view_run plain_crypto (sample_engine i) (onPrePrepare plain_crypto (sample_engine i) sample_pp) \<and>
        signed (sample_engine i) = {} \<and> eLog (sample_engine i) = [] \<and> eView (sample_engine i) = 0"
      by (simp add: signed_def)
    show "(i \<in> signers (sample_cert Prep) \<longrightarrow> cert_bytes Prep (sample_cert Prep) \<in> signed (onPrePrepare plain_crypto (sample_engine i) sample_pp)) \<and>
      (i \<in> signers (sample_cert Prep) \<longrightarrow> cert_bytes Prep (sample_cert Prep) \<in> signed (onPrePrepare plain_crypto (sample_engine i) sample_pp))"
      using i sample_vote by simp
  qed (simp_all add: q v, simp_all add: F_def go_div_def Quorum_def signers_def sample_cert_def)
qed

text \<open>C12: The vote of a backup on an accepted PRE-PREPARE. It votes exactly if it is not told to
  misbehave and the request validates; then it signs and sends PREPARE to the primary and holds
  every lock the request needs under the slot's number, having taken no lock of another slot and
  changed no other lock. Otherwise the PRE-PREPARE leaves it as it was.\<close>

theorem backup_vote:
  assumes "\<not> is_primary e"
  shows "let e' = processPrePrepare C e msg; seq = pp_Seq msg; req = pp_Req msg;
             b = PhaseSigningBytes ''PREPARE'' seq (pp_View msg) (pp_Digest msg);
             vote = \<lparr>pm_Seq = seq, pm_View = pp_View msg, pm_Digest = pp_Digest msg\<rparr>
         in if \<not> ByzantineBackup (eFault e) \<and> validateRequest e req seq
            then eEffects e' = eEffects e @ [ESign b, ESend (Primary e) (MPrepare vote) (ring_Sign C (eRing e) b)] \<and>
                 lock_owner (eStore e') = (\<lambda>i. if i \<in> set (lockItemsForOp req) then Some seq else lock_owner (eStore e) i)
            else e' = e"
  using assms by (rule backup_vote_cases)

theorem backup_vote_witness:
  "lock_owner (eStore (processPrePrepare plain_crypto (sample_engine 2) sample_pp)) 5 = Some 1"
proof -
  have np: "\<not> is_primary (sample_engine 2)" using sample_primary_iff [of 2] by simp
  have "validateRequest (sample_engine 2) (pp_Req sample_pp) (pp_Seq sample_pp)"
    by (simp add: validateRequest_def sample_pp_def norm_op_def sample_req_def Let_def
        locksReadyForSeq_def lockItemsForOp.simps IsLocked_def)
  then show ?thesis
    using backup_vote [OF np, of plain_crypto sample_pp]
    by (simp add: Let_def DefaultFaultConfig_def) (simp add: sample_pp_def lockItemsForOp.simps sample_req_def)
qed

subsection \<open>Collected votes make valid certificates\<close>

definition phase_vote :: "crypto_ops \<times> KeyRing \<times> bytes \<Rightarrow> (int, bytes) bucket \<Rightarrow> int \<Rightarrow> bytes \<Rightarrow> (int, bytes) bucket" where
  "phase_vote x votes i sig =
     (case x of (C, ring, msg) \<Rightarrow> case add_vote C ring msg votes i sig of None \<Rightarrow> votes | Some v \<Rightarrow> v)"

definition phase_accepts :: "crypto_ops \<times> KeyRing \<times> bytes \<Rightarrow> (int, bytes) bucket \<Rightarrow> int \<Rightarrow> bytes \<Rightarrow> bool" where
  "phase_accepts x votes i sig =
     (case x of (C, ring, msg) \<Rightarrow> ring_Verify C ring i msg sig \<and> bget votes i = None)"

definition votes_ok :: "crypto_ops \<times> KeyRing \<times> bytes \<Rightarrow> (int, bytes) bucket \<Rightarrow> bool" where
  "votes_ok x votes \<longleftrightarrow> bkeys_ok votes \<and>
     (case x of (C, ring, msg) \<Rightarrow> list_all (\<lambda>(i, sig). ring_Verify C ring i msg sig) votes)"

lemma bput_set: "set (bput k v b) \<subseteq> insert (k, v) (set b)"
  by (induction k v b rule: bput.induct) auto

lemma bkeys_ok_card: "bkeys_ok b \<Longrightarrow> length b = card (fst ` set b)"
  using distinct_card [of "map fst b"] by (simp add: bkeys_ok_def strict_sorted_iff)

interpretation phase_votes: vote_box phase_vote phase_accepts "\<lambda>v. fst ` set v" length votes_ok
proof unfold_locales
  fix x :: "crypto_ops \<times> KeyRing \<times> bytes" and votes :: "(int, bytes) bucket" and i sig
  obtain C ring msg where x: "x = (C, ring, msg)" by (cases x)
  assume ok: "votes_ok x votes"
  show "fst ` set (phase_vote x votes i sig) =
      (if phase_accepts x votes i sig then insert i (fst ` set votes) else fst ` set votes)"
    by (simp add: x phase_vote_def phase_accepts_def add_vote_def)
  show "votes_ok x (phase_vote x votes i sig)"
    using ok bput_set [of i sig votes]
    by (auto simp: x phase_vote_def add_vote_def votes_ok_def list_all_iff)
  show "length votes = card (fst ` set votes)" using ok by (simp add: votes_ok_def bkeys_ok_card)
qed simp

lemma sorted_entries:
  "bkeys_ok votes \<Longrightarrow> sort_key se_ServerID (map (\<lambda>(i, sig). \<lparr>se_ServerID = i, se_Sig = sig\<rparr>) votes) =
     map (\<lambda>(i, sig). \<lparr>se_ServerID = i, se_Sig = sig\<rparr>) votes"
proof (rule sort_key_id_if_sorted)
  have ids: "map se_ServerID (map (\<lambda>(i, sig). \<lparr>se_ServerID = i, se_Sig = sig\<rparr>) votes) = map fst votes" by auto
  assume "bkeys_ok votes"
  then show "sorted (map se_ServerID (map (\<lambda>(i, sig). \<lparr>se_ServerID = i, se_Sig = sig\<rparr>) votes))"
    unfolding ids by (simp add: bkeys_ok_def strict_sorted_imp_sorted)
qed

lemma built_certificate:
  fixes C :: crypto_ops and e :: engine and s :: seqState and k :: int and p :: phase
  defines "votes \<equiv> (case p of Prep \<Rightarrow> sPrepares s | Comm \<Rightarrow> sCommits s)"
  assumes ok: "votes_ok (C, eRing e, PhaseSigningBytes (phase_name p) k (eView e) (sDigest s)) votes"
  shows "case buildCertLocked e k s p of
      None \<Rightarrow> int (card (fst ` set votes)) < phase_quorum e p
    | Some c \<Rightarrow> phase_quorum e p \<le> int (card (fst ` set votes)) \<and> signers c = fst ` set votes \<and>
        cm_Seq c = k \<and> cm_View c = eView e \<and> cm_Digest c = sDigest s \<and>
        verifyCert C e c p (phase_quorum e p)"
proof -
  let ?msg = "PhaseSigningBytes (phase_name p) k (eView e) (sDigest s)"
  have len: "length votes = card (fst ` set votes)" using ok by (rule phase_votes.count_voters)
  let ?es = "map (\<lambda>(i, sig). \<lparr>se_ServerID = i, se_Sig = sig\<rparr>) votes"
  have ids: "map se_ServerID ?es = map fst votes" by auto
  have build: "buildCertLocked e k s p = (if int (length votes) < phase_quorum e p then None
      else Some \<lparr>cm_Seq = k, cm_View = eView e, cm_Digest = sDigest s, cm_Sigs = ?es\<rparr>)"
    using ok by (cases p) (simp_all add: buildCertLocked_def votes_def phase_quorum_def sorted_entries votes_ok_def Let_def)
  have "distinct (map se_ServerID ?es)"
    using ok unfolding ids by (simp add: votes_ok_def bkeys_ok_def strict_sorted_iff)
  then have valid: "sigs_valid C (PublicKey (eRing e)) ?msg ?es"
    using ok by (auto simp: sigs_valid_def votes_ok_def list_all_iff ring_Verify_def)
  have sig: "se_ServerID ` (\<lambda>(i, sig). \<lparr>se_ServerID = i, se_Sig = sig\<rparr>) ` set votes = fst ` set votes"
    by (simp add: image_image case_prod_unfold)
  show ?thesis
    using valid by (simp add: build len signers_def sig verifyCert_def check_sigs_iff)
qed

text \<open>What the collector collects, everybody accepts: let any servers offer any PREPARE or
  COMMIT votes for a slot that started without votes. The votes kept are from distinct servers with
  valid signatures; a certificate can be built exactly when they reach the quorum, and the one built
  is for the slot's number, view and digest, has exactly the kept voters as signers, and passes the
  check of the engine (and of every replica with the same keys).\<close>

theorem collected_certificate_verifies:
  fixes C :: crypto_ops and e :: engine and s :: seqState and k :: int and p :: phase
    and offered :: "(int \<times> bytes) list"
  defines "msg \<equiv> PhaseSigningBytes (phase_name p) k (eView e) (sDigest s)"
  defines "votes \<equiv> cast_all phase_vote (C, eRing e, msg) [] offered"
  defines "s' \<equiv> (case p of Prep \<Rightarrow> s\<lparr>sPrepares := votes\<rparr> | Comm \<Rightarrow> s\<lparr>sCommits := votes\<rparr>)"
  shows "case buildCertLocked e k s' p of
      None \<Rightarrow> int (card (fst ` set votes)) < phase_quorum e p
    | Some c \<Rightarrow> phase_quorum e p \<le> int (card (fst ` set votes)) \<and> signers c = fst ` set votes \<and>
        fst ` set votes \<subseteq> fst ` set offered \<and>
        cm_Seq c = k \<and> cm_View c = eView e \<and> cm_Digest c = sDigest s \<and>
        verifyCert C e c p (phase_quorum e p)"
proof -
  have ok: "votes_ok (C, eRing e, msg) votes"
    unfolding votes_def by (rule phase_votes.invar_add_all) (simp add: votes_ok_def)
  have "fst ` set votes \<subseteq> fst ` set offered"
    using phase_votes.voters_add_all [of "(C, eRing e, msg)" "[]" offered] by (simp add: votes_def votes_ok_def)
  moreover have "(case p of Prep \<Rightarrow> sPrepares s' | Comm \<Rightarrow> sCommits s') = votes" "sDigest s' = sDigest s"
    by (simp_all add: s'_def split: phase.split)
  ultimately show ?thesis
    using built_certificate [of C e p k s'] ok by (auto simp: msg_def split: option.splits)
qed

end
