(* ===== verification/Hazards.thy ===== *)
theory Hazards
  imports Safety CrossShard
begin

text \<open>
  What the protocol does not keep: the checks the handlers leave out, each with the run that
  shows what follows from it.
\<close>

subsection \<open>Numbers that are never filled\<close>

text \<open>A missing slot stops execution and every later proposal.\<close>

lemma missing_slot_stops:
  assumes "bget (eLog e) k = None" and "eExecSeq e \<le> k"
  shows "eExecSeq (tryExecute C e) \<le> k"
proof (rule ccontr)
  assume "\<not> ?thesis"
  then show False using tryExecute_log [of e C, THEN conjunct2, rule_format, of k] assms by auto
qed

lemma missing_slot_gap:
  assumes "bget (eLog e) k = None" and "eExecSeq e \<le> k" and "1 \<le> k" and "k < j"
  shows "\<not> gapClearLocked e j"
proof -
  have "k \<in> set [1..j - 1]" using assms(3,4) by simp
  moreover have "\<not> gap_ok e k" using assms(1,2) by (simp add: gap_ok_def)
  ultimately show ?thesis by (auto simp: gapClearLocked_def list_all_iff simp del: set_upto)
qed

lemma self_locks_fail:
  "r_X req = r_Y req \<Longrightarrow> r_Op req = OpIntra \<Longrightarrow> \<not> fst (acquireLocksForOp e seq req)"
  by (auto simp: acquireLocksForOp_def lockItemsForOp.simps AcquireLock_def split: prod.splits if_splits)

lemma release_keeps [simp]:
  "eLog (releaseLocksForOp e r) = eLog e" "eNextSeq (releaseLocksForOp e r) = eNextSeq e"
  "eExecSeq (releaseLocksForOp e r) = eExecSeq e"
  by (rule same_core_fields; simp)+

lemma acquire_keeps [simp]:
  "eLog (snd (acquireLocksForOp e seq r)) = eLog e" "eNextSeq (snd (acquireLocksForOp e seq r)) = eNextSeq e"
  "eExecSeq (snd (acquireLocksForOp e seq r)) = eExecSeq e"
  by (simp_all add: acquireLocksForOp_def split: prod.split)

text \<open>C19: A transfer of an item to itself stalls its cluster. On the primary such a request passes
  every check, takes the next sequence number and then fails to lock its one item twice; the number
  is not given back. Its slot stays empty, so the primary executes nothing from there on and no
  replica in that state accepts a PRE-PREPARE with a higher number.\<close>

theorem self_transfer_stalls:
  fixes req :: Request
  defines "req' \<equiv> req\<lparr>r_Op := OpIntra\<rparr>"
  assumes prim: "is_primary e" and intra: "norm_op (r_Op req) = OpIntra" and self: "r_X req = r_Y req"
    and pass: "\<not> clusterHonestLive e < ePrepareCollect e" "awaitStartable e req'" "validateForStartQuick C e req'"
    and log: "bget (eLog e) (eNextSeq e) = None" "eExecSeq e \<le> eNextSeq e" "1 \<le> eNextSeq e"
  shows "let e' = startConsensus C e req in
    eNextSeq e' = eNextSeq e + 1 \<and> eLog e' = eLog e \<and>
    eExecSeq (tryExecute C e') \<le> eNextSeq e \<and>
    (\<forall>j. eNextSeq e < j \<longrightarrow> \<not> gapClearLocked e' j)"
proof -
  let ?e = "e\<lparr>eNextSeq := eNextSeq e + 1\<rparr>"
  let ?l = "acquireLocksForOp ?e (eNextSeq e) req'"
  have "\<not> fst ?l" by (rule self_locks_fail) (simp_all add: req'_def self)
  then have l: "?l = (False, snd ?l)" by (cases ?l) simp
  have op: "r_Op req' = OpIntra" by (simp add: req'_def)
  have start: "startConsensus C e req = releaseLocksForOp (snd ?l) req'"
    unfolding startConsensus_def Let_def intra req'_def [symmetric] assignSeq_def
    using prim pass l by (cases ?l) (simp add: op dropCrossPrepare_def)
  show ?thesis
    using missing_slot_stops [of "startConsensus C e req" "eNextSeq e" C]
      missing_slot_gap [of "startConsensus C e req" "eNextSeq e"] log
    by (simp add: Let_def start)
qed

theorem self_transfer_stalls_witness:
  "\<not> gapClearLocked (startConsensus plain_crypto (sample_engine 1) (sample_req\<lparr>r_Y := 5\<rparr>)) 2"
proof -
  have prim: "is_primary (sample_engine 1)" using sample_primary_iff [of 1] by simp
  have [simp]: "lockItemsForOp (sample_req\<lparr>r_Y := 5, r_Op := OpIntra\<rparr>) = [5, 5]"
    by (simp add: lockItemsForOp.simps sample_req_def)
  have await: "awaitStartable (sample_engine 1) (sample_req\<lparr>r_Y := 5, r_Op := OpIntra\<rparr>)"
    by (simp add: awaitStartable_def waitAcquirableForOp_def canAcquireForOp_def IsLocked_def) (simp add: sample_req_def)
  have valid: "validateForStartQuick plain_crypto (sample_engine 1) (sample_req\<lparr>r_Y := 5, r_Op := OpIntra\<rparr>)"
    by (simp add: validateForStartQuick_def norm_op_def Let_def clientTxnInFlight_def canAcquireForOp_def IsLocked_def)
       (simp add: sample_req_def)
  show ?thesis
    using self_transfer_stalls [OF prim, of "sample_req\<lparr>r_Y := 5\<rparr>" plain_crypto] await valid
    by (simp add: clusterHonestLive_def DefaultFaultConfig_def norm_op_def Let_def) (simp add: sample_req_def)
qed

subsection \<open>Certificates that do not fix the request\<close>

lemma acquire_ledger:
  "store_ok s \<Longrightarrow> store_ok (snd (acquire_items AcquireLockForSeq q is s)) \<and>
     ledger_of (snd (acquire_items AcquireLockForSeq q is s)) = ledger_of s"
proof (induction "is" arbitrary: s)
  case (Cons i "is")
  have "ledger_of (snd (AcquireLockForSeq s i q)) = ledger_of s"
    by (simp add: ledger_of_def store_simps Datastore_def fun_eq_iff)
  then show ?case
    using Cons.IH [of "snd (AcquireLockForSeq s i q)"] store_ok_locks(2) [OF Cons.prems, of i q]
    by (cases "AcquireLockForSeq s i q") auto
qed simp

lemma backup_process_core: "\<not> is_primary e \<Longrightarrow> same_core e (processPrePrepare C e msg)"
  by (auto simp: processPrePrepare_def sendPrepare_def Let_def ensureLocksForOp_def is_primary_def split: prod.split)

lemma backup_process_ledger:
  "\<not> is_primary e \<Longrightarrow> store_ok (eStore e) \<Longrightarrow> store_ok (eStore (processPrePrepare C e msg)) \<and>
     ledger_of (eStore (processPrePrepare C e msg)) = ledger_of (eStore e)"
  using acquire_ledger [of "eStore e" "pp_Seq msg" "lockItemsForOp (pp_Req msg)"]
  by (auto simp: processPrePrepare_def sendPrepare_def Let_def ensureLocksForOp_def is_primary_def split: prod.split)

text \<open>A backup of the example deployment accepts any payable intra-shard proposal for slot 1.\<close>

lemma sample_accepts:
  assumes i: "i \<in> {2, 3, 4}" and msg: "pp_Seq msg = 1" "pp_View msg = 0"
    and req: "r_Op (pp_Req msg) = OpIntra" "0 < r_TS (pp_Req msg)" "\<not> (10 :: int64) <s r_Amt (pp_Req msg)"
    and items: "r_X (pp_Req msg) \<in> {1..50}" "r_Y (pp_Req msg) \<in> {1..50}"
  defines "a \<equiv> adopt (pp_Digest msg) (pp_Req msg) 1 (sample_engine i)"
    and "e \<equiv> onPrePrepare plain_crypto (sample_engine i) msg"
  shows "same_core a e" and "PhaseSigningBytes ''PREPARE'' 1 0 (pp_Digest msg) \<in> signed e"
    and "store_ok (eStore e)" and "ledger_of (eStore e) = ledger_of (empty_store 10 100)"
proof -
  have np: "\<not> is_primary (sample_engine i)" using sample_primary_iff [of i] i by auto
  have e: "e = processPrePrepare plain_crypto a msg"
    using items by (simp add: e_def a_def onPrePrepare_def msg req opMatchesCluster_def norm_op_def SameCluster_def
        sample_cluster gapClearLocked_def)
  have na: "\<not> is_primary a" using np by (simp add: a_def adopt_steps)
  have val: "validateRequest a (pp_Req msg) 1"
    using req by (simp add: a_def validateRequest_def norm_op_def Let_def adopt_steps locksReadyForSeq_def
        list_all_iff IsLocked_def)
  show "same_core a e" unfolding e by (rule backup_process_core [OF na])
  show "PhaseSigningBytes ''PREPARE'' 1 0 (pp_Digest msg) \<in> signed e"
    using backup_vote_cases [OF na, of plain_crypto msg] val
    by (simp add: e Let_def msg signed_def) (simp add: a_def adopt_steps DefaultFaultConfig_def)
  have "store_ok (eStore a)" by (simp add: a_def adopt_steps)
  then show "store_ok (eStore e)" "ledger_of (eStore e) = ledger_of (empty_store 10 100)"
    using backup_process_ledger [OF na, of plain_crypto msg] by (simp_all add: e) (simp add: a_def adopt_steps)
qed

lemma sample_commits:
  assumes "i \<in> {2, 3, 4}" and "pp_Seq msg = 1" "pp_View msg = 0" "pp_Digest msg = Digest plain_crypto sample_req"
    and "r_Op (pp_Req msg) = OpIntra" "0 < r_TS (pp_Req msg)" "\<not> (10 :: int64) <s r_Amt (pp_Req msg)"
    and "r_X (pp_Req msg) \<in> {1..50}" "r_Y (pp_Req msg) \<in> {1..50}"
  defines "e \<equiv> onCommitCert plain_crypto (onPrePrepare plain_crypto (sample_engine i) msg) (sample_cert Comm)"
  shows "eExecSeq e = 2" and "ledger_of (eStore e) = ledger_step plain_crypto (pp_Req msg) (ledger_of (empty_store 10 100))"
proof -
  let ?a = "adopt (pp_Digest msg) (pp_Req msg) 1 (sample_engine i)"
  let ?p = "onPrePrepare plain_crypto (sample_engine i) msg"
  note acc = sample_accepts [OF assms(1-3,5-9)]
  note f = same_core_fields [OF acc(1)]
  let ?s = "emptySlot\<lparr>sDigest := pp_Digest msg, sReq := pp_Req msg, sPrePrepare := True\<rparr>"
  have log: "bget (eLog ?p) k = (if k = 1 then Some ?s else None)" for k
    by (simp add: f adopt_slot revive_def emptySlot_def)
  let ?q = "put_slot 1 (?s\<lparr>sCommitCert := Some (sample_cert Comm)\<rparr>) ?p"
  have "verifyCert plain_crypto ?p (sample_cert Comm) Comm (eCommitQuorum ?p)"
    by (rule sample_cert_ok [of _ i]) (simp_all add: f adopt_def ensureSeqLocked_def cancelViewChangeTimerLocked_def put_slot_def)
  moreover have "eView ?p = 0" by (simp add: f adopt_steps)
  ultimately have e: "e = tryExecute plain_crypto ?q"
    using log [of 1] assms(4) by (simp add: e_def onCommitCert_def) (simp add: sample_cert_def emptySlot_def)
  have exec_p: "eExecSeq ?p = 1" by (simp add: f adopt_steps)
  have exec: "eExecSeq ?q = 1" by (simp add: put_slot_def exec_p)
  have "stops_at ?q 2"
    by (simp add: stops_at_def exec_p upto_small put_slot_def log runnable_def emptySlot_def)
  then show stop: "eExecSeq e = 2" unfolding e by (rule tryExecute_stops)
  have "slot_reqs ?q 1 2 = [pp_Req msg]"
    by (simp add: slot_reqs_def upto_small slot_req_def put_slot_def emptySlot_def)
  then show "ledger_of (eStore e) = ledger_step plain_crypto (pp_Req msg) (ledger_of (empty_store 10 100))"
    using tryExecute_ledger [of ?q plain_crypto] acc(3,4) stop by (simp add: e exec)
qed

text \<open>The transfer of another client under the digest of \<open>sample_req\<close>.\<close>

definition sample_pp' :: PrePrepareMsg where
  "sample_pp' = sample_pp\<lparr>pp_Req := \<lparr>r_ClientID = ''d'', r_TS = 1, r_X = 6, r_Y = 8, r_Amt = 2, r_Op = OpIntra\<rparr>\<rparr>"

text \<open>C20: A commit certificate does not fix what is executed: a backup never checks that the digest
  of a PRE-PREPARE is the digest of its request. Sent the same number, view and digest with two
  different requests, two backups sign the same PREPARE, accept the same commit certificate, execute
  slot 1, and end with different balances.\<close>

theorem equivocation_undetected:
  "let a = onPrePrepare plain_crypto (sample_engine 2) sample_pp;
       b = onPrePrepare plain_crypto (sample_engine 3) sample_pp';
       a' = onCommitCert plain_crypto a (sample_cert Comm);
       b' = onCommitCert plain_crypto b (sample_cert Comm)
   in cert_bytes Prep (sample_cert Prep) \<in> signed a \<inter> signed b \<and>
      eExecSeq a' = 2 \<and> eExecSeq b' = 2 \<and>
      GetBalance (eStore a') 5 = 7 \<and> GetBalance (eStore a') 6 = 10 \<and>
      GetBalance (eStore b') 5 = 10 \<and> GetBalance (eStore b') 6 = 8"
proof -
  have m: "pp_Seq sample_pp = 1" "pp_View sample_pp = 0" "pp_Digest sample_pp = Digest plain_crypto sample_req"
    "pp_Req sample_pp = sample_req\<lparr>r_Op := OpIntra\<rparr>"
    "pp_Seq sample_pp' = 1" "pp_View sample_pp' = 0" "pp_Digest sample_pp' = Digest plain_crypto sample_req"
    "pp_Req sample_pp' = \<lparr>r_ClientID = ''d'', r_TS = 1, r_X = 6, r_Y = 8, r_Amt = 2, r_Op = OpIntra\<rparr>"
    by (simp_all add: sample_pp_def sample_pp'_def)
  have r: "r_TS sample_req = 1" "r_X sample_req = 5" "r_Y sample_req = 7" "r_Amt sample_req = 3"
    by (simp_all add: sample_req_def)
  have sig: "cert_bytes Prep (sample_cert Prep) = PhaseSigningBytes ''PREPARE'' 1 0 (Digest plain_crypto sample_req)"
    by (simp add: cert_bytes_def sample_cert_def phase_name_def)
  have acc: "cert_bytes Prep (sample_cert Prep) \<in> signed (onPrePrepare plain_crypto (sample_engine 2) sample_pp)"
    "cert_bytes Prep (sample_cert Prep) \<in> signed (onPrePrepare plain_crypto (sample_engine 3) sample_pp')"
    using sample_accepts(2) [of 2 sample_pp] sample_accepts(2) [of 3 sample_pp'] by (simp_all add: m r sig)
  note com = sample_commits [of 2 sample_pp] sample_commits [of 3 sample_pp']
  have bal: "GetBalance s i = lg_bal (ledger_of s) i" for s i by (simp add: ledger_bal)
  show ?thesis
    using acc com
    by (simp add: Let_def m r bal) (simp add: ledger_step_def norm_op_def Let_def ledger_bal m r)
qed

end
