(* ===== verification/Viewchange.thy ===== *)
theory Viewchange
  imports Hazards
begin

text \<open>
  View changes (\<open>internal/pbft/viewchange.go\<close>) and the dispatch of inbound envelopes
  (\<open>Engine.Handle\<close>). Go iterates over a map in an order it does not fix; each such loop takes its
  order from a parameter, which yields a rearrangement of the entries.
\<close>

record iteration =
  it_log :: "(int \<times> seqState) list \<Rightarrow> (int \<times> seqState) list"
  it_reqs :: "(string \<times> Request) list \<Rightarrow> (string \<times> Request) list"
  it_vcs :: "(int \<times> ViewChangeMsg) list \<Rightarrow> (int \<times> ViewChangeMsg) list"
  it_prepared :: "(int \<times> PreparedEntry) list \<Rightarrow> (int \<times> PreparedEntry) list"

definition rearranges :: "iteration \<Rightarrow> bool" where
  "rearranges I \<longleftrightarrow> (\<forall>xs. set (it_log I xs) = set xs) \<and> (\<forall>xs. set (it_reqs I xs) = set xs) \<and>
     (\<forall>xs. set (it_vcs I xs) = set xs) \<and> (\<forall>xs. set (it_prepared I xs) = set xs)"

definition ascending :: iteration where
  "ascending = \<lparr>it_log = (\<lambda>xs. xs), it_reqs = (\<lambda>xs. xs), it_vcs = (\<lambda>xs. xs), it_prepared = (\<lambda>xs. xs)\<rparr>"

subsection \<open>Building the messages\<close>

definition buildViewChangeLocked :: "iteration \<Rightarrow> engine \<Rightarrow> ViewChangeMsg" where
  "buildViewChangeLocked I e =
     (let prepared = map (\<lambda>(seq, s). \<lparr>pe_Seq = seq, pe_View = eView e, pe_Digest = sDigest s, pe_Req = sReq s\<rparr>)
            (filter (\<lambda>(seq, s). sPrePrepare s \<and> \<not> sExecuted s \<and> sDigest s \<noteq> []) (it_log I (eLog e)));
          latest = eExecSeq e - 1
      in \<lparr>vc_NewView = eView e + 1, vc_LatestStable = (if latest < 0 then 0 else latest),
          vc_Prepared = prepared, vc_PendingReqs = map snd (it_reqs I (ePendingClients e))\<rparr>)"

text \<open>The highest view wins a number; of two entries of the same view the later one does.\<close>

definition take_prepared :: "int \<Rightarrow> PreparedEntry \<Rightarrow> (int, PreparedEntry) bucket \<Rightarrow> (int, PreparedEntry) bucket" where
  "take_prepared maxStable pe prepared =
     (if pe_Seq pe \<le> maxStable then prepared
      else case bget prepared (pe_Seq pe) of
             None \<Rightarrow> bput (pe_Seq pe) pe prepared
           | Some cur \<Rightarrow> if pe_View pe \<ge> pe_View cur then bput (pe_Seq pe) pe prepared else prepared)"

definition take_request :: "crypto_ops \<Rightarrow> Request \<Rightarrow> (string, Request) bucket \<Rightarrow> (string, Request) bucket" where
  "take_request C req pending = bput (Digest C req) req pending"

definition take_view_change ::
    "crypto_ops \<Rightarrow> ViewChangeMsg \<Rightarrow> (int, PreparedEntry) bucket \<times> (string, Request) bucket \<times> int \<Rightarrow>
     (int, PreparedEntry) bucket \<times> (string, Request) bucket \<times> int" where
  "take_view_change C vc acc =
     (case acc of (prepared, pending, maxStable) \<Rightarrow>
        (let maxStable = (if vc_LatestStable vc > maxStable then vc_LatestStable vc else maxStable)
         in (fold (take_prepared maxStable) (vc_Prepared vc) prepared,
             fold (take_request C) (vc_PendingReqs vc) pending, maxStable)))"

text \<open>A pending request that is stale or no longer covered gets no number.\<close>

definition assign_pending :: "crypto_ops \<Rightarrow> engine \<Rightarrow> int \<Rightarrow> Request \<Rightarrow> PrePrepareMsg list \<times> int \<Rightarrow> PrePrepareMsg list \<times> int" where
  "assign_pending C e newView req acc =
     (case acc of (pps, nextSeq) \<Rightarrow>
        if GetClientTS (eStore e) (r_ClientID req) \<ge> r_TS req then (pps, nextSeq)
        else if GetBalance (eStore e) (r_X req) <s r_Amt req then (pps, nextSeq)
        else (pps @ [\<lparr>pp_Seq = nextSeq, pp_View = newView, pp_Digest = Digest C req, pp_Req = req\<rparr>], nextSeq + 1))"

definition buildNewViewLocked :: "crypto_ops \<Rightarrow> iteration \<Rightarrow> engine \<Rightarrow> int \<Rightarrow> NewViewMsg" where
  "buildNewViewLocked C I e newView =
     (let vcs = (case bget (eViewChangeLog e) newView of None \<Rightarrow> [] | Some m \<Rightarrow> m);
          allVC = map snd (it_vcs I vcs)
      in case fold (take_view_change C) allVC ([], [], 0) of
           (prepared, pending, maxStable) \<Rightarrow>
             (let pending = fold (take_request C) (map snd (it_reqs I (ePendingClients e))) pending;
                  maxSeq = fold (\<lambda>(seq, _) m. if seq > m then seq else m) prepared maxStable;
                  entries = it_prepared I prepared;
                  prePrepares = map (\<lambda>(seq, pe). \<lparr>pp_Seq = seq, pp_View = newView, pp_Digest = pe_Digest pe,
                                                  pp_Req = pe_Req pe\<rparr>) entries;
                  pending = fold (\<lambda>(seq, pe). bdel (pe_Digest pe)) entries pending;
                  nextSeq = (if maxSeq + 1 < eNextSeq e then eNextSeq e else maxSeq + 1)
              in case fold (assign_pending C e newView) (map snd (it_reqs I pending)) (prePrepares, nextSeq) of
                   (prePrepares, _) \<Rightarrow>
                     \<lparr>nv_NewView = newView, nv_PrePrepares = prePrepares, nv_ViewChanges = allVC\<rparr>))"

subsection \<open>Entering a view\<close>

definition setViewLocked :: "int \<Rightarrow> engine \<Rightarrow> engine" where
  "setViewLocked v e = e\<lparr>eView := v, eSenderView := v\<rparr>"

definition maxPrePrepareSeq :: "PrePrepareMsg list \<Rightarrow> int" where
  "maxPrePrepareSeq pps = fold (\<lambda>pp m. if pp_Seq pp > m then pp_Seq pp else m) pps 0"

definition acceptNewViewPrePrepare :: "crypto_ops \<Rightarrow> PrePrepareMsg \<Rightarrow> engine \<Rightarrow> engine" where
  "acceptNewViewPrePrepare C msg e =
     (if \<not> SameCluster (eTopo e) (r_X (pp_Req msg)) (r_Y (pp_Req msg)) then e
      else if \<not> gapClearLocked e (pp_Seq msg) then e
      else (case ensureSeqLocked e (pp_Seq msg) of
              (s, e) \<Rightarrow>
                if sPrePrepare s \<and> sDigest s = pp_Digest msg then e
                else (let e = cancelViewChangeTimerLocked (put_slot (pp_Seq msg)
                                (s\<lparr>sDigest := pp_Digest msg, sReq := pp_Req msg, sPrePrepare := True\<rparr>) e)
                      in if is_primary e then
                           (if \<not> canAcquireForOp (eStore e) (pp_Req msg) then e
                            else (case acquireLocksForOp e (pp_Seq msg) (pp_Req msg) of
                                    (ok, e) \<Rightarrow> if \<not> ok then releaseLocksForOp e (pp_Req msg)
                                               else processPrePrepare C e msg))
                         else processPrePrepare C e msg)))"

definition onNewView :: "crypto_ops \<Rightarrow> engine \<Rightarrow> NewViewMsg \<Rightarrow> engine" where
  "onNewView C e msg =
     (if \<not> Alive (eFault e) then e
      else if nv_NewView msg \<le> eView e then e
      else (let e = e\<lparr>eNewViewLog := eNewViewLog e @ [msg]\<rparr>;
                e = setViewLocked (nv_NewView msg) e;
                e = e\<lparr>eInViewChange := False, eViewChangeTarget := 0\<rparr>;
                e = cancelViewChangeTimerLocked e;
                e = e\<lparr>ePendingClients := []\<rparr>;
                maxSeq = maxPrePrepareSeq (nv_PrePrepares msg);
                e = (if maxSeq \<ge> eNextSeq e then e\<lparr>eNextSeq := maxSeq + 1\<rparr> else e)
            in fold (acceptNewViewPrePrepare C) (nv_PrePrepares msg) e))"

definition tryIssueNewView :: "crypto_ops \<Rightarrow> iteration \<Rightarrow> engine \<Rightarrow> int \<Rightarrow> engine" where
  "tryIssueNewView C I e newView =
     (if PrimaryOf (eTopo e) (eCluster e) newView \<noteq> eSelf e then e
      else if ByzantineLeader (eFault e) then e
      else if newView \<in> eNewViewIssued e then e
      else (let nv = buildNewViewLocked C I e newView;
                e = e\<lparr>eNewViewIssued := insert newView (eNewViewIssued e)\<rparr>;
                e = onNewView C e nv
            in emit (EBroadcast (MNewView nv)) e))"

subsection \<open>Leaving a view\<close>

text \<open>\<open>triggerViewChange\<close> hands its own message to \<open>onViewChange\<close>, which may trigger in turn. The
  message goes out for \<open>view + 1\<close>, which is marked as sent first, so the second level never triggers.\<close>

definition markViewChange :: "engine \<Rightarrow> engine" where
  "markViewChange e = e\<lparr>eViewChangeSent := insert (eView e + 1) (eViewChangeSent e), eInViewChange := True,
                        eViewChangeTarget := eView e + 1\<rparr>"

definition logViewChange :: "engine \<Rightarrow> int \<Rightarrow> ViewChangeMsg \<Rightarrow> bool \<times> engine" where
  "logViewChange e from msg =
     (let e = e\<lparr>eViewChangeReceived := eViewChangeReceived e @ [msg]\<rparr>;
          votes = (case bget (eViewChangeLog e) (vc_NewView msg) of None \<Rightarrow> [] | Some m \<Rightarrow> m)
      in if bget votes from \<noteq> None then (False, e\<lparr>eViewChangeLog := bput (vc_NewView msg) votes (eViewChangeLog e)\<rparr>)
         else (True, e\<lparr>eViewChangeLog := bput (vc_NewView msg) (bput from msg votes) (eViewChangeLog e)\<rparr>))"

definition vc_count :: "engine \<Rightarrow> int \<Rightarrow> int" where
  "vc_count e v = (case bget (eViewChangeLog e) v of None \<Rightarrow> 0 | Some m \<Rightarrow> int (length m))"

lemma logViewChange_keeps:
  "eView (snd (logViewChange e from msg)) = eView e"
  "eViewChangeSent (snd (logViewChange e from msg)) = eViewChangeSent e"
  by (simp_all add: logViewChange_def Let_def)

lemma logViewChange_same:
  "(fresh, e1) = logViewChange e sender msg \<Longrightarrow> eView e1 = eView e \<and> eViewChangeSent e1 = eViewChangeSent e"
  using logViewChange_keeps [of e sender msg] by (cases "logViewChange e sender msg") simp

definition vc_pending :: "engine \<Rightarrow> nat" where
  "vc_pending e = (if eView e + 1 \<in> eViewChangeSent e then 0 else 1)"

lemma vc_pending_less:
  "(fresh, e1) = logViewChange e sender msg \<Longrightarrow> eView e1 + 1 \<notin> eViewChangeSent e1 \<Longrightarrow>
     ((C, I, markViewChange e1, i, m), (C', I', e, sender, msg)) \<in> measure (\<lambda>(C, I, e, i, m). vc_pending e)"
  using logViewChange_same [of fresh e1 e sender msg] by (simp add: vc_pending_def markViewChange_def)

function onViewChange :: "crypto_ops \<Rightarrow> iteration \<Rightarrow> engine \<Rightarrow> int \<Rightarrow> ViewChangeMsg \<Rightarrow> engine" where
  "onViewChange C I e from msg =
     (if \<not> Alive (eFault e) then e
      else if vc_NewView msg \<le> eView e then e
      else (case logViewChange e from msg of
              (fresh, e1) \<Rightarrow>
                if \<not> fresh then e1
                else (let count = vc_count e1 (vc_NewView msg);
                          amplify = (count = eF e1 + 1 \<and> vc_NewView msg \<notin> eViewChangeSent e1);
                          issueNewView = (count \<ge> eCommitQuorum e1);
                          e2 = (if amplify then
                                  (if eView e1 + 1 \<in> eViewChangeSent e1 then e1
                                   else (let m = buildViewChangeLocked I e1
                                         in emit (EBroadcast (MViewChange m))
                                              (onViewChange C I (markViewChange e1) (eSelf e1) m)))
                                else e1)
                      in if issueNewView then tryIssueNewView C I e2 (vc_NewView msg) else e2)))"
  by pat_completeness auto
termination
proof (relation "measure (\<lambda>(C, I, e, sender, msg). vc_pending e)", goal_cases)
  case 2
  show ?case by (rule vc_pending_less) (fact 2)+
qed simp

declare onViewChange.simps [simp del]

definition triggerViewChange :: "crypto_ops \<Rightarrow> iteration \<Rightarrow> engine \<Rightarrow> engine" where
  "triggerViewChange C I e =
     (if eView e + 1 \<in> eViewChangeSent e then e
      else (let m = buildViewChangeLocked I e
            in emit (EBroadcast (MViewChange m)) (onViewChange C I (markViewChange e) (eSelf e) m)))"

text \<open>\<open>onViewChange\<close> as the code composes it.\<close>

lemma onViewChange_eq:
  "onViewChange C I e from msg =
     (if \<not> Alive (eFault e) then e
      else if vc_NewView msg \<le> eView e then e
      else (case logViewChange e from msg of
              (fresh, e) \<Rightarrow>
                if \<not> fresh then e
                else (let count = vc_count e (vc_NewView msg);
                          amplify = (count = eF e + 1 \<and> vc_NewView msg \<notin> eViewChangeSent e);
                          issueNewView = (count \<ge> eCommitQuorum e);
                          e = (if amplify then triggerViewChange C I e else e)
                      in if issueNewView then tryIssueNewView C I e (vc_NewView msg) else e)))"
  by (subst onViewChange.simps) (simp add: triggerViewChange_def Let_def split: prod.split)

text \<open>The timer's callback; the timer itself stays registered until something cancels it.\<close>

definition timer_fires :: "crypto_ops \<Rightarrow> iteration \<Rightarrow> engine \<Rightarrow> engine" where
  "timer_fires C I e = (if eTimerSet e then triggerViewChange C I e else e)"

subsection \<open>Dispatch\<close>

definition Handle :: "crypto_ops \<Rightarrow> iteration \<Rightarrow> engine \<Rightarrow> Envelope \<Rightarrow> engine" where
  "Handle C I e env =
     (if \<not> Alive (eFault e) then e
      else case env_Payload env of
             MClientRequest req \<Rightarrow> onClientRequest C e req
           | MPrePrepare msg \<Rightarrow> onPrePrepare C e msg
           | MPrepare msg \<Rightarrow> onPrepare C e (env_SenderId env) msg (env_Signature env)
           | MPrepareCert cert \<Rightarrow> onPrepareCert C e cert
           | MCommit msg \<Rightarrow> onCommit C e (env_SenderId env) msg (env_Signature env)
           | MCommitCert cert \<Rightarrow> onCommitCert C e cert
           | MViewChange msg \<Rightarrow> onViewChange C I e (env_SenderId env) msg
           | MNewView msg \<Rightarrow> onNewView C e msg
           | MDiscardSeq msg \<Rightarrow> onDiscardSeq C e msg
           | Malformed \<Rightarrow> e)"

subsection \<open>What a NEW-VIEW carries over\<close>

text \<open>Number \<open>k\<close> is carried by an entry of a view at least \<open>v\<close>.\<close>

definition carried :: "(int, PreparedEntry) bucket \<Rightarrow> int \<Rightarrow> int \<Rightarrow> bool" where
  "carried prepared k v = (case bget prepared k of None \<Rightarrow> False | Some cur \<Rightarrow> v \<le> pe_View cur)"

lemma take_prepared_carried: "carried b k v \<Longrightarrow> carried (take_prepared m pe b) k v"
  by (auto simp: take_prepared_def carried_def split: option.splits)

lemma take_prepared_new: "m < pe_Seq pe \<Longrightarrow> carried (take_prepared m pe b) (pe_Seq pe) (pe_View pe)"
  by (auto simp: take_prepared_def carried_def split: option.splits)

lemma take_prepared_origin:
  "bget (take_prepared m pe b) k = Some cur \<Longrightarrow> bget b k = Some cur \<or> cur = pe \<and> k = pe_Seq pe"
  by (auto simp: take_prepared_def split: if_splits option.splits)

lemma fold_take_carried: "carried b k v \<Longrightarrow> carried (fold (take_prepared m) pes b) k v"
  by (induction pes arbitrary: b) (auto intro: take_prepared_carried)

lemma fold_take_new:
  "pe \<in> set pes \<Longrightarrow> m < pe_Seq pe \<Longrightarrow> carried (fold (take_prepared m) pes b) (pe_Seq pe) (pe_View pe)"
  by (induction pes arbitrary: b) (auto intro: take_prepared_new fold_take_carried)

lemma fold_take_origin:
  "bget (fold (take_prepared m) pes b) k = Some cur \<Longrightarrow> bget b k = Some cur \<or> cur \<in> set pes \<and> k = pe_Seq cur"
  by (induction pes arbitrary: b) (auto dest: take_prepared_origin)

lemma take_vc_carried: "carried (fst acc) k v \<Longrightarrow> carried (fst (take_view_change C w acc)) k v"
  by (auto simp: take_view_change_def Let_def intro!: fold_take_carried split: prod.split)

lemma fold_vc_carried:
  "carried (fst acc) k v \<Longrightarrow> carried (fst (fold (take_view_change C) vcs acc)) k v"
  by (induction vcs arbitrary: acc) (simp_all add: take_vc_carried)

text \<open>An entry above every stable number is not skipped, whatever comes first.\<close>

lemma fold_vc_new:
  assumes "vc \<in> set vcs" and "pe \<in> set (vc_Prepared vc)"
    and "list_all (\<lambda>w. vc_LatestStable w < pe_Seq pe) vcs" and "snd (snd acc) < pe_Seq pe"
  shows "carried (fst (fold (take_view_change C) vcs acc)) (pe_Seq pe) (pe_View pe)"
  using assms
proof (induction vcs arbitrary: acc)
  case (Cons w vcs)
  obtain b q m where acc: "acc = (b, q, m)" by (cases acc)
  define acc1 where "acc1 = take_view_change C w acc"
  have m1: "snd (snd acc1) < pe_Seq pe" using Cons.prems(3,4) by (auto simp: acc1_def acc take_view_change_def Let_def)
  show ?case
  proof (cases "w = vc")
    case True
    have "carried (fst acc1) (pe_Seq pe) (pe_View pe)"
      using Cons.prems(2) m1 True by (auto simp: acc1_def acc take_view_change_def Let_def intro!: fold_take_new)
    then show ?thesis by (simp add: fold_vc_carried acc1_def)
  next
    case False
    then show ?thesis using Cons.IH [of acc1] Cons.prems m1 by (simp add: acc1_def)
  qed
qed simp

lemma fold_vc_origin:
  "bget (fst (fold (take_view_change C) vcs acc)) k = Some cur \<Longrightarrow>
     bget (fst acc) k = Some cur \<or> (\<exists>w\<in>set vcs. cur \<in> set (vc_Prepared w)) \<and> k = pe_Seq cur"
proof (induction vcs arbitrary: acc)
  case (Cons w vcs)
  obtain b q m where acc: "acc = (b, q, m)" by (cases acc)
  show ?case
    using Cons.IH [of "take_view_change C w acc"] Cons.prems
    by (auto simp: acc take_view_change_def Let_def dest!: fold_take_origin)
qed simp

lemma assign_pending_extends: "set (fst acc) \<subseteq> set (fst (fold (assign_pending C e v) reqs acc))"
  by (induction reqs arbitrary: acc) (fastforce simp: assign_pending_def split: prod.splits)+

text \<open>The prepared entries of a NEW-VIEW are all in it.\<close>

lemma new_view_has_prepared:
  assumes "rearranges I"
    and "bget (fst (fold (take_view_change C) (map snd (it_vcs I votes)) ([], [], 0))) k = Some pe"
    and "bget (eViewChangeLog e) v = Some votes"
  shows "\<lparr>pp_Seq = k, pp_View = v, pp_Digest = pe_Digest pe, pp_Req = pe_Req pe\<rparr>
    \<in> set (nv_PrePrepares (buildNewViewLocked C I e v))"
proof -
  obtain b q m where acc: "fold (take_view_change C) (map snd (it_vcs I votes)) ([], [], 0) = (b, q, m)"
    by (metis prod_cases3)
  have "(k, pe) \<in> set (it_prepared I b)"
    using assms(1,2) by (simp add: acc rearranges_def map_of_SomeD)
  then have mem: "\<lparr>pp_Seq = k, pp_View = v, pp_Digest = pe_Digest pe, pp_Req = pe_Req pe\<rparr>
      \<in> set (map (\<lambda>(seq, pe). \<lparr>pp_Seq = seq, pp_View = v, pp_Digest = pe_Digest pe, pp_Req = pe_Req pe\<rparr>) (it_prepared I b))"
    by force
  have out: "nv_PrePrepares (case p of (a, b) \<Rightarrow> \<lparr>nv_NewView = v, nv_PrePrepares = a, nv_ViewChanges = w\<rparr>) = fst p"
    for p w by (cases p) simp
  show ?thesis
    unfolding buildNewViewLocked_def assms(3) option.case acc prod.case Let_def out
    by (rule subsetD [OF assign_pending_extends]) (simp only: fst_conv mem)
qed

subsection \<open>Views only grow\<close>

text \<open>The view and the set of view changes sent, which only \<open>onNewView\<close> and \<open>markViewChange\<close> write.\<close>

abbreviation vc_state :: "engine \<Rightarrow> int \<times> int set" where
  "vc_state e \<equiv> (eView e, eViewChangeSent e)"

lemma vc_state_evolves: "evolves e e' \<Longrightarrow> vc_state e' = vc_state e"
  by (simp add: evolves_def)

lemma vc_upd [simp]:
  "eView (emit x e) = eView e" "eView (put_slot k s e) = eView e" "eView (on_store f e) = eView e"
  "eView (cancelViewChangeTimerLocked e) = eView e" "eView (snd (ensureSeqLocked e k)) = eView e"
  "eView (snd (acquireLocksForOp e k r)) = eView e" "eView (setViewLocked v e) = v"
  "eViewChangeSent (emit x e) = eViewChangeSent e" "eViewChangeSent (put_slot k s e) = eViewChangeSent e"
  "eViewChangeSent (on_store f e) = eViewChangeSent e"
  "eViewChangeSent (cancelViewChangeTimerLocked e) = eViewChangeSent e"
  "eViewChangeSent (snd (ensureSeqLocked e k)) = eViewChangeSent e"
  "eViewChangeSent (snd (acquireLocksForOp e k r)) = eViewChangeSent e"
  "eViewChangeSent (setViewLocked v e) = eViewChangeSent e"
  by (auto simp: emit_def put_slot_def on_store_def cancelViewChangeTimerLocked_def ensureSeqLocked_def
      acquireLocksForOp_def setViewLocked_def split: option.split prod.split)

lemma vc_handlers:
  "vc_state (tryExecute C e) = vc_state e" "vc_state (onPrepare C e i msg sig) = vc_state e"
  "vc_state (onPrepareCert C e cert) = vc_state e" "vc_state (onCommit C e i msg sig) = vc_state e"
  "vc_state (onCommitCert C e cert) = vc_state e"
  by (rule vc_state_evolves, rule evolves_tryExecute evolves_onPrepare evolves_onPrepareCert evolves_onCommit
      evolves_onCommitCert)+

lemmas vc_handlers_fields [simp] = vc_handlers [unfolded prod.inject, THEN conjunct1] vc_handlers [unfolded prod.inject, THEN conjunct2]

lemma vc_sendPrepare: "vc_state (sendPrepare C e seq v d) = vc_state e"
  by (simp add: sendPrepare_def Let_def)

lemmas vc_sendPrepare_fields [simp] = vc_sendPrepare [unfolded prod.inject, THEN conjunct1] vc_sendPrepare [unfolded prod.inject, THEN conjunct2]

lemma vc_process: "vc_state (processPrePrepare C e msg) = vc_state e"
  by (auto simp: processPrePrepare_def sendClientReject_def sendClientReply_def ensureLocksForOp_def Let_def
      split: prod.split)

lemmas vc_process_fields [simp] = vc_process [unfolded prod.inject, THEN conjunct1] vc_process [unfolded prod.inject, THEN conjunct2]

lemma vc_accept: "vc_state (acceptNewViewPrePrepare C msg e) = vc_state e"
proof -
  obtain s e1 where s: "ensureSeqLocked e (pp_Seq msg) = (s, e1)" by (cases "ensureSeqLocked e (pp_Seq msg)")
  have e1: "eView e1 = eView e" "eViewChangeSent e1 = eViewChangeSent e"
    using s vc_upd(5,12) [of e "pp_Seq msg"] by simp_all
  let ?e = "cancelViewChangeTimerLocked (put_slot (pp_Seq msg)
      (s\<lparr>sDigest := pp_Digest msg, sReq := pp_Req msg, sPrePrepare := True\<rparr>) e1)"
  obtain ok e2 where l: "acquireLocksForOp ?e (pp_Seq msg) (pp_Req msg) = (ok, e2)"
    by (cases "acquireLocksForOp ?e (pp_Seq msg) (pp_Req msg)")
  have e2: "eView e2 = eView e" "eViewChangeSent e2 = eViewChangeSent e"
    using l vc_upd(6,13) [of ?e "pp_Seq msg" "pp_Req msg"] e1 by simp_all
  show ?thesis
    by (simp add: acceptNewViewPrePrepare_def s l Let_def e1 e2 releaseLocksForOp_def)
qed

lemma vc_accept_all: "vc_state (fold (acceptNewViewPrePrepare C) pps e) = vc_state e"
proof (induction pps arbitrary: e)
  case (Cons p pps)
  then show ?case using vc_accept [of C p e] by simp
qed simp

lemma eView_accept_all [simp]:
  "eView (fold (acceptNewViewPrePrepare C) pps e) = eView e"
  "eViewChangeSent (fold (acceptNewViewPrePrepare C) pps e) = eViewChangeSent e"
  using vc_accept_all by simp_all

lemma eView_onNewView:
  "eView (onNewView C e msg) = (if Alive (eFault e) \<and> eView e < nv_NewView msg then nv_NewView msg else eView e)"
  by (simp add: onNewView_def Let_def setViewLocked_def cancelViewChangeTimerLocked_def)

lemma sent_tryIssue: "eViewChangeSent (tryIssueNewView C I e v) = eViewChangeSent e"
  by (simp add: tryIssueNewView_def onNewView_def Let_def setViewLocked_def cancelViewChangeTimerLocked_def)

lemma eView_tryIssue: "eView e \<le> eView (tryIssueNewView C I e v)"
  by (simp add: tryIssueNewView_def Let_def eView_onNewView)

lemma eView_mark [simp]: "eView (markViewChange e) = eView e"
  by (simp add: markViewChange_def)

lemma eView_onViewChange: "eView e \<le> eView (onViewChange C I e sender msg)"
proof (induction C I e sender msg rule: onViewChange.induct)
  case (1 C I e sender msg)
  obtain fresh e1 where l: "logViewChange e sender msg = (fresh, e1)" by (cases "logViewChange e sender msg")
  have e1: "eView e1 = eView e" using logViewChange_keeps(1) [of e sender msg] l by simp
  have rec: "eView e \<le> eView (triggerViewChange C I e1)"
    if "Alive (eFault e)" "\<not> vc_NewView msg \<le> eView e" fresh "vc_count e1 (vc_NewView msg) = eF e1 + 1"
      "vc_NewView msg \<notin> eViewChangeSent e1"
    using 1 [OF _ _ l [symmetric] _ refl refl refl _ _ refl] that by (auto simp: triggerViewChange_def Let_def e1)
  show ?case
    by (subst onViewChange_eq)
       (auto simp: l Let_def e1 rec intro: order_trans [OF rec eView_tryIssue] order_trans [OF _ eView_tryIssue])
qed

lemma eView_trigger: "eView e \<le> eView (triggerViewChange C I e)"
  using eView_onViewChange [of "markViewChange e"] by (simp add: triggerViewChange_def Let_def)

lemma eView_enqueue [simp]: "enqueuePrimary e req b = Some e' \<Longrightarrow> eView e' = eView e"
  by (auto simp: enqueuePrimary_def split: if_splits)

lemma eView_client: "eView (onClientRequest C e req) = eView e"
  by (auto simp: onClientRequest_def onBackupClientRequest_def StartClientConsensus_def eView_startConsensus
      scheduleViewChangeTimerLocked_def split: option.split)

lemma eView_discard: "eView (onDiscardSeq C e msg) = eView e"
  by (auto simp: onDiscardSeq_def skipExecSeqIfStuck_def Let_def split: option.split)

lemma sent_onViewChange: "eViewChangeSent e \<subseteq> eViewChangeSent (onViewChange C I e sender msg)"
proof (induction C I e sender msg rule: onViewChange.induct)
  case (1 C I e sender msg)
  obtain fresh e1 where l: "logViewChange e sender msg = (fresh, e1)" by (cases "logViewChange e sender msg")
  have e1: "eViewChangeSent e1 = eViewChangeSent e" using logViewChange_keeps(2) [of e sender msg] l by simp
  have rec: "eViewChangeSent e \<subseteq> eViewChangeSent (triggerViewChange C I e1)"
    if "Alive (eFault e)" "\<not> vc_NewView msg \<le> eView e" fresh "vc_count e1 (vc_NewView msg) = eF e1 + 1"
      "vc_NewView msg \<notin> eViewChangeSent e1"
    using 1 [OF _ _ l [symmetric] _ refl refl refl _ _ refl] that
    by (auto simp: triggerViewChange_def Let_def e1 markViewChange_def)
  show ?case
  proof (cases "Alive (eFault e) \<and> \<not> vc_NewView msg \<le> eView e \<and> fresh \<and>
      vc_count e1 (vc_NewView msg) = eF e1 + 1 \<and> vc_NewView msg \<notin> eViewChangeSent e1")
    case True
    then show ?thesis using rec by (subst onViewChange_eq) (simp add: l Let_def sent_tryIssue)
  next
    case False
    then show ?thesis by (subst onViewChange_eq) (auto simp: l Let_def e1 sent_tryIssue)
  qed
qed

text \<open>Without a new view the timer stays as it is.\<close>

lemma timer_upd [simp]:
  "eTimerSet (emit x e) = eTimerSet e" "eTimerSet (markViewChange e) = eTimerSet e"
  "eTimerSet (snd (logViewChange e i msg)) = eTimerSet e"
  by (simp_all add: emit_def markViewChange_def logViewChange_def Let_def)

lemma timer_tryIssue: "eView (tryIssueNewView C I e v) = eView e \<Longrightarrow> eTimerSet (tryIssueNewView C I e v) = eTimerSet e"
proof -
  have stale: "onNewView C e' msg = e'" if "\<not> (Alive (eFault e') \<and> eView e' < nv_NewView msg)" for e' msg
    using that by (auto simp: onNewView_def)
  assume "eView (tryIssueNewView C I e v) = eView e"
  then show ?thesis by (auto simp: tryIssueNewView_def Let_def eView_onNewView stale split: if_splits)
qed

lemma timer_onViewChange:
  "eView (onViewChange C I e sender msg) = eView e \<Longrightarrow> eTimerSet (onViewChange C I e sender msg) = eTimerSet e"
proof (induction C I e sender msg rule: onViewChange.induct)
  case (1 C I e sender msg)
  obtain fresh e1 where l: "logViewChange e sender msg = (fresh, e1)" by (cases "logViewChange e sender msg")
  have e1: "eView e1 = eView e" "eTimerSet e1 = eTimerSet e"
    using logViewChange_keeps(1) [of e sender msg] timer_upd(3) [of e sender msg] l by simp_all
  let ?amp = "vc_count e1 (vc_NewView msg) = eF e1 + 1 \<and> vc_NewView msg \<notin> eViewChangeSent e1"
  let ?e2 = "if ?amp then triggerViewChange C I e1 else e1"
  show ?case
  proof (cases "Alive (eFault e) \<and> \<not> vc_NewView msg \<le> eView e \<and> fresh")
    case True
    have le: "eView e \<le> eView ?e2"
      using eView_onViewChange [of "markViewChange e1" C I "eSelf e1" "buildViewChangeLocked I e1"]
      by (simp add: triggerViewChange_def Let_def e1)
    have e2: "eTimerSet ?e2 = eTimerSet e" if "eView ?e2 = eView e"
      using 1(1) [OF _ _ l [symmetric] _ refl refl refl _ _ refl] True that
      by (auto simp: triggerViewChange_def Let_def e1 split: if_splits)
    have eq: "onViewChange C I e sender msg =
        (if vc_count e1 (vc_NewView msg) \<ge> eCommitQuorum e1 then tryIssueNewView C I ?e2 (vc_NewView msg) else ?e2)"
      using True by (subst onViewChange_eq) (simp add: l Let_def)
    show ?thesis
    proof (cases "vc_count e1 (vc_NewView msg) \<ge> eCommitQuorum e1")
      case True
      have same: "eView ?e2 = eView e \<and> eView (tryIssueNewView C I ?e2 (vc_NewView msg)) = eView ?e2"
        using 1(2) le eView_tryIssue [of ?e2 C I "vc_NewView msg"] True by (simp only: eq if_True) linarith
      then show ?thesis using e2 timer_tryIssue True by (simp only: eq if_True)
    next
      case False
      then show ?thesis using 1(2) e2 by (simp only: eq if_False)
    qed
  qed (subst onViewChange_eq, auto simp: l e1)
qed

subsection \<open>Properties\<close>

text \<open>C21: A replica's view never decreases, whatever envelope it handles, and a replica that is
  down handles none: its state does not change at all.\<close>

theorem views_only_grow:
  "if Alive (eFault e) then eView e \<le> eView (Handle C I e env) else Handle C I e env = e"
  by (simp add: Handle_def eView_client eView_onPrePrepare eView_onViewChange eView_onNewView eView_discard
      split: payload.split)

text \<open>C22: A NEW-VIEW loses no prepared request. If a logged VIEW-CHANGE reports an entry for a
  number above the last stable number of every logged VIEW-CHANGE, then the NEW-VIEW built from that
  log proposes, for that number and in the new view, the request and digest of a reported entry
  whose view is at least that of the given one. This holds for every order in which the maps are
  iterated.\<close>

theorem new_view_carries_prepared:
  assumes I: "rearranges I" and votes: "bget (eViewChangeLog e) v = Some votes"
    and vc: "(i, vc) \<in> set votes" and pe: "pe \<in> set (vc_Prepared vc)"
    and above: "list_all (\<lambda>(_, w). vc_LatestStable w < pe_Seq pe) votes" "0 < pe_Seq pe"
  shows "\<exists>pp\<in>set (nv_PrePrepares (buildNewViewLocked C I e v)). pp_Seq pp = pe_Seq pe \<and> pp_View pp = v \<and>
    (\<exists>w\<in>snd ` set votes. \<exists>pe'\<in>set (vc_Prepared w). pe_Seq pe' = pe_Seq pe \<and> pe_View pe \<le> pe_View pe' \<and>
       pp_Digest pp = pe_Digest pe' \<and> pp_Req pp = pe_Req pe')"
proof -
  let ?all = "map snd (it_vcs I votes)"
  have set_all: "set ?all = snd ` set votes" using I by (simp add: rearranges_def)
  have stable: "list_all (\<lambda>w. vc_LatestStable w < pe_Seq pe) ?all"
    using above(1) by (auto simp: list_all_iff set_all simp del: set_map)
  have "vc \<in> set ?all" using vc by (force simp: set_all simp del: set_map)
  from fold_vc_new [OF this pe stable, of "([], [], 0)" C] above(2)
  obtain cur where cur: "bget (fst (fold (take_view_change C) ?all ([], [], 0))) (pe_Seq pe) = Some cur"
    and le: "pe_View pe \<le> pe_View cur"
    by (auto simp: carried_def split: option.splits)
  have "\<exists>w\<in>set ?all. cur \<in> set (vc_Prepared w)" "pe_Seq cur = pe_Seq pe"
    using fold_vc_origin [OF cur] by simp_all
  then show ?thesis
    using new_view_has_prepared [OF I cur votes] le unfolding set_all by force
qed

definition sample_vc :: ViewChangeMsg where
  "sample_vc = \<lparr>vc_NewView = 1, vc_LatestStable = 0,
     vc_Prepared = [\<lparr>pe_Seq = 1, pe_View = 0, pe_Digest = ''d'', pe_Req = sample_req\<rparr>], vc_PendingReqs = []\<rparr>"

lemma ascending_rearranges: "rearranges ascending"
  by (simp add: rearranges_def ascending_def)

theorem new_view_carries_prepared_witness:
  "\<exists>pp\<in>set (nv_PrePrepares (buildNewViewLocked plain_crypto ascending
      ((sample_engine 2)\<lparr>eViewChangeLog := [(1, [(3, sample_vc)])]\<rparr>) 1)). pp_Seq pp = 1 \<and> pp_Digest pp = ''d''"
proof -
  let ?e = "(sample_engine 2)\<lparr>eViewChangeLog := [(1, [(3, sample_vc)])]\<rparr>"
  have "bget (eViewChangeLog ?e) 1 = Some [(3, sample_vc)]" by simp
  from new_view_carries_prepared [OF ascending_rearranges this, of 3 sample_vc
      "\<lparr>pe_Seq = 1, pe_View = 0, pe_Digest = ''d'', pe_Req = sample_req\<rparr>" plain_crypto]
  show ?thesis by (force simp: sample_vc_def)
qed

text \<open>C23: One timeout is all a replica gets. Once its timer has fired and brought no new view, the
  timer is still registered, so no client request arms it again, and its callback does nothing any
  more: if the next primary is faulty too, nothing here asks for the view after it.\<close>

theorem one_timeout_only:
  assumes "eTimerSet e" and "eView (timer_fires C I e) = eView e"
  shows "let e' = timer_fires C I e in
    eTimerSet e' \<and> scheduleViewChangeTimerLocked e' = e' \<and>
    timer_fires C I e' = e' \<and> triggerViewChange C I e' = e'"
proof -
  let ?e = "triggerViewChange C I e"
  have "eView e + 1 \<in> eViewChangeSent ?e"
    using sent_onViewChange [of "markViewChange e" C I "eSelf e" "buildViewChangeLocked I e"]
    by (auto simp: triggerViewChange_def Let_def markViewChange_def)
  moreover have fire: "timer_fires C I e = ?e" using assms(1) by (simp add: timer_fires_def)
  ultimately have again: "triggerViewChange C I ?e = ?e"
    using assms(2) by (subst triggerViewChange_def) simp
  have "eTimerSet ?e"
    using assms timer_onViewChange [of C I "markViewChange e" "eSelf e" "buildViewChangeLocked I e"]
    by (auto simp: fire triggerViewChange_def Let_def)
  then show ?thesis
    using again assms(1) by (simp add: Let_def fire scheduleViewChangeTimerLocked_def timer_fires_def)
qed

theorem one_timeout_only_witness:
  "triggerViewChange plain_crypto ascending (timer_fires plain_crypto ascending ((sample_engine 3)\<lparr>eTimerSet := True\<rparr>)) =
   timer_fires plain_crypto ascending ((sample_engine 3)\<lparr>eTimerSet := True\<rparr>)"
proof -
  let ?e = "(sample_engine 3)\<lparr>eTimerSet := True\<rparr>"
  have v: "vc_NewView (buildViewChangeLocked ascending ?e) = 1" by (simp add: buildViewChangeLocked_def Let_def)
  have f: "eViewChangeLog (sample_engine 3) = []" "eF (sample_engine 3) = 1" "eViewChangeSent (sample_engine 3) = {}"
    by (simp_all add: sample_engine_def fresh_engine_def Let_def F_def go_div_def)
  have "eView (timer_fires plain_crypto ascending ?e) = 0"
    by (simp add: timer_fires_def triggerViewChange_def Let_def f, subst onViewChange_eq)
       (simp add: v f markViewChange_def logViewChange_def vc_count_def Let_def DefaultFaultConfig_def)
  then show ?thesis using one_timeout_only [of ?e plain_crypto ascending] by (simp add: Let_def)
qed

text \<open>A NEW-VIEW loses cross-shard operations and leaves a hole for each. Entering a view whose
  NEW-VIEW proposes an operation on items of two clusters, a replica drops the proposal but still
  counts its number as given out: the slot stays empty, nothing at or after it executes and no
  proposal with a higher number passes the gap check.\<close>

theorem new_view_drops_cross_shard:
  assumes "Alive (eFault e)" and "eView e < nv_NewView msg" and "nv_PrePrepares msg = [pp]"
    and cross: "\<not> SameCluster (eTopo e) (r_X (pp_Req pp)) (r_Y (pp_Req pp))"
    and slot: "eNextSeq e \<le> pp_Seq pp" "bget (eLog e) (pp_Seq pp) = None" "eExecSeq e \<le> pp_Seq pp" "1 \<le> pp_Seq pp"
  shows "let e' = onNewView C e msg in
    eView e' = nv_NewView msg \<and> eNextSeq e' = pp_Seq pp + 1 \<and> bget (eLog e') (pp_Seq pp) = None \<and>
    eExecSeq (tryExecute C e') \<le> pp_Seq pp \<and> (\<forall>j. pp_Seq pp < j \<longrightarrow> \<not> gapClearLocked e' j)"
proof -
  let ?e = "onNewView C e msg"
  have max: "maxPrePrepareSeq [pp] = pp_Seq pp" using slot(4) by (simp add: maxPrePrepareSeq_def)
  have "eNextSeq ?e = pp_Seq pp + 1 \<and> eLog ?e = eLog e \<and> eExecSeq ?e = eExecSeq e"
    using assms by (simp add: onNewView_def Let_def max setViewLocked_def cancelViewChangeTimerLocked_def
        acceptNewViewPrePrepare_def)
  then show ?thesis
    using slot missing_slot_stops [of ?e "pp_Seq pp" C] missing_slot_gap [of ?e "pp_Seq pp"] assms(1,2)
    by (simp add: Let_def eView_onNewView)
qed

theorem new_view_drops_cross_shard_witness:
  "\<not> gapClearLocked (onNewView plain_crypto (sample_engine 2)
     \<lparr>nv_NewView = 1, nv_PrePrepares = [sample_pp\<lparr>pp_Req := sample_req\<lparr>r_Y := 77, r_Op := OpCoordPrepare\<rparr>\<rparr>],
      nv_ViewChanges = []\<rparr>) 2"
proof -
  have c: "\<not> SameCluster sample_topo 5 77" by (simp add: SameCluster_def ClusterOf_def ItemsPerCluster_def go_div_def)
  show ?thesis
    using new_view_drops_cross_shard [of "sample_engine 2"
        "\<lparr>nv_NewView = 1, nv_PrePrepares = [sample_pp\<lparr>pp_Req := sample_req\<lparr>r_Y := 77, r_Op := OpCoordPrepare\<rparr>\<rparr>],
          nv_ViewChanges = []\<rparr>" _ plain_crypto] c
    by (simp add: DefaultFaultConfig_def Let_def sample_pp_def) (simp add: sample_req_def)
qed

lemma validateRequest_cong: "eStore a = eStore b \<Longrightarrow> validateRequest a r k = validateRequest b r k"
  by (simp only: validateRequest_def locksHeldForCommitOp_def poll_const)

text \<open>A slot a replica discarded stays discarded when a NEW-VIEW proposes it again: a backup votes
  for the proposal, but its slot is still marked discarded, so that even with a commit certificate
  it skips the request that the others execute.\<close>

theorem reproposed_slot_skipped:
  assumes backup: "\<not> is_primary e" "\<not> ByzantineBackup (eFault e)"
    and slot: "bget (eLog e) (pp_Seq pp) = Some s" "sDiscarded s" "\<not> sPrePrepare s"
    and acc: "SameCluster (eTopo e) (r_X (pp_Req pp)) (r_Y (pp_Req pp))" "gapClearLocked e (pp_Seq pp)"
      "validateRequest e (pp_Req pp) (pp_Seq pp)"
  shows "let e' = acceptNewViewPrePrepare C pp e in
    PhaseSigningBytes ''PREPARE'' (pp_Seq pp) (pp_View pp) (pp_Digest pp) \<in> signed e' \<and>
    (\<forall>cert. slot_req (put_slot (pp_Seq pp) ((the (bget (eLog e') (pp_Seq pp)))\<lparr>sCommitCert := Some cert\<rparr>) e') (pp_Seq pp) = [])"
proof -
  let ?a = "cancelViewChangeTimerLocked (put_slot (pp_Seq pp)
      (s\<lparr>sDigest := pp_Digest pp, sReq := pp_Req pp, sPrePrepare := True\<rparr>) e)"
  have prim: "is_primary ?a = is_primary e"
    by (rule is_primary_cong) (simp_all add: cancelViewChangeTimerLocked_def put_slot_def)
  have e: "acceptNewViewPrePrepare C pp e = processPrePrepare C ?a pp"
    using assms prim by (simp add: acceptNewViewPrePrepare_def ensureSeqLocked_def Let_def)
  have na: "\<not> is_primary ?a" using backup(1) prim by simp
  have "validateRequest ?a (pp_Req pp) (pp_Seq pp) = validateRequest e (pp_Req pp) (pp_Seq pp)"
    by (rule validateRequest_cong) (simp add: cancelViewChangeTimerLocked_def put_slot_def)
  then have "PhaseSigningBytes ''PREPARE'' (pp_Seq pp) (pp_View pp) (pp_Digest pp) \<in> signed (processPrePrepare C ?a pp)"
    using backup_vote_cases [OF na, of C pp] backup(2) acc(3)
    by (simp add: Let_def signed_def) (simp add: cancelViewChangeTimerLocked_def put_slot_def)
  moreover have "eLog (processPrePrepare C ?a pp) = eLog ?a"
    by (rule same_core_fields(1) [OF backup_process_core [OF na]])
  ultimately show ?thesis
    using slot(2) by (simp add: e Let_def slot_req_def put_slot_def cancelViewChangeTimerLocked_def)
qed

theorem reproposed_slot_skipped_witness:
  "PhaseSigningBytes ''PREPARE'' 1 0 (Digest plain_crypto sample_req) \<in>
     signed (acceptNewViewPrePrepare plain_crypto sample_pp (sample_run 2 [(1, discard_slot emptySlot)]))"
proof -
  let ?e = "sample_run 2 [(1, discard_slot emptySlot)]"
  have "is_primary ?e = is_primary (sample_engine 2)" by (rule is_primary_cong) (simp_all add: sample_run_def)
  then have np: "\<not> is_primary ?e" using sample_primary_iff [of 2] by simp
  have val: "validateRequest ?e (pp_Req sample_pp) (pp_Seq sample_pp)"
    by (simp add: validateRequest_def sample_pp_def norm_op_def sample_req_def Let_def
        locksReadyForSeq_def lockItemsForOp.simps IsLocked_def)
  have topo: "eTopo ?e = sample_topo" "eFault ?e = DefaultFaultConfig" by (simp_all add: sample_run_def)
  have m: "pp_Seq sample_pp = 1" "pp_View sample_pp = 0" "pp_Digest sample_pp = Digest plain_crypto sample_req"
    by (simp_all add: sample_pp_def)
  have slot: "bget (eLog ?e) (pp_Seq sample_pp) = Some (discard_slot emptySlot)" by (simp add: m)
  have d: "sDiscarded (discard_slot emptySlot)" "\<not> sPrePrepare (discard_slot emptySlot)"
    by (simp_all add: discard_slot_def)
  have acc: "SameCluster (eTopo ?e) (r_X (pp_Req sample_pp)) (r_Y (pp_Req sample_pp))" "gapClearLocked ?e (pp_Seq sample_pp)"
    by (simp_all add: topo m gapClearLocked_def) (simp add: sample_pp_def SameCluster_def sample_req_def sample_cluster)
  have "\<not> ByzantineBackup (eFault ?e)" by (simp add: topo DefaultFaultConfig_def)
  from reproposed_slot_skipped [OF np this slot d acc val] show ?thesis by (simp add: Let_def m)
qed

end
