(* ===== verification/Twopc.thy ===== *)
theory Twopc
  imports Viewchange
begin

text \<open>
  The two-phase commit between clusters (\<open>internal/twopc\<close>): the certificate check across clusters,
  the collectors, the coordinator and the participant of one replica, and the bridge that connects
  them to the hooks of its engine. A node is an engine with the volatile state of both roles. The
  goroutines a handler starts are tasks of the node; a task runs in steps, one per tick of its
  timer. Sending is a call of the transport: \<open>up i\<close> says whether it delivers to server \<open>i\<close>.
\<close>

subsection \<open>Messages\<close>

record CoordinatorPrepareMsg =
  cp_Req :: Request
  cp_CommitCert :: CertificateMsg
  cp_CoordSeq :: int

record ParticipantReplyMsg =
  pr_Req :: Request
  pr_Outcome :: Outcome
  pr_CommitCert :: CertificateMsg
  pr_PartSeq :: int

record CoordinatorCommitMsg =
  cc_Req :: Request
  cc_Outcome :: Outcome
  cc_CommitCert :: CertificateMsg
  cc_CoordSeq :: int

record ParticipantAckMsg =
  pa_Req :: Request
  pa_PartSeq :: int

text \<open>The envelopes by their type; a participant's reply travels as PREPARED or as ABORT.\<close>

datatype twopc_msg =
    T2PCPrepare CoordinatorPrepareMsg
  | T2PCPrepared ParticipantReplyMsg
  | T2PCAbort ParticipantReplyMsg
  | T2PCCommit CoordinatorCommitMsg
  | T2PCAck ParticipantAckMsg

subsection \<open>Certificates of another cluster\<close>

definition VerifyClusterCert ::
    "crypto_ops \<Rightarrow> KeyRing \<Rightarrow> topology \<Rightarrow> int \<Rightarrow> CertificateMsg \<Rightarrow> string \<Rightarrow> int \<Rightarrow> bool" where
  "VerifyClusterCert C ring t cluster cert phase quorum =
     (if int (length (cm_Sigs cert)) < quorum then False
      else (let allowed = map srv_ID (ServersInCluster t cluster) in
            check_sigs C (\<lambda>i. if i \<in> set allowed then PublicKey ring i else None)
              (PhaseSigningBytes phase (cm_Seq cert) (cm_View cert) (cm_Digest cert)) {} (cm_Sigs cert)))"

subsection \<open>Collectors\<close>

definition sameClientTxn :: "Request \<Rightarrow> Request \<Rightarrow> bool" where
  "sameClientTxn a b \<longleftrightarrow> r_ClientID a = r_ClientID b \<and> r_TS a = r_TS b \<and> r_X a = r_X b \<and>
     r_Y a = r_Y b \<and> r_Amt a = r_Amt b"

type_synonym PreparedCollector = "ParticipantReplyMsg list"

definition Has :: "PreparedCollector \<Rightarrow> Request \<Rightarrow> bool" where
  "Has c req = list_ex (\<lambda>m. sameClientTxn (pr_Req m) req) c"

definition Record :: "ParticipantReplyMsg \<Rightarrow> PreparedCollector \<Rightarrow> PreparedCollector" where
  "Record msg c = c @ [msg]"

definition Matching :: "PreparedCollector \<Rightarrow> Request \<Rightarrow> Outcome \<Rightarrow> ParticipantReplyMsg list" where
  "Matching c req outcome = filter (\<lambda>m. sameClientTxn (pr_Req m) req \<and> pr_Outcome m = outcome) c"

text \<open>The loop looks \<open>n\<close> times before its deadline; \<open>obs i\<close> is the collector at its \<open>i\<close>-th look.\<close>

fun WaitForOne :: "nat \<Rightarrow> Request \<Rightarrow> Outcome \<Rightarrow> (nat \<Rightarrow> PreparedCollector) \<Rightarrow> ParticipantReplyMsg option" where
  "WaitForOne 0 req outcome obs = None"
| "WaitForOne (Suc n) req outcome obs =
     (case Matching (obs 0) req outcome of
        m # _ \<Rightarrow> Some m
      | [] \<Rightarrow> WaitForOne n req outcome (\<lambda>i. obs (Suc i)))"

type_synonym AckCollector = "(string, (int, unit) bucket) bucket"

definition ack_senders :: "crypto_ops \<Rightarrow> AckCollector \<Rightarrow> Request \<Rightarrow> (int, unit) bucket" where
  "ack_senders C c req = (case bget c (TxnID C req) of None \<Rightarrow> [] | Some m \<Rightarrow> m)"

definition RecordAck :: "crypto_ops \<Rightarrow> Request \<Rightarrow> int \<Rightarrow> AckCollector \<Rightarrow> AckCollector" where
  "RecordAck C req from c = bput (TxnID C req) (bput from () (ack_senders C c req)) c"

definition CountAcks :: "crypto_ops \<Rightarrow> AckCollector \<Rightarrow> Request \<Rightarrow> int" where
  "CountAcks C c req = int (length (ack_senders C c req))"

fun WaitForQuorum :: "crypto_ops \<Rightarrow> nat \<Rightarrow> Request \<Rightarrow> int \<Rightarrow> (nat \<Rightarrow> AckCollector) \<Rightarrow> bool" where
  "WaitForQuorum C 0 req quorum obs = False"
| "WaitForQuorum C (Suc n) req quorum obs =
     (if CountAcks C (obs 0) req \<ge> quorum then True else WaitForQuorum C n req quorum (\<lambda>i. obs (Suc i)))"

subsection \<open>Nodes\<close>

text \<open>\<open>WatchPrepare\<close> and \<open>DriveAbort\<close> are the two loops of \<open>watchPreparePhase\<close>, \<open>RetryCommit\<close> is the
  loop of \<open>startAckRetry\<close>.\<close>

datatype task =
    WatchPrepare Request CoordinatorPrepareMsg
  | DriveAbort Request
  | RetryCommit Request CoordinatorCommitMsg

text \<open>Both roles share the store, the topology, the keys and the identity of the engine. A nil
  collector is \<open>None\<close>; \<open>n_Out\<close> is what the transport delivered.\<close>

record node =
  n_Engine :: engine
  n_CommitStarted :: "string set"
  n_CommitPhaseDisabled :: bool
  n_CrossBusy :: bool
  n_Collector :: "PreparedCollector option"
  n_AckColl :: "AckCollector option"
  n_Tasks :: "task list"
  n_Out :: "(int \<times> twopc_msg) list"

definition NewCoordinator :: "engine \<Rightarrow> bool \<Rightarrow> PreparedCollector option \<Rightarrow> AckCollector option \<Rightarrow> node" where
  "NewCoordinator e disabled coll acks =
     \<lparr>n_Engine = e, n_CommitStarted = {}, n_CommitPhaseDisabled = disabled, n_CrossBusy = False,
      n_Collector = coll, n_AckColl = acks, n_Tasks = [], n_Out = []\<rparr>"

definition on_engine :: "(engine \<Rightarrow> engine) \<Rightarrow> node \<Rightarrow> node" where
  "on_engine f n = n\<lparr>n_Engine := f (n_Engine n)\<rparr>"

text \<open>The coordinator and the participant ask the engine for its view.\<close>

definition primary :: "node \<Rightarrow> int" where
  "primary n = PrimaryOf (eTopo (n_Engine n)) (eCluster (n_Engine n)) (eView (n_Engine n))"

definition leads :: "node \<Rightarrow> bool" where
  "leads n \<longleftrightarrow> eSelf (n_Engine n) = primary n"

text \<open>A send that fails ends the loop over the servers.\<close>

fun send_each :: "(int \<Rightarrow> bool) \<Rightarrow> int \<Rightarrow> int list \<Rightarrow> int list \<times> bool" where
  "send_each up self [] = ([], True)"
| "send_each up self (s # ss) =
     (if s = self then send_each up self ss
      else if \<not> up s then ([], False)
      else (case send_each up self ss of (sent, ok) \<Rightarrow> (s # sent, ok)))"

definition SendToCluster :: "(int \<Rightarrow> bool) \<Rightarrow> int \<Rightarrow> twopc_msg \<Rightarrow> node \<Rightarrow> node" where
  "SendToCluster up cluster msg n =
     (let e = n_Engine n;
          sent = fst (send_each up (eSelf e) (map srv_ID (ServersInCluster (eTopo e) cluster)))
      in n\<lparr>n_Out := n_Out n @ map (\<lambda>i. (i, msg)) sent\<rparr>)"

definition start_task :: "task \<Rightarrow> node \<Rightarrow> node" where
  "start_task g n = n\<lparr>n_Tasks := n_Tasks n @ [g]\<rparr>"

text \<open>How often a poll looks before its timeout.\<close>

definition looks :: "int \<Rightarrow> int \<Rightarrow> nat" where
  "looks timeout interval = nat (go_div timeout interval)"

definition waitItemUnlocked :: "store \<Rightarrow> int \<Rightarrow> int \<Rightarrow> int \<Rightarrow> bool" where
  "waitItemUnlocked st item timeout interval =
     poll (looks timeout interval) (\<lambda>st. \<not> IsLocked st item) (\<lambda>_. st)"

subsection \<open>Coordinator\<close>

definition acquireCrossSlot :: "Tunables \<Rightarrow> node \<Rightarrow> bool \<times> node" where
  "acquireCrossSlot tm n =
     (if poll (looks (LockWaitTimeout tm + ViewChangeTimeout tm) (LockPollInterval tm)) (\<lambda>b. \<not> b) (\<lambda>_. n_CrossBusy n)
      then (True, n\<lparr>n_CrossBusy := True\<rparr>) else (False, n))"

definition ReleaseCrossSlot :: "node \<Rightarrow> node" where
  "ReleaseCrossSlot n = n\<lparr>n_CrossBusy := False\<rparr>"

definition Coordinator_Reset :: "node \<Rightarrow> node" where
  "Coordinator_Reset n =
     n\<lparr>n_CommitStarted := {}, n_CrossBusy := False,
       n_Collector := map_option (\<lambda>_. []) (n_Collector n), n_AckColl := map_option (\<lambda>_. []) (n_AckColl n)\<rparr>"

definition HandleClientRequest :: "crypto_ops \<Rightarrow> Request \<Rightarrow> node \<Rightarrow> bool \<times> node" where
  "HandleClientRequest C req n =
     (let e = n_Engine n; t = eTopo e; st = eStore e; key = TxnID C req; tm = DefaultTunables t in
      if SameCluster t (r_X req) (r_Y req) then (False, n)
      else if ClusterOf t (r_X req) \<noteq> eCluster e \<or> \<not> leads n then (False, n)
      else if GetClientTS st (r_ClientID req) \<ge> r_TS req then (False, n)
      else if key \<in> n_CommitStarted n then (False, n)
      else if clientTxnInFlight C e req then (False, n)
      else (case acquireCrossSlot tm n of
              (got, n) \<Rightarrow>
                if \<not> got then (False, n)
                else if \<not> waitItemUnlocked st (r_X req) (LockWaitTimeout tm) (LockPollInterval tm)
                  then (False, ReleaseCrossSlot n)
                else if key \<in> n_CommitStarted n then (False, ReleaseCrossSlot n)
                else if GetBalance st (r_X req) <s r_Amt req
                  then (True, on_engine (\<lambda>e. RejectInsufficient C e req) (ReleaseCrossSlot n))
                else (True, on_engine (\<lambda>e. StartClientConsensus C e (req\<lparr>r_Op := OpCoordPrepare\<rparr>)) n)))"

definition OnCoordPrepareExecuted :: "(int \<Rightarrow> bool) \<Rightarrow> Request \<Rightarrow> int \<Rightarrow> CertificateMsg \<Rightarrow> node \<Rightarrow> node" where
  "OnCoordPrepareExecuted up req seq cert n =
     (let n = ReleaseCrossSlot n in
      if \<not> leads n then n
      else (let msg = \<lparr>cp_Req = req\<lparr>r_Op := OpEmpty\<rparr>, cp_CommitCert = cert, cp_CoordSeq = seq\<rparr>;
                n = SendToCluster up (ClusterOf (eTopo (n_Engine n)) (r_Y req)) (T2PCPrepare msg) n
            in if \<not> n_CommitPhaseDisabled n then start_task (WatchPrepare req msg) n else n))"

definition maybeStartFinalCommit :: "crypto_ops \<Rightarrow> ParticipantReplyMsg \<Rightarrow> node \<Rightarrow> node" where
  "maybeStartFinalCommit C reply n =
     (if n_CommitPhaseDisabled n then n
      else (let key = TxnID C (pr_Req reply); already = (key \<in> n_CommitStarted n);
                n = (if already then n else n\<lparr>n_CommitStarted := insert key (n_CommitStarted n)\<rparr>)
            in if already then
                 (if pr_Outcome reply = OutcomeCommit
                  then on_engine (\<lambda>e. StartConsensus C e ((pr_Req reply)\<lparr>r_Op := OpCoordAbort\<rparr>)) n else n)
               else (let op = (if pr_Outcome reply = OutcomeCommit then OpCoordCommit else OpCoordAbort)
                     in on_engine (\<lambda>e. StartConsensus C e ((pr_Req reply)\<lparr>r_Op := op\<rparr>)) n)))"

text \<open>\<open>None\<close> is a payload that does not decode.\<close>

definition HandleParticipantReply :: "crypto_ops \<Rightarrow> ParticipantReplyMsg option \<Rightarrow> node \<Rightarrow> node" where
  "HandleParticipantReply C payload n =
     (case payload of
        None \<Rightarrow> n
      | Some reply \<Rightarrow>
          (let e = n_Engine n; partCluster = ClusterOf (eTopo e) (r_Y (pr_Req reply)) in
           if \<not> VerifyClusterCert C (eRing e) (eTopo e) partCluster (pr_CommitCert reply) ''COMMIT'' (Quorum (eTopo e))
           then n
           else (let n = n\<lparr>n_Collector := map_option (Record reply) (n_Collector n)\<rparr>
                 in if \<not> leads n then n else maybeStartFinalCommit C reply n)))"

definition broadcastCommit :: "(int \<Rightarrow> bool) \<Rightarrow> CoordinatorCommitMsg \<Rightarrow> node \<Rightarrow> node" where
  "broadcastCommit up msg n =
     SendToCluster up (ClusterOf (eTopo (n_Engine n)) (r_Y (cc_Req msg))) (T2PCCommit msg) n"

definition startAckRetry :: "Request \<Rightarrow> CoordinatorCommitMsg \<Rightarrow> node \<Rightarrow> node" where
  "startAckRetry req msg n = start_task (RetryCommit req msg) n"

definition OnCoordCommitExecuted ::
    "(int \<Rightarrow> bool) \<Rightarrow> Request \<Rightarrow> int \<Rightarrow> CertificateMsg \<Rightarrow> Outcome \<Rightarrow> node \<Rightarrow> node" where
  "OnCoordCommitExecuted up req seq cert outcome n =
     (if \<not> leads n then n
      else (let client = req\<lparr>r_Op := OpEmpty\<rparr>;
                msg = \<lparr>cc_Req = client, cc_Outcome = outcome, cc_CommitCert = cert, cc_CoordSeq = seq\<rparr>
            in startAckRetry client msg (broadcastCommit up msg n)))"

text \<open>The sender of an ack is not checked.\<close>

definition HandleParticipantAck :: "crypto_ops \<Rightarrow> int \<Rightarrow> ParticipantAckMsg option \<Rightarrow> node \<Rightarrow> node" where
  "HandleParticipantAck C from payload n =
     (case payload of
        None \<Rightarrow> n
      | Some ack \<Rightarrow> n\<lparr>n_AckColl := map_option (RecordAck C (pa_Req ack) from) (n_AckColl n)\<rparr>)"

text \<open>One round of a task: \<open>expired\<close> says that the deadline of its loop has passed. The result is the
  task that goes on, if any.\<close>

definition recorded :: "Request \<Rightarrow> node \<Rightarrow> bool" where
  "recorded req n = (case n_Collector n of None \<Rightarrow> False | Some c \<Rightarrow> Has c req)"

definition watchPreparePhase ::
    "crypto_ops \<Rightarrow> (int \<Rightarrow> bool) \<Rightarrow> bool \<Rightarrow> Request \<Rightarrow> CoordinatorPrepareMsg \<Rightarrow> node \<Rightarrow> task option \<times> node" where
  "watchPreparePhase C up expired req msg n =
     (let key = TxnID C req in
      if \<not> expired then
        (if recorded req n then (None, n)
         else if key \<in> n_CommitStarted n then (None, n)
         else (Some (WatchPrepare req msg),
               SendToCluster up (ClusterOf (eTopo (n_Engine n)) (r_Y req)) (T2PCPrepare msg) n))
      else if key \<in> n_CommitStarted n \<or> recorded req n then (None, n)
      else (Some (DriveAbort (req\<lparr>r_Op := OpCoordAbort\<rparr>)), n\<lparr>n_CommitStarted := insert key (n_CommitStarted n)\<rparr>))"

definition driveAbort :: "crypto_ops \<Rightarrow> bool \<Rightarrow> Request \<Rightarrow> node \<Rightarrow> task option \<times> node" where
  "driveAbort C expired abort n =
     (if expired then (None, n)
      else if \<not> WALExists (eStore (n_Engine n)) (TxnID C abort) then (None, n)
      else (Some (DriveAbort abort), on_engine (\<lambda>e. StartConsensus C e abort) n))"

definition ackRetry ::
    "crypto_ops \<Rightarrow> (int \<Rightarrow> bool) \<Rightarrow> bool \<Rightarrow> Request \<Rightarrow> CoordinatorCommitMsg \<Rightarrow> node \<Rightarrow> task option \<times> node" where
  "ackRetry C up expired req msg n =
     (if (case n_AckColl n of None \<Rightarrow> False | Some c \<Rightarrow> CountAcks C c req \<ge> ClientQuorum (eTopo (n_Engine n)))
      then (None, n)
      else if expired then (None, n)
      else (Some (RetryCommit req msg), broadcastCommit up msg n))"

definition task_step :: "crypto_ops \<Rightarrow> (int \<Rightarrow> bool) \<Rightarrow> bool \<Rightarrow> task \<Rightarrow> node \<Rightarrow> task option \<times> node" where
  "task_step C up expired g n =
     (case g of
        WatchPrepare req msg \<Rightarrow> watchPreparePhase C up expired req msg n
      | DriveAbort abort \<Rightarrow> driveAbort C expired abort n
      | RetryCommit req msg \<Rightarrow> ackRetry C up expired req msg n)"

subsection \<open>Participant\<close>

definition prepareOutcome :: "crypto_ops \<Rightarrow> Request \<Rightarrow> node \<Rightarrow> Outcome option" where
  "prepareOutcome C req n =
     (let want = TxnID C req in
      map_option e_Outcome
        (find (\<lambda>e. e_Phase e = PhasePrepare \<and>
                 TxnID C \<lparr>r_ClientID = r_ClientID req, r_TS = r_TS req, r_X = e_X e, r_Y = e_Y e,
                          r_Amt = e_Amt e, r_Op = OpEmpty\<rparr> = want)
           (Datastore (eStore (n_Engine n)))))"

definition resendPrepareReply ::
    "(int \<Rightarrow> bool) \<Rightarrow> Request \<Rightarrow> CertificateMsg \<Rightarrow> Outcome \<Rightarrow> node \<Rightarrow> node" where
  "resendPrepareReply up req cert outcome n =
     (let reply = \<lparr>pr_Req = req\<lparr>r_Op := OpEmpty\<rparr>, pr_Outcome = outcome, pr_CommitCert = cert, pr_PartSeq = 0\<rparr>;
          msg = (if outcome = OutcomeAbort then T2PCAbort reply else T2PCPrepared reply)
      in SendToCluster up (ClusterOf (eTopo (n_Engine n)) (r_X req)) msg n)"

definition prepareWasAbort :: "crypto_ops \<Rightarrow> Request \<Rightarrow> node \<Rightarrow> bool" where
  "prepareWasAbort C req n \<longleftrightarrow> prepareOutcome C req n = Some OutcomeAbort"

definition sendAck :: "(int \<Rightarrow> bool) \<Rightarrow> Request \<Rightarrow> int \<Rightarrow> node \<Rightarrow> node" where
  "sendAck up req partSeq n =
     SendToCluster up (ClusterOf (eTopo (n_Engine n)) (r_X req))
       (T2PCAck \<lparr>pa_Req = req\<lparr>r_Op := OpEmpty\<rparr>, pa_PartSeq = partSeq\<rparr>) n"

definition prepare_lock_wait :: "Tunables \<Rightarrow> int" where
  "prepare_lock_wait tm =
     (let w = go_div (LockWaitTimeout tm) 2 in if w < 500 then 500 else w)"

text \<open>The wait for pending client requests before the lock wait changes nothing.\<close>

definition HandlePrepare :: "crypto_ops \<Rightarrow> (int \<Rightarrow> bool) \<Rightarrow> CoordinatorPrepareMsg option \<Rightarrow> node \<Rightarrow> node" where
  "HandlePrepare C up payload n =
     (if \<not> leads n then n
      else case payload of
        None \<Rightarrow> n
      | Some msg \<Rightarrow>
          (let e = n_Engine n; t = eTopo e; req = cp_Req msg; cert = cp_CommitCert msg; tm = DefaultTunables t in
           if \<not> VerifyClusterCert C (eRing e) t (ClusterOf t (r_X req)) cert ''COMMIT'' (Quorum t) then n
           else if WALExists (eStore e) (TxnID C req) then resendPrepareReply up req cert OutcomeCommit n
           else (case prepareOutcome C req n of
                   Some outcome \<Rightarrow> resendPrepareReply up req cert outcome n
                 | None \<Rightarrow>
                     (let op = (if waitItemUnlocked (eStore e) (r_Y req) (prepare_lock_wait tm) (LockPollInterval tm)
                                then OpPartPrepareCommit else OpPartPrepareAbort)
                      in on_engine (\<lambda>e. StartConsensus C e (req\<lparr>r_Op := op\<rparr>)) n))))"

definition HandleCommit :: "crypto_ops \<Rightarrow> (int \<Rightarrow> bool) \<Rightarrow> CoordinatorCommitMsg option \<Rightarrow> node \<Rightarrow> node" where
  "HandleCommit C up payload n =
     (if \<not> leads n then n
      else case payload of
        None \<Rightarrow> n
      | Some msg \<Rightarrow>
          (let e = n_Engine n; t = eTopo e; client = cc_Req msg in
           if \<not> VerifyClusterCert C (eRing e) t (ClusterOf t (r_X client)) (cc_CommitCert msg) ''COMMIT'' (Quorum t) then n
           else if cc_Outcome msg = OutcomeAbort then
             (if prepareWasAbort C client n then sendAck up client 0 n
              else on_engine (\<lambda>e. StartConsensus C e (client\<lparr>r_Op := OpPartAbort\<rparr>)) n)
           else on_engine (\<lambda>e. StartConsensus C e (client\<lparr>r_Op := OpPartCommit\<rparr>)) n))"

definition OnPartPrepareExecuted ::
    "(int \<Rightarrow> bool) \<Rightarrow> Request \<Rightarrow> int \<Rightarrow> CertificateMsg \<Rightarrow> Outcome \<Rightarrow> node \<Rightarrow> node" where
  "OnPartPrepareExecuted up req seq cert outcome n =
     (if \<not> leads n then n else resendPrepareReply up req cert outcome n)"

text \<open>Every replica of the participant cluster acknowledges.\<close>

definition OnPartCommitExecuted :: "(int \<Rightarrow> bool) \<Rightarrow> Request \<Rightarrow> int \<Rightarrow> node \<Rightarrow> node" where
  "OnPartCommitExecuted up req seq n = sendAck up req seq n"

subsection \<open>Bridge\<close>

text \<open>The hooks that call no engine operation back.\<close>

definition leaf_hook :: "(int \<Rightarrow> bool) \<Rightarrow> hook \<Rightarrow> node \<Rightarrow> node" where
  "leaf_hook up h n =
     (case h of
        HandleClientRequestHook req \<Rightarrow> n
      | CrossPrepareDroppedHook req \<Rightarrow> ReleaseCrossSlot n
      | CoordPrepareExecutedHook req seq cert \<Rightarrow> OnCoordPrepareExecuted up req seq cert n
      | PartPrepareExecutedHook req seq cert outcome \<Rightarrow> OnPartPrepareExecuted up req seq cert outcome n
      | CoordCommitExecutedHook req seq cert outcome \<Rightarrow> OnCoordCommitExecuted up req seq cert outcome n
      | PartCommitExecutedHook req seq cert outcome \<Rightarrow> OnPartCommitExecuted up req seq n)"

fun hook_of :: "effect \<Rightarrow> hook option" where
  "hook_of (EHook h) = Some h"
| "hook_of _ = None"

text \<open>The hooks an engine operation has called are served in order and leave the trace. The code calls
  them in the middle of the handler, the model after it: none but \<open>HandleClientRequest\<close>, which the
  handler calls last, changes the engine, and they read nothing of it but its topology and who leads
  it, which the execution around them leaves alone; what differs is only where in the trace their
  messages stand.\<close>

definition take_hooks :: "node \<Rightarrow> hook list \<times> node" where
  "take_hooks n =
     (List.map_filter hook_of (eEffects (n_Engine n)),
      on_engine (\<lambda>e. e\<lparr>eEffects := filter (\<lambda>x. hook_of x = None) (eEffects e)\<rparr>) n)"

definition run_leaf_hooks :: "(int \<Rightarrow> bool) \<Rightarrow> node \<Rightarrow> node" where
  "run_leaf_hooks up n = (case take_hooks n of (hs, n) \<Rightarrow> fold (leaf_hook up) hs n)"

definition run_hook :: "crypto_ops \<Rightarrow> (int \<Rightarrow> bool) \<Rightarrow> hook \<Rightarrow> node \<Rightarrow> node" where
  "run_hook C up h n =
     (case h of
        HandleClientRequestHook req \<Rightarrow> run_leaf_hooks up (snd (HandleClientRequest C req n))
      | _ \<Rightarrow> leaf_hook up h n)"

definition run_hooks :: "crypto_ops \<Rightarrow> (int \<Rightarrow> bool) \<Rightarrow> node \<Rightarrow> node" where
  "run_hooks C up n = (case take_hooks n of (hs, n) \<Rightarrow> fold (run_hook C up) hs n)"

end
