(* ===== verification/Decision.thy ===== *)
theory Decision
  imports Twopc
begin

text \<open>
  What the two-phase commit promises and where it does not keep it: certificates of another
  cluster, the one decision a coordinator takes per transaction, the acks that end its retries, and
  the answers and aborts that go wrong.
\<close>

subsection \<open>Certificates of another cluster\<close>

definition cluster_key :: "KeyRing \<Rightarrow> topology \<Rightarrow> int \<Rightarrow> int \<Rightarrow> bytes option" where
  "cluster_key ring t cluster i = (if i \<in> members t cluster then PublicKey ring i else None)"

text \<open>The second provider of the certificate interface.\<close>

interpretation cluster_cert: cert_check
  "\<lambda>(C, ring, t, cl, p, q) c. VerifyClusterCert C ring t cl c (phase_name p) q" fst
  "\<lambda>(C, ring, t, cl, p, q). cluster_key ring t cl" "\<lambda>(C, ring, t, cl, p, q). cert_bytes p"
  "\<lambda>(C, ring, t, cl, p, q). q"
  by unfold_locales
     (auto simp: VerifyClusterCert_def check_sigs_iff cert_bytes_def cluster_key_def [abs_def] members_def Let_def)

lemma cluster_cert_members:
  "VerifyClusterCert C ring t cl c (phase_name p) q \<Longrightarrow> signers c \<subseteq> members t cl"
  using cluster_cert.signer_verifies [of "(C, ring, t, cl, p, q)" c]
  by (fastforce simp: cluster_key_def split: if_splits)

lemma cluster_cert_card:
  "VerifyClusterCert C ring t cl c (phase_name p) q \<Longrightarrow> q \<le> int (card (signers c))"
  using cluster_cert.enough_signers [of "(C, ring, t, cl, p, q)" c] by simp

lemma cluster_cert_exclusive:
  assumes "wf_topology t" "cl \<noteq> cl'" "1 \<le> q"
    and "VerifyClusterCert C ring t cl c (phase_name p) q"
  shows "\<not> VerifyClusterCert C' ring' t cl' c (phase_name p') q'"
proof
  assume "VerifyClusterCert C' ring' t cl' c (phase_name p') q'"
  then have "signers c \<subseteq> members t cl'" by (rule cluster_cert_members)
  moreover have "signers c \<subseteq> members t cl" using assms(4) by (rule cluster_cert_members)
  moreover have "signers c \<noteq> {}" using cluster_cert_card [OF assms(4)] assms(3) by auto
  ultimately show False using members_disjoint [OF assms(1,2)] by auto
qed

lemma Quorum_pos: "1 \<le> ClusterSize t \<Longrightarrow> 1 \<le> Quorum t"
  using F_bounds [of t] by (simp add: Quorum_def)

lemma phase_name_Comm: "''COMMIT'' = phase_name Comm"
  by (simp add: phase_name_def)

text \<open>C25: What a verified certificate of another cluster is worth: its signers are members of that
  cluster, at least the quorum of them, each with a signature under its own key on the phase, the
  number, the view and the digest of the certificate; and a certificate that one cluster's check
  accepts is rejected by the check for every other cluster, whatever keys and quorum that uses.\<close>

theorem cluster_certificate_sound:
  assumes wf: "wf_topology t" and q: "1 \<le> q"
    and ok: "VerifyClusterCert C ring t cl c (phase_name p) q"
  shows "signers c \<subseteq> members t cl \<and> q \<le> int (card (signers c)) \<and>
    (\<forall>i\<in>signers c. \<exists>pub sig. PublicKey ring i = Some pub \<and> ed_verify C pub (cert_bytes p c) sig) \<and>
    (\<forall>cl'. cl' \<noteq> cl \<longrightarrow> \<not> VerifyClusterCert C' ring' t cl' c (phase_name p') q')"
  using cluster_cert_members [OF ok] cluster_cert_card [OF ok] cluster_cert_exclusive [OF wf _ q ok]
    cluster_cert.signer_verifies [of "(C, ring, t, cl, p, q)" c] ok
  by (fastforce simp: cluster_key_def split: if_splits)

lemma sample_wf: "wf_topology sample_topo"
  unfolding sample_topo_def by (rule wf_New) simp_all

lemma sample_members: "members sample_topo 1 = {1, 2, 3, 4}" "members sample_topo 2 = {5, 6, 7, 8}"
  by (auto simp: members_def ServersInCluster_def)

lemma sample_cluster_cert:
  "q \<le> 3 \<Longrightarrow> VerifyClusterCert plain_crypto (sample_ring i) sample_topo 1 (sample_cert p) (phase_name p) q"
  by (simp add: VerifyClusterCert_def Let_def sample_cert_def PublicKey_def sample_ring_def upto_small
      ring_Sign_def plain_crypto_def ServersInCluster_def)

theorem cluster_certificate_sound_witness:
  "\<not> VerifyClusterCert plain_crypto (sample_ring 1) sample_topo 2 (sample_cert Comm) (phase_name Comm) 1"
  using cluster_certificate_sound [OF sample_wf _ sample_cluster_cert [of 3 5 Comm],
      of plain_crypto "sample_ring 1" Comm 1] by simp

subsection \<open>Sending\<close>

lemma send_each_ok: "set (fst (send_each up self ss)) \<subseteq> set ss"
  by (induction up self ss rule: send_each.induct) (auto split: prod.split)

lemma sent_keeps [simp]:
  "n_Engine (SendToCluster up cl m n) = n_Engine n" "n_CommitStarted (SendToCluster up cl m n) = n_CommitStarted n"
  "n_Collector (SendToCluster up cl m n) = n_Collector n" "n_Tasks (SendToCluster up cl m n) = n_Tasks n"
  "n_AckColl (SendToCluster up cl m n) = n_AckColl n" "n_CrossBusy (SendToCluster up cl m n) = n_CrossBusy n"
  "n_CommitPhaseDisabled (SendToCluster up cl m n) = n_CommitPhaseDisabled n"
  by (simp_all add: SendToCluster_def Let_def)

text \<open>What a step has sent beyond the state before it.\<close>

definition newly_sent :: "node \<Rightarrow> node \<Rightarrow> (int \<times> twopc_msg) list" where
  "newly_sent n n' = drop (length (n_Out n)) (n_Out n')"

lemma newly_sent_SendToCluster:
  "(i, m') \<in> set (newly_sent n (SendToCluster up cl m n)) \<Longrightarrow> m' = m \<and> i \<in> members (eTopo (n_Engine n)) cl"
  using send_each_ok [of up "eSelf (n_Engine n)" "map srv_ID (ServersInCluster (eTopo (n_Engine n)) cl)"]
  by (auto simp: newly_sent_def SendToCluster_def Let_def members_def)

lemma newly_sent_same [simp]: "newly_sent n n = []" "newly_sent n (on_engine f n) = []"
  by (simp_all add: newly_sent_def on_engine_def)

subsection \<open>Answers that are never accepted\<close>

lemma reply_rejected:
  assumes "\<not> VerifyClusterCert C (eRing (n_Engine n)) (eTopo (n_Engine n))
      (ClusterOf (eTopo (n_Engine n)) (r_Y (pr_Req reply))) (pr_CommitCert reply) ''COMMIT'' (Quorum (eTopo (n_Engine n)))"
  shows "HandleParticipantReply C (Some reply) n = n"
  using assms by (simp add: HandleParticipantReply_def Let_def)

text \<open>A transaction the participant has seen, or takes for one it has seen.\<close>

definition looks_prepared :: "crypto_ops \<Rightarrow> Request \<Rightarrow> node \<Rightarrow> bool" where
  "looks_prepared C req n \<longleftrightarrow> WALExists (eStore (n_Engine n)) (TxnID C req) \<or>
     (\<exists>e\<in>set (Datastore (eStore (n_Engine n))). e_Phase e = PhasePrepare \<and>
        e_X e = r_X req \<and> e_Y e = r_Y req \<and> e_Amt e = r_Amt req)"

lemma looks_prepared_outcome:
  assumes "looks_prepared C req n" and "\<not> WALExists (eStore (n_Engine n)) (TxnID C req)"
  shows "prepareOutcome C req n \<noteq> None"
proof -
  obtain e where e: "e \<in> set (Datastore (eStore (n_Engine n)))" "e_Phase e = PhasePrepare"
    "e_X e = r_X req" "e_Y e = r_Y req" "e_Amt e = r_Amt req"
    using assms by (auto simp: looks_prepared_def)
  have "TxnID C \<lparr>r_ClientID = r_ClientID req, r_TS = r_TS req, r_X = e_X e, r_Y = e_Y e,
                 r_Amt = e_Amt e, r_Op = OpEmpty\<rparr> = TxnID C req"
    using e(3-5) by (cases req) (simp add: TxnID_def clientReq_def)
  with e(1,2) show ?thesis by (auto simp: prepareOutcome_def Let_def find_None_iff)
qed

lemma HandlePrepare_answers:
  assumes "looks_prepared C (cp_Req msg) n"
  shows "HandlePrepare C up (Some msg) n = n \<or>
    (\<exists>outcome. HandlePrepare C up (Some msg) n = resendPrepareReply up (cp_Req msg) (cp_CommitCert msg) outcome n \<and>
       VerifyClusterCert C (eRing (n_Engine n)) (eTopo (n_Engine n)) (ClusterOf (eTopo (n_Engine n)) (r_X (cp_Req msg)))
         (cp_CommitCert msg) ''COMMIT'' (Quorum (eTopo (n_Engine n))))"
  using looks_prepared_outcome [OF assms] by (auto simp: HandlePrepare_def Let_def split: option.split)

text \<open>C26: A cross-shard transfer is never prepared a second time, and never answered either. Once a
  participant holds a preimage of the transaction, or a prepare entry of any earlier transfer of the
  same amount between the same two items (whoever ordered it), its HandlePrepare starts nothing and
  answers at most with the coordinator's own certificate; and every coordinator rejects that answer,
  because it checks it as a certificate of the participant's cluster. So the second of two equal
  transfers ends in the coordinator's timeout abort.\<close>

theorem repeated_transfer_unanswered:
  assumes wf: "wf_topology (eTopo (n_Engine n))"
    and cross: "\<not> SameCluster (eTopo (n_Engine n)) (r_X (cp_Req msg)) (r_Y (cp_Req msg))"
    and seen: "looks_prepared C (cp_Req msg) n"
  shows "let n' = HandlePrepare C up (Some msg) n in
    n_Engine n' = n_Engine n \<and> n_Tasks n' = n_Tasks n \<and>
    (\<forall>(i, m)\<in>set (newly_sent n n'). \<exists>reply. (m = T2PCPrepared reply \<or> m = T2PCAbort reply) \<and>
       (\<forall>c. eTopo (n_Engine c) = eTopo (n_Engine n) \<longrightarrow> HandleParticipantReply C (Some reply) c = c))"
proof -
  let ?t = "eTopo (n_Engine n)" and ?r = "cp_Req msg" and ?cert = "cp_CommitCert msg"
  have q: "1 \<le> Quorum ?t" using wf by (simp add: Quorum_pos wf_topology_def)
  from HandlePrepare_answers [OF seen, of up] show ?thesis
  proof (elim disjE exE conjE)
    assume "HandlePrepare C up (Some msg) n = n"
    then show ?thesis by (simp add: Let_def)
  next
    fix outcome
    assume eq: "HandlePrepare C up (Some msg) n = resendPrepareReply up ?r ?cert outcome n"
      and ok: "VerifyClusterCert C (eRing (n_Engine n)) ?t (ClusterOf ?t (r_X ?r)) ?cert ''COMMIT'' (Quorum ?t)"
    let ?reply = "\<lparr>pr_Req = ?r\<lparr>r_Op := OpEmpty\<rparr>, pr_Outcome = outcome, pr_CommitCert = ?cert, pr_PartSeq = 0\<rparr>"
    have "HandleParticipantReply C (Some ?reply) c = c" if "eTopo (n_Engine c) = ?t" for c
      using cluster_cert_exclusive [OF wf _ q ok [unfolded phase_name_Comm]] cross that
      by (intro reply_rejected) (simp add: phase_name_Comm SameCluster_def)
    then show ?thesis
      by (auto simp: Let_def eq resendPrepareReply_def dest!: newly_sent_SendToCluster split: if_splits)
  qed
qed

text \<open>A node of the example deployment; a transfer from its first cluster to its second.\<close>

definition sample_node :: "int \<Rightarrow> node" where
  "sample_node i = NewCoordinator ((sample_engine i)\<lparr>eHooks := True\<rparr>) False (Some []) (Some [])"

definition sample_cross :: Request where
  "sample_cross = sample_req\<lparr>r_Y := 60\<rparr>"

definition sample_prepare :: CoordinatorPrepareMsg where
  "sample_prepare = \<lparr>cp_Req = sample_cross, cp_CommitCert = sample_cert Comm, cp_CoordSeq = 1\<rparr>"

lemma sample_cross_fields [simp]:
  "r_X sample_cross = 5" "r_Y sample_cross = 60" "r_Amt sample_cross = 3" "r_TS sample_cross = 1"
  by (simp_all add: sample_cross_def sample_req_def)

lemma sample_node_fields [simp]:
  "n_Engine (sample_node i) = (sample_engine i)\<lparr>eHooks := True\<rparr>" "n_CommitStarted (sample_node i) = {}"
  "n_CommitPhaseDisabled (sample_node i) = False" "n_Collector (sample_node i) = Some []"
  "n_AckColl (sample_node i) = Some []"
  by (simp_all add: sample_node_def NewCoordinator_def)

lemma sample_cluster_2: "51 \<le> i \<Longrightarrow> i \<le> 100 \<Longrightarrow> ClusterOf sample_topo i = 2"
  using int_div_iff [of 50 "i - 1" 1] by (simp add: ClusterOf_def ItemsPerCluster_def go_div_def Let_def)

lemma sample_sides: "ClusterOf sample_topo 5 = 1" "ClusterOf sample_topo 60 = 2"
  by (simp_all add: sample_cluster sample_cluster_2)

theorem repeated_transfer_unanswered_witness:
  "let n = on_engine (\<lambda>e. execute_op plain_crypto e (sample_cross\<lparr>r_ClientID := ''z'', r_Op := OpPartPrepareCommit\<rparr>) 1 (sample_cert Comm))
             (sample_node 5)
   in n_Engine (HandlePrepare plain_crypto (\<lambda>_. True) (Some sample_prepare) n) = n_Engine n"
proof -
  let ?n = "on_engine (\<lambda>e. execute_op plain_crypto e (sample_cross\<lparr>r_ClientID := ''z'', r_Op := OpPartPrepareCommit\<rparr>) 1 (sample_cert Comm))
             (sample_node 5)"
  have topo: "eTopo (n_Engine ?n) = sample_topo"
    by (simp add: on_engine_def same_core_fields(7) [OF same_core_execute_op])
  have "looks_prepared plain_crypto (cp_Req sample_prepare) ?n"
    by (simp add: looks_prepared_def sample_prepare_def on_engine_def execute_op_def norm_op_def executePartPrepare_def
        Let_def WALExists_def ApplyCreditOnly_def call_hook_def append_entry_def on_store_def emit_def mk_entry_def
        AppendDatastore_def Datastore_def WALWrite_def setBalanceTx_def empty_store_def)
  from repeated_transfer_unanswered [OF _ _ this, of "\<lambda>_. True"] show ?thesis
    by (simp add: topo sample_wf SameCluster_def sample_sides sample_prepare_def Let_def)
qed

subsection \<open>Aborts that come too late\<close>

lemma on_engine_simps [simp]:
  "n_Engine (on_engine f n) = f (n_Engine n)" "n_CommitStarted (on_engine f n) = n_CommitStarted n"
  "n_CommitPhaseDisabled (on_engine f n) = n_CommitPhaseDisabled n" "n_Tasks (on_engine f n) = n_Tasks n"
  "n_Collector (on_engine f n) = n_Collector n" "n_AckColl (on_engine f n) = n_AckColl n"
  "n_Out (on_engine f n) = n_Out n" "n_CrossBusy (on_engine f n) = n_CrossBusy n"
  by (simp_all add: on_engine_def)

lemma StartConsensus_queued:
  "isPrimaryIngress e \<Longrightarrow> length (eInternalIngress e) < ingress_capacity \<Longrightarrow>
     StartConsensus C e req = e\<lparr>eInternalIngress := eInternalIngress e @ [req]\<rparr>"
  by (simp add: StartConsensus_def enqueuePrimary_def)

lemma ingress_queue [simp]:
  "is_primary (e\<lparr>eInternalIngress := q\<rparr>) = is_primary e" "is_primary (e\<lparr>eClientIngress := q\<rparr>) = is_primary e"
  "is_primary (e\<lparr>eHooks := b\<rparr>) = is_primary e"
  by (rule is_primary_cong; simp)+

lemma isPrimaryIngress_queue [simp]:
  "isPrimaryIngress (e\<lparr>eInternalIngress := q\<rparr>) = isPrimaryIngress e"
  "isPrimaryIngress (e\<lparr>eClientIngress := q\<rparr>) = isPrimaryIngress e"
  "isPrimaryIngress (e\<lparr>eHooks := b\<rparr>) = isPrimaryIngress e"
  by (simp_all add: isPrimaryIngress_def)

text \<open>A reply whose certificate passes.\<close>

definition accepted_reply :: "crypto_ops \<Rightarrow> node \<Rightarrow> ParticipantReplyMsg \<Rightarrow> bool" where
  "accepted_reply C n reply \<longleftrightarrow>
     VerifyClusterCert C (eRing (n_Engine n)) (eTopo (n_Engine n))
       (ClusterOf (eTopo (n_Engine n)) (r_Y (pr_Req reply))) (pr_CommitCert reply) ''COMMIT'' (Quorum (eTopo (n_Engine n)))"

lemma HandleParticipantReply_engine:
  "n_Engine (HandleParticipantReply C (Some reply) n) =
     (if accepted_reply C n reply \<and> leads n \<and> \<not> n_CommitPhaseDisabled n then
        (if TxnID C (pr_Req reply) \<notin> n_CommitStarted n then
           StartConsensus C (n_Engine n) ((pr_Req reply)\<lparr>r_Op :=
             (if pr_Outcome reply = OutcomeCommit then OpCoordCommit else OpCoordAbort)\<rparr>)
         else if pr_Outcome reply = OutcomeCommit
           then StartConsensus C (n_Engine n) ((pr_Req reply)\<lparr>r_Op := OpCoordAbort\<rparr>)
         else n_Engine n)
      else n_Engine n)"
  by (simp add: HandleParticipantReply_def accepted_reply_def maybeStartFinalCommit_def leads_def primary_def Let_def)

lemma HandleParticipantReply_started:
  "n_CommitStarted (HandleParticipantReply C (Some reply) n) =
     (if accepted_reply C n reply \<and> leads n \<and> \<not> n_CommitPhaseDisabled n
      then insert (TxnID C (pr_Req reply)) (n_CommitStarted n) else n_CommitStarted n)"
  by (auto simp: HandleParticipantReply_def accepted_reply_def maybeStartFinalCommit_def leads_def primary_def Let_def)

lemma HandleParticipantReply_disabled:
  "n_CommitPhaseDisabled (HandleParticipantReply C (Some reply) n) = n_CommitPhaseDisabled n"
  by (auto simp: HandleParticipantReply_def maybeStartFinalCommit_def leads_def primary_def Let_def)

lemma primary_cong:
  "eTopo (n_Engine m) = eTopo (n_Engine n) \<Longrightarrow> eCluster (n_Engine m) = eCluster (n_Engine n) \<Longrightarrow>
   eView (n_Engine m) = eView (n_Engine n) \<Longrightarrow> eSelf (n_Engine m) = eSelf (n_Engine n) \<Longrightarrow> leads m = leads n"
  by (simp add: leads_def primary_def)

text \<open>A participant's commit reply that reaches the coordinator twice queues a commit and then an
  abort of the same transaction: the second copy finds the transaction decided, takes the decision
  for a timeout abort and drives the abort again, although it was the reply itself that was decided.
  Nobody checks who sends a reply, so a copy needs no faulty participant.\<close>

theorem duplicate_reply_drives_abort:
  assumes lead: "leads n" "\<not> n_CommitPhaseDisabled n" "isPrimaryIngress (n_Engine n)"
    and room: "Suc (length (eInternalIngress (n_Engine n))) < ingress_capacity"
    and reply: "accepted_reply C n reply" "pr_Outcome reply = OutcomeCommit"
      "TxnID C (pr_Req reply) \<notin> n_CommitStarted n"
  shows "let n' = HandleParticipantReply C (Some reply) (HandleParticipantReply C (Some reply) n) in
    eInternalIngress (n_Engine n') = eInternalIngress (n_Engine n) @
      [(pr_Req reply)\<lparr>r_Op := OpCoordCommit\<rparr>, (pr_Req reply)\<lparr>r_Op := OpCoordAbort\<rparr>]"
proof -
  let ?n1 = "HandleParticipantReply C (Some reply) n"
  let ?q = "eInternalIngress (n_Engine n) @ [(pr_Req reply)\<lparr>r_Op := OpCoordCommit\<rparr>]"
  have e1: "n_Engine ?n1 = (n_Engine n)\<lparr>eInternalIngress := ?q\<rparr>"
    using lead reply room by (simp add: HandleParticipantReply_engine StartConsensus_queued)
  have "leads ?n1" using lead(1) by (subst primary_cong [of _ n]) (simp_all add: e1)
  moreover have "accepted_reply C ?n1 reply" using reply(1) by (simp add: accepted_reply_def e1)
  moreover have "TxnID C (pr_Req reply) \<in> n_CommitStarted ?n1"
    using lead reply by (simp add: HandleParticipantReply_started)
  ultimately show ?thesis
    using lead(2,3) reply(2) room
    by (simp add: HandleParticipantReply_engine [of C reply ?n1] HandleParticipantReply_disabled e1 StartConsensus_queued Let_def)
qed

definition sample_reply :: ParticipantReplyMsg where
  "sample_reply = \<lparr>pr_Req = sample_cross, pr_Outcome = OutcomeCommit,
     pr_CommitCert = (sample_cert Comm)\<lparr>cm_Sigs := map (\<lambda>i. \<lparr>se_ServerID = i, se_Sig = ring_Sign plain_crypto (sample_ring i)
       (PhaseSigningBytes ''COMMIT'' 1 0 (Digest plain_crypto sample_req))\<rparr>) [6, 7, 8]\<rparr>, pr_PartSeq = 1\<rparr>"

lemma sample_accepted: "eRing (n_Engine n) = sample_ring i \<Longrightarrow> eTopo (n_Engine n) = sample_topo \<Longrightarrow>
  accepted_reply plain_crypto n sample_reply"
  by (simp add: accepted_reply_def sample_reply_def sample_sides VerifyClusterCert_def Let_def
      sample_cert_def PublicKey_def sample_ring_def upto_small ring_Sign_def plain_crypto_def ServersInCluster_def
      Quorum_def F_def go_div_def)

lemma sample_node_lead: "i \<in> {1, 5} \<Longrightarrow> leads (sample_node i)"
  by (auto simp: leads_def primary_def PrimaryOf_def go_mod_def go_div_def) (simp_all add: sample_engine_def fresh_engine_def Let_def)

theorem duplicate_reply_drives_abort_witness:
  "map r_Op (eInternalIngress (n_Engine (HandleParticipantReply plain_crypto (Some sample_reply)
     (HandleParticipantReply plain_crypto (Some sample_reply) (sample_node 1))))) = [OpCoordCommit, OpCoordAbort]"
proof -
  have ingress: "isPrimaryIngress (n_Engine (sample_node 1))"
    using sample_primary_iff [of 1] by (simp add: isPrimaryIngress_def DefaultFaultConfig_def)
  have q: "eInternalIngress (n_Engine (sample_node 1)) = []"
    by (simp add: sample_engine_def fresh_engine_def Let_def)
  have "accepted_reply plain_crypto (sample_node 1) sample_reply" by (rule sample_accepted [of _ 1]) simp_all
  from duplicate_reply_drives_abort [OF sample_node_lead _ ingress _ this] q show ?thesis
    by (simp add: Let_def ingress_capacity_def) (simp add: sample_reply_def)
qed

text \<open>An abort for an item that is not locked takes a number and leaves it empty.\<close>

lemma startConsensus_lost_abort:
  assumes "is_primary e" and "r_Op req = OpPartAbort" and "\<not> IsLocked (eStore e) (r_Y req)"
  shows "startConsensus C e req = e\<lparr>eNextSeq := eNextSeq e + 1\<rparr>"
  using assms
  by (simp add: startConsensus_def Let_def norm_op_def validateForStartQuick_def assignSeq_def locksHeldForCommitOp_def)

text \<open>An abort message for a transfer its participant holds no lock for stalls the participant's
  cluster. A timeout abort of a prepare that never arrived is such a message, and so is the second
  copy of any abort after the first has run. The participant's primary queues PartAbort, gives it
  the next number (its quick check lets every PartAbort pass) and then finds the lock missing and
  returns; the number is never proposed, so the primary executes nothing from there on and no
  replica in its state accepts a PRE-PREPARE with a higher number.\<close>

theorem abort_without_lock_stalls:
  fixes n :: node and msg :: CoordinatorCommitMsg and C :: crypto_ops
  defines "e \<equiv> n_Engine n"
  assumes lead: "leads n" "isPrimaryIngress e"
    and idle: "eClientIngress e = []" "eInternalIngress e = []"
    and abort: "cc_Outcome msg = OutcomeAbort" "\<not> prepareWasAbort C (cc_Req msg) n"
      "\<not> IsLocked (eStore e) (r_Y (cc_Req msg))"
    and cert: "VerifyClusterCert C (eRing e) (eTopo e) (ClusterOf (eTopo e) (r_X (cc_Req msg))) (cc_CommitCert msg)
      ''COMMIT'' (Quorum (eTopo e))"
    and log: "bget (eLog e) (eNextSeq e) = None" "eExecSeq e \<le> eNextSeq e" "1 \<le> eNextSeq e"
  shows "\<exists>e'. ingress_turn C (n_Engine (HandleCommit C up (Some msg) n)) = Some e' \<and>
    eNextSeq e' = eNextSeq e + 1 \<and> eLog e' = eLog e \<and>
    eExecSeq (tryExecute C e') \<le> eNextSeq e \<and> (\<forall>j. eNextSeq e < j \<longrightarrow> \<not> gapClearLocked e' j)"
proof -
  let ?req = "(cc_Req msg)\<lparr>r_Op := OpPartAbort\<rparr>"
  have prim: "is_primary e" using lead(2) by (simp add: isPrimaryIngress_def split: if_splits)
  have "n_Engine (HandleCommit C up (Some msg) n) = e\<lparr>eInternalIngress := [?req]\<rparr>"
    using lead idle abort(1,2) cert
    by (simp add: HandleCommit_def Let_def StartConsensus_queued ingress_capacity_def flip: e_def)
  then have turn: "ingress_turn C (n_Engine (HandleCommit C up (Some msg) n)) = Some (e\<lparr>eNextSeq := eNextSeq e + 1\<rparr>)"
    using idle prim abort(3) by (simp add: ingress_turn_def startConsensus_lost_abort)
  show ?thesis
    using missing_slot_stops [of "e\<lparr>eNextSeq := eNextSeq e + 1\<rparr>" "eNextSeq e" C]
      missing_slot_gap [of "e\<lparr>eNextSeq := eNextSeq e + 1\<rparr>" "eNextSeq e"] log
    by (simp add: turn)
qed

definition sample_abort :: CoordinatorCommitMsg where
  "sample_abort = \<lparr>cc_Req = sample_cross, cc_Outcome = OutcomeAbort, cc_CommitCert = sample_cert Comm, cc_CoordSeq = 1\<rparr>"

theorem abort_without_lock_stalls_witness:
  "\<exists>e'. ingress_turn plain_crypto (n_Engine (HandleCommit plain_crypto (\<lambda>_. True) (Some sample_abort) (sample_node 5))) = Some e' \<and>
     \<not> gapClearLocked e' 2"
proof -
  let ?n = "sample_node 5"
  have prim: "is_primary (n_Engine ?n)"
    by (simp add: is_primary_def Primary_def ServerByID_def PrimaryOf_def go_mod_def go_div_def)
  then have ingress: "isPrimaryIngress (n_Engine ?n)"
    by (simp add: isPrimaryIngress_def DefaultFaultConfig_def)
  have q: "eClientIngress (n_Engine ?n) = []" "eInternalIngress (n_Engine ?n) = []"
    by (simp_all add: sample_engine_def fresh_engine_def Let_def)
  have abort: "\<not> prepareWasAbort plain_crypto (cc_Req sample_abort) ?n"
    "\<not> IsLocked (eStore (n_Engine ?n)) (r_Y (cc_Req sample_abort))"
    by (simp_all add: prepareWasAbort_def prepareOutcome_def Datastore_def empty_store_def IsLocked_def Let_def)
  have cert: "VerifyClusterCert plain_crypto (eRing (n_Engine ?n)) (eTopo (n_Engine ?n))
      (ClusterOf (eTopo (n_Engine ?n)) (r_X (cc_Req sample_abort))) (cc_CommitCert sample_abort) ''COMMIT'' (Quorum (eTopo (n_Engine ?n)))"
    using sample_cluster_cert [of "Quorum sample_topo" 5 Comm]
    by (simp add: sample_abort_def sample_sides phase_name_def Quorum_def F_def go_div_def)
  have out: "cc_Outcome sample_abort = OutcomeAbort" by (simp add: sample_abort_def)
  from abort_without_lock_stalls [OF sample_node_lead ingress q out abort cert, of "\<lambda>_. True"]
  show ?thesis by auto
qed

subsection \<open>Acknowledgements\<close>

lemma ack_senders_RecordAck:
  "ack_senders C (RecordAck C req i c) req' =
     (if TxnID C req' = TxnID C req then bput i () (ack_senders C c req) else ack_senders C c req')"
  by (simp add: ack_senders_def RecordAck_def)

text \<open>The acks of one transaction are a vote box that takes every vote.\<close>

definition ack_vote :: "unit \<Rightarrow> (int, unit) bucket \<Rightarrow> int \<Rightarrow> unit \<Rightarrow> (int, unit) bucket" where
  "ack_vote e m i v = bput i v m"

interpretation ack_votes: vote_box ack_vote "\<lambda>_ _ _ _. True" "\<lambda>m. fst ` set m" length "\<lambda>_. bkeys_ok"
  by unfold_locales (simp_all add: bkeys_ok_card ack_vote_def)

text \<open>Acks for transaction \<open>req\<close> handed to a node one after the other.\<close>

definition hear_acks :: "crypto_ops \<Rightarrow> ParticipantAckMsg \<Rightarrow> int list \<Rightarrow> node \<Rightarrow> node" where
  "hear_acks C ack froms n = fold (\<lambda>i. HandleParticipantAck C i (Some ack)) froms n"

lemma hear_acks_senders:
  assumes "n_AckColl n = Some c"
  shows "\<exists>c'. n_AckColl (hear_acks C ack froms n) = Some c' \<and> n_Engine (hear_acks C ack froms n) = n_Engine n \<and>
     ack_senders C c' (pa_Req ack) = cast_all ack_vote () (ack_senders C c (pa_Req ack)) (map (\<lambda>i. (i, ())) froms)"
  using assms unfolding hear_acks_def cast_all_def
proof (induction froms arbitrary: n c)
  case (Cons i froms)
  have "n_AckColl (HandleParticipantAck C i (Some ack) n) = Some (RecordAck C (pa_Req ack) i c)"
    using Cons.prems by (simp add: HandleParticipantAck_def)
  from Cons.IH [OF this] show ?case by (auto simp: ack_senders_RecordAck ack_vote_def) (simp add: HandleParticipantAck_def)
qed simp

text \<open>The coordinator repeats its decision until \<open>f + 1\<close> different servers have acknowledged it (or
  its deadline passes): after acks of one transaction from the servers \<open>froms\<close>, repeated or not, the
  retry loop ends exactly if these are at least \<open>f + 1\<close> different servers; otherwise it sends the
  decision to the participant's cluster once more. Servers of any cluster count.\<close>

theorem ack_quorum_ends_retry:
  assumes fresh: "n_AckColl n = Some []" and txn: "TxnID C (pa_Req ack) = TxnID C req"
  shows "let n' = hear_acks C ack froms n; r = ackRetry C up False req msg n' in
    (fst r = None \<longleftrightarrow> ClientQuorum (eTopo (n_Engine n)) \<le> int (card (set froms))) \<and>
    snd r = (if fst r = None then n' else broadcastCommit up msg n')"
proof -
  obtain c where c: "n_AckColl (hear_acks C ack froms n) = Some c" "n_Engine (hear_acks C ack froms n) = n_Engine n"
    "ack_senders C c (pa_Req ack) = cast_all ack_vote () (ack_senders C [] (pa_Req ack)) (map (\<lambda>i. (i, ())) froms)"
    using hear_acks_senders [OF fresh] by blast
  let ?votes = "cast_all ack_vote () [] (map (\<lambda>i. (i, ())) froms)"
  have "length ?votes = card (fst ` set ?votes)"
    by (rule ack_votes.count_voters) (rule ack_votes.invar_add_all; simp)
  moreover have "fst ` set ?votes = set froms"
    by (subst ack_votes.voters_open) (simp_all add: image_image)
  moreover have "ack_senders C c req = ?votes"
    using c(3) txn by (simp add: ack_senders_def)
  ultimately have "CountAcks C c req = int (card (set froms))" by (simp add: CountAcks_def)
  then show ?thesis by (auto simp: ackRetry_def Let_def c(1,2))
qed

theorem ack_quorum_ends_retry_witness:
  "fst (ackRetry plain_crypto (\<lambda>_. True) False sample_cross sample_abort
     (hear_acks plain_crypto \<lparr>pa_Req = sample_cross, pa_PartSeq = 0\<rparr> [2, 2, 3] (sample_node 1))) = None"
  using ack_quorum_ends_retry [of "sample_node 1" plain_crypto "\<lparr>pa_Req = sample_cross, pa_PartSeq = 0\<rparr>" sample_cross "[2, 2, 3]"
      "\<lambda>_. True" sample_abort]
  by (simp add: Let_def ClientQuorum_def F_def go_div_def)

end
