(* ===== verification/Transport.thy ===== *)
theory Transport
  imports Messages
begin

text \<open>
  The transport of one replica (\<open>internal/transport\<close>): message types, signed envelopes and the hub.
  The hub keeps its inbound channel and the peers it has a connection to; dialling a server and the
  remote call are the network: \<open>dial\<close> and \<open>call\<close> are parameters.
\<close>

subsection \<open>Message types\<close>

definition Is2PC :: "string \<Rightarrow> bool" where
  "Is2PC typ \<longleftrightarrow> typ \<in> set [''2PC_PREPARE'', ''2PC_PREPARED'', ''2PC_ABORT'', ''2PC_COMMIT'', ''2PC_ACK'']"

definition IsControl :: "string \<Rightarrow> bool" where
  "IsControl typ \<longleftrightarrow>
     typ \<in> set [''SET_FAULT'', ''QUERY_BALANCE'', ''QUERY_DATASTORE'', ''QUERY_REPLY'', ''CONTROL_RESPONSE'']"

definition IsPBFT :: "string \<Rightarrow> bool" where
  "IsPBFT typ \<longleftrightarrow>
     typ \<in> set [''CLIENT_REQUEST'', ''CLIENT_REPLY'', ''PRE_PREPARE'', ''PREPARE'', ''PREPARE_CERT'', ''COMMIT'',
                ''COMMIT_CERT'', ''VIEW_CHANGE'', ''NEW_VIEW'', ''DISCARD_SEQ'']"

subsection \<open>Envelopes\<close>

text \<open>A signature that is not set is \<open>None\<close> (Go's nil).\<close>

record envelope =
  w_SenderId :: int
  w_Type :: string
  w_Payload :: bytes
  w_Signature :: "bytes option"

definition SigningBytes :: "int \<Rightarrow> string \<Rightarrow> bytes \<Rightarrow> bytes" where
  "SigningBytes senderID typ payload = itoa senderID @ sep @ typ @ sep @ payload"

text \<open>A missing envelope (nil) is \<open>None\<close>.\<close>

definition SigningBytesFromEnvelope :: "envelope option \<Rightarrow> bytes" where
  "SigningBytesFromEnvelope env =
     (case env of None \<Rightarrow> [] | Some env \<Rightarrow> SigningBytes (w_SenderId env) (w_Type env) (w_Payload env))"

definition NewEnvelope :: "int \<Rightarrow> string \<Rightarrow> bytes \<Rightarrow> envelope" where
  "NewEnvelope sender typ payload = \<lparr>w_SenderId = sender, w_Type = typ, w_Payload = payload, w_Signature = None\<rparr>"

definition SenderID :: "envelope option \<Rightarrow> string + int" where
  "SenderID env =
     (case env of
        None \<Rightarrow> Inl ''invalid envelope sender''
      | Some env \<Rightarrow> if w_SenderId env \<le> 0 then Inl ''invalid envelope sender'' else Inr (w_SenderId env))"

subsection \<open>The hub\<close>

record hub =
  h_Self :: int
  h_Topo :: topology
  h_Ring :: KeyRing
  h_Inbound :: "envelope list"
  h_InboundCap :: nat
  h_Peers :: "int set"

definition NewHub :: "int \<Rightarrow> topology \<Rightarrow> KeyRing \<Rightarrow> int \<Rightarrow> hub" where
  "NewHub self t ring inboundBuf =
     \<lparr>h_Self = self, h_Topo = t, h_Ring = ring, h_Inbound = [],
      h_InboundCap = nat (if inboundBuf \<le> 0 then 256 else inboundBuf), h_Peers = {}\<rparr>"

definition Sign :: "crypto_ops \<Rightarrow> hub \<Rightarrow> envelope \<Rightarrow> envelope" where
  "Sign C h env = env\<lparr>w_Signature := Some (ring_Sign C (h_Ring h) (SigningBytesFromEnvelope (Some env)))\<rparr>"

definition Verify :: "crypto_ops \<Rightarrow> hub \<Rightarrow> envelope \<Rightarrow> bool" where
  "Verify C h env =
     (case SenderID (Some env) of
        Inl _ \<Rightarrow> False
      | Inr sender \<Rightarrow> ring_Verify C (h_Ring h) sender (SigningBytesFromEnvelope (Some env))
                       (case w_Signature env of None \<Rightarrow> [] | Some sig \<Rightarrow> sig))"

definition Inject :: "hub \<Rightarrow> envelope \<Rightarrow> string + hub" where
  "Inject h env =
     (if length (h_Inbound h) < h_InboundCap h then Inr (h\<lparr>h_Inbound := h_Inbound h @ [env]\<rparr>)
      else Inl ''inbound channel full'')"

definition Deliver :: "crypto_ops \<Rightarrow> hub \<Rightarrow> envelope \<Rightarrow> string + hub" where
  "Deliver C h env =
     (if w_Type env = ''CLIENT_REQUEST'' then Inject h env
      else if w_Type env = ''PREPARE'' \<or> w_Type env = ''COMMIT'' then Inject h env
      else if \<not> Verify C h env then Inl (''invalid signature from sender '' @ itoa (w_SenderId env))
      else Inject h env)"

text \<open>The connection to a peer is made once and kept until a call fails; \<open>dial i\<close> is the error of
  dialling server \<open>i\<close>, if any.\<close>

definition Addr :: "server \<Rightarrow> string" where
  "Addr s = srv_Host s @ '':'' @ itoa (srv_Port s)"

definition peer :: "(int \<Rightarrow> string option) \<Rightarrow> hub \<Rightarrow> int \<Rightarrow> string + hub" where
  "peer dial h to =
     (if to \<in> h_Peers h then Inr h
      else case ServerByID (h_Topo h) to of
             None \<Rightarrow> Inl (''unknown server '' @ server_name to)
           | Some srv \<Rightarrow>
               (case dial to of
                  Some err \<Rightarrow> Inl (''dial '' @ server_name to @ '' at '' @ Addr srv @ '': '' @ err)
                | None \<Rightarrow> Inr (h\<lparr>h_Peers := insert to (h_Peers h)\<rparr>)))"

definition dropPeer :: "hub \<Rightarrow> int \<Rightarrow> hub" where
  "dropPeer h to = h\<lparr>h_Peers := h_Peers h - {to}\<rparr>"

text \<open>The remote call fails with an error or returns an acknowledgement, which may be nil.\<close>

datatype call_result = CallError string | NilAck | Ack bool string

text \<open>\<open>Send\<close> returns the error, if any.\<close>

definition Send ::
    "(int \<Rightarrow> string option) \<Rightarrow> (int \<Rightarrow> envelope \<Rightarrow> call_result) \<Rightarrow> hub \<Rightarrow> int \<Rightarrow> envelope \<Rightarrow> string option \<times> hub" where
  "Send dial call h to env =
     (if w_Signature env = None then (Some ''refusing to send unsigned envelope'', h)
      else case peer dial h to of
             Inl err \<Rightarrow> (Some err, h)
           | Inr h \<Rightarrow>
               (case call to env of
                  CallError err \<Rightarrow> (Some err, dropPeer h to)
                | NilAck \<Rightarrow> (Some (''peer '' @ server_name to @ '' rejected envelope: ''), h)
                | Ack ok msg \<Rightarrow>
                    (if \<not> ok then (Some (''peer '' @ server_name to @ '' rejected envelope: '' @ msg), h)
                     else (None, h))))"

text \<open>The service a remote peer calls: what \<open>Deliver\<close> says, as an acknowledgement.\<close>

definition service_Send :: "crypto_ops \<Rightarrow> hub \<Rightarrow> envelope \<Rightarrow> call_result \<times> hub" where
  "service_Send C h env =
     (case Deliver C h env of Inl err \<Rightarrow> (Ack False err, h) | Inr h \<Rightarrow> (Ack True [], h))"

subsection \<open>What a signature covers\<close>

lemma SigningBytes_inj:
  assumes "CHR ''|'' \<notin> set s" "CHR ''|'' \<notin> set t" and "SigningBytes a s x = SigningBytes b t y"
  shows "a = b \<and> s = t \<and> x = y"
proof -
  have 1: "itoa a = itoa b \<and> s @ CHR ''|'' # x = t @ CHR ''|'' # y"
    using assms(3) by (intro sep_split) (auto simp: SigningBytes_def itoa_sep)
  then have "s = t \<and> x = y" using assms(1,2) sep_split by blast
  with 1 show ?thesis by (simp add: itoa_inj)
qed

lemma nat_digits_no_letter: "c \<in> {CHR ''P'', CHR ''C''} \<Longrightarrow> c \<notin> set (nat_digits n)"
proof
  assume c: "c \<in> {CHR ''P'', CHR ''C''}" and "c \<in> set (nat_digits n)"
  then obtain d where d: "d < 10" "c = digit_char d" using nat_digits_chars by blast
  then have "of_char c = (48 + d :: nat)" using digit_char_code by simp
  then show False using c d(1) by auto
qed

lemma itoa_no_letter: "CHR ''P'' \<notin> set (itoa i)" "CHR ''C'' \<notin> set (itoa i)"
  by (simp_all add: itoa_def nat_digits_no_letter)

text \<open>An envelope signature is never the signature of a PREPARE or COMMIT vote.\<close>

lemma SigningBytes_not_vote:
  assumes "p = ''PREPARE'' \<or> p = ''COMMIT''"
  shows "SigningBytes a s x \<noteq> PhaseSigningBytes p k v d"
proof
  assume eq: "SigningBytes a s x = PhaseSigningBytes p k v d"
  have "CHR ''|'' \<notin> set p" using assms by auto
  from sep_split [OF eq [unfolded SigningBytes_def PhaseSigningBytes_def, simplified] itoa_sep this]
  have "itoa a = p" by simp
  then show False using assms itoa_no_letter [of a] by auto
qed

lemma known_type_sep: "IsPBFT s \<or> Is2PC s \<or> IsControl s \<Longrightarrow> CHR ''|'' \<notin> set s"
  by (auto simp: IsPBFT_def Is2PC_def IsControl_def)

lemma Inject_Inr: "Inject h env = Inr h' \<longleftrightarrow> length (h_Inbound h) < h_InboundCap h \<and> h' = h\<lparr>h_Inbound := h_Inbound h @ [env]\<rparr>"
  by (auto simp: Inject_def)

lemma Deliver_cases:
  assumes "Deliver C h env = Inr h'"
  shows "h' = h\<lparr>h_Inbound := h_Inbound h @ [env]\<rparr> \<and> length (h_Inbound h) < h_InboundCap h \<and>
    (w_Type env \<in> {''CLIENT_REQUEST'', ''PREPARE'', ''COMMIT''} \<or>
     0 < w_SenderId env \<and> ring_Verify C (h_Ring h) (w_SenderId env)
        (SigningBytes (w_SenderId env) (w_Type env) (w_Payload env)) (case w_Signature env of None \<Rightarrow> [] | Some sig \<Rightarrow> sig))"
  using assms
  by (auto simp: Deliver_def Inject_Inr Verify_def SenderID_def SigningBytesFromEnvelope_def split: if_splits)

text \<open>C27: What reaches the dispatch loop is signed, but for three types. When the hub accepts an envelope
  from a peer, the envelope is a client request, a PREPARE or a COMMIT, or its claimed sender is a
  positive id under whose public key its signature over sender, type and payload verifies. Such a
  signature says exactly which sender, type and payload it is for (among the types the replicas
  know), and no PREPARE or COMMIT vote has the same signed bytes, so neither can pass for the other.\<close>

theorem delivered_envelope_signed:
  assumes "Deliver C h env = Inr h'"
  shows "h_Inbound h' = h_Inbound h @ [env] \<and>
    (w_Type env \<in> {''CLIENT_REQUEST'', ''PREPARE'', ''COMMIT''} \<or>
     0 < w_SenderId env \<and> ring_Verify C (h_Ring h) (w_SenderId env)
        (SigningBytes (w_SenderId env) (w_Type env) (w_Payload env)) (case w_Signature env of None \<Rightarrow> [] | Some sig \<Rightarrow> sig)) \<and>
    (\<forall>a s x b t y. (IsPBFT s \<or> Is2PC s \<or> IsControl s) \<and> (IsPBFT t \<or> Is2PC t \<or> IsControl t) \<and>
       SigningBytes a s x = SigningBytes b t y \<longrightarrow> a = b \<and> s = t \<and> x = y) \<and>
    (\<forall>a s x p k v d. p = ''PREPARE'' \<or> p = ''COMMIT'' \<longrightarrow> SigningBytes a s x \<noteq> PhaseSigningBytes p k v d)"
proof (intro conjI allI impI)
  note d = Deliver_cases [OF assms]
  have "h' = h\<lparr>h_Inbound := h_Inbound h @ [env]\<rparr>" using d by (rule conjunct1)
  then show "h_Inbound h' = h_Inbound h @ [env]" by simp
  show "w_Type env \<in> {''CLIENT_REQUEST'', ''PREPARE'', ''COMMIT''} \<or>
     0 < w_SenderId env \<and> ring_Verify C (h_Ring h) (w_SenderId env)
        (SigningBytes (w_SenderId env) (w_Type env) (w_Payload env)) (case w_Signature env of None \<Rightarrow> [] | Some sig \<Rightarrow> sig)"
    using d by (elim conjE) assumption
next
  fix a s x b t y
  assume "(IsPBFT s \<or> Is2PC s \<or> IsControl s) \<and> (IsPBFT t \<or> Is2PC t \<or> IsControl t) \<and>
    SigningBytes a s x = SigningBytes b t y"
  then have "a = b \<and> s = t \<and> x = y"
    by (elim conjE) (rule SigningBytes_inj [OF known_type_sep known_type_sep])
  then show "a = b" "s = t" "x = y" by blast+
next
  fix a s x p k v d
  assume "p = ''PREPARE'' \<or> p = ''COMMIT''"
  then show "SigningBytes a s x \<noteq> PhaseSigningBytes p k v d" by (rule SigningBytes_not_vote)
qed

theorem delivered_envelope_signed_witness:
  "let h = NewHub 1 Default \<lparr>Self = 1, Private = ''k'', Public = ''k'', peers = [(2, ''k'')]\<rparr> 256;
       env = Sign plain_crypto h (NewEnvelope 2 ''2PC_COMMIT'' ''m'')
   in \<exists>h'. Deliver plain_crypto h env = Inr h' \<and> h_Inbound h' = [env]"
proof -
  let ?h = "NewHub 1 Default \<lparr>Self = 1, Private = ''k'', Public = ''k'', peers = [(2, ''k'')]\<rparr> 256"
  let ?env = "Sign plain_crypto ?h (NewEnvelope 2 ''2PC_COMMIT'' ''m'')"
  have "Deliver plain_crypto ?h ?env = Inr (?h\<lparr>h_Inbound := h_Inbound ?h @ [?env]\<rparr>)"
    by (simp add: Deliver_def Verify_def Sign_def NewEnvelope_def NewHub_def SenderID_def SigningBytesFromEnvelope_def
        ring_Verify_def PublicKey_def ring_Sign_def plain_crypto_def Inject_def)
  moreover from delivered_envelope_signed [OF this]
  have "h_Inbound (?h\<lparr>h_Inbound := h_Inbound ?h @ [?env]\<rparr>) = h_Inbound ?h @ [?env]" by (rule conjunct1)
  moreover have "h_Inbound ?h = []" by (simp add: NewHub_def)
  ultimately show ?thesis unfolding Let_def by (intro exI conjI) (assumption, simp only: append_Nil)
qed

end
