(* ===== verification/Replica.thy ===== *)
theory Replica
  imports Transport Decision
begin

text \<open>
  One replica (\<open>internal/server/replica.go\<close>): its hub, its engine with both roles of the two-phase
  commit, and the dispatch of inbound envelopes. A handler the dispatch starts as a goroutine is one
  step here. Decoding a payload is Go's \<open>encoding/json\<close>: a parameter \<open>J\<close>, one decoder per message.
\<close>

record codec =
  dec_Request :: "bytes \<Rightarrow> Request option"
  dec_PrePrepare :: "bytes \<Rightarrow> PrePrepareMsg option"
  dec_Phase :: "bytes \<Rightarrow> PhaseMsg option"
  dec_Cert :: "bytes \<Rightarrow> CertificateMsg option"
  dec_ViewChange :: "bytes \<Rightarrow> ViewChangeMsg option"
  dec_NewView :: "bytes \<Rightarrow> NewViewMsg option"
  dec_DiscardSeq :: "bytes \<Rightarrow> DiscardSeqMsg option"
  dec_CoordPrepare :: "bytes \<Rightarrow> CoordinatorPrepareMsg option"
  dec_PartReply :: "bytes \<Rightarrow> ParticipantReplyMsg option"
  dec_CoordCommit :: "bytes \<Rightarrow> CoordinatorCommitMsg option"
  dec_PartAck :: "bytes \<Rightarrow> ParticipantAckMsg option"

text \<open>The switch of \<open>Engine.Handle\<close> on the type, up to the decoded message.\<close>

definition decoded :: "('a \<Rightarrow> payload) \<Rightarrow> 'a option \<Rightarrow> payload" where
  "decoded f m = (case m of None \<Rightarrow> Malformed | Some m \<Rightarrow> f m)"

definition decode_pbft :: "codec \<Rightarrow> string \<Rightarrow> bytes \<Rightarrow> payload" where
  "decode_pbft J typ b =
     (if typ = ''CLIENT_REQUEST'' then decoded MClientRequest (dec_Request J b)
      else if typ = ''PRE_PREPARE'' then decoded MPrePrepare (dec_PrePrepare J b)
      else if typ = ''PREPARE'' then decoded MPrepare (dec_Phase J b)
      else if typ = ''PREPARE_CERT'' then decoded MPrepareCert (dec_Cert J b)
      else if typ = ''COMMIT'' then decoded MCommit (dec_Phase J b)
      else if typ = ''COMMIT_CERT'' then decoded MCommitCert (dec_Cert J b)
      else if typ = ''VIEW_CHANGE'' then decoded MViewChange (dec_ViewChange J b)
      else if typ = ''NEW_VIEW'' then decoded MNewView (dec_NewView J b)
      else if typ = ''DISCARD_SEQ'' then decoded MDiscardSeq (dec_DiscardSeq J b)
      else Malformed)"

subsection \<open>Construction\<close>

text \<open>\<open>r_TwoPC\<close> says whether the bridge is set; the pong channel holds 64 envelopes.\<close>

record replica =
  r_Hub :: hub
  r_Node :: node
  r_TwoPC :: bool
  r_Pong :: "envelope list"
  r_Started :: bool

record ReplicaConfig =
  rc_Self :: int
  rc_Topo :: topology
  rc_Ring :: KeyRing
  rc_Store :: "store option"
  rc_ReplySink :: bool
  rc_PreparedCollector :: "PreparedCollector option"
  rc_AckCollector :: "AckCollector option"
  rc_Disable2PCCommitPhase :: bool
  rc_Enable2PC :: bool
  rc_Fault :: FaultConfig
  rc_DataDir :: string
  rc_Addr :: string

text \<open>\<open>join\<close> is \<open>filepath.Join\<close>, \<open>disk\<close> what opening the database file of a path
  gives (see \<open>Open\<close>), \<open>listen\<close> the error of listening on an address, if any.\<close>

definition open_error :: "store_error \<Rightarrow> string" where
  "open_error err = (case err of PathRequired \<Rightarrow> ''store path is required'' | OpenFailed err \<Rightarrow> err | _ \<Rightarrow> [])"

definition NewReplicaWithConfig ::
    "(string \<Rightarrow> string \<Rightarrow> string) \<Rightarrow> (string \<Rightarrow> string + store) \<Rightarrow> (string \<Rightarrow> string option) \<Rightarrow> ReplicaConfig \<Rightarrow> string + replica" where
  "NewReplicaWithConfig join disk listen cfg =
     (let self = rc_Self cfg; t = rc_Topo cfg;
          path = join (rc_DataDir cfg) (server_name self @ ''.db'')
      in case (case rc_Store cfg of Some st \<Rightarrow> Inr st | None \<Rightarrow> Open (DefaultOptions path) (disk path)) of
           Inl err \<Rightarrow> Inl (open_error err)
         | Inr st \<Rightarrow>
             (let hub = NewHub self t (rc_Ring cfg) 256 in
              case (if rc_Addr cfg \<noteq> [] then Inr (rc_Addr cfg)
                    else case ServerByID t self of
                           None \<Rightarrow> Inl (''server '' @ server_name self @ '' not in topology'')
                         | Some srv \<Rightarrow> Inr (Addr srv)) of
                Inl err \<Rightarrow> Inl err
              | Inr addr \<Rightarrow>
                  (case listen addr of
                     Some err \<Rightarrow> Inl err
                   | None \<Rightarrow>
                       (case NewEngine self t (rc_Ring cfg) st (rc_ReplySink cfg) of
                          Inl err \<Rightarrow> Inl err
                        | Inr e \<Rightarrow>
                            (let e = SetFault e (rc_Fault cfg);
                                 e = e\<lparr>eHooks := rc_Enable2PC cfg\<rparr>
                             in Inr \<lparr>r_Hub = hub,
                                     r_Node = NewCoordinator e (rc_Disable2PCCommitPhase cfg)
                                                (rc_PreparedCollector cfg) (rc_AckCollector cfg),
                                     r_TwoPC = rc_Enable2PC cfg, r_Pong = [], r_Started = False\<rparr>)))))"

definition NewReplica ::
    "(string \<Rightarrow> string \<Rightarrow> string) \<Rightarrow> (string \<Rightarrow> string + store) \<Rightarrow> (string \<Rightarrow> string option) \<Rightarrow> int \<Rightarrow> topology \<Rightarrow> KeyRing \<Rightarrow> string + replica" where
  "NewReplica join disk listen self t ring =
     NewReplicaWithConfig join disk listen
       \<lparr>rc_Self = self, rc_Topo = t, rc_Ring = ring, rc_Store = None, rc_ReplySink = False,
        rc_PreparedCollector = Some [], rc_AckCollector = Some [], rc_Disable2PCCommitPhase = False,
        rc_Enable2PC = True,
        rc_Fault = \<lparr>Alive = False, ByzantineLeader = False, ByzantineBackup = False, ClusterHonestLive = 0\<rparr>,
        rc_DataDir = ''data'', rc_Addr = []\<rparr>"

definition NewReplicaOnAddr ::
    "(string \<Rightarrow> string \<Rightarrow> string) \<Rightarrow> (string \<Rightarrow> string + store) \<Rightarrow> (string \<Rightarrow> string option) \<Rightarrow> int \<Rightarrow> topology \<Rightarrow> KeyRing \<Rightarrow> string \<Rightarrow> string + replica" where
  "NewReplicaOnAddr join disk listen self t ring addr =
     NewReplicaWithConfig join disk listen
       \<lparr>rc_Self = self, rc_Topo = t, rc_Ring = ring, rc_Store = None, rc_ReplySink = False,
        rc_PreparedCollector = None, rc_AckCollector = None, rc_Disable2PCCommitPhase = False,
        rc_Enable2PC = False,
        rc_Fault = \<lparr>Alive = False, ByzantineLeader = False, ByzantineBackup = False, ClusterHonestLive = 0\<rparr>,
        rc_DataDir = [], rc_Addr = addr\<rparr>"

definition on_node :: "(node \<Rightarrow> node) \<Rightarrow> replica \<Rightarrow> replica" where
  "on_node f r = r\<lparr>r_Node := f (r_Node r)\<rparr>"

definition Replica_SetFault :: "FaultConfig \<Rightarrow> replica \<Rightarrow> replica" where
  "Replica_SetFault fc = on_node (on_engine (\<lambda>e. SetFault e fc))"

definition Replica_ResetConsensus :: "replica \<Rightarrow> replica" where
  "Replica_ResetConsensus r =
     (let r = on_node (on_engine ResetConsensus) r;
          r = on_node (on_engine (on_store ClearLocksAndWAL)) r
      in if r_TwoPC r then on_node Coordinator_Reset r else r)"

subsection \<open>Dispatch\<close>

text \<open>A handler of the bridge, and then the hooks the engine has called meanwhile.\<close>

definition with_hooks :: "crypto_ops \<Rightarrow> (int \<Rightarrow> bool) \<Rightarrow> (node \<Rightarrow> node) \<Rightarrow> replica \<Rightarrow> replica" where
  "with_hooks C up f = on_node (\<lambda>n. run_hooks C up (f n))"

definition handle2PC :: "crypto_ops \<Rightarrow> codec \<Rightarrow> (int \<Rightarrow> bool) \<Rightarrow> envelope \<Rightarrow> replica \<Rightarrow> replica" where
  "handle2PC C J up env r =
     (let typ = w_Type env; b = w_Payload env in
      if \<not> r_TwoPC r then r
      else if typ = ''2PC_PREPARE'' then with_hooks C up (HandlePrepare C up (dec_CoordPrepare J b)) r
      else if typ = ''2PC_PREPARED'' \<or> typ = ''2PC_ABORT'' then
        with_hooks C up (HandleParticipantReply C (dec_PartReply J b)) r
      else if typ = ''2PC_COMMIT'' then with_hooks C up (HandleCommit C up (dec_CoordCommit J b)) r
      else if typ = ''2PC_ACK'' then
        (case SenderID (Some env) of
           Inl _ \<Rightarrow> r
         | Inr from \<Rightarrow> with_hooks C up (HandleParticipantAck C from (dec_PartAck J b)) r)
      else r)"

text \<open>The answer to a PING is sent; whether it arrives is the network's.\<close>

definition handlePing ::
    "crypto_ops \<Rightarrow> (int \<Rightarrow> string option) \<Rightarrow> (int \<Rightarrow> envelope \<Rightarrow> call_result) \<Rightarrow> envelope \<Rightarrow> replica \<Rightarrow> replica" where
  "handlePing C dial call ping r =
     (case SenderID (Some ping) of
        Inl _ \<Rightarrow> r
      | Inr sender \<Rightarrow>
          (let pong = Sign C (r_Hub r) (NewEnvelope (h_Self (r_Hub r)) ''PONG'' (w_Payload ping))
           in r\<lparr>r_Hub := snd (Send dial call (r_Hub r) sender pong)\<rparr>))"

record network =
  net_dial :: "int \<Rightarrow> string option"
  net_call :: "int \<Rightarrow> envelope \<Rightarrow> call_result"
  net_up :: "int \<Rightarrow> bool"

definition dispatch :: "crypto_ops \<Rightarrow> codec \<Rightarrow> iteration \<Rightarrow> network \<Rightarrow> envelope \<Rightarrow> replica \<Rightarrow> replica" where
  "dispatch C J I N env r =
     (if IsPBFT (w_Type env) then
        with_hooks C (net_up N) (on_engine (\<lambda>e. Handle C I e
          \<lparr>env_SenderId = w_SenderId env, env_Payload = decode_pbft J (w_Type env) (w_Payload env),
           env_Signature = (case w_Signature env of None \<Rightarrow> [] | Some s \<Rightarrow> s)\<rparr>)) r
      else if w_Type env = ''PING'' then handlePing C (net_dial N) (net_call N) env r
      else if w_Type env = ''PONG'' then
        (if length (r_Pong r) < 64 then r\<lparr>r_Pong := r_Pong r @ [env]\<rparr> else r)
      else if Is2PC (w_Type env) then handle2PC C J (net_up N) env r
      else r)"

text \<open>\<open>Run\<close> is entered once (\<open>None\<close> is its early return); one turn of its loop blocks on an empty
  channel.\<close>

definition Run_enter :: "replica \<Rightarrow> replica option" where
  "Run_enter r = (if r_Started r then None else Some (r\<lparr>r_Started := True\<rparr>))"

definition Run_turn :: "crypto_ops \<Rightarrow> codec \<Rightarrow> iteration \<Rightarrow> network \<Rightarrow> replica \<Rightarrow> replica option" where
  "Run_turn C J I N r =
     (case h_Inbound (r_Hub r) of
        [] \<Rightarrow> None
      | env # rest \<Rightarrow> Some (dispatch C J I N env (r\<lparr>r_Hub := (r_Hub r)\<lparr>h_Inbound := rest\<rparr>\<rparr>)))"

fun send_all :: "(int \<Rightarrow> string option) \<Rightarrow> (int \<Rightarrow> envelope \<Rightarrow> call_result) \<Rightarrow> int \<Rightarrow> envelope \<Rightarrow> int list \<Rightarrow> hub \<Rightarrow> string option \<times> hub" where
  "send_all dial call self env [] h = (None, h)"
| "send_all dial call self env (i # is) h =
     (if i = self then send_all dial call self env is h
      else case Send dial call h i env of
             (Some err, h) \<Rightarrow> (Some (''send to '' @ server_name i @ '': '' @ err), h)
           | (None, h) \<Rightarrow> send_all dial call self env is h)"

definition BroadcastCluster :: "network \<Rightarrow> envelope \<Rightarrow> replica \<Rightarrow> string option \<times> replica" where
  "BroadcastCluster N env r =
     (case SenderID (Some env) of
        Inl err \<Rightarrow> (Some err, r)
      | Inr self \<Rightarrow>
          (let t = h_Topo (r_Hub r) in
           case ServerByID t self of
             None \<Rightarrow> (Some (''sender '' @ server_name self @ '' not in topology''), r)
           | Some srv \<Rightarrow>
               (case send_all (net_dial N) (net_call N) self env (map srv_ID (ServersInCluster t (srv_Cluster srv))) (r_Hub r) of
                  (err, h) \<Rightarrow> (err, r\<lparr>r_Hub := h\<rparr>))))"

subsection \<open>Steps of a running replica\<close>

text \<open>Everything that happens to a replica between two resets: an envelope arrives, the dispatch loop
  takes one, the engine's ingress loop and its timers run, a task of the coordinator has its turn,
  a fault is injected.\<close>

definition end_task :: "task \<Rightarrow> task option \<Rightarrow> node \<Rightarrow> node" where
  "end_task g g' n = n\<lparr>n_Tasks := remove1 g (n_Tasks n) @ (case g' of None \<Rightarrow> [] | Some g \<Rightarrow> [g])\<rparr>"

definition run_task :: "crypto_ops \<Rightarrow> (int \<Rightarrow> bool) \<Rightarrow> bool \<Rightarrow> task \<Rightarrow> node \<Rightarrow> node" where
  "run_task C up expired g n = (case task_step C up expired g n of (g', n) \<Rightarrow> end_task g g' n)"

inductive replica_step :: "crypto_ops \<Rightarrow> codec \<Rightarrow> iteration \<Rightarrow> replica \<Rightarrow> replica \<Rightarrow> bool"
  for C :: crypto_ops and J :: codec and I :: iteration where
  deliver: "Deliver C (r_Hub r) env = Inr h \<Longrightarrow> replica_step C J I r (r\<lparr>r_Hub := h\<rparr>)"
| turn: "Run_turn C J I N r = Some r' \<Longrightarrow> replica_step C J I r r'"
| ingress: "ingress_turn C (n_Engine (r_Node r)) = Some e \<Longrightarrow>
    replica_step C J I r (with_hooks C up (on_engine (\<lambda>_. e)) r)"
| timer: "replica_step C J I r (with_hooks C up (on_engine (timer_fires C I)) r)"
| watch: "EWatch seq req \<in> set (eEffects (n_Engine (r_Node r))) \<Longrightarrow>
    replica_step C J I r (with_hooks C up (on_engine (\<lambda>e. watch_deadline C e seq req)) r)"
| task: "g \<in> set (n_Tasks (r_Node r)) \<Longrightarrow> replica_step C J I r (with_hooks C up (run_task C up expired g) r)"
| fault: "replica_step C J I r (Replica_SetFault fc r)"

inductive replica_run :: "crypto_ops \<Rightarrow> codec \<Rightarrow> iteration \<Rightarrow> replica \<Rightarrow> replica \<Rightarrow> bool"
  for C :: crypto_ops and J :: codec and I :: iteration where
  start: "replica_run C J I r r"
| step: "replica_run C J I r r' \<Longrightarrow> replica_step C J I r' r'' \<Longrightarrow> replica_run C J I r r''"

inductive_cases replica_stepE: "replica_step C J I r r'"

subsection \<open>A decided transaction stays decided\<close>

text \<open>The coordinator's marks only grow, and its mode does not change.\<close>

definition grows :: "node \<Rightarrow> node \<Rightarrow> bool" where
  "grows n n' \<longleftrightarrow> n_CommitStarted n \<subseteq> n_CommitStarted n' \<and> n_CommitPhaseDisabled n' = n_CommitPhaseDisabled n"

lemma grows_refl [simp]: "grows n n"
  by (simp add: grows_def)

lemma grows_trans: "grows a b \<Longrightarrow> grows b c \<Longrightarrow> grows a c"
  by (auto simp: grows_def)

lemma grows_engine [simp]: "grows n (on_engine f m) = grows n m"
  by (simp add: grows_def on_engine_def)

lemma grows_sent [simp]: "grows n (SendToCluster up cl msg m) = grows n m"
  by (simp add: grows_def)

lemma grows_bits [simp]:
  "grows n (ReleaseCrossSlot m) = grows n m" "grows n (start_task g m) = grows n m"
  "grows n (end_task g g' m) = grows n m" "grows n (m\<lparr>n_Collector := c\<rparr>) = grows n m"
  "grows n (m\<lparr>n_AckColl := a\<rparr>) = grows n m" "grows n (m\<lparr>n_CrossBusy := b\<rparr>) = grows n m"
  by (simp_all add: grows_def ReleaseCrossSlot_def start_task_def end_task_def)

lemma grows_insert: "grows n m \<Longrightarrow> grows n (m\<lparr>n_CommitStarted := insert k (n_CommitStarted m)\<rparr>)"
  by (auto simp: grows_def)

lemma grows_leaf: "grows n m \<Longrightarrow> grows n (leaf_hook up h m)"
  by (cases h)
     (simp_all add: leaf_hook_def OnCoordPrepareExecuted_def OnPartPrepareExecuted_def OnCoordCommitExecuted_def
        OnPartCommitExecuted_def resendPrepareReply_def sendAck_def broadcastCommit_def startAckRetry_def Let_def)

lemma grows_fold: "(\<And>h m. grows n m \<Longrightarrow> grows n (f h m)) \<Longrightarrow> grows n m \<Longrightarrow> grows n (fold f hs m)"
  by (induction hs arbitrary: m) auto

lemma grows_client: "grows n m \<Longrightarrow> grows n (snd (HandleClientRequest C req m))"
  by (auto simp: HandleClientRequest_def acquireCrossSlot_def Let_def)

lemma grows_hook: "grows n m \<Longrightarrow> grows n (run_hook C up h m)"
  by (cases h) (auto simp: run_hook_def run_leaf_hooks_def take_hooks_def intro!: grows_leaf grows_fold grows_client)

lemma grows_run_hooks: "grows n m \<Longrightarrow> grows n (run_hooks C up m)"
  by (auto simp: run_hooks_def take_hooks_def intro!: grows_fold grows_hook)

lemma grows_handlers:
  "grows n m \<Longrightarrow> grows n (HandlePrepare C up p m)"
  "grows n m \<Longrightarrow> grows n (HandleCommit C up c m)"
  "grows n m \<Longrightarrow> grows n (HandleParticipantAck C i a m)"
  by (auto simp: HandlePrepare_def HandleCommit_def HandleParticipantAck_def resendPrepareReply_def sendAck_def Let_def
      split: option.split)

lemma grows_reply: "grows n m \<Longrightarrow> grows n (HandleParticipantReply C payload m)"
  by (cases payload)
     (auto simp: HandleParticipantReply_def maybeStartFinalCommit_def Let_def grows_def)

lemma grows_task: "grows n m \<Longrightarrow> grows n (run_task C up expired g m)"
  by (cases g)
     (auto simp: run_task_def task_step_def watchPreparePhase_def driveAbort_def ackRetry_def broadcastCommit_def Let_def
       intro: grows_insert)

lemma grows_dispatch: "grows (r_Node r) (r_Node (dispatch C J I N env r))"
  by (auto simp: dispatch_def handle2PC_def handlePing_def with_hooks_def on_node_def Let_def
      intro!: grows_run_hooks grows_handlers grows_reply split: sum.split)

lemma grows_step: "replica_step C J I r r' \<Longrightarrow> grows (r_Node r) (r_Node r')"
proof (induction rule: replica_step.induct)
  case (turn N r r')
  then obtain env rest where "r' = dispatch C J I N env (r\<lparr>r_Hub := (r_Hub r)\<lparr>h_Inbound := rest\<rparr>\<rparr>)"
    by (auto simp: Run_turn_def split: list.splits)
  then show ?case using grows_dispatch [of "r\<lparr>r_Hub := (r_Hub r)\<lparr>h_Inbound := rest\<rparr>\<rparr>"] by simp
qed (auto simp: with_hooks_def on_node_def Replica_SetFault_def intro!: grows_run_hooks grows_task)

lemma grows_run: "replica_run C J I r r' \<Longrightarrow> grows (r_Node r) (r_Node r')"
  by (induction rule: replica_run.induct) (auto intro: grows_trans grows_step)

lemma expired_watch_marks:
  "watchPreparePhase C up True req msg n = (Some g, m) \<Longrightarrow> TxnID C req \<in> n_CommitStarted m"
  by (auto simp: watchPreparePhase_def Let_def split: if_splits)

text \<open>C24: A coordinator takes one decision per transaction. Once it has acted on an accepted reply of a
  participant, or has given the participant up after its timeout, then at any later moment until a
  reset (whatever envelopes, timers, tasks and faults come in between) no reply for that transaction
  makes it start a commit: the reply changes nothing in the engine or, if it reports a prepared
  participant, starts the abort; and the watch of a prepare phase never starts the abort again.\<close>

theorem commit_decided_once:
  assumes decided: "r_Node r = HandleParticipantReply C (Some a) n \<and> accepted_reply C n a \<and> leads n \<and>
        \<not> n_CommitPhaseDisabled n \<and> TxnID C (pr_Req a) = TxnID C req \<or>
      watchPreparePhase C up True req msg n = (Some g, r_Node r)"
    and run: "replica_run C J I r r'" and txn: "TxnID C (pr_Req b) = TxnID C req"
  shows "let n' = r_Node r'; e = n_Engine (HandleParticipantReply C (Some b) n') in
    (e = n_Engine n' \<or> pr_Outcome b = OutcomeCommit \<and> e = StartConsensus C (n_Engine n') ((pr_Req b)\<lparr>r_Op := OpCoordAbort\<rparr>)) \<and>
    watchPreparePhase C up' True req msg' n' = (None, n')"
proof -
  have "TxnID C req \<in> n_CommitStarted (r_Node r)"
    using decided by (elim disjE) (simp add: HandleParticipantReply_started, rule expired_watch_marks)
  then have "TxnID C req \<in> n_CommitStarted (r_Node r')" using grows_run [OF run] by (auto simp: grows_def)
  then show ?thesis by (simp add: HandleParticipantReply_engine txn watchPreparePhase_def Let_def)
qed

definition sample_replica :: "int \<Rightarrow> replica" where
  "sample_replica i = \<lparr>r_Hub = NewHub i sample_topo (sample_ring i) 256, r_Node = sample_node i, r_TwoPC = True, r_Pong = [], r_Started = True\<rparr>"

theorem commit_decided_once_witness:
  "let n = HandleParticipantReply plain_crypto (Some sample_reply) (sample_node 1)
   in watchPreparePhase plain_crypto (\<lambda>_. True) True sample_cross sample_prepare n = (None, n)"
proof -
  let ?n = "HandleParticipantReply plain_crypto (Some sample_reply) (sample_node 1)"
  have acc: "accepted_reply plain_crypto (sample_node 1) sample_reply" by (rule sample_accepted [of _ 1]) simp_all
  have txn: "TxnID plain_crypto (pr_Req sample_reply) = TxnID plain_crypto sample_cross" by (simp add: sample_reply_def)
  let ?r = "(sample_replica 1)\<lparr>r_Node := ?n\<rparr>"
  have "r_Node ?r = ?n \<and> accepted_reply plain_crypto (sample_node 1) sample_reply \<and> leads (sample_node 1) \<and>
      \<not> n_CommitPhaseDisabled (sample_node 1) \<and> TxnID plain_crypto (pr_Req sample_reply) = TxnID plain_crypto sample_cross \<or>
      watchPreparePhase plain_crypto (\<lambda>_. True) True sample_cross sample_prepare (sample_node 1) = (Some undefined, r_Node ?r)"
    using acc txn sample_node_lead [of 1] by simp
  from commit_decided_once [OF this replica_run.start txn, where up' = "\<lambda>_. True" and msg' = sample_prepare]
  show ?thesis by (simp add: Let_def)
qed

subsection \<open>A replica that starts down\<close>

lemma run_hooks_idle: "\<forall>x\<in>set (eEffects (n_Engine n)). hook_of x = None \<Longrightarrow> run_hooks C up n = n"
  by (simp add: run_hooks_def take_hooks_def on_engine_def List.map_filter_def filter_id_conv)

lemma dispatch_down:
  assumes "\<not> Alive (eFault (n_Engine (r_Node r)))" and "IsPBFT (w_Type env)"
    and "\<forall>x\<in>set (eEffects (n_Engine (r_Node r))). hook_of x = None"
  shows "dispatch C J I N env r = r"
proof -
  have "on_engine (\<lambda>e. Handle C I e env') (r_Node r) = r_Node r" for env'
    using assms(1) by (simp add: on_engine_def Handle_def)
  then show ?thesis using assms(2,3) by (simp add: dispatch_def with_hooks_def on_node_def run_hooks_idle)
qed

text \<open>A replica built by NewReplica ignores all consensus traffic: NewReplica leaves the fault
  configuration at its zero value, which NewReplicaWithConfig passes on to the engine and which means
  that the server is down. Until someone sends it another fault configuration, no client request, vote,
  certificate or view change changes it.\<close>

theorem fresh_replica_is_down:
  assumes new: "NewReplica join disk listen self t ring = Inr r" and pbft: "\<forall>env\<in>set envs. IsPBFT (w_Type env)"
  shows "\<not> Alive (eFault (n_Engine (r_Node r))) \<and> fold (dispatch C J I N) envs r = r"
proof -
  have r: "\<not> Alive (eFault (n_Engine (r_Node r)))" "eEffects (n_Engine (r_Node r)) = []"
    using new
    by (auto simp: NewReplica_def NewReplicaWithConfig_def NewEngine_def SetFault_def NewCoordinator_def fresh_engine_def Let_def
        split: sum.splits option.splits)
  have "fold (dispatch C J I N) envs r = r"
    using pbft by (induction envs) (simp_all add: dispatch_down r)
  with r show ?thesis by simp
qed

theorem fresh_replica_is_down_witness:
  "\<exists>r. NewReplica (\<lambda>d f. d @ ''/'' @ f) (\<lambda>_. Inr (empty_store 10 100)) (\<lambda>_. None) 1 sample_topo (sample_ring 1) = Inr r \<and>
     dispatch plain_crypto undefined ascending undefined (NewEnvelope 1 ''CLIENT_REQUEST'' []) r = r"
proof -
  have "\<exists>r. NewReplica (\<lambda>d f. d @ ''/'' @ f) (\<lambda>_. Inr (empty_store 10 100)) (\<lambda>_. None) 1 sample_topo (sample_ring 1) = Inr r"
    by (simp add: NewReplica_def NewReplicaWithConfig_def NewEngine_def Open_def DefaultOptions_def ServerByID_def Let_def)
  then obtain r where r: "NewReplica (\<lambda>d f. d @ ''/'' @ f) (\<lambda>_. Inr (empty_store 10 100)) (\<lambda>_. None) 1 sample_topo (sample_ring 1) = Inr r"
    by blast
  have "dispatch plain_crypto undefined ascending undefined (NewEnvelope 1 ''CLIENT_REQUEST'' []) r = r"
    using fresh_replica_is_down [OF r, of "[NewEnvelope 1 ''CLIENT_REQUEST'' []]" plain_crypto undefined ascending undefined]
    by (simp add: NewEnvelope_def IsPBFT_def)
  with r show ?thesis by blast
qed

subsection \<open>Requests nobody signed\<close>

text \<open>C28: One unsigned client request stalls a cluster. The hub hands a client request to the dispatch
  loop without looking at its signature, and the engine starts it with whatever operation it names.
  Naming the abort of a participant, for an item that is not locked, makes the primary take the next
  number for it and never fill it: the primary executes nothing from there on, and no replica in its
  state accepts a PRE-PREPARE with a higher number.\<close>

theorem unsigned_request_stalls:
  fixes r :: replica and env :: envelope and C :: crypto_ops
  defines "e \<equiv> n_Engine (r_Node r)"
  assumes up: "isPrimaryIngress e" and idle: "eClientIngress e = []" "h_Inbound (r_Hub r) = []" "0 < h_InboundCap (r_Hub r)"
      "\<forall>x\<in>set (eEffects e). hook_of x = None"
    and msg: "w_Type env = ''CLIENT_REQUEST''" "dec_Request J (w_Payload env) = Some req" "r_Op req = OpPartAbort"
      "\<not> IsLocked (eStore e) (r_Y req)"
    and log: "bget (eLog e) (eNextSeq e) = None" "eExecSeq e \<le> eNextSeq e" "1 \<le> eNextSeq e"
  shows "\<exists>h r' e'. Deliver C (r_Hub r) env = Inr h \<and> Run_turn C J I N (r\<lparr>r_Hub := h\<rparr>) = Some r' \<and>
    ingress_turn C (n_Engine (r_Node r')) = Some e' \<and> eNextSeq e' = eNextSeq e + 1 \<and> eLog e' = eLog e \<and>
    eExecSeq (tryExecute C e') \<le> eNextSeq e \<and> (\<forall>j. eNextSeq e < j \<longrightarrow> \<not> gapClearLocked e' j)"
proof -
  let ?h = "(r_Hub r)\<lparr>h_Inbound := [env]\<rparr>"
  let ?q = "e\<lparr>eClientIngress := [req]\<rparr>" and ?e' = "e\<lparr>eNextSeq := eNextSeq e + 1\<rparr>"
  let ?r' = "on_node (on_engine (\<lambda>_. ?q)) (r\<lparr>r_Hub := (r_Hub r)\<lparr>h_Inbound := []\<rparr>\<rparr>)"
  have prim: "is_primary e" "Alive (eFault e)" "\<not> ByzantineLeader (eFault e)"
    using up by (simp_all add: isPrimaryIngress_def split: if_splits)
  have del: "Deliver C (r_Hub r) env = Inr ?h" using idle msg(1) by (simp add: Deliver_def Inject_def)
  have handle: "Handle C I e \<lparr>env_SenderId = s, env_Payload = decode_pbft J ''CLIENT_REQUEST'' (w_Payload env), env_Signature = sig\<rparr> = ?q"
    for s sig
    using prim up idle(1) msg(2,3)
    by (simp add: Handle_def decode_pbft_def decoded_def onClientRequest_def norm_op_def StartClientConsensus_def
        enqueuePrimary_def ingress_capacity_def)
  have turn: "Run_turn C J I N (r\<lparr>r_Hub := ?h\<rparr>) = Some ?r'"
    using idle(4) handle
    by (simp add: Run_turn_def dispatch_def IsPBFT_def msg(1) with_hooks_def on_node_def run_hooks_idle on_engine_def flip: e_def)
  have ing: "ingress_turn C (n_Engine (r_Node ?r')) = Some ?e'"
    using idle(1) prim(1) msg(3,4) by (simp add: ingress_turn_def on_node_def startConsensus_lost_abort)
  show ?thesis
    using missing_slot_stops [of ?e' "eNextSeq e" C] missing_slot_gap [of ?e' "eNextSeq e"] log
    by (intro exI conjI) (rule del, rule turn, rule ing, simp_all)
qed

text \<open>A decoder that reads every payload as the abort of the sample transfer.\<close>

definition sample_codec :: codec where
  "sample_codec = \<lparr>dec_Request = \<lambda>_. Some (sample_cross\<lparr>r_Op := OpPartAbort\<rparr>), dec_PrePrepare = \<lambda>_. None, dec_Phase = \<lambda>_. None,
     dec_Cert = \<lambda>_. None, dec_ViewChange = \<lambda>_. None, dec_NewView = \<lambda>_. None, dec_DiscardSeq = \<lambda>_. None,
     dec_CoordPrepare = \<lambda>_. None, dec_PartReply = \<lambda>_. None, dec_CoordCommit = \<lambda>_. None, dec_PartAck = \<lambda>_. None\<rparr>"

theorem unsigned_request_stalls_witness:
  "\<exists>h r' e'. Deliver plain_crypto (r_Hub (sample_replica 5)) (NewEnvelope 0 ''CLIENT_REQUEST'' []) = Inr h \<and>
     Run_turn plain_crypto sample_codec ascending \<lparr>net_dial = \<lambda>_. None, net_call = \<lambda>_ _. NilAck, net_up = \<lambda>_. False\<rparr>
       ((sample_replica 5)\<lparr>r_Hub := h\<rparr>) = Some r' \<and>
     ingress_turn plain_crypto (n_Engine (r_Node r')) = Some e' \<and> \<not> gapClearLocked e' 2"
proof -
  let ?r = "sample_replica 5"
  have prim: "is_primary (n_Engine (r_Node ?r))"
    by (simp add: sample_replica_def is_primary_def Primary_def ServerByID_def PrimaryOf_def go_mod_def go_div_def)
  have up: "isPrimaryIngress (n_Engine (r_Node ?r))"
    using prim by (simp add: isPrimaryIngress_def DefaultFaultConfig_def sample_replica_def)
  have idle: "eClientIngress (n_Engine (r_Node ?r)) = []" "h_Inbound (r_Hub ?r) = []" "0 < h_InboundCap (r_Hub ?r)"
    "\<forall>x\<in>set (eEffects (n_Engine (r_Node ?r))). hook_of x = None"
    by (simp_all add: sample_replica_def NewHub_def) (simp_all add: sample_engine_def fresh_engine_def Let_def)
  have dec: "dec_Request sample_codec (w_Payload (NewEnvelope 0 ''CLIENT_REQUEST'' [])) = Some (sample_cross\<lparr>r_Op := OpPartAbort\<rparr>)"
    by (simp add: sample_codec_def)
  have free: "\<not> IsLocked (eStore (n_Engine (r_Node ?r))) (r_Y (sample_cross\<lparr>r_Op := OpPartAbort\<rparr>))"
    by (simp add: sample_replica_def IsLocked_def empty_store_def)
  have log: "bget (eLog (n_Engine (r_Node ?r))) (eNextSeq (n_Engine (r_Node ?r))) = None"
    "eExecSeq (n_Engine (r_Node ?r)) \<le> eNextSeq (n_Engine (r_Node ?r))" "1 \<le> eNextSeq (n_Engine (r_Node ?r))"
    "eNextSeq (n_Engine (r_Node ?r)) < 2"
    by (simp_all add: sample_replica_def)
  have client: "w_Type (NewEnvelope 0 ''CLIENT_REQUEST'' []) = ''CLIENT_REQUEST''" by (simp add: NewEnvelope_def)
  have op: "r_Op (sample_cross\<lparr>r_Op := OpPartAbort\<rparr>) = OpPartAbort" by simp
  show ?thesis
    using unsigned_request_stalls [OF up idle client dec op free log(1-3), of plain_crypto ascending
        "\<lparr>net_dial = \<lambda>_. None, net_call = \<lambda>_ _. NilAck, net_up = \<lambda>_. False\<rparr>"] log(4)
    by blast
qed

end
