(* ===== verification/Wellformed.thy ===== *)
theory Wellformed
  imports Replica
begin

text \<open>
  The representation invariant of a running replica: the maps of the engine and of its store have
  one entry per key (so a vote is counted once), the sender's view is the engine's, the queues are
  within their capacity, and what the constructor fixed never changes. Every operation keeps it.
\<close>

named_theorems ok_intros \<open>operations that keep the invariant\<close>

subsection \<open>The invariant\<close>

definition slot_ok :: "seqState \<Rightarrow> bool" where
  "slot_ok s \<longleftrightarrow> bkeys_ok (sPrepares s) \<and> bkeys_ok (sCommits s)"

definition fault_ok :: "FaultConfig \<Rightarrow> bool" where
  "fault_ok f \<longleftrightarrow> Alive f \<or> \<not> ByzantineLeader f \<and> \<not> ByzantineBackup f"

text \<open>What \<open>NewEngine\<close> fixes: identity, topology, keys, and the numbers derived from the topology.\<close>

definition built_for :: "int \<Rightarrow> topology \<Rightarrow> KeyRing \<Rightarrow> engine \<Rightarrow> bool" where
  "built_for self t ring e \<longleftrightarrow> eSelf e = self \<and> eTopo e = t \<and> eRing e = ring \<and>
     map_option srv_Cluster (ServerByID t self) = Some (eCluster e) \<and> eF e = F t \<and> ePrepareCollect e = Quorum t \<and>
     eCommitQuorum e = Quorum t \<and> eClientQuorum e = ClientQuorum t \<and> eTunables e = DefaultTunables t"

definition maps_ok :: "engine \<Rightarrow> bool" where
  "maps_ok e \<longleftrightarrow> store_ok (eStore e) \<and> bkeys_ok (eLog e) \<and> (\<forall>(k, s)\<in>set (eLog e). slot_ok s) \<and>
     bkeys_ok (eRecentReplies e) \<and> bkeys_ok (ePendingClients e) \<and>
     bkeys_ok (eViewChangeLog e) \<and> (\<forall>(v, m)\<in>set (eViewChangeLog e). bkeys_ok m)"

definition engine_ok :: "int \<Rightarrow> topology \<Rightarrow> KeyRing \<Rightarrow> engine \<Rightarrow> bool" where
  "engine_ok self t ring e \<longleftrightarrow> built_for self t ring e \<and> maps_ok e \<and> eSenderView e = eView e \<and> 0 \<le> eView e \<and>
     1 \<le> eExecSeq e \<and> length (eClientIngress e) \<le> ingress_capacity \<and>
     length (eInternalIngress e) \<le> ingress_capacity \<and> fault_ok (eFault e)"

lemmas engine_ok_defs = engine_ok_def maps_ok_def built_for_def

lemma engine_ok_store: "engine_ok self t ring e \<Longrightarrow> store_ok (eStore e)"
  by (simp add: engine_ok_defs)

lemma bget_in: "bget b k = Some v \<Longrightarrow> (k, v) \<in> set b"
  by (rule map_of_SomeD)

lemma engine_ok_slot: "engine_ok self t ring e \<Longrightarrow> bget (eLog e) k = Some s \<Longrightarrow> slot_ok s"
  by (auto simp: engine_ok_defs dest!: bget_in)

lemma slot_ok_upd [simp]:
  "slot_ok (s\<lparr>sDigest := d\<rparr>) = slot_ok s" "slot_ok (s\<lparr>sReq := r\<rparr>) = slot_ok s" "slot_ok (s\<lparr>sPrePrepare := b\<rparr>) = slot_ok s"
  "slot_ok (s\<lparr>sDiscarded := b\<rparr>) = slot_ok s" "slot_ok (s\<lparr>sPrepareCert := c\<rparr>) = slot_ok s"
  "slot_ok (s\<lparr>sCommitCert := c\<rparr>) = slot_ok s" "slot_ok (s\<lparr>sExecuted := b\<rparr>) = slot_ok s" "slot_ok emptySlot"
  "bkeys_ok v \<Longrightarrow> slot_ok s \<Longrightarrow> slot_ok (s\<lparr>sPrepares := v\<rparr>)" "bkeys_ok v \<Longrightarrow> slot_ok s \<Longrightarrow> slot_ok (s\<lparr>sCommits := v\<rparr>)"
  "slot_ok s \<Longrightarrow> slot_ok (revive s)" "slot_ok s \<Longrightarrow> slot_ok (discard_slot s)"
  by (simp_all add: slot_ok_def emptySlot_def revive_def discard_slot_def)

lemma vote_added:
  "add_vote C ring msg (sPrepares s) i sig = Some votes \<Longrightarrow> slot_ok s \<Longrightarrow> bkeys_ok votes"
  "add_vote C ring msg (sCommits s) i sig = Some votes \<Longrightarrow> slot_ok s \<Longrightarrow> bkeys_ok votes"
  by (auto simp: add_vote_def slot_ok_def split: if_splits)

subsection \<open>Single updates\<close>

lemma engine_ok_eqs [simp]:
  "engine_ok self t ring (emit x e) = engine_ok self t ring e"
  "engine_ok self t ring (e\<lparr>eNextSeq := n\<rparr>) = engine_ok self t ring e"
  "engine_ok self t ring (e\<lparr>eTimerSet := b\<rparr>) = engine_ok self t ring e"
  "engine_ok self t ring (e\<lparr>eInViewChange := b\<rparr>) = engine_ok self t ring e"
  "engine_ok self t ring (e\<lparr>eViewChangeTarget := n\<rparr>) = engine_ok self t ring e"
  "engine_ok self t ring (e\<lparr>eViewChangeSent := N\<rparr>) = engine_ok self t ring e"
  "engine_ok self t ring (e\<lparr>eNewViewIssued := N\<rparr>) = engine_ok self t ring e"
  "engine_ok self t ring (e\<lparr>eNewViewLog := nv\<rparr>) = engine_ok self t ring e"
  "engine_ok self t ring (e\<lparr>eViewChangeReceived := vcs\<rparr>) = engine_ok self t ring e"
  "engine_ok self t ring (e\<lparr>eEffects := xs\<rparr>) = engine_ok self t ring e"
  "engine_ok self t ring (e\<lparr>eHooks := b\<rparr>) = engine_ok self t ring e"
  "engine_ok self t ring (cancelViewChangeTimerLocked e) = engine_ok self t ring e"
  "engine_ok self t ring (scheduleViewChangeTimerLocked e) = engine_ok self t ring e"
  "engine_ok self t ring (call_hook h e) = engine_ok self t ring e"
  "engine_ok self t ring (dropCrossPrepare e req) = engine_ok self t ring e"
  "engine_ok self t ring (broadcastPrePrepare e pp) = engine_ok self t ring e"
  "engine_ok self t ring (watchPrepareQuorum e k req) = engine_ok self t ring e"
  "engine_ok self t ring (markViewChange e) = engine_ok self t ring e"
  by (simp_all add: engine_ok_defs emit_def cancelViewChangeTimerLocked_def scheduleViewChangeTimerLocked_def
      call_hook_def dropCrossPrepare_def broadcastPrePrepare_def watchPrepareQuorum_def markViewChange_def)

lemma engine_ok_upd [ok_intros]:
  assumes "engine_ok self t ring e"
  shows "store_ok st \<Longrightarrow> engine_ok self t ring (e\<lparr>eStore := st\<rparr>)"
    "1 \<le> n \<Longrightarrow> engine_ok self t ring (e\<lparr>eExecSeq := n\<rparr>)"
    "bkeys_ok rr \<Longrightarrow> engine_ok self t ring (e\<lparr>eRecentReplies := rr\<rparr>)"
    "bkeys_ok pc \<Longrightarrow> engine_ok self t ring (e\<lparr>ePendingClients := pc\<rparr>)"
    "length q \<le> ingress_capacity \<Longrightarrow> engine_ok self t ring (e\<lparr>eClientIngress := q\<rparr>)"
    "length q \<le> ingress_capacity \<Longrightarrow> engine_ok self t ring (e\<lparr>eInternalIngress := q\<rparr>)"
    "0 \<le> v \<Longrightarrow> engine_ok self t ring (setViewLocked v e)"
    "engine_ok self t ring (SetFault e fc)"
  using assms by (simp_all add: engine_ok_defs setViewLocked_def SetFault_def fault_ok_def)

lemma engine_ok_on_store: "engine_ok self t ring e \<Longrightarrow> (store_ok (eStore e) \<Longrightarrow> store_ok (f (eStore e))) \<Longrightarrow>
    engine_ok self t ring (on_store f e)"
  by (simp add: on_store_def engine_ok_upd engine_ok_store)

lemma bput_values: "(k', v') \<in> set (bput k v b) \<Longrightarrow> v' = v \<or> (k', v') \<in> set b"
  using bput_set [of k v b] by auto

lemma engine_ok_put [ok_intros]:
  assumes "engine_ok self t ring e" and "slot_ok s"
  shows "engine_ok self t ring (put_slot k s e)"
  using assms by (auto simp: engine_ok_defs put_slot_def dest!: bput_values)

lemma engine_ok_ensure:
  "engine_ok self t ring e \<Longrightarrow> ensureSeqLocked e k = (s, e') \<Longrightarrow> slot_ok s \<and> engine_ok self t ring e'"
  by (auto simp: ensureSeqLocked_def engine_ok_slot engine_ok_put split: option.splits)

subsection \<open>The store\<close>

lemma store_ok_ops [ok_intros]:
  assumes "store_ok s"
  shows "store_ok (AppendDatastore s en)" "store_ok (WALWrite s i p)" "store_ok (WALDelete s i)"
    "store_ok (SetClientTS s c n)" "store_ok (or_unchanged s (WALUndo s i))" "store_ok (ReleaseLock s j)"
    "store_ok (ClearLocksAndWAL s)"
  using assms store_ok_apply_op [of s "Append en"] store_ok_apply_op [of s "Write i p"] store_ok_apply_op [of s "Delete i"]
    store_ok_apply_op [of s "Stamp c n"] store_ok_apply_op [of s "Undo i"] store_ok_apply_op [of s "Release j"]
    store_ok_apply_op [of s Clear] by simp_all

lemma store_ok_moves:
  assumes "store_ok s"
  shows "ApplyTransfer s x y a = Inr s' \<Longrightarrow> store_ok s'" "ApplyDebitOnly s x a = Inr s' \<Longrightarrow> store_ok s'"
    "ApplyCreditOnly s y a = Inr s' \<Longrightarrow> store_ok s'"
  using assms store_ok_apply_op [of s "Transfer x y a"] store_ok_apply_op [of s "Debit x a"] store_ok_apply_op [of s "Credit y a"]
  by (simp_all add: or_unchanged_def)

lemma store_ok_release: "store_ok s \<Longrightarrow> store_ok (fold (\<lambda>i s. ReleaseLock s i) is s)"
  by (induction "is" arbitrary: s) (simp_all add: store_ok_ops)

lemma store_ok_acquire:
  assumes "\<And>s i q. store_ok s \<Longrightarrow> store_ok (snd (f s i q))"
  shows "store_ok s \<Longrightarrow> store_ok (snd (acquire_items f q is s))"
proof (induction "is" arbitrary: s)
  case (Cons i "is")
  obtain ok s1 where f: "f s i q = (ok, s1)" by (cases "f s i q")
  with assms [OF Cons.prems, of i q] have "store_ok s1" by simp
  with Cons.IH [of s1] f show ?case by simp
qed simp

lemma engine_ok_acquire:
  assumes "engine_ok self t ring e"
  shows "acquireLocksForOp e k req = (ok, e') \<Longrightarrow> engine_ok self t ring e'"
    "ensureLocksForOp e k req = (ok, e') \<Longrightarrow> engine_ok self t ring e'"
proof -
  have st: "store_ok (snd (acquire_items AcquireLock k is (eStore e)))" "store_ok (snd (acquire_items AcquireLockForSeq k is (eStore e)))" for "is"
    by (rule store_ok_acquire, simp add: store_ok_locks, rule engine_ok_store [OF assms])+
  note upd = engine_ok_upd(1) [OF assms]
  show "acquireLocksForOp e k req = (ok, e') \<Longrightarrow> engine_ok self t ring e'"
    using upd [OF st(1) [of "lockItemsForOp req"]] by (auto simp: acquireLocksForOp_def split: prod.splits)
  show "ensureLocksForOp e k req = (ok, e') \<Longrightarrow> engine_ok self t ring e'"
    using upd [OF st(2) [of "lockItemsForOp req"]] by (auto simp: ensureLocksForOp_def split: prod.splits)
qed

subsection \<open>Execution\<close>

lemma engine_ok_steps [ok_intros]:
  assumes "engine_ok self t ring e"
  shows "engine_ok self t ring (releaseLocksForOp e req)" "engine_ok self t ring (append_entry req k p out e)"
    "engine_ok self t ring (undo_wal C req e)" "engine_ok self t ring (release_if_locked i e)"
    "engine_ok self t ring (sendClientReply C e r)" "engine_ok self t ring (sendClientReject C e req n res)"
    "engine_ok self t ring (on_store (\<lambda>st. WALWrite st w p') e)" "engine_ok self t ring (on_store (\<lambda>st. WALDelete st w) e)"
    "engine_ok self t ring (on_store (\<lambda>st. ReleaseLock st i) e)" "engine_ok self t ring (on_store (\<lambda>st. SetClientTS st c n) e)"
    "engine_ok self t ring (on_store ClearLocksAndWAL e)"
proof -
  have reply: "engine_ok self t ring (sendClientReply C e r)" for r
    using assms by (auto simp: sendClientReply_def Let_def engine_ok_defs emit_def)
  then show "engine_ok self t ring (sendClientReply C e r)" "engine_ok self t ring (sendClientReject C e req n res)"
    by (simp_all add: sendClientReject_def)
qed (use assms in \<open>auto simp: releaseLocksForOp_def append_entry_def undo_wal_def release_if_locked_def
       intro!: engine_ok_on_store store_ok_release ok_intros\<close>)

lemma engine_ok_execute:
  assumes "engine_ok self t ring e"
  shows "engine_ok self t ring (execute_op C e req seq cert)"
  using assms
  by (cases "norm_op (r_Op req)")
     (auto simp: execute_op_def executeIntra_def executeCoordPrepare_def executePartPrepare_def executeCoordCommit_def
        executeCoordAbort_def executePartCommit_def executePartAbort_def Let_def
        intro!: ok_intros intro: store_ok_moves [OF engine_ok_store] split: sum.split)

lemma engine_ok_tryExecute [ok_intros]: "engine_ok self t ring e \<Longrightarrow> engine_ok self t ring (tryExecute C e)"
proof (induction C e rule: tryExecute.induct)
  case (1 C e)
  have "engine_ok self t ring e1" if "exec_round C e = Some e1" for e1
  proof -
    have "0 \<le> eExecSeq (put_slot k s e)" "0 \<le> eExecSeq e" for k s using 1(2) by (simp_all add: engine_ok_defs put_slot_def)
    then show ?thesis using that 1(2)
      by (auto simp: exec_round_def Let_def split: option.splits if_splits intro!: engine_ok_execute ok_intros dest: engine_ok_slot)
  qed
  then show ?case using 1 by (cases "exec_round C e") (simp_all add: tryExecute.simps [of C e])
qed

subsection \<open>Agreement\<close>

lemma engine_ok_onCommitCert [ok_intros]: "engine_ok self t ring e \<Longrightarrow> engine_ok self t ring (onCommitCert C e cert)"
  by (auto simp: onCommitCert_def intro!: ok_intros dest: engine_ok_slot split: option.split)

lemma engine_ok_onCommit [ok_intros]:
  assumes e: "engine_ok self t ring e"
  shows "engine_ok self t ring (onCommit C e i msg sig)"
proof (cases "bget (eLog e) (pm_Seq msg)")
  case (Some s)
  have s: "slot_ok s" using e Some by (rule engine_ok_slot)
  have votes: "slot_ok (s\<lparr>sCommits := v\<rparr>)" if "add_vote C (eRing e) b (sCommits s) i sig = Some v" for b v
    using vote_added that s by simp
  show ?thesis
    using e by (auto simp: onCommit_def Some Let_def simp del: slot_ok_upd(9,10) intro!: ok_intros split: option.split) (erule votes)+
qed (simp add: onCommit_def e)

lemma engine_ok_sendCommit [ok_intros]: "engine_ok self t ring e \<Longrightarrow> engine_ok self t ring (sendCommit C e k v d)"
  by (auto simp: sendCommit_def Let_def intro!: ok_intros)

lemma engine_ok_onPrepareCert [ok_intros]: "engine_ok self t ring e \<Longrightarrow> engine_ok self t ring (onPrepareCert C e cert)"
  by (auto simp: onPrepareCert_def intro!: ok_intros dest: engine_ok_slot split: option.split)

lemma engine_ok_onPrepare [ok_intros]:
  assumes e: "engine_ok self t ring e"
  shows "engine_ok self t ring (onPrepare C e i msg sig)"
proof (cases "bget (eLog e) (pm_Seq msg)")
  case (Some s)
  have s: "slot_ok s" using e Some by (rule engine_ok_slot)
  have votes: "slot_ok (s\<lparr>sPrepares := v\<rparr>)" if "add_vote C (eRing e) b (sPrepares s) i sig = Some v" for b v
    using vote_added that s by simp
  show ?thesis
    using e by (auto simp: onPrepare_def Some Let_def simp del: slot_ok_upd(9,10) intro!: ok_intros split: option.split) (erule votes)+
qed (simp add: onPrepare_def e)

lemma engine_ok_sendPrepare [ok_intros]: "engine_ok self t ring e \<Longrightarrow> engine_ok self t ring (sendPrepare C e k v d)"
  by (auto simp: sendPrepare_def Let_def intro!: ok_intros)

lemma engine_ok_process [ok_intros]: "engine_ok self t ring e \<Longrightarrow> engine_ok self t ring (processPrePrepare C e msg)"
  by (auto simp: processPrePrepare_def intro!: ok_intros intro: engine_ok_acquire split: prod.split)

lemma engine_ok_adopt [ok_intros]:
  assumes "engine_ok self t ring e"
  shows "engine_ok self t ring (adopt d req k e)"
proof -
  obtain s e1 where s: "ensureSeqLocked e k = (s, e1)" by (cases "ensureSeqLocked e k")
  with engine_ok_ensure [OF assms s] show ?thesis by (simp add: adopt_def engine_ok_put)
qed

lemma engine_ok_onPrePrepare [ok_intros]: "engine_ok self t ring e \<Longrightarrow> engine_ok self t ring (onPrePrepare C e msg)"
  by (auto simp: onPrePrepare_def intro!: ok_intros)

lemma engine_ok_propose [ok_intros]: "engine_ok self t ring e \<Longrightarrow> engine_ok self t ring (propose C e req k b)"
  by (auto simp: propose_def Let_def intro!: ok_intros)

lemma engine_ok_startConsensus [ok_intros]:
  assumes "engine_ok self t ring e"
  shows "engine_ok self t ring (startConsensus C e req)"
proof -
  note acq = engine_ok_acquire(1) [where e = "e\<lparr>eNextSeq := eNextSeq e + 1\<rparr>", simplified, OF assms]
  show ?thesis
    using assms by (auto simp: startConsensus_def maybeRejectInsufficient_def assignSeq_def Let_def
        intro!: ok_intros dest: acq split: prod.split)
qed

lemma engine_ok_queues [ok_intros]:
  assumes "engine_ok self t ring e"
  shows "engine_ok self t ring (StartConsensus C e req)" "engine_ok self t ring (StartClientConsensus C e req)"
  using assms by (auto simp: StartConsensus_def StartClientConsensus_def enqueuePrimary_def intro!: ok_intros)

lemma engine_ok_ingress:
  assumes "engine_ok self t ring e" and "ingress_turn C e = Some e'"
  shows "engine_ok self t ring e'"
proof -
  have "length (eClientIngress e) \<le> ingress_capacity" "length (eInternalIngress e) \<le> ingress_capacity"
    using assms(1) by (simp_all add: engine_ok_def)
  then show ?thesis using assms by (auto simp: ingress_turn_def intro!: ok_intros split: list.splits)
qed

lemma engine_ok_onClientRequest [ok_intros]:
  assumes "engine_ok self t ring e"
  shows "engine_ok self t ring (onClientRequest C e req)"
proof -
  have "bkeys_ok (ePendingClients e)" using assms by (simp add: engine_ok_defs)
  then show ?thesis
    using assms by (auto simp: onClientRequest_def onBackupClientRequest_def intro!: ok_intros)
qed

lemma engine_ok_discard [ok_intros]:
  assumes "engine_ok self t ring e"
  shows "engine_ok self t ring (skipExecSeqIfStuck e k)" "engine_ok self t ring (onDiscardSeq C e msg)"
proof -
  have skip: "engine_ok self t ring (skipExecSeqIfStuck e k)" if "engine_ok self t ring e" for e k
    using that by (auto simp: skipExecSeqIfStuck_def engine_ok_defs)
  then show "engine_ok self t ring (skipExecSeqIfStuck e k)" using assms .
  show "engine_ok self t ring (onDiscardSeq C e msg)"
    using assms by (auto simp: onDiscardSeq_def Let_def intro!: skip ok_intros slot_ok_upd dest: engine_ok_slot split: option.split)
qed

lemma engine_ok_reclaim [ok_intros]:
  assumes "engine_ok self t ring e"
  shows "engine_ok self t ring (reclaimSeq C e k req)" "engine_ok self t ring (watch_deadline C e k req)"
proof -
  show "engine_ok self t ring (reclaimSeq C e k req)"
    using assms by (auto simp: reclaimSeq_def Let_def intro!: ok_intros slot_ok_upd dest: engine_ok_slot split: option.split)
  then show "engine_ok self t ring (watch_deadline C e k req)"
    using assms by (auto simp: watch_deadline_def split: option.split)
qed

subsection \<open>View change\<close>

lemma engine_ok_accept [ok_intros]:
  assumes "engine_ok self t ring e"
  shows "engine_ok self t ring (acceptNewViewPrePrepare C msg e)"
proof -
  obtain s e1 where s: "ensureSeqLocked e (pp_Seq msg) = (s, e1)" by (cases "ensureSeqLocked e (pp_Seq msg)")
  have ok: "slot_ok s" "engine_ok self t ring e1" using engine_ok_ensure [OF assms s] by simp_all
  let ?e = "cancelViewChangeTimerLocked (put_slot (pp_Seq msg)
      (s\<lparr>sDigest := pp_Digest msg, sReq := pp_Req msg, sPrePrepare := True\<rparr>) e1)"
  have e: "engine_ok self t ring ?e" using ok by (simp add: engine_ok_put)
  show ?thesis
    using assms ok e
    by (auto simp: acceptNewViewPrePrepare_def s Let_def intro!: ok_intros intro: engine_ok_acquire(1) [OF e] split: prod.split)
qed

lemma engine_ok_accept_all: "engine_ok self t ring e \<Longrightarrow> engine_ok self t ring (fold (acceptNewViewPrePrepare C) pps e)"
  by (induction pps arbitrary: e) (simp_all add: engine_ok_accept)

lemma engine_ok_onNewView [ok_intros]:
  assumes "engine_ok self t ring e"
  shows "engine_ok self t ring (onNewView C e msg)"
proof -
  have "0 \<le> eView e" using assms by (simp add: engine_ok_def)
  then show ?thesis
    using assms by (auto simp: onNewView_def Let_def intro!: engine_ok_accept_all ok_intros)
qed

lemma engine_ok_tryIssue [ok_intros]: "engine_ok self t ring e \<Longrightarrow> engine_ok self t ring (tryIssueNewView C I e v)"
  by (auto simp: tryIssueNewView_def Let_def intro!: ok_intros)

lemma engine_ok_logVC:
  assumes "engine_ok self t ring e" and "logViewChange e i msg = (b, e')"
  shows "engine_ok self t ring e'"
proof -
  have votes: "bkeys_ok (case bget (eViewChangeLog e) v of None \<Rightarrow> [] | Some m \<Rightarrow> m)" for v
    using assms(1) by (auto simp: engine_ok_defs dest: bget_in split: option.split)
  have put: "engine_ok self t ring (e\<lparr>eViewChangeReceived := r, eViewChangeLog := bput v m (eViewChangeLog e)\<rparr>)"
    if "bkeys_ok m" for r v m
    using assms(1) that by (auto simp: engine_ok_defs dest!: bput_values)
  show ?thesis
    using assms(2) put [OF votes] put [OF bkeys_ok_bput [OF votes]] by (auto simp: logViewChange_def Let_def split: if_splits)
qed

lemma engine_ok_onViewChange [ok_intros]: "engine_ok self t ring e \<Longrightarrow> engine_ok self t ring (onViewChange C I e i msg)"
proof (induction C I e i msg rule: onViewChange.induct)
  case (1 C I e i msg)
  obtain b e1 where l: "logViewChange e i msg = (b, e1)" by (cases "logViewChange e i msg")
  have e1: "engine_ok self t ring e1" by (rule engine_ok_logVC [OF 1(2) l])
  have trig: "engine_ok self t ring (triggerViewChange C I e1)"
    if "Alive (eFault e)" "\<not> vc_NewView msg \<le> eView e" "b" "vc_count e1 (vc_NewView msg) = eF e1 + 1"
      "vc_NewView msg \<notin> eViewChangeSent e1"
    using 1(1) [OF _ _ l [symmetric]] that e1 by (auto simp: triggerViewChange_def Let_def)
  show ?case
    using 1(2) e1 trig by (auto simp: onViewChange_eq [of C I e i msg] l Let_def intro!: ok_intros)
qed

lemma engine_ok_trigger [ok_intros]:
  assumes "engine_ok self t ring e"
  shows "engine_ok self t ring (triggerViewChange C I e)" "engine_ok self t ring (timer_fires C I e)"
  using assms by (auto simp: triggerViewChange_def timer_fires_def Let_def intro!: ok_intros)

lemma engine_ok_Handle [ok_intros]: "engine_ok self t ring e \<Longrightarrow> engine_ok self t ring (Handle C I e env)"
  by (auto simp: Handle_def intro!: ok_intros split: payload.split)

lemma engine_ok_reset [ok_intros]: "engine_ok self t ring e \<Longrightarrow> engine_ok self t ring (ResetConsensus e)"
  by (simp add: engine_ok_defs ResetConsensus_def cancelViewChangeTimerLocked_def)

subsection \<open>Nodes\<close>

text \<open>One entry per transaction and, in it, one per server that acknowledged.\<close>

definition acks_ok :: "AckCollector option \<Rightarrow> bool" where
  "acks_ok c \<longleftrightarrow> (case c of None \<Rightarrow> True | Some m \<Rightarrow> bkeys_ok m \<and> (\<forall>(k, s)\<in>set m. bkeys_ok s))"

definition node_ok :: "int \<Rightarrow> topology \<Rightarrow> KeyRing \<Rightarrow> node \<Rightarrow> bool" where
  "node_ok self t ring n \<longleftrightarrow> engine_ok self t ring (n_Engine n) \<and> acks_ok (n_AckColl n)"

lemma acks_ok_record: "acks_ok c \<Longrightarrow> acks_ok (map_option (RecordAck C req i) c)"
proof (cases c)
  case (Some m)
  assume ok: "acks_ok c"
  have "bkeys_ok (ack_senders C m req)"
    using ok Some by (auto simp: acks_ok_def ack_senders_def dest: bget_in split: option.split)
  then show ?thesis using ok Some by (auto simp: acks_ok_def RecordAck_def dest!: bput_values)
qed (simp add: acks_ok_def)

lemma node_ok_eqs [simp]:
  "node_ok self t ring (n\<lparr>n_CommitStarted := S\<rparr>) = node_ok self t ring n"
  "node_ok self t ring (n\<lparr>n_CrossBusy := b\<rparr>) = node_ok self t ring n"
  "node_ok self t ring (n\<lparr>n_Collector := c\<rparr>) = node_ok self t ring n"
  "node_ok self t ring (n\<lparr>n_Tasks := ts\<rparr>) = node_ok self t ring n"
  "node_ok self t ring (n\<lparr>n_Out := out\<rparr>) = node_ok self t ring n"
  "node_ok self t ring (ReleaseCrossSlot n) = node_ok self t ring n"
  "node_ok self t ring (start_task g n) = node_ok self t ring n"
  "node_ok self t ring (SendToCluster up k m n) = node_ok self t ring n"
  "node_ok self t ring (end_task g g' n) = node_ok self t ring n"
  by (simp_all add: node_ok_def ReleaseCrossSlot_def start_task_def SendToCluster_def end_task_def Let_def)

lemma node_ok_on_engine [ok_intros]:
  "node_ok self t ring n \<Longrightarrow> (engine_ok self t ring (n_Engine n) \<Longrightarrow> engine_ok self t ring (f (n_Engine n))) \<Longrightarrow>
     node_ok self t ring (on_engine f n)"
  by (simp add: node_ok_def on_engine_def)

lemma node_ok_leaf [ok_intros]: "node_ok self t ring n \<Longrightarrow> node_ok self t ring (leaf_hook up h n)"
  by (cases h)
     (simp_all add: leaf_hook_def OnCoordPrepareExecuted_def OnPartPrepareExecuted_def OnCoordCommitExecuted_def
        OnPartCommitExecuted_def resendPrepareReply_def sendAck_def broadcastCommit_def startAckRetry_def Let_def)

lemma node_ok_fold: "(\<And>h n. node_ok self t ring n \<Longrightarrow> node_ok self t ring (f h n)) \<Longrightarrow> node_ok self t ring n \<Longrightarrow>
    node_ok self t ring (fold f hs n)"
  by (induction hs arbitrary: n) auto

lemma node_ok_client: "node_ok self t ring n \<Longrightarrow> node_ok self t ring (snd (HandleClientRequest C req n))"
  by (auto simp: HandleClientRequest_def acquireCrossSlot_def RejectInsufficient_def Let_def intro!: ok_intros)

lemma node_ok_take: "take_hooks n = (hs, n') \<Longrightarrow> node_ok self t ring n \<Longrightarrow> node_ok self t ring n'"
  by (auto simp: take_hooks_def intro!: ok_intros)

lemma node_ok_hook: "node_ok self t ring n \<Longrightarrow> node_ok self t ring (run_hook C up h n)"
  by (cases h) (auto simp: run_hook_def run_leaf_hooks_def intro!: node_ok_fold ok_intros dest: node_ok_take [OF _ node_ok_client] split: prod.split)

lemma node_ok_run_hooks [ok_intros]: "node_ok self t ring n \<Longrightarrow> node_ok self t ring (run_hooks C up n)"
  by (auto simp: run_hooks_def intro!: node_ok_fold node_ok_hook dest: node_ok_take split: prod.split)

lemma node_ok_handlers [ok_intros]:
  assumes "node_ok self t ring n"
  shows "node_ok self t ring (HandlePrepare C up p n)" "node_ok self t ring (HandleCommit C up c n)"
    "node_ok self t ring (HandleParticipantAck C i a n)" "node_ok self t ring (HandleParticipantReply C y n)"
proof -
  have ack: "node_ok self t ring (n\<lparr>n_AckColl := map_option (RecordAck C req i) (n_AckColl n)\<rparr>)" for req
    using assms by (simp add: node_ok_def acks_ok_record)
  then show "node_ok self t ring (HandleParticipantAck C i a n)"
    using assms by (simp add: HandleParticipantAck_def split: option.split)
qed (use assms in \<open>auto simp: HandlePrepare_def HandleCommit_def HandleParticipantReply_def maybeStartFinalCommit_def
       resendPrepareReply_def sendAck_def Let_def intro!: ok_intros split: option.split\<close>)

lemma node_ok_task [ok_intros]: "node_ok self t ring n \<Longrightarrow> node_ok self t ring (run_task C up expired g n)"
  by (cases g)
     (auto simp: run_task_def task_step_def watchPreparePhase_def driveAbort_def ackRetry_def broadcastCommit_def Let_def
       intro!: ok_intros)

lemma node_ok_reset [ok_intros]: "node_ok self t ring n \<Longrightarrow> node_ok self t ring (Coordinator_Reset n)"
  by (auto simp: node_ok_def Coordinator_Reset_def acks_ok_def split: option.split)

subsection \<open>Replicas\<close>

definition replica_ok :: "int \<Rightarrow> topology \<Rightarrow> KeyRing \<Rightarrow> replica \<Rightarrow> bool" where
  "replica_ok self t ring r \<longleftrightarrow> node_ok self t ring (r_Node r) \<and> h_Self (r_Hub r) = self \<and> h_Topo (r_Hub r) = t \<and>
     h_Ring (r_Hub r) = ring \<and> length (h_Inbound (r_Hub r)) \<le> h_InboundCap (r_Hub r) \<and> h_InboundCap (r_Hub r) = 256 \<and>
     length (r_Pong r) \<le> 64"

text \<open>Delivering and sending change only the queue and the connections.\<close>

definition hub_ok :: "hub \<Rightarrow> hub \<Rightarrow> bool" where
  "hub_ok h h' \<longleftrightarrow> h_Self h' = h_Self h \<and> h_Topo h' = h_Topo h \<and> h_Ring h' = h_Ring h \<and> h_InboundCap h' = h_InboundCap h \<and>
     (length (h_Inbound h) \<le> h_InboundCap h \<longrightarrow> length (h_Inbound h') \<le> h_InboundCap h)"

lemma hub_ok_Deliver: "Deliver C h env = Inr h' \<Longrightarrow> hub_ok h h'"
  by (auto simp: Deliver_def Inject_def hub_ok_def split: if_splits)

lemma hub_ok_peer: "peer dial h i = Inr h' \<Longrightarrow> hub_ok h h'"
  by (auto simp: peer_def hub_ok_def split: if_splits option.splits)

lemma hub_ok_Send: "hub_ok h (snd (Send dial call h i env))"
proof (cases "peer dial h i")
  case (Inr h')
  then show ?thesis
    using hub_ok_peer [OF Inr] by (auto simp: Send_def dropPeer_def hub_ok_def split: call_result.split)
qed (simp add: Send_def hub_ok_def)

lemma replica_ok_hub: "replica_ok self t ring r \<Longrightarrow> hub_ok (r_Hub r) h \<Longrightarrow> replica_ok self t ring (r\<lparr>r_Hub := h\<rparr>)"
  by (simp add: replica_ok_def hub_ok_def)

lemma replica_ok_on_node [ok_intros]:
  "replica_ok self t ring r \<Longrightarrow> (node_ok self t ring (r_Node r) \<Longrightarrow> node_ok self t ring (f (r_Node r))) \<Longrightarrow>
     replica_ok self t ring (on_node f r)"
  by (simp add: replica_ok_def on_node_def)

lemma replica_ok_with_hooks [ok_intros]:
  "replica_ok self t ring r \<Longrightarrow> (node_ok self t ring (r_Node r) \<Longrightarrow> node_ok self t ring (f (r_Node r))) \<Longrightarrow>
     replica_ok self t ring (with_hooks C up f r)"
  unfolding with_hooks_def by (intro ok_intros)

lemma replica_ok_pong: "replica_ok self t ring r \<Longrightarrow> length p \<le> 64 \<Longrightarrow> replica_ok self t ring (r\<lparr>r_Pong := p\<rparr>)"
  by (simp add: replica_ok_def)

lemma replica_ok_dispatch: "replica_ok self t ring r \<Longrightarrow> replica_ok self t ring (dispatch C J I N env r)"
  by (auto simp: dispatch_def handle2PC_def handlePing_def Let_def intro!: ok_intros replica_ok_hub hub_ok_Send
      replica_ok_pong split: sum.split)

lemma replica_ok_turn:
  assumes "replica_ok self t ring r" and "Run_turn C J I N r = Some r'"
  shows "replica_ok self t ring r'"
proof -
  obtain env rest where q: "h_Inbound (r_Hub r) = env # rest"
    and r': "r' = dispatch C J I N env (r\<lparr>r_Hub := (r_Hub r)\<lparr>h_Inbound := rest\<rparr>\<rparr>)"
    using assms(2) by (auto simp: Run_turn_def split: list.splits)
  have "replica_ok self t ring (r\<lparr>r_Hub := (r_Hub r)\<lparr>h_Inbound := rest\<rparr>\<rparr>)"
    using assms(1) by (intro replica_ok_hub) (simp_all add: hub_ok_def q)
  then show ?thesis unfolding r' by (rule replica_ok_dispatch)
qed

lemma replica_ok_step: "replica_step C J I r r' \<Longrightarrow> replica_ok self t ring r \<Longrightarrow> replica_ok self t ring r'"
proof (induction rule: replica_step.induct)
  case (deliver r env h)
  then show ?case by (intro replica_ok_hub hub_ok_Deliver)
next
  case (turn N r r')
  then show ?case by (blast intro: replica_ok_turn)
next
  case (ingress r e up)
  have "engine_ok self t ring (n_Engine (r_Node r))" using ingress by (simp add: replica_ok_def node_ok_def)
  then have "engine_ok self t ring e" using ingress engine_ok_ingress by blast
  then show ?case using ingress by (intro ok_intros)
qed (auto simp: Replica_SetFault_def intro!: ok_intros)

lemma replica_ok_reset: "replica_ok self t ring r \<Longrightarrow> replica_ok self t ring (Replica_ResetConsensus r)"
  by (auto simp: Replica_ResetConsensus_def Let_def intro!: ok_intros)

lemma engine_ok_new:
  assumes "NewEngine self t ring st sink = Inr e" and "store_ok st"
  shows "engine_ok self t ring e"
  using assms
  by (auto simp: NewEngine_def fresh_engine_def Let_def engine_ok_defs fault_ok_def DefaultFaultConfig_def split: option.splits)

lemma store_ok_Open: "Open opts disk = Inr st \<Longrightarrow> (\<And>s. disk = Inr s \<Longrightarrow> store_ok s) \<Longrightarrow> store_ok st"
proof -
  assume "Open opts disk = Inr st" and disk: "\<And>s. disk = Inr s \<Longrightarrow> store_ok s"
  then have "\<exists>s b n. disk = Inr s \<and> st = s\<lparr>initialBalance := b, totalItems := n\<rparr>"
    by (simp only: Open_def split: if_splits sum.splits) blast+
  then obtain s b n where ok: "store_ok s" and "st = s\<lparr>initialBalance := b, totalItems := n\<rparr>" using disk by blast
  with ok show "store_ok st" by (cases "datastoreSeq s") (simp_all add: store_ok_def log_ok_def)
qed

lemma replica_ok_new:
  assumes new: "NewReplicaWithConfig join disk listen cfg = Inr r"
    and store: "\<And>st. rc_Store cfg = Some st \<Longrightarrow> store_ok st" "\<And>p st. disk p = Inr st \<Longrightarrow> store_ok st"
    and acks: "acks_ok (rc_AckCollector cfg)"
  shows "replica_ok (rc_Self cfg) (rc_Topo cfg) (rc_Ring cfg) r"
proof -
  obtain st e where st: "store_ok st" and e: "NewEngine (rc_Self cfg) (rc_Topo cfg) (rc_Ring cfg) st (rc_ReplySink cfg) = Inr e"
    and r: "r = \<lparr>r_Hub = NewHub (rc_Self cfg) (rc_Topo cfg) (rc_Ring cfg) 256,
      r_Node = NewCoordinator ((SetFault e (rc_Fault cfg))\<lparr>eHooks := rc_Enable2PC cfg\<rparr>) (rc_Disable2PCCommitPhase cfg)
        (rc_PreparedCollector cfg) (rc_AckCollector cfg), r_TwoPC = rc_Enable2PC cfg, r_Pong = [], r_Started = False\<rparr>"
    using new store by (auto simp: NewReplicaWithConfig_def Let_def split: option.splits sum.splits if_splits dest: store_ok_Open)
  show ?thesis
    using engine_ok_new [OF e st] acks by (simp add: r replica_ok_def node_ok_def NewCoordinator_def NewHub_def engine_ok_upd)
qed

lemma bkeys_ok_length: "bkeys_ok b \<Longrightarrow> length b = card (fst ` set b)"
  using distinct_card [of "map fst b"] by (simp add: bkeys_distinct)

lemma replica_ok_votes:
  assumes "replica_ok self t ring r" and "(k, s) \<in> set (eLog (n_Engine (r_Node r)))"
  shows "length (sPrepares s) = card (fst ` set (sPrepares s))" "length (sCommits s) = card (fst ` set (sCommits s))"
proof -
  have "slot_ok s" using assms by (auto simp: replica_ok_def node_ok_def engine_ok_defs)
  then show "length (sPrepares s) = card (fst ` set (sPrepares s))" "length (sCommits s) = card (fst ` set (sCommits s))"
    by (simp_all add: slot_ok_def bkeys_ok_length)
qed

lemma replica_ok_leads: "replica_ok self t ring r \<Longrightarrow> is_primary (n_Engine (r_Node r)) = leads (r_Node r)"
  by (auto simp: replica_ok_def node_ok_def engine_ok_defs is_primary_def Primary_def leads_def primary_def
      split: option.splits)

text \<open>C9: The state of a replica stays well formed, whatever reaches it: built by
  \<open>NewReplicaWithConfig\<close> on a well-formed store, after any sequence of envelopes, timers, tasks and
  fault settings, and after a reset, it has the identity, topology, keys, quorums and timeouts it was
  built with; its maps have one entry per key, so the votes it counts in a slot are votes of that many
  different servers; its queues are within their capacity; and the engine, the sender and the
  coordinator agree on whether this replica is the primary.\<close>

theorem replica_well_formed:
  assumes "NewReplicaWithConfig join disk listen cfg = Inr r"
    and "\<And>st. rc_Store cfg = Some st \<Longrightarrow> store_ok st" "\<And>p st. disk p = Inr st \<Longrightarrow> store_ok st" "acks_ok (rc_AckCollector cfg)"
    and "replica_run C J I r r'" and "q = r' \<or> q = Replica_ResetConsensus r'"
  shows "replica_ok (rc_Self cfg) (rc_Topo cfg) (rc_Ring cfg) q \<and> is_primary (n_Engine (r_Node q)) = leads (r_Node q) \<and>
    (\<forall>(k, s)\<in>set (eLog (n_Engine (r_Node q))).
       length (sPrepares s) = card (fst ` set (sPrepares s)) \<and> length (sCommits s) = card (fst ` set (sCommits s)))"
proof -
  have "replica_ok (rc_Self cfg) (rc_Topo cfg) (rc_Ring cfg) r" using assms(1-4) by (rule replica_ok_new)
  with assms(5) have "replica_ok (rc_Self cfg) (rc_Topo cfg) (rc_Ring cfg) r'"
    by (induction rule: replica_run.induct) (auto intro: replica_ok_step)
  then have "replica_ok (rc_Self cfg) (rc_Topo cfg) (rc_Ring cfg) q" using assms(6) replica_ok_reset by auto
  then show ?thesis using replica_ok_votes replica_ok_leads by blast
qed

definition sample_config :: ReplicaConfig where
  "sample_config = \<lparr>rc_Self = 2, rc_Topo = sample_topo, rc_Ring = sample_ring 2, rc_Store = Some (empty_store 10 100),
     rc_ReplySink = True, rc_PreparedCollector = Some [], rc_AckCollector = Some [], rc_Disable2PCCommitPhase = False,
     rc_Enable2PC = True, rc_Fault = DefaultFaultConfig, rc_DataDir = ''data'', rc_Addr = []\<rparr>"

theorem replica_well_formed_witness:
  "\<exists>r. NewReplicaWithConfig (\<lambda>d f. d @ ''/'' @ f) (\<lambda>_. Inr (empty_store 10 100)) (\<lambda>_. None) sample_config = Inr r \<and>
     replica_ok 2 sample_topo (sample_ring 2) (with_hooks plain_crypto (\<lambda>_. True) (on_engine (timer_fires plain_crypto ascending)) r)"
proof -
  obtain r where r: "NewReplicaWithConfig (\<lambda>d f. d @ ''/'' @ f) (\<lambda>_. Inr (empty_store 10 100)) (\<lambda>_. None) sample_config = Inr r"
    by (simp add: NewReplicaWithConfig_def NewEngine_def ServerByID_def sample_config_def Let_def)
  have run: "replica_run plain_crypto undefined ascending r
      (with_hooks plain_crypto (\<lambda>_. True) (on_engine (timer_fires plain_crypto ascending)) r)"
    by (rule replica_run.step [OF replica_run.start replica_step.timer])
  have "replica_ok 2 sample_topo (sample_ring 2) (with_hooks plain_crypto (\<lambda>_. True) (on_engine (timer_fires plain_crypto ascending)) r)"
    using replica_well_formed [OF r _ _ _ run disjI1 [OF refl]] by (simp add: sample_config_def acks_ok_def)
  with r show ?thesis by blast
qed

end
