(* ===== verification/Testcase.thy ===== *)
theory Testcase
  imports Engine "HOL-Library.Monad_Syntax" "HOL-Library.Multiset"
begin

text \<open>
  The test-case tool (\<open>internal/testcase\<close>): parsing of the test files, fault settings and sending
  order of a test set, the client's reply quorum, its metrics, and the comparison with the expected
  results. Text is ASCII. The CSV reader of the standard library is modelled; the calls of the remote
  client are parameters.
\<close>

subsection \<open>Scanning\<close>

text \<open>\<open>\s\<close> of Go's regular expressions, and the spaces \<open>TrimSpace\<close> removes (it knows the vertical tab).\<close>

definition re_space :: "char \<Rightarrow> bool" where
  "re_space c \<longleftrightarrow> c \<in> {CHR 0x09, CHR 0x0A, CHR 0x0C, CHR 0x0D, CHR '' ''}"

definition TrimSpace :: "string \<Rightarrow> string" where
  "TrimSpace s = (let sp = (\<lambda>c. re_space c \<or> c = CHR 0x0B) in rev (dropWhile sp (rev (dropWhile sp s))))"

definition is_digit :: "char \<Rightarrow> bool" where
  "is_digit c \<longleftrightarrow> digit_val c \<noteq> None"

definition lit :: "char \<Rightarrow> string \<Rightarrow> string option" where
  "lit ch s = (case s of [] \<Rightarrow> None | c # cs \<Rightarrow> if c = ch then Some cs else None)"

definition digits1 :: "string \<Rightarrow> (string \<times> string) option" where
  "digits1 s = (let d = takeWhile is_digit s in if d = [] then None else Some (d, dropWhile is_digit s))"

definition comma :: "string \<Rightarrow> string option" where
  "comma s = map_option (dropWhile re_space) (lit (CHR '','') (dropWhile re_space s))"

text \<open>\<open>\((\d+)\s*,\s*(\d+)\s*,\s*(\d+)\)\<close> at the start of a text, and its leftmost match.\<close>

definition txn_here :: "string \<Rightarrow> (string \<times> string \<times> string) option" where
  "txn_here s = do {
     s \<leftarrow> lit (CHR ''('') s; (x, s) \<leftarrow> digits1 s; s \<leftarrow> comma s; (y, s) \<leftarrow> digits1 s; s \<leftarrow> comma s;
     (amt, s) \<leftarrow> digits1 s; _ \<leftarrow> lit (CHR '')'') s; Some (x, y, amt) }"

fun txn_find :: "string \<Rightarrow> (string \<times> string \<times> string) option" where
  "txn_find [] = None"
| "txn_find (c # cs) = (case txn_here (c # cs) of Some m \<Rightarrow> Some m | None \<Rightarrow> txn_find cs)"

text \<open>Conversion of matched digits with the range error ignored: the largest 64-bit value.\<close>

definition digits_int :: "string \<Rightarrow> int" where
  "digits_int ds = min (2 ^ 63 - 1) (case digits_val 0 ds of None \<Rightarrow> 0 | Some n \<Rightarrow> int n)"

text \<open>\<open>strconv.Atoi\<close> with its range error.\<close>

definition go_Atoi :: "string \<Rightarrow> int option" where
  "go_Atoi s = (case Atoi s of None \<Rightarrow> None | Some n \<Rightarrow> if - (2 ^ 63) \<le> n \<and> n < 2 ^ 63 then Some n else None)"

subsection \<open>Reading CSV\<close>

text \<open>What \<open>csv.NewReader(f).ReadAll()\<close> of the standard library does with its default settings: records end
  at a newline, \<open>\r\n\<close> counts as one and a carriage return at the very end is dropped; empty lines are
  skipped; a field that starts with a quote runs to the closing quote, with a doubled quote for a quote,
  and any other field must not contain one; all records must have as many fields as the first.\<close>

datatype csv_error = ErrBareQuote | ErrQuote | ErrFieldCount

fun crlf :: "string \<Rightarrow> string" where
  "crlf [] = []"
| "crlf [c] = (if c = CHR 0x0D then [] else [c])"
| "crlf (c # d # cs) = (if c = CHR 0x0D \<and> d = CHR 0x0A then crlf (d # cs) else c # crlf (d # cs))"

datatype csv_mode = AtField | Bare string | Quoted string | Closed string

text \<open>\<open>recs\<close> are the records read so far and \<open>fs\<close> the fields of the current one.\<close>

definition csv_record :: "string list list \<Rightarrow> string list \<Rightarrow> csv_error + string list list" where
  "csv_record recs fs = (if recs \<noteq> [] \<and> length fs \<noteq> length (hd recs) then Inl ErrFieldCount else Inr (recs @ [fs]))"

fun csv_read :: "csv_mode \<Rightarrow> string list \<Rightarrow> string list list \<Rightarrow> string \<Rightarrow> csv_error + string list list" where
  "csv_read AtField fs recs [] = (if fs = [] then Inr recs else csv_record recs (fs @ [[]]))"
| "csv_read (Bare w) fs recs [] = csv_record recs (fs @ [w])"
| "csv_read (Quoted w) fs recs [] = Inl ErrQuote"
| "csv_read (Closed w) fs recs [] = csv_record recs (fs @ [w])"
| "csv_read AtField fs recs (c # cs) =
     (if c = CHR 0x22 then csv_read (Quoted []) fs recs cs
      else if c = CHR '','' then csv_read AtField (fs @ [[]]) recs cs
      else if c = CHR 0x0A then
        (if fs = [] then csv_read AtField [] recs cs
         else case csv_record recs (fs @ [[]]) of Inl e \<Rightarrow> Inl e | Inr recs \<Rightarrow> csv_read AtField [] recs cs)
      else csv_read (Bare [c]) fs recs cs)"
| "csv_read (Bare w) fs recs (c # cs) =
     (if c = CHR 0x22 then Inl ErrBareQuote
      else if c = CHR '','' then csv_read AtField (fs @ [w]) recs cs
      else if c = CHR 0x0A then
        (case csv_record recs (fs @ [w]) of Inl e \<Rightarrow> Inl e | Inr recs \<Rightarrow> csv_read AtField [] recs cs)
      else csv_read (Bare (w @ [c])) fs recs cs)"
| "csv_read (Quoted w) fs recs (c # cs) =
     (if c = CHR 0x22 then csv_read (Closed w) fs recs cs else csv_read (Quoted (w @ [c])) fs recs cs)"
| "csv_read (Closed w) fs recs (c # cs) =
     (if c = CHR 0x22 then csv_read (Quoted (w @ [CHR 0x22])) fs recs cs
      else if c = CHR '','' then csv_read AtField (fs @ [w]) recs cs
      else if c = CHR 0x0A then
        (case csv_record recs (fs @ [w]) of Inl e \<Rightarrow> Inl e | Inr recs \<Rightarrow> csv_read AtField [] recs cs)
      else Inl ErrQuote)"

definition csv_ReadAll :: "string \<Rightarrow> csv_error + string list list" where
  "csv_ReadAll s = csv_read AtField [] [] (crlf s)"

subsection \<open>Test files\<close>

record Transaction =
  t_X :: int
  t_Y :: int
  t_Amt :: int64

record TestSet =
  set_Number :: int
  set_Txns :: "Transaction list"
  set_Live :: "int list"
  set_Contact :: "int list"
  set_Byzantine :: "int list"

record TestFile =
  file_Path :: string
  file_Sets :: "TestSet list"

datatype parse_error =
    CannotOpen string
  | ReadCsv csv_error
  | NoDataRows
  | BadSetNumber nat
  | TransactionBeforeSet nat
  | InvalidTransaction nat string

definition parseTransaction :: "string \<Rightarrow> string + Transaction" where
  "parseTransaction s =
     (case txn_find (TrimSpace s) of
        None \<Rightarrow> Inl s
      | Some (x, y, amt) \<Rightarrow> Inr \<lparr>t_X = digits_int x, t_Y = digits_int y, t_Amt = word_of_int (digits_int amt)\<rparr>)"

text \<open>All matches of \<open>S(\d+)\<close>, from left to right and without overlap.\<close>

function server_ids :: "string \<Rightarrow> int list" where
  "server_ids [] = []"
| "server_ids (c # cs) =
     (if c = CHR ''S'' then
        (case digits1 cs of
           None \<Rightarrow> server_ids cs
         | Some (ds, rest) \<Rightarrow> digits_int ds # server_ids rest)
      else server_ids cs)"
  by pat_completeness auto
termination
  by (relation "measure length") (auto simp: digits1_def Let_def le_imp_less_Suc length_dropWhile_le split: if_splits)

definition parseServerList :: "string \<Rightarrow> int list" where
  "parseServerList s = (let s = TrimSpace s in if s = [] then [] else server_ids s)"

definition set_header :: "int \<Rightarrow> string list \<Rightarrow> TestSet" where
  "set_header num row =
     (let col = (\<lambda>i. if length row > i then parseServerList (row ! i) else [])
      in \<lparr>set_Number = num, set_Txns = [], set_Live = col 2, set_Contact = col 3, set_Byzantine = col 4\<rparr>)"

text \<open>The loop over the rows: \<open>i\<close> is the row's index in the file, \<open>cur\<close> the set being read.\<close>

fun parse_rows :: "nat \<Rightarrow> string list list \<Rightarrow> TestSet option \<Rightarrow> TestSet list \<Rightarrow> parse_error + TestSet list" where
  "parse_rows i [] cur sets = Inr (case cur of None \<Rightarrow> sets | Some c \<Rightarrow> sets @ [c])"
| "parse_rows i (row # rows) cur sets =
     (if length row < 2 then parse_rows (Suc i) rows cur sets
      else
        (let head = TrimSpace (row ! 0) in
         case (if head \<noteq> [] then
                 (case go_Atoi head of
                    None \<Rightarrow> Inl (BadSetNumber (i + 1))
                  | Some num \<Rightarrow> Inr (Some (set_header num row), case cur of None \<Rightarrow> sets | Some c \<Rightarrow> sets @ [c]))
               else Inr (cur, sets)) of
           Inl err \<Rightarrow> Inl err
         | Inr (None, sets) \<Rightarrow> Inl (TransactionBeforeSet (i + 1))
         | Inr (Some c, sets) \<Rightarrow>
             (case parseTransaction (row ! 1) of
                Inl s \<Rightarrow> Inl (InvalidTransaction (i + 1) s)
              | Inr txn \<Rightarrow> parse_rows (Suc i) rows (Some (c\<lparr>set_Txns := set_Txns c @ [txn]\<rparr>)) sets)))"

text \<open>\<open>open_file\<close> is the content of a file, or the error of opening it. A first row whose first cell is no number
  is taken for a header.\<close>

definition ParseFile :: "(string \<Rightarrow> string + string) \<Rightarrow> string \<Rightarrow> parse_error + TestFile" where
  "ParseFile open_file path =
     (case open_file path of
        Inl err \<Rightarrow> Inl (CannotOpen err)
      | Inr content \<Rightarrow>
          (case csv_ReadAll content of
             Inl err \<Rightarrow> Inl (ReadCsv err)
           | Inr rows \<Rightarrow>
               if length rows < 2 then Inl NoDataRows
               else (let start = (if hd rows \<noteq> [] \<and> go_Atoi (TrimSpace (hd rows ! 0)) = None then 1 else 0) in
                     case parse_rows start (drop start rows) None [] of
                       Inl err \<Rightarrow> Inl err
                     | Inr sets \<Rightarrow> Inr \<lparr>file_Path = path, file_Sets = sets\<rparr>)))"

definition ContactFor :: "TestSet \<Rightarrow> int \<Rightarrow> string + int" where
  "ContactFor s cluster =
     (if set_Contact s = [] then Inl (''set '' @ itoa (set_Number s) @ '': no contact servers'')
      else if cluster - 1 < 0 \<or> cluster - 1 \<ge> int (length (set_Contact s))
        then Inl (''set '' @ itoa (set_Number s) @ '': no contact for cluster C'' @ itoa cluster)
      else Inr (set_Contact s ! nat (cluster - 1)))"

subsection \<open>The oracle\<close>

definition AllItems :: "TestFile \<Rightarrow> int list" where
  "AllItems f = sort (remdups (concat (map (\<lambda>s. concat (map (\<lambda>t. [t_X t, t_Y t]) (set_Txns s))) (file_Sets f))))"

text \<open>\<open>toIDSet\<close> makes a set of a list.\<close>

abbreviation toIDSet :: "int list \<Rightarrow> int set" where
  "toIDSet ids \<equiv> set ids"

definition liveInCluster :: "TestSet \<Rightarrow> int \<Rightarrow> topology \<Rightarrow> int option" where
  "liveInCluster s cluster t =
     (let live = toIDSet (set_Live s) in map_option srv_ID (find (\<lambda>srv. srv_ID srv \<in> live) (ServersInCluster t cluster)))"

record OracleDump =
  d_Set :: int
  d_Balances :: "(string, int64) bucket"
  d_Datastore :: "(string, string list) bucket"

text \<open>\<open>bal\[\d+\]\s*=\s*(-?\d+)\<close> at the start of a text and its leftmost match.\<close>

fun lits :: "string \<Rightarrow> string \<Rightarrow> string option" where
  "lits [] s = Some s"
| "lits (p # ps) s = do { s \<leftarrow> lit p s; lits ps s }"

definition balance_here :: "string \<Rightarrow> string option" where
  "balance_here s = do {
     s \<leftarrow> lits ''bal['' s; (_, s) \<leftarrow> digits1 s; s \<leftarrow> lit (CHR '']'') s;
     s \<leftarrow> lit (CHR ''='') (dropWhile re_space s);
     let s = dropWhile re_space s;
     case lit (CHR ''-'') s of
       None \<Rightarrow> map_option fst (digits1 s)
     | Some s \<Rightarrow> map_option (\<lambda>(ds, _). CHR ''-'' # ds) (digits1 s) }"

fun balance_find :: "string \<Rightarrow> string option" where
  "balance_find [] = None"
| "balance_find (c # cs) = (case balance_here (c # cs) of Some m \<Rightarrow> Some m | None \<Rightarrow> balance_find cs)"

text \<open>\<open>strconv.ParseInt\<close> of a matched number, its range error ignored: the nearest 64-bit value.\<close>

definition signed_int :: "string \<Rightarrow> int" where
  "signed_int s = (case Atoi s of None \<Rightarrow> 0 | Some n \<Rightarrow> max (- (2 ^ 63)) (min (2 ^ 63 - 1) n))"

definition parseBalanceLine :: "string \<Rightarrow> int64" where
  "parseBalanceLine line = (case balance_find line of None \<Rightarrow> - 1 | Some m \<Rightarrow> word_of_int (signed_int m))"

text \<open>\<open>%q\<close> of a text without characters to escape.\<close>

definition quoted :: "string \<Rightarrow> string" where
  "quoted s = CHR 0x22 # s @ [CHR 0x22]"

text \<open>\<open>bal\<close> and \<open>lg\<close> are the remote calls \<open>PrintBalance\<close> and \<open>FetchDatastoreOracle\<close>.\<close>

fun collect_balances :: "(int \<Rightarrow> int \<Rightarrow> string + string) \<Rightarrow> TestSet \<Rightarrow> topology \<Rightarrow> int list \<Rightarrow> OracleDump \<Rightarrow> string option \<times> OracleDump" where
  "collect_balances bal s t [] dump = (None, dump)"
| "collect_balances bal s t (item # items) dump =
     (case liveInCluster s (ClusterOf t item) t of
        None \<Rightarrow> (Some (''set '' @ itoa (set_Number s) @ '': no live server in cluster C'' @ itoa (ClusterOf t item) @
                       '' for item '' @ itoa item), dump)
      | Some rep \<Rightarrow>
          (case bal rep item of
             Inl err \<Rightarrow> (Some (''balance item '' @ itoa item @ '' via '' @ server_name rep @ '': '' @ err), dump)
           | Inr line \<Rightarrow>
               (case balance_find line of
                  None \<Rightarrow> (Some (''parse balance '' @ quoted line @ '' from '' @ server_name rep), dump)
                | Some m \<Rightarrow> collect_balances bal s t items
                    (dump\<lparr>d_Balances := bput (itoa item) (word_of_int (signed_int m)) (d_Balances dump)\<rparr>))))"

fun collect_logs :: "(int \<Rightarrow> string + string list) \<Rightarrow> TestSet \<Rightarrow> topology \<Rightarrow> int list \<Rightarrow> OracleDump \<Rightarrow> string option \<times> OracleDump" where
  "collect_logs lg s t [] dump = (None, dump)"
| "collect_logs lg s t (c # cs) dump =
     (let key = CHR ''C'' # itoa c in
      case liveInCluster s c t of
        None \<Rightarrow> collect_logs lg s t cs (dump\<lparr>d_Datastore := bput key [] (d_Datastore dump)\<rparr>)
      | Some rep \<Rightarrow>
          (case lg rep of
             Inl err \<Rightarrow> (Some (''datastore '' @ key @ '' via '' @ server_name rep @ '': '' @ err), dump)
           | Inr entries \<Rightarrow> collect_logs lg s t cs (dump\<lparr>d_Datastore := bput key entries (d_Datastore dump)\<rparr>)))"

definition CollectOracleDump ::
    "(int \<Rightarrow> int \<Rightarrow> string + string) \<Rightarrow> (int \<Rightarrow> string + string list) \<Rightarrow> topology \<Rightarrow> TestSet \<Rightarrow> int list \<Rightarrow> string option \<times> OracleDump" where
  "CollectOracleDump bal lg t s items =
     (case collect_balances bal s t items \<lparr>d_Set = set_Number s, d_Balances = [], d_Datastore = []\<rparr> of
        (Some err, dump) \<Rightarrow> (Some err, dump)
      | (None, dump) \<Rightarrow> collect_logs lg s t [1, 2, 3] dump)"

text \<open>The comparison counts occurrences in two maps.\<close>

definition count_of :: "(string, nat) bucket \<Rightarrow> string \<Rightarrow> nat" where
  "count_of m s = (case bget m s of None \<Rightarrow> 0 | Some n \<Rightarrow> n)"

definition counter :: "string list \<Rightarrow> (string, nat) bucket" where
  "counter xs = fold (\<lambda>s m. bput s (count_of m s + 1) m) xs []"

definition multisetEqual :: "string list \<Rightarrow> string list \<Rightarrow> bool" where
  "multisetEqual a b =
     (let ca = counter a; cb = counter b in
      if length ca \<noteq> length cb then False else list_all (\<lambda>(k, va). count_of cb k = va) ca)"

record expectedSet =
  x_Set :: int
  x_Balances :: "(string, int64) bucket"
  x_Committed :: "(string, string list) bucket"

definition findExpectedSet :: "expectedSet list \<Rightarrow> int \<Rightarrow> string + expectedSet" where
  "findExpectedSet xs n =
     (case find (\<lambda>x. x_Set x = n) xs of
        None \<Rightarrow> Inl (''set '' @ itoa n @ '' not found in oracle'')
      | Some x \<Rightarrow> Inr x)"

text \<open>The verdict of one dump; what is printed is left out.\<close>

definition dump_ok :: "expectedSet \<Rightarrow> OracleDump \<Rightarrow> bool" where
  "dump_ok x d \<longleftrightarrow>
     list_all (\<lambda>(item, v). case bget (x_Balances x) item of None \<Rightarrow> True | Some w \<Rightarrow> v = w) (d_Balances d) \<and>
     list_all (\<lambda>c. multisetEqual (case bget (d_Datastore d) c of None \<Rightarrow> [] | Some es \<Rightarrow> es)
                     (case bget (x_Committed x) c of None \<Rightarrow> [] | Some es \<Rightarrow> es)) [''C1'', ''C2'', ''C3'']"

fun verify_dumps :: "expectedSet list \<Rightarrow> OracleDump list \<Rightarrow> int \<Rightarrow> int \<times> string option" where
  "verify_dumps xs [] rc = (rc, None)"
| "verify_dumps xs (d # ds) rc =
     (case findExpectedSet xs (d_Set d) of
        Inl err \<Rightarrow> (1, Some err)
      | Inr x \<Rightarrow> verify_dumps xs ds (if dump_ok x d then rc else 1))"

definition VerifyDumps :: "(string \<Rightarrow> string + expectedSet list) \<Rightarrow> string \<Rightarrow> OracleDump list \<Rightarrow> int \<times> string option" where
  "VerifyDumps load path dumps =
     (case load path of Inl err \<Rightarrow> (1, Some err) | Inr xs \<Rightarrow> verify_dumps xs dumps 0)"

lemma count_of_bput [simp]: "count_of (bput k n m) s = (if s = k then n else count_of m s)"
  by (simp add: count_of_def)

lemma counter_count: "count_of (counter xs) s = count_list xs s"
proof -
  have "count_of (fold (\<lambda>s m. bput s (count_of m s + 1) m) xs m) s = count_of m s + count_list xs s" for m
    by (induction xs arbitrary: m) auto
  from this [of "[]"] show ?thesis by (simp add: counter_def count_of_def)
qed

lemma counter_keys: "fst ` set (counter xs) = set xs \<and> bkeys_ok (counter xs)"
proof -
  have "bkeys_ok m \<Longrightarrow> fst ` set (fold (\<lambda>s m. bput s (count_of m s + 1) m) xs m) = set xs \<union> fst ` set m \<and>
      bkeys_ok (fold (\<lambda>s m. bput s (count_of m s + 1) m) xs m)" for m
    by (induction xs arbitrary: m) auto
  from this [of "[]"] show ?thesis by (simp add: counter_def)
qed

lemma counter_get: "(k, v) \<in> set (counter xs) \<longleftrightarrow> k \<in> set xs \<and> v = count_list xs k"
proof -
  have "distinct (map fst (counter xs))" using counter_keys bkeys_distinct by blast
  then have iff: "(k, v) \<in> set (counter xs) \<longleftrightarrow> bget (counter xs) k = Some v" by simp
  show ?thesis
  proof (cases "bget (counter xs) k")
    case None
    then have "k \<notin> set xs" using counter_keys [of xs] by (simp add: map_of_eq_None_iff)
    with None iff show ?thesis by simp
  next
    case (Some w)
    then have "k \<in> set xs" using counter_keys [of xs] map_of_eq_None_iff [of "counter xs" k] by auto
    moreover have "w = count_list xs k" using Some counter_count [of xs k] by (simp add: count_of_def)
    ultimately show ?thesis using Some iff by auto
  qed
qed

lemma count_list_mset: "count_list xs s = count (mset xs) s"
  by (induction xs) auto

lemma counter_length: "length (counter xs) = card (set xs)"
  using counter_keys [of xs] distinct_card [of "map fst (counter xs)"] bkeys_distinct [of "counter xs"] by simp

lemma multisetEqual_mset: "multisetEqual a b \<longleftrightarrow> mset a = mset b"
proof
  assume eq: "multisetEqual a b"
  then have len: "card (set a) = card (set b)"
    by (simp add: multisetEqual_def Let_def counter_length split: if_splits)
  have same: "count_list b k = count_list a k" if "k \<in> set a" for k
  proof -
    have "(k, count_list a k) \<in> set (counter a)" using that by (simp add: counter_get)
    then show ?thesis
      using eq by (auto simp: multisetEqual_def Let_def list_all_iff counter_count split: if_splits)
  qed
  have "set a \<subseteq> set b" using same by (metis count_list_0_iff subsetI)
  then have sets: "set a = set b" using len by (simp add: card_subset_eq)
  show "mset a = mset b"
  proof (rule multiset_eqI)
    fix k
    show "count (mset a) k = count (mset b) k"
      using same [of k] sets by (cases "k \<in> set a") (auto simp: count_list_mset [symmetric] count_list_0_iff)
  qed
next
  assume eq: "mset a = mset b"
  then have "set a = set b" and "count_list a = count_list b"
    by (auto simp: count_list_mset fun_eq_iff dest: mset_eq_setD)
  then show "multisetEqual a b"
    by (auto simp: multisetEqual_def Let_def list_all_iff counter_length counter_count counter_get)
qed

subsection \<open>Metrics\<close>

text \<open>Times and durations in nanoseconds; the zero time is \<open>None\<close>.\<close>

record txnRecord =
  tr_Req :: Request
  tr_SentAt :: int
  tr_RepliedAt :: "int option"
  tr_Result :: "Result option"

definition sameReq :: "Request \<Rightarrow> Request \<Rightarrow> bool" where
  "sameReq a b \<longleftrightarrow> r_ClientID a = r_ClientID b \<and> r_TS a = r_TS b \<and> r_X a = r_X b \<and>
     r_Y a = r_Y b \<and> r_Amt a = r_Amt b"

definition RecordSend :: "Request \<Rightarrow> int \<Rightarrow> txnRecord list \<Rightarrow> txnRecord list" where
  "RecordSend req at m = m @ [\<lparr>tr_Req = req, tr_SentAt = at, tr_RepliedAt = None, tr_Result = None\<rparr>]"

fun RecordReply :: "Request \<Rightarrow> Result \<Rightarrow> int \<Rightarrow> txnRecord list \<Rightarrow> txnRecord list" where
  "RecordReply req result at [] = []"
| "RecordReply req result at (r # rs) =
     (if sameReq (tr_Req r) req \<and> tr_RepliedAt r = None
      then r\<lparr>tr_RepliedAt := Some at, tr_Result := Some result\<rparr> # rs
      else r # RecordReply req result at rs)"

text \<open>One record in the loop of \<open>Snapshot\<close>: (committed, total latency, first send, last reply).\<close>

definition snapshot_one :: "txnRecord \<Rightarrow> int \<times> int \<times> int option \<times> int option \<Rightarrow> int \<times> int \<times> int option \<times> int option" where
  "snapshot_one r acc =
     (case acc of (committed, totalLat, firstSend, lastReply) \<Rightarrow>
        (let firstSend = (case firstSend of None \<Rightarrow> Some (tr_SentAt r)
                          | Some f \<Rightarrow> if tr_SentAt r < f then Some (tr_SentAt r) else Some f)
         in case tr_RepliedAt r of
              None \<Rightarrow> (committed, totalLat, firstSend, lastReply)
            | Some at \<Rightarrow>
                if tr_Result r = Some ResultCommitted then
                  (committed + 1, totalLat + (at - tr_SentAt r), firstSend,
                   case lastReply of None \<Rightarrow> Some at | Some l \<Rightarrow> if at > l then Some at else Some l)
                else (committed, totalLat, firstSend, lastReply)))"

text \<open>Without a committed reply the wall-clock time is negative in Go and replaced like a zero one.\<close>

definition Metrics_Snapshot :: "txnRecord list \<Rightarrow> int \<times> int \<times> int" where
  "Metrics_Snapshot m =
     (if m = [] then (0, 0, 0)
      else case fold snapshot_one m (0, 0, None, None) of
             (committed, totalLat, firstSend, lastReply) \<Rightarrow>
               (let wall = (case (firstSend, lastReply) of (Some f, Some l) \<Rightarrow> l - f | _ \<Rightarrow> 0);
                    wall = (if wall \<le> 0 then 1000000 else wall)
                in (committed, wall, if committed > 0 then go_div totalLat committed else 0)))"

subsection \<open>The runner\<close>

record runner =
  rn_Topo :: topology
  rn_Metrics :: "txnRecord list"
  rn_ClientID :: string
  rn_NextTS :: int

definition NewRunner :: "topology \<Rightarrow> runner" where
  "NewRunner t = \<lparr>rn_Topo = t, rn_Metrics = [], rn_ClientID = ''lab4-client'', rn_NextTS = 0\<rparr>"

definition honest_live :: "TestSet \<Rightarrow> topology \<Rightarrow> int \<Rightarrow> int" where
  "honest_live s t cluster =
     int (length (filter (\<lambda>srv. srv_Cluster srv = cluster \<and> srv_ID srv \<in> toIDSet (set_Live s) \<and>
                                 srv_ID srv \<notin> toIDSet (set_Byzantine s)) (Servers t)))"

definition set_fault :: "TestSet \<Rightarrow> topology \<Rightarrow> server \<Rightarrow> FaultConfig" where
  "set_fault s t srv =
     (let fc = (if srv_ID srv \<notin> toIDSet (set_Live s)
                then \<lparr>Alive = False, ByzantineLeader = False, ByzantineBackup = False, ClusterHonestLive = 0\<rparr>
                else if srv_ID srv \<in> toIDSet (set_Byzantine s)
                then \<lparr>Alive = True, ByzantineLeader = False, ByzantineBackup = True, ClusterHonestLive = 0\<rparr>
                else DefaultFaultConfig)
      in fc\<lparr>ClusterHonestLive := honest_live s t (srv_Cluster srv)\<rparr>)"

text \<open>The requests of a set, numbered in file order, and the order they are sent in.\<close>

fun stage :: "string \<Rightarrow> int \<Rightarrow> Transaction list \<Rightarrow> Request list" where
  "stage client ts [] = []"
| "stage client ts (t # txns) =
     \<lparr>r_ClientID = client, r_TS = ts + 1, r_X = t_X t, r_Y = t_Y t, r_Amt = t_Amt t, r_Op = OpEmpty\<rparr>
       # stage client (ts + 1) txns"

definition pending_requests :: "runner \<Rightarrow> TestSet \<Rightarrow> Request list" where
  "pending_requests r s = stage (rn_ClientID r) (rn_NextTS r) (set_Txns s)"

definition is_cross :: "topology \<Rightarrow> Request \<Rightarrow> bool" where
  "is_cross t req \<longleftrightarrow> \<not> SameCluster t (r_X req) (r_Y req)"

definition send_order :: "runner \<Rightarrow> TestSet \<Rightarrow> Request list" where
  "send_order r s =
     filter (\<lambda>q. \<not> is_cross (rn_Topo r) q) (pending_requests r s) @ filter (is_cross (rn_Topo r)) (pending_requests r s)"

text \<open>One send: \<open>send\<close> is the error of the remote call, \<open>at\<close> the time.\<close>

definition sendOne :: "(int \<Rightarrow> Request \<Rightarrow> string option) \<Rightarrow> int \<Rightarrow> TestSet \<Rightarrow> Request \<Rightarrow> runner \<Rightarrow> string option \<times> runner" where
  "sendOne send at s req r =
     (case ContactFor s (ClusterOf (rn_Topo r) (r_X req)) of
        Inl err \<Rightarrow> (Some err, r)
      | Inr contact \<Rightarrow>
          (case send contact req of
             Some err \<Rightarrow> (Some (''send ('' @ itoa (r_X req) @ '','' @ itoa (r_Y req) @ '','' @ itoa (sint (r_Amt req)) @
                               '') to '' @ server_name contact @ '': '' @ err), r)
           | None \<Rightarrow> (None, r\<lparr>rn_Metrics := RecordSend req at (rn_Metrics r)\<rparr>)))"

record settleTrack =
  sk_SentAt :: int
  sk_ResendRound :: int

text \<open>Whether and in which round a request is sent again at time \<open>now\<close>, and to whom; the tunables are
  milliseconds.\<close>

definition maybeResend :: "int \<Rightarrow> TestSet \<Rightarrow> Request \<Rightarrow> Tunables \<Rightarrow> topology \<Rightarrow> settleTrack option \<Rightarrow> settleTrack option \<times> int list" where
  "maybeResend now s req tm t st =
     (case st of
        None \<Rightarrow> (None, [])
      | Some k \<Rightarrow>
          (let cluster = ClusterOf t (r_X req); elapsed = now - sk_SentAt k;
               wait = 1000000 * ClientPrimaryWait tm
           in
           if elapsed < wait then (Some k, [])
           else (let round = go_div (elapsed - wait) (1000000 * ViewChangeTimeout tm) in
                 if round \<le> sk_ResendRound k then (Some k, [])
                 else (Some (k\<lparr>sk_ResendRound := round\<rparr>),
                       (case ContactFor s cluster of Inl _ \<Rightarrow> [] | Inr c \<Rightarrow> [c]) @
                       map srv_ID (ServersInCluster t cluster)))))"

text \<open>The replies of the servers are counted by result until one result has the client quorum;
  \<open>lookup\<close> is the remote query (an error, no reply, or a reply).\<close>

fun first_quorum :: "int \<Rightarrow> (int \<Rightarrow> (string + Reply option)) \<Rightarrow> int list \<Rightarrow> (Result \<Rightarrow> int) \<Rightarrow> Result option" where
  "first_quorum q lookup [] matches = None"
| "first_quorum q lookup (i # is) matches =
     (case lookup i of
        Inl _ \<Rightarrow> first_quorum q lookup is matches
      | Inr None \<Rightarrow> first_quorum q lookup is matches
      | Inr (Some reply) \<Rightarrow>
          (let res = rp_Result reply; matches = matches(res := matches res + 1) in
           if matches res \<ge> q then Some res else first_quorum q lookup is matches))"

definition collect_result :: "topology \<Rightarrow> (int \<Rightarrow> Request \<Rightarrow> (string + Reply option)) \<Rightarrow> Request \<Rightarrow> Result option" where
  "collect_result t lookup req =
     first_quorum (ClientQuorum t) (\<lambda>i. lookup i req) (map srv_ID (ServersInCluster t (ClusterOf t (r_X req)))) (\<lambda>_. 0)"

definition collectReply :: "(int \<Rightarrow> Request \<Rightarrow> (string + Reply option)) \<Rightarrow> int \<Rightarrow> Request \<Rightarrow> runner \<Rightarrow> bool \<times> runner" where
  "collectReply lookup at req r =
     (case collect_result (rn_Topo r) lookup req of
        None \<Rightarrow> (False, r)
      | Some res \<Rightarrow> (True, r\<lparr>rn_Metrics := RecordReply req res at (rn_Metrics r)\<rparr>))"

text \<open>The cross-shard requests a set still waits for: those whose coordinator can pay.\<close>

definition worth_waiting :: "(int \<Rightarrow> int \<Rightarrow> string + string) \<Rightarrow> TestSet \<Rightarrow> topology \<Rightarrow> Request \<Rightarrow> bool" where
  "worth_waiting bal s t req =
     (if SameCluster t (r_X req) (r_Y req) then False
      else case ContactFor s (ClusterOf t (r_X req)) of
             Inl _ \<Rightarrow> False
           | Inr contact \<Rightarrow>
               (case bal contact (r_X req) of
                  Inl _ \<Rightarrow> True
                | Inr line \<Rightarrow> \<not> (let b = parseBalanceLine line in 0 \<le>s b \<and> b <s r_Amt req)))"

subsection \<open>What the tool decides\<close>

lemma verify_dumps_zero:
  "fst (verify_dumps xs ds rc) = 0 \<longleftrightarrow>
     rc = 0 \<and> list_all (\<lambda>d. case findExpectedSet xs (d_Set d) of Inl _ \<Rightarrow> False | Inr x \<Rightarrow> dump_ok x d) ds"
  by (induction xs ds rc rule: verify_dumps.induct) (auto split: sum.split if_splits)

text \<open>C29: The verdict on a run is 0 exactly if every set that was dumped has an expected result, every
  dumped balance the oracle knows has the expected value, and in each of the clusters C1 to C3 the
  committed entries are those expected, as multisets. (The comparison by two occurrence maps decides
  multiset equality.)\<close>

theorem oracle_verdict:
  assumes "load path = Inr xs"
  shows "fst (VerifyDumps load path ds) = 0 \<longleftrightarrow>
    (\<forall>d\<in>set ds. \<exists>x. findExpectedSet xs (d_Set d) = Inr x \<and>
       (\<forall>(item, v)\<in>set (d_Balances d). bget (x_Balances x) item \<in> {None, Some v}) \<and>
       (\<forall>c\<in>{''C1'', ''C2'', ''C3''}.
          mset (case bget (d_Datastore d) c of None \<Rightarrow> [] | Some es \<Rightarrow> es) =
          mset (case bget (x_Committed x) c of None \<Rightarrow> [] | Some es \<Rightarrow> es)))"
proof -
  have bal: "(case bget b item of None \<Rightarrow> True | Some w \<Rightarrow> v = w) \<longleftrightarrow> bget b item \<in> {None, Some v}"
    for b :: "(string, int64) bucket" and item v
    by (auto split: option.split)
  have "dump_ok x d \<longleftrightarrow> (\<forall>(item, v)\<in>set (d_Balances d). bget (x_Balances x) item \<in> {None, Some v}) \<and>
       (\<forall>c\<in>{''C1'', ''C2'', ''C3''}.
          mset (case bget (d_Datastore d) c of None \<Rightarrow> [] | Some es \<Rightarrow> es) =
          mset (case bget (x_Committed x) c of None \<Rightarrow> [] | Some es \<Rightarrow> es))" for x d
    unfolding dump_ok_def bal multisetEqual_mset by (simp add: list_all_iff)
  moreover have "(case findExpectedSet xs n of Inl _ \<Rightarrow> False | Inr x \<Rightarrow> P x) \<longleftrightarrow> (\<exists>x. findExpectedSet xs n = Inr x \<and> P x)"
    for n P by (simp split: sum.split)
  ultimately show ?thesis
    using assms unfolding VerifyDumps_def by (simp add: verify_dumps_zero list_all_iff)
qed

theorem oracle_verdict_witness:
  "fst (VerifyDumps (\<lambda>_. Inr [\<lparr>x_Set = 1, x_Balances = [(''5'', 7)], x_Committed = [(''C1'', [''a'', ''b'', ''a''])]\<rparr>]) []
     [\<lparr>d_Set = 1, d_Balances = [(''5'', 7), (''9'', 1)], d_Datastore = [(''C1'', [''b'', ''a'', ''a''])]\<rparr>]) = 0"
  by (subst oracle_verdict [OF refl]) (simp add: findExpectedSet_def)

lemma first_quorum_sound:
  assumes "first_quorum q lookup is m = Some res" and "distinct is" and "0 < q"
  shows "\<exists>A \<subseteq> set is. q \<le> m res + int (card A) \<and>
    (\<forall>i\<in>A. \<exists>reply. lookup i = Inr (Some reply) \<and> rp_Result reply = res)"
  using assms
proof (induction "is" arbitrary: m)
  case (Cons i "is")
  show ?case
  proof (cases "\<exists>reply. lookup i = Inr (Some reply)")
    case False
    then have "first_quorum q lookup is m = Some res"
      using Cons.prems(1) by (auto split: sum.splits option.splits)
    with Cons.IH Cons.prems obtain A where "A \<subseteq> set is" "q \<le> m res + int (card A)"
      "\<forall>i\<in>A. \<exists>reply. lookup i = Inr (Some reply) \<and> rp_Result reply = res" by force
    then show ?thesis by (intro exI [of _ A]) auto
  next
    case True
    then obtain reply where reply: "lookup i = Inr (Some reply)" by blast
    let ?m = "m(rp_Result reply := m (rp_Result reply) + 1)"
    show ?thesis
    proof (cases "?m (rp_Result reply) \<ge> q")
      case True
      then have "res = rp_Result reply" using Cons.prems(1) reply by (simp add: Let_def)
      then show ?thesis using True reply by (intro exI [of _ "{i}"]) simp
    next
      case False
      then have "first_quorum q lookup is ?m = Some res" using Cons.prems(1) reply by (simp add: Let_def)
      with Cons.IH Cons.prems obtain A where A: "A \<subseteq> set is" "q \<le> ?m res + int (card A)"
        "\<forall>i\<in>A. \<exists>reply. lookup i = Inr (Some reply) \<and> rp_Result reply = res" by force
      show ?thesis
      proof (cases "res = rp_Result reply")
        case True
        have "i \<notin> A" "finite A" using A(1) Cons.prems(2) finite_subset by auto
        then have "q \<le> m res + int (card (insert i A))" using A(2) True by simp
        then show ?thesis using A reply True by (intro exI [of _ "insert i A"]) auto
      next
        case False
        then show ?thesis using A by (intro exI [of _ A]) auto
      qed
    qed
  qed
qed simp

lemma distinct_cluster_ids:
  assumes "wf_topology t"
  shows "distinct (map srv_ID (ServersInCluster t c))"
proof -
  have "map srv_ID (Servers t) = [1 .. int (nat (NumClusters t)) * ClusterSize t]"
    using assms blocks_ids [of "ClusterSize t" "BasePort t" "Host t" "nat (NumClusters t)"]
    by (simp add: wf_topology_def New_def)
  then have "distinct (map srv_ID (Servers t))" by simp
  then show ?thesis by (simp add: ServersInCluster_def distinct_map_filter)
qed

text \<open>C30: A result the client takes as final was reported by at least \<open>f + 1\<close> different servers of the
  cluster that owns the debited item; so if at most \<open>f\<close> of them are faulty, a correct server reported it.\<close>

theorem client_result_sound:
  assumes wf: "wf_topology t" and got: "collect_result t lookup req = Some res"
    and faulty: "int (card Bad) \<le> F t" "finite Bad"
  shows "\<exists>i\<in>members t (ClusterOf t (r_X req)) - Bad. \<exists>reply. lookup i req = Inr (Some reply) \<and> rp_Result reply = res"
proof -
  let ?is = "map srv_ID (ServersInCluster t (ClusterOf t (r_X req)))"
  have F: "0 \<le> F t" using wf F_bounds by (simp add: wf_topology_def)
  have q: "0 < ClientQuorum t" using F by (simp add: ClientQuorum_def)
  have "distinct ?is" by (rule distinct_cluster_ids [OF wf])
  with got q obtain A where A: "A \<subseteq> set ?is" "ClientQuorum t \<le> int (card A)"
    "\<forall>i\<in>A. \<exists>reply. lookup i req = Inr (Some reply) \<and> rp_Result reply = res"
    using first_quorum_sound [of "ClientQuorum t" "\<lambda>i. lookup i req" ?is "\<lambda>_. 0" res]
    by (auto simp: collect_result_def)
  have "\<not> A \<subseteq> Bad"
  proof
    assume "A \<subseteq> Bad"
    then have "card A \<le> card Bad" using faulty(2) by (simp add: card_mono)
    then show False using A(2) faulty(1) by (simp add: ClientQuorum_def)
  qed
  then show ?thesis using A by (force simp: members_def)
qed

theorem client_result_sound_witness:
  "\<exists>i\<in>members sample_topo 1 - {2}. \<exists>reply. (if i \<le> 2 then Inr (Some (mk_reply sample_req 1 ResultCommitted)) else Inr None) =
     (Inr (Some reply) :: string + Reply option) \<and> rp_Result reply = ResultCommitted"
proof -
  let ?lookup = "\<lambda>i (req :: Request). (if i \<le> 2 then Inr (Some (mk_reply sample_req 1 ResultCommitted)) else Inr None) :: string + Reply option"
  have c: "ClusterOf sample_topo (r_X sample_req) = 1" by (simp add: sample_cluster sample_req_def)
  have wf: "wf_topology sample_topo" unfolding sample_topo_def by (rule wf_New) simp_all
  have "collect_result sample_topo ?lookup sample_req = Some ResultCommitted"
    by (simp add: collect_result_def c ServersInCluster_def ClientQuorum_def F_def go_div_def mk_reply_def)
  from client_result_sound [OF wf this, of "{2}"] show ?thesis by (simp add: c F_def go_div_def)
qed

subsection \<open>Round trip of the file format\<close>

text \<open>A test file as the graders write it: the first row of a set has its number and its server
  lists, the other rows only a transaction.\<close>

definition render_txn :: "Transaction \<Rightarrow> string" where
  "render_txn t = ''('' @ itoa (t_X t) @ '', '' @ itoa (t_Y t) @ '', '' @ itoa (sint (t_Amt t)) @ '')''"

fun render_ids :: "int list \<Rightarrow> string" where
  "render_ids [] = '']''"
| "render_ids [i] = server_name i @ '']''"
| "render_ids (i # is) = server_name i @ '', '' @ render_ids is"

definition render_servers :: "int list \<Rightarrow> string" where
  "render_servers ids = ''['' @ render_ids ids"

definition render_set :: "TestSet \<Rightarrow> string list list" where
  "render_set s =
     (case set_Txns s of
        [] \<Rightarrow> []
      | t # ts \<Rightarrow> [itoa (set_Number s), render_txn t, render_servers (set_Live s), render_servers (set_Contact s),
                  render_servers (set_Byzantine s)] # map (\<lambda>t. [[], render_txn t, [], [], []]) ts)"

definition in_range :: "int \<Rightarrow> bool" where
  "in_range n \<longleftrightarrow> 0 \<le> n \<and> n < 2 ^ 63"

definition plain_txn :: "Transaction \<Rightarrow> bool" where
  "plain_txn t \<longleftrightarrow> in_range (t_X t) \<and> in_range (t_Y t) \<and> 0 \<le> sint (t_Amt t)"

definition plain_set :: "TestSet \<Rightarrow> bool" where
  "plain_set s \<longleftrightarrow> set_Txns s \<noteq> [] \<and> (\<forall>t\<in>set (set_Txns s). plain_txn t) \<and>
     - (2 ^ 63) \<le> set_Number s \<and> set_Number s < 2 ^ 63 \<and>
     (\<forall>i\<in>set (set_Live s) \<union> set (set_Contact s) \<union> set (set_Byzantine s). in_range i)"

lemma digit_char_is_digit: "d < 10 \<Longrightarrow> is_digit (digit_char d)"
  by (simp add: is_digit_def)

lemma nat_digits_digits: "c \<in> set (nat_digits n) \<Longrightarrow> is_digit c"
  using nat_digits_chars digit_char_is_digit by blast

lemma not_digit: "\<not> is_digit (CHR '','')" "\<not> is_digit (CHR '')'')" "\<not> is_digit (CHR '']'')" "\<not> is_digit (CHR ''S'')"
  "\<not> is_digit (CHR '' '')" "\<not> is_digit (CHR ''['')"
  by (simp_all add: is_digit_def digit_val_def Let_def)

lemma digits1_nat:
  assumes "rest = [] \<or> \<not> is_digit (hd rest)"
  shows "digits1 (nat_digits n @ rest) = Some (nat_digits n, rest)"
proof -
  have "takeWhile is_digit (nat_digits n @ rest) = nat_digits n"
    using assms nat_digits_digits by (cases rest) (auto simp: takeWhile_append2)
  moreover have "dropWhile is_digit (nat_digits n @ rest) = rest"
    using assms nat_digits_digits by (cases rest) (auto simp: dropWhile_append2)
  ultimately show ?thesis by (simp add: digits1_def)
qed

lemma digits_int_nat: "in_range i \<Longrightarrow> digits_int (nat_digits (nat i)) = i"
  by (simp add: digits_int_def digits_val_nat_digits in_range_def)

lemma itoa_nat: "0 \<le> i \<Longrightarrow> itoa i = nat_digits (nat i)"
  by (simp add: itoa_def)

lemma is_digit_not_space: "is_digit c \<Longrightarrow> \<not> re_space c \<and> c \<noteq> CHR 0x0B"
  by (auto simp: is_digit_def re_space_def digit_val_def Let_def)

lemma hd_nat_digits: "\<exists>c cs. nat_digits n = c # cs \<and> is_digit c"
  using nat_digits_nonempty [of n] nat_digits_digits [of _ n] by (cases "nat_digits n") auto

text \<open>Trimming leaves a text alone that neither starts nor ends with a space.\<close>

lemma TrimSpace_id:
  assumes "\<not> re_space a" "a \<noteq> CHR 0x0B" "\<not> re_space b" "b \<noteq> CHR 0x0B" "s = a # u" "s = v @ [b]"
  shows "TrimSpace s = s"
proof -
  let ?sp = "\<lambda>c. re_space c \<or> c = CHR 0x0B"
  have "dropWhile ?sp s = s" using assms(1,2) by (simp add: assms(5))
  moreover have "dropWhile ?sp (rev s) = rev s" using assms(3,4) by (simp add: assms(6))
  ultimately show ?thesis by (simp add: TrimSpace_def Let_def)
qed

lemma TrimSpace_itoa: "TrimSpace (itoa i) = itoa i"
proof -
  have last: "\<exists>v b. nat_digits n = v @ [b] \<and> is_digit b" for n
    using nat_digits_nonempty [of n] nat_digits_digits [of _ n]
    by (cases "nat_digits n" rule: rev_cases) auto
  show ?thesis
  proof (cases "i < 0")
    case True
    obtain v b where b: "nat_digits (nat (- i)) = v @ [b]" "is_digit b" using last by blast
    show ?thesis
      by (rule TrimSpace_id [of "CHR ''-''" b _ "nat_digits (nat (- i))" "CHR ''-'' # v"])
         (use True b is_digit_not_space [of b] in \<open>simp_all add: itoa_def re_space_def\<close>)
  next
    case False
    obtain v b where b: "nat_digits (nat i) = v @ [b]" "is_digit b" using last by blast
    obtain c cs where c: "nat_digits (nat i) = c # cs" "is_digit c" using hd_nat_digits by blast
    show ?thesis
      by (rule TrimSpace_id [of c b _ cs v])
         (use False b c is_digit_not_space [of b] is_digit_not_space [of c] in \<open>simp_all add: itoa_def\<close>)
  qed
qed

lemma comma_nat: "comma ('', '' @ nat_digits n @ rest) = Some (nat_digits n @ rest)"
proof -
  obtain c cs where "nat_digits n = c # cs" "is_digit c" using hd_nat_digits by blast
  then show ?thesis using is_digit_not_space [of c] by (simp add: comma_def lit_def re_space_def)
qed

lemma parse_render_txn:
  assumes "plain_txn t"
  shows "parseTransaction (render_txn t) = Inr t"
proof -
  let ?x = "nat_digits (nat (t_X t))" and ?y = "nat_digits (nat (t_Y t))" and ?a = "nat_digits (nat (sint (t_Amt t)))"
  have r: "render_txn t = CHR ''('' # ?x @ '', '' @ ?y @ '', '' @ ?a @ '')''"
    using assms by (simp add: render_txn_def plain_txn_def in_range_def itoa_nat)
  have trim: "TrimSpace (render_txn t) = render_txn t"
    by (rule TrimSpace_id [of "CHR ''(''" "CHR '')''" _ _ "CHR ''('' # ?x @ '', '' @ ?y @ '', '' @ ?a"])
       (simp_all add: r re_space_def)
  have x: "digits1 (?x @ CHR '','' # rest) = Some (?x, CHR '','' # rest)" for rest
    by (rule digits1_nat) (simp add: not_digit)
  have y: "digits1 (?y @ CHR '','' # rest) = Some (?y, CHR '','' # rest)" for rest
    by (rule digits1_nat) (simp add: not_digit)
  have a: "digits1 (?a @ '')'') = Some (?a, '')'')"
    by (rule digits1_nat) (simp add: not_digit)
  have "txn_here (render_txn t) = Some (?x, ?y, ?a)"
    using comma_nat [of "nat (t_Y t)"] comma_nat [of "nat (sint (t_Amt t))"]
    by (simp add: r txn_here_def lit_def x y a)
  then have "txn_find (render_txn t) = Some (?x, ?y, ?a)" by (simp add: r)
  moreover have "in_range (sint (t_Amt t))"
    using assms sint_lt [of "t_Amt t"] by (simp add: plain_txn_def in_range_def)
  ultimately show ?thesis
    using assms by (simp add: parseTransaction_def trim digits_int_nat plain_txn_def)
qed

lemma server_ids_render: "\<forall>i\<in>set ids. in_range i \<Longrightarrow> server_ids (render_ids ids) = ids"
proof (induction ids rule: render_ids.induct)
  case (2 i)
  have "server_ids (server_name i @ '']'') = digits_int (nat_digits (nat i)) # server_ids '']''"
    using 2 digits1_nat [of "'']''" "nat i"] by (simp add: server_name_def itoa_nat in_range_def not_digit)
  then show ?case using 2 by (simp add: digits_int_nat)
next
  case (3 i j js)
  have "server_ids (server_name i @ '', '' @ render_ids (j # js)) =
      digits_int (nat_digits (nat i)) # server_ids ('', '' @ render_ids (j # js))"
    using 3 digits1_nat [of "'', '' @ render_ids (j # js)" "nat i"]
    by (simp add: server_name_def itoa_nat in_range_def not_digit)
  then show ?case using 3 by (simp add: digits_int_nat)
qed simp

lemma render_ids_end: "\<exists>v. render_ids ids = v @ '']''"
  by (induction ids rule: render_ids.induct) auto

lemma parse_render_servers:
  assumes "\<forall>i\<in>set ids. in_range i"
  shows "parseServerList (render_servers ids) = ids"
proof -
  obtain v where v: "render_ids ids = v @ '']''" using render_ids_end by blast
  have "TrimSpace (render_servers ids) = render_servers ids"
    by (rule TrimSpace_id [of "CHR ''[''" "CHR '']''" _ "v @ '']''" "CHR ''['' # v"])
       (simp_all add: render_servers_def v re_space_def)
  then show ?thesis using server_ids_render [OF assms] by (simp add: parseServerList_def render_servers_def Let_def)
qed

lemma TrimSpace_Nil [simp]: "TrimSpace [] = []"
  by (simp add: TrimSpace_def)

lemma parse_more_rows:
  assumes "\<forall>t\<in>set ts. plain_txn t"
  shows "parse_rows i (map (\<lambda>t. [[], render_txn t, [], [], []]) ts @ rest) (Some c) sets =
    parse_rows (i + length ts) rest (Some (c\<lparr>set_Txns := set_Txns c @ ts\<rparr>)) sets"
  using assms by (induction ts arbitrary: i c) (simp_all add: parse_render_txn)

lemma parse_set_rows:
  assumes "plain_set s"
  shows "parse_rows i (render_set s @ rest) cur sets =
    parse_rows (i + length (render_set s)) rest (Some s) (case cur of None \<Rightarrow> sets | Some c \<Rightarrow> sets @ [c])"
proof -
  obtain t ts where t: "set_Txns s = t # ts" using assms by (cases "set_Txns s") (simp_all add: plain_set_def)
  let ?row = "[itoa (set_Number s), render_txn t, render_servers (set_Live s), render_servers (set_Contact s),
               render_servers (set_Byzantine s)]"
  have num: "go_Atoi (itoa (set_Number s)) = Some (set_Number s)" using assms by (simp add: go_Atoi_def plain_set_def)
  have ne: "itoa (set_Number s) \<noteq> []" by (simp add: itoa_def)
  have head: "set_header (set_Number s) ?row = s\<lparr>set_Txns := []\<rparr>"
    using assms by (simp add: set_header_def parse_render_servers plain_set_def)
  have "parse_rows i (?row # map (\<lambda>t. [[], render_txn t, [], [], []]) ts @ rest) cur sets =
      parse_rows (Suc i) (map (\<lambda>t. [[], render_txn t, [], [], []]) ts @ rest) (Some (s\<lparr>set_Txns := [t]\<rparr>))
        (case cur of None \<Rightarrow> sets | Some c \<Rightarrow> sets @ [c])"
    using assms num ne head by (simp add: TrimSpace_itoa parse_render_txn plain_set_def t)
  also have "\<dots> = parse_rows (Suc i + length ts) rest (Some (s\<lparr>set_Txns := [t] @ ts\<rparr>))
      (case cur of None \<Rightarrow> sets | Some c \<Rightarrow> sets @ [c])"
    using assms by (subst parse_more_rows) (simp_all add: plain_set_def t)
  also have "s\<lparr>set_Txns := [t] @ ts\<rparr> = s" using t by simp
  finally show ?thesis by (simp add: render_set_def t)
qed

lemma parse_rendered:
  assumes "\<forall>s\<in>set ss. plain_set s"
  shows "parse_rows i (concat (map render_set ss)) cur sets = Inr (sets @ (case cur of None \<Rightarrow> [] | Some c \<Rightarrow> [c]) @ ss)"
  using assms
proof (induction ss arbitrary: i cur sets)
  case Nil
  then show ?case by (cases cur) simp_all
next
  case (Cons s ss)
  then show ?case by (cases cur) (simp_all add: parse_set_rows)
qed

text \<open>A CSV writer: each cell bare or between quotes (with its quotes doubled), as \<open>quote\<close> decides for its
  text. A cell with a comma, a quote or a line break cannot go bare.\<close>

definition csv_cell :: "(string \<Rightarrow> bool) \<Rightarrow> string \<Rightarrow> string" where
  "csv_cell quote w =
     (if quote w then CHR 0x22 # concat (map (\<lambda>c. if c = CHR 0x22 then [c, c] else [c]) w) @ [CHR 0x22] else w)"

fun csv_line :: "(string \<Rightarrow> bool) \<Rightarrow> string list \<Rightarrow> string" where
  "csv_line quote [] = [CHR 0x0A]"
| "csv_line quote [w] = csv_cell quote w @ [CHR 0x0A]"
| "csv_line quote (w # v # ws) = csv_cell quote w @ CHR '','' # csv_line quote (v # ws)"

definition csv_text :: "(string \<Rightarrow> bool) \<Rightarrow> string list list \<Rightarrow> string" where
  "csv_text quote rows = concat (map (csv_line quote) rows)"

definition quotes_enough :: "(string \<Rightarrow> bool) \<Rightarrow> bool" where
  "quotes_enough quote \<longleftrightarrow> (\<forall>w. set w \<inter> {CHR 0x22, CHR '','', CHR 0x0A} \<noteq> {} \<longrightarrow> quote w)"

lemma csv_quoted:
  "csv_read (Quoted u) fs recs (concat (map (\<lambda>c. if c = CHR 0x22 then [c, c] else [c]) w) @ CHR 0x22 # rest) =
   csv_read (Closed (u @ w)) fs recs rest"
  by (induction w arbitrary: u) simp_all

lemma csv_bare:
  "set w \<inter> {CHR 0x22, CHR '','', CHR 0x0A} = {} \<Longrightarrow>
   csv_read (Bare u) fs recs (w @ rest) = csv_read (Bare (u @ w)) fs recs rest"
  by (induction w arbitrary: u) auto

text \<open>A written cell, followed by a comma or by the end of a line of at least two cells.\<close>

lemma csv_cell_read:
  assumes "quotes_enough quote"
  shows "csv_read AtField fs recs (csv_cell quote w @ CHR '','' # rest) = csv_read AtField (fs @ [w]) recs rest"
    and "fs \<noteq> [] \<Longrightarrow> csv_read AtField fs recs (csv_cell quote w @ CHR 0x0A # rest) =
      (case csv_record recs (fs @ [w]) of Inl e \<Rightarrow> Inl e | Inr recs \<Rightarrow> csv_read AtField [] recs rest)"
proof -
  have bare: "set w \<inter> {CHR 0x22, CHR '','', CHR 0x0A} = {}" if "\<not> quote w"
    using assms that by (auto simp: quotes_enough_def)
  have q: "csv_read AtField fs recs (csv_cell quote w @ c # rest) = csv_read (Closed w) fs recs (c # rest)" if "quote w" for c
    using that csv_quoted [of "[]" fs recs w "c # rest"] by (simp add: csv_cell_def)
  have b: "csv_read AtField fs recs (csv_cell quote w @ c # rest) = csv_read (Bare w) fs recs (c # rest)"
    if "\<not> quote w" "w \<noteq> []" for c
    using that bare csv_bare [of "tl w" "[hd w]" fs recs "c # rest"] by (cases w) (auto simp: csv_cell_def)
  show "csv_read AtField fs recs (csv_cell quote w @ CHR '','' # rest) = csv_read AtField (fs @ [w]) recs rest"
    using q b by (cases "quote w"; cases "w = []") (simp_all add: csv_cell_def)
  show "csv_read AtField fs recs (csv_cell quote w @ CHR 0x0A # rest) =
      (case csv_record recs (fs @ [w]) of Inl e \<Rightarrow> Inl e | Inr recs \<Rightarrow> csv_read AtField [] recs rest)" if "fs \<noteq> []"
    using that q b by (cases "quote w"; cases "w = []") (simp_all add: csv_cell_def)
qed

lemma csv_line_read:
  assumes "quotes_enough quote" and "ws \<noteq> []" and "fs \<noteq> [] \<or> 2 \<le> length ws"
  shows "csv_read AtField fs recs (csv_line quote ws @ rest) =
    (case csv_record recs (fs @ ws) of Inl e \<Rightarrow> Inl e | Inr recs \<Rightarrow> csv_read AtField [] recs rest)"
  using assms
  by (induction quote ws arbitrary: fs rule: csv_line.induct) (simp_all add: csv_cell_read)

lemma csv_record_read:
  assumes "quotes_enough quote" and "2 \<le> length ws"
  shows "csv_read AtField [] recs (csv_line quote ws @ rest) =
    (case csv_record recs ws of Inl e \<Rightarrow> Inl e | Inr recs \<Rightarrow> csv_read AtField [] recs rest)"
proof -
  have "ws \<noteq> []" using assms(2) by auto
  with csv_line_read [OF assms(1) this, of "[]"] assms(2) show ?thesis by simp
qed

lemma csv_text_read:
  assumes "quotes_enough quote" and "2 \<le> n" and "\<forall>r\<in>set rows. length r = n" and "\<forall>r\<in>set recs. length r = n"
  shows "csv_read AtField [] recs (csv_text quote rows) = Inr (recs @ rows)"
  using assms(3,4)
proof (induction rows arbitrary: recs)
  case (Cons r rows)
  have "csv_record recs r = Inr (recs @ [r])" using Cons.prems by (cases recs) (simp_all add: csv_record_def)
  then show ?case
    using Cons assms(1,2) csv_record_read [of quote r recs "csv_text quote rows"] by (auto simp: csv_text_def)
qed (simp add: csv_text_def)

lemma crlf_id: "CHR 0x0D \<notin> set s \<Longrightarrow> crlf s = s"
  by (induction s rule: crlf.induct) auto

lemma csv_line_no_cr: "\<forall>w\<in>set ws. CHR 0x0D \<notin> set w \<Longrightarrow> CHR 0x0D \<notin> set (csv_line quote ws)"
  by (induction quote ws rule: csv_line.induct) (auto simp: csv_cell_def split: if_splits)

text \<open>Reading what was written.\<close>

lemma csv_roundtrip:
  assumes "quotes_enough quote" and "2 \<le> n" and "\<forall>r\<in>set rows. length r = n \<and> (\<forall>w\<in>set r. CHR 0x0D \<notin> set w)"
  shows "csv_ReadAll (csv_text quote rows) = Inr rows"
proof -
  have "CHR 0x0D \<notin> set (csv_text quote rows)" using assms(3) csv_line_no_cr by (auto simp: csv_text_def)
  then show ?thesis using csv_text_read [OF assms(1,2), of rows "[]"] assms(3) by (simp add: csv_ReadAll_def crlf_id)
qed

lemma no_cr: "CHR 0x0D \<notin> set (nat_digits n)" "CHR 0x0D \<notin> set (itoa i)" "CHR 0x0D \<notin> set (render_ids ids)"
proof -
  show nat: "CHR 0x0D \<notin> set (nat_digits n)" for n using nat_digits_digits [of "CHR 0x0D" n] by (auto simp: is_digit_def digit_val_def Let_def)
  show itoa: "CHR 0x0D \<notin> set (itoa i)" for i using nat by (simp add: itoa_def)
  show "CHR 0x0D \<notin> set (render_ids ids)"
    by (induction ids rule: render_ids.induct) (simp_all add: server_name_def itoa)
qed

lemma render_set_rows: "r \<in> set (render_set s) \<Longrightarrow> length r = 5 \<and> (\<forall>w\<in>set r. CHR 0x0D \<notin> set w)"
  by (auto simp: render_set_def render_txn_def render_servers_def no_cr split: list.splits)

lemma csv_wrong_header:
  assumes "quotes_enough quote" and "2 \<le> length header" and "length r \<noteq> length header" and "2 \<le> length r"
    and "\<forall>r\<in>set (header # r # rows). \<forall>w\<in>set r. CHR 0x0D \<notin> set w"
  shows "csv_ReadAll (csv_text quote (header # r # rows)) = Inl ErrFieldCount"
proof -
  have "CHR 0x0D \<notin> set (csv_text quote (header # r # rows))" using assms(5) csv_line_no_cr unfolding csv_text_def by fastforce
  then show ?thesis
    using csv_record_read [OF assms(1), of header "[]" "csv_text quote (r # rows)"]
      csv_record_read [OF assms(1), of r "[header]" "csv_text quote rows"] assms(2-4)
    by (auto simp: csv_ReadAll_def crlf_id csv_text_def csv_record_def)
qed

text \<open>C38: Reading a test file back, from its text. Take any sets with item and server numbers from 0 and
  amounts from 0 up to the largest 64-bit values, write one row of five cells per transaction, the
  first of each set with its number and its live, contact and Byzantine servers, in CSV with any
  choice of which cells to quote (those that must be, always), and either no header and at least two
  rows, or a header row of at least two cells whose first is not a number. Without a header, or with
  one of five cells, \<open>ParseFile\<close> reads exactly the sets back; with a header of any other number of
  cells it refuses the file, because the CSV reader takes the number of fields from the first row.\<close>

theorem test_file_roundtrip:
  assumes sets: "\<forall>s\<in>set ss. plain_set s" "ss \<noteq> []" and quote: "quotes_enough quote"
    and heads: "heads = [] \<and> 2 \<le> length (concat (map render_set ss)) \<or>
      heads = [header] \<and> 2 \<le> length header \<and> go_Atoi (TrimSpace (hd header)) = None \<and> (\<forall>w\<in>set header. CHR 0x0D \<notin> set w)"
  shows "ParseFile (\<lambda>_. Inr (csv_text quote (heads @ concat (map render_set ss)))) path =
    (if heads = [] \<or> length header = 5 then Inr \<lparr>file_Path = path, file_Sets = ss\<rparr> else Inl (ReadCsv ErrFieldCount))"
proof -
  let ?rows = "concat (map render_set ss)"
  obtain s rest where ss: "ss = s # rest" using sets(2) by (cases ss) auto
  obtain t ts where t: "set_Txns s = t # ts" using sets(1) by (cases "set_Txns s") (auto simp: plain_set_def ss)
  obtain r rows where r: "?rows = r # rows" "hd r = itoa (set_Number s)"
    by (simp add: ss render_set_def t)
  have five: "length w = 5 \<and> (\<forall>c\<in>set w. CHR 0x0D \<notin> set c)" if "w \<in> set ?rows" for w using that render_set_rows by auto
  then have r5: "length r = 5" by (simp add: r(1))
  then have num: "r \<noteq> []" "go_Atoi (TrimSpace (r ! 0)) \<noteq> None"
    using r(2) sets(1) by (auto simp: TrimSpace_itoa go_Atoi_def plain_set_def ss hd_conv_nth simp flip: length_greater_0_conv)
  have parse: "parse_rows i ?rows None [] = Inr ss" for i using parse_rendered [OF sets(1), of i None "[]"] by simp
  consider "heads = []" "2 \<le> length ?rows" | "heads = [header]" "length header = 5" | "heads = [header]" "length header \<noteq> 5"
    using heads by blast
  then show ?thesis
  proof cases
    case 1
    have "csv_ReadAll (csv_text quote ?rows) = Inr ?rows" by (rule csv_roundtrip [OF quote, of 5]) (use five in auto)
    then show ?thesis using 1 parse [of 0] num r by (auto simp: ParseFile_def Let_def simp del: parse_rows.simps)
  next
    case 2
    have "csv_ReadAll (csv_text quote (header # ?rows)) = Inr (header # ?rows)"
      by (rule csv_roundtrip [OF quote, of 5]) (use five heads 2 in auto)
    moreover have "header \<noteq> []" "go_Atoi (TrimSpace (header ! 0)) = None" using heads 2 by (auto simp: hd_conv_nth [of header] simp flip: length_greater_0_conv)
    ultimately show ?thesis using 2 parse [of 1] r by (simp add: ParseFile_def Let_def del: parse_rows.simps)
  next
    case 3
    have "csv_ReadAll (csv_text quote (header # r # rows)) = Inl ErrFieldCount"
      by (rule csv_wrong_header [OF quote]) (use 3 heads five r r5 in auto)
    then show ?thesis using 3 r by (simp add: ParseFile_def)
  qed
qed

definition sample_set :: TestSet where
  "sample_set = \<lparr>set_Number = 1, set_Txns = [\<lparr>t_X = 5, t_Y = 60, t_Amt = 3\<rparr>, \<lparr>t_X = 5, t_Y = 7, t_Amt = 2\<rparr>],
     set_Live = [1, 2, 3], set_Contact = [1, 5], set_Byzantine = []\<rparr>"

definition sample_header :: "string list" where
  "sample_header = [''Set Number'', ''Transactions (x,y,amt)'', ''Live'', ''Contact'', ''Byzantine'']"

theorem test_file_roundtrip_witness:
  "ParseFile (\<lambda>_. Inr (csv_text (\<lambda>_. True) ([sample_header] @ concat (map render_set [sample_set])))) ''t.csv'' =
     Inr \<lparr>file_Path = ''t.csv'', file_Sets = [sample_set]\<rparr>"
proof -
  have "ParseFile (\<lambda>_. Inr (csv_text (\<lambda>_. True) ([sample_header] @ concat (map render_set [sample_set])))) ''t.csv'' =
    (if [sample_header] = [] \<or> length sample_header = 5 then Inr \<lparr>file_Path = ''t.csv'', file_Sets = [sample_set]\<rparr>
     else Inl (ReadCsv ErrFieldCount))"
    by (rule test_file_roundtrip)
       (simp_all add: plain_set_def plain_txn_def in_range_def sample_set_def sample_header_def quotes_enough_def
          TrimSpace_def re_space_def go_Atoi_def digit_val_def Let_def)
  then show ?thesis by (simp add: sample_header_def)
qed

end
