(* ===== verification/Smallbank.thy ===== *)
theory Smallbank
  imports Testcase
begin

text \<open>
  The SmallBank workload (\<open>internal/smallbank\<close>): the placement of customers' accounts on the sharded
  items, the generator of operations, the skewed choice of customers, and the check that money is
  conserved. The random source is a parameter: a state and two operations on it.
\<close>

subsection \<open>Schema\<close>

record Schema =
  sc_Topo :: topology
  sc_CustomersPerCluster :: int
  sc_PenaltyAmount :: int64

definition NewSchema :: "topology \<Rightarrow> Schema" where
  "NewSchema t = \<lparr>sc_Topo = t, sc_CustomersPerCluster = 400, sc_PenaltyAmount = 1\<rparr>"

definition TotalCustomers :: "Schema \<Rightarrow> int" where
  "TotalCustomers s = sc_CustomersPerCluster s * NumClusters (sc_Topo s)"

definition clusterBase :: "Schema \<Rightarrow> int \<Rightarrow> int" where
  "clusterBase s cluster = (cluster - 1) * ItemsPerCluster (sc_Topo s) + 1"

definition CustCluster :: "Schema \<Rightarrow> int \<Rightarrow> int" where
  "CustCluster s cust =
     (if cust < 1 \<or> cust > TotalCustomers s then 1 else go_div (cust - 1) (sc_CustomersPerCluster s) + 1)"

definition SavingsItem :: "Schema \<Rightarrow> int \<Rightarrow> int" where
  "SavingsItem s cust =
     (let cluster = CustCluster s cust; local = go_mod (cust - 1) (sc_CustomersPerCluster s) + 1
      in clusterBase s cluster + (local - 1) * 2)"

definition CheckingItem :: "Schema \<Rightarrow> int \<Rightarrow> int" where
  "CheckingItem s cust = SavingsItem s cust + 1"

definition TreasuryItem :: "Schema \<Rightarrow> int \<Rightarrow> int" where
  "TreasuryItem s cluster = clusterBase s cluster + ItemsPerCluster (sc_Topo s) - 1"

definition AccountItems :: "Schema \<Rightarrow> int list" where
  "AccountItems s = concat (map (\<lambda>c. [SavingsItem s c, CheckingItem s c]) [1..TotalCustomers s])"

definition AllTrackedItems :: "Schema \<Rightarrow> int list" where
  "AllTrackedItems s = AccountItems s @ map (TreasuryItem s) [1..NumClusters (sc_Topo s)]"

definition Validate :: "Schema \<Rightarrow> int \<Rightarrow> string option" where
  "Validate s cust =
     (if cust < 1 \<or> cust > TotalCustomers s
      then Some (''custID '' @ itoa cust @ '' out of range 1..'' @ itoa (TotalCustomers s))
      else if \<not> SameCluster (sc_Topo s) (SavingsItem s cust) (CheckingItem s cust)
      then Some (''cust '' @ itoa cust @ '' spans clusters sav='' @ itoa (SavingsItem s cust) @ '' chk='' @ itoa (CheckingItem s cust))
      else None)"

subsection \<open>Operations\<close>

datatype Kind = KindBalance | KindDepositChecking | KindTransactSavings | KindAmalgamate | KindWriteCheck | KindSendPayment

record Op =
  op_Kind :: Kind
  op_Cust :: int
  op_Cust2 :: int
  op_Amt :: int64
  op_ReadOnly :: bool
  op_Penalty :: bool
  op_Requests :: "Request list"
  op_CrossShard :: bool

definition noOp :: "Kind \<Rightarrow> int \<Rightarrow> Op" where
  "noOp k cust = \<lparr>op_Kind = k, op_Cust = cust, op_Cust2 = 0, op_Amt = 0, op_ReadOnly = False, op_Penalty = False,
                  op_Requests = [], op_CrossShard = False\<rparr>"

record Generator =
  gn_Schema :: Schema
  gn_ClientID :: string
  gn_Seq :: int

definition NewGenerator :: "Schema \<Rightarrow> string \<Rightarrow> Generator" where
  "NewGenerator s client = \<lparr>gn_Schema = s, gn_ClientID = client, gn_Seq = 0\<rparr>"

definition nextReq :: "int \<Rightarrow> int \<Rightarrow> int64 \<Rightarrow> Generator \<Rightarrow> Request \<times> Generator" where
  "nextReq x y amt g =
     (let n = gn_Seq g + 1 in
      (\<lparr>r_ClientID = gn_ClientID g, r_TS = n, r_X = x, r_Y = y, r_Amt = amt, r_Op = OpEmpty\<rparr>, g\<lparr>gn_Seq := n\<rparr>))"

text \<open>The result of an operation and the generator after it; an error leaves the generator as it was.\<close>

definition DepositChecking :: "int \<Rightarrow> int64 \<Rightarrow> Generator \<Rightarrow> (string + Op) \<times> Generator" where
  "DepositChecking cust amt g =
     (let s = gn_Schema g in
      case Validate s cust of
        Some err \<Rightarrow> (Inl err, g)
      | None \<Rightarrow>
          (case nextReq (TreasuryItem s (CustCluster s cust)) (CheckingItem s cust) amt g of
             (req, g) \<Rightarrow> (Inr ((noOp KindDepositChecking cust)\<lparr>op_Amt := amt, op_Requests := [req]\<rparr>), g)))"

definition TransactSavings :: "int \<Rightarrow> int64 \<Rightarrow> Generator \<Rightarrow> (string + Op) \<times> Generator" where
  "TransactSavings cust amt g =
     (let s = gn_Schema g in
      case Validate s cust of
        Some err \<Rightarrow> (Inl err, g)
      | None \<Rightarrow>
          (let treasury = TreasuryItem s (CustCluster s cust); sav = SavingsItem s cust in
           case (if 0 \<le>s amt then nextReq treasury sav amt g else nextReq sav treasury (- amt) g) of
             (req, g) \<Rightarrow> (Inr ((noOp KindTransactSavings cust)\<lparr>op_Amt := amt, op_Requests := [req]\<rparr>), g)))"

definition SendPayment :: "int \<Rightarrow> int \<Rightarrow> int64 \<Rightarrow> Generator \<Rightarrow> (string + Op) \<times> Generator" where
  "SendPayment cust1 cust2 amt g =
     (let s = gn_Schema g in
      case Validate s cust1 of
        Some err \<Rightarrow> (Inl err, g)
      | None \<Rightarrow>
          (case Validate s cust2 of
             Some err \<Rightarrow> (Inl err, g)
           | None \<Rightarrow>
               (let x = CheckingItem s cust1; y = CheckingItem s cust2 in
                case nextReq x y amt g of
                  (req, g) \<Rightarrow> (Inr ((noOp KindSendPayment cust1)\<lparr>op_Cust2 := cust2, op_Amt := amt, op_Requests := [req],
                                    op_CrossShard := \<not> SameCluster (sc_Topo s) x y\<rparr>), g))))"

definition WriteCheck :: "int \<Rightarrow> int64 \<Rightarrow> bool \<Rightarrow> Generator \<Rightarrow> (string + Op) \<times> Generator" where
  "WriteCheck cust amt sufficient g =
     (let s = gn_Schema g in
      case Validate s cust of
        Some err \<Rightarrow> (Inl err, g)
      | None \<Rightarrow>
          (let chk = CheckingItem s cust; treasury = TreasuryItem s (CustCluster s cust) in
           if sufficient then
             (case nextReq chk treasury amt g of
                (req, g) \<Rightarrow> (Inr ((noOp KindWriteCheck cust)\<lparr>op_Amt := amt, op_Requests := [req]\<rparr>), g))
           else
             (case nextReq chk treasury amt g of
                (req, g) \<Rightarrow> (Inr ((noOp KindWriteCheck cust)\<lparr>op_Amt := amt, op_Penalty := True, op_Requests := [req]\<rparr>), g))))"

text \<open>One leg of \<open>Amalgamate\<close>: skipped for an amount that is not positive.\<close>

definition amalgamate_leg ::
    "int \<Rightarrow> int \<Rightarrow> int64 \<Rightarrow> Request list \<times> bool \<times> Generator \<Rightarrow> Request list \<times> bool \<times> Generator" where
  "amalgamate_leg x y amt acc =
     (case acc of (reqs, cross, g) \<Rightarrow>
        if 0 <s amt then
          (case nextReq x y amt g of
             (req, g) \<Rightarrow> (reqs @ [req], cross \<or> \<not> SameCluster (sc_Topo (gn_Schema g)) x y, g))
        else acc)"

definition Amalgamate :: "int \<Rightarrow> int \<Rightarrow> int64 \<Rightarrow> int64 \<Rightarrow> Generator \<Rightarrow> (string + Op) \<times> Generator" where
  "Amalgamate cust1 cust2 savingsAmt checkAmt g =
     (let s = gn_Schema g in
      case Validate s cust1 of
        Some err \<Rightarrow> (Inl err, g)
      | None \<Rightarrow>
          (case Validate s cust2 of
             Some err \<Rightarrow> (Inl err, g)
           | None \<Rightarrow>
               (case amalgamate_leg (CheckingItem s cust1) (CheckingItem s cust2) checkAmt
                       (amalgamate_leg (SavingsItem s cust1) (CheckingItem s cust2) savingsAmt ([], False, g)) of
                  (reqs, cross, g) \<Rightarrow>
                    if reqs = [] then
                      (Inl (''amalgamate '' @ itoa cust1 @ ''->'' @ itoa cust2 @ '': zero balances''), g)
                    else (Inr ((noOp KindAmalgamate cust1)\<lparr>op_Cust2 := cust2, op_Requests := reqs, op_CrossShard := cross\<rparr>), g))))"

definition Balance :: "int \<Rightarrow> Generator \<Rightarrow> (string + Op) \<times> Generator" where
  "Balance cust g =
     (case Validate (gn_Schema g) cust of
        Some err \<Rightarrow> (Inl err, g)
      | None \<Rightarrow> (Inr ((noOp KindBalance cust)\<lparr>op_ReadOnly := True\<rparr>), g))"

subsection \<open>Choosing customers\<close>

text \<open>The random source: \<open>rng_Hot\<close> is the test \<open>Float64() < hotFrac\<close>, \<open>rng_Intn n\<close> is \<open>Intn(n)\<close>.\<close>

record 'r rng =
  rng_Hot :: "'r \<Rightarrow> bool \<times> 'r"
  rng_Intn :: "int \<Rightarrow> 'r \<Rightarrow> int \<times> 'r"

record Picker =
  pk_Total :: int
  pk_NumClusters :: int
  pk_CustomersPerCluster :: int
  pk_HotPerCluster :: int

text \<open>\<open>hot\<close> is \<open>int(float64(totalCustomers) * hotsetFraction)\<close>.\<close>

definition NewPicker :: "int \<Rightarrow> int \<Rightarrow> int \<Rightarrow> int \<Rightarrow> Picker" where
  "NewPicker totalCustomers numClusters customersPerCluster hot =
     (let numClusters = (if numClusters < 1 then 1 else numClusters);
          customersPerCluster =
            (if customersPerCluster < 1 then
               (let c = go_div totalCustomers numClusters in if c < 1 then 1 else c)
             else customersPerCluster);
          hot = (if hot < numClusters then numClusters else hot);
          hotPerCluster = go_div hot numClusters;
          hotPerCluster = (if hotPerCluster < 1 then 1 else hotPerCluster)
      in \<lparr>pk_Total = totalCustomers, pk_NumClusters = numClusters, pk_CustomersPerCluster = customersPerCluster,
          pk_HotPerCluster = hotPerCluster\<rparr>)"

definition Pick :: "'r rng \<Rightarrow> Picker \<Rightarrow> 'r \<Rightarrow> int \<times> 'r" where
  "Pick R p r =
     (case rng_Hot R r of (hot, r) \<Rightarrow>
        if hot then
          (case rng_Intn R (pk_NumClusters p) r of (cluster, r) \<Rightarrow>
             (case rng_Intn R (pk_HotPerCluster p) r of (k, r) \<Rightarrow>
                (cluster * pk_CustomersPerCluster p + (1 + k), r)))
        else (case rng_Intn R (pk_Total p) r of (k, r) \<Rightarrow> (1 + k, r)))"

definition picker_Intn :: "'r rng \<Rightarrow> int \<Rightarrow> 'r \<Rightarrow> int \<times> 'r" where
  "picker_Intn R n r = (if n \<le> 0 then (0, r) else rng_Intn R n r)"

text \<open>The loop that picks until the second customer differs from the first need not end.\<close>

partial_function (option) pick_other :: "'r rng \<Rightarrow> Picker \<Rightarrow> int \<Rightarrow> 'r \<Rightarrow> (int \<times> 'r) option" where
  "pick_other R p c1 r =
     (case Pick R p r of (c2, r) \<Rightarrow> if c2 = c1 then pick_other R p c1 r else Some (c2, r))"

definition half :: "int64 \<Rightarrow> int64" where
  "half a = word_of_int (go_div (sint a) 2)"

definition RandomOp ::
    "'r rng \<Rightarrow> Picker \<Rightarrow> Kind \<Rightarrow> int64 \<Rightarrow> 'r \<Rightarrow> Generator \<Rightarrow> (((string + Op) \<times> Generator) \<times> 'r) option" where
  "RandomOp R p k amt r g =
     (case k of
        KindBalance \<Rightarrow> (case Pick R p r of (c, r) \<Rightarrow> Some (Balance c g, r))
      | KindDepositChecking \<Rightarrow> (case Pick R p r of (c, r) \<Rightarrow> Some (DepositChecking c amt g, r))
      | KindTransactSavings \<Rightarrow>
          (case Pick R p r of (c, r) \<Rightarrow>
             (case picker_Intn R 2 r of (b, r) \<Rightarrow>
                Some (if b = 0 then TransactSavings c amt g else TransactSavings c (half (- amt)) g, r)))
      | KindSendPayment \<Rightarrow>
          (case Pick R p r of (c1, r) \<Rightarrow>
             map_option (\<lambda>(c2, r). (SendPayment c1 c2 amt g, r)) (pick_other R p c1 r))
      | KindWriteCheck \<Rightarrow> (case Pick R p r of (c, r) \<Rightarrow> Some (WriteCheck c amt True g, r))
      | KindAmalgamate \<Rightarrow>
          (case Pick R p r of (c1, r) \<Rightarrow>
             map_option (\<lambda>(c2, r). (Amalgamate c1 c2 amt (half amt) g, r)) (pick_other R p c1 r)))"

definition UniformKinds :: "Kind list" where
  "UniformKinds = [KindBalance, KindDepositChecking, KindTransactSavings, KindAmalgamate, KindWriteCheck, KindSendPayment]"

subsection \<open>Summing balances\<close>

text \<open>\<open>bal\<close> is the remote call \<open>PrintBalance\<close>; a line without a balance is an error.\<close>

definition bench_parseBalanceLine :: "string \<Rightarrow> string + int64" where
  "bench_parseBalanceLine line =
     (case balance_find line of
        None \<Rightarrow> Inl (''parse balance line '' @ quoted line)
      | Some m \<Rightarrow> Inr (word_of_int (signed_int m)))"

definition read_balance :: "(int \<Rightarrow> int \<Rightarrow> string + string) \<Rightarrow> int \<Rightarrow> int \<Rightarrow> string + int64" where
  "read_balance bal srv item =
     (case bal srv item of
        Inl err \<Rightarrow> Inl (''balance item '' @ itoa item @ '' via '' @ server_name srv @ '': '' @ err)
      | Inr line \<Rightarrow> bench_parseBalanceLine line)"

fun read_items :: "(int \<Rightarrow> int \<Rightarrow> string + string) \<Rightarrow> int \<Rightarrow> int list \<Rightarrow> (int, int64) bucket \<Rightarrow> string + (int, int64) bucket" where
  "read_items bal srv [] seen = Inr seen"
| "read_items bal srv (item # items) seen =
     (case read_balance bal srv item of
        Inl err \<Rightarrow> Inl err
      | Inr b \<Rightarrow> read_items bal srv items (bput item b seen))"

text \<open>Only the clusters 1, 2 and 3 are visited.\<close>

fun read_clusters ::
    "(int \<Rightarrow> int \<Rightarrow> string + string) \<Rightarrow> topology \<Rightarrow> int list \<Rightarrow> int list \<Rightarrow> (int, int64) bucket \<Rightarrow> string + (int, int64) bucket" where
  "read_clusters bal t items [] seen = Inr seen"
| "read_clusters bal t items (c # cs) seen =
     (if c > NumClusters t then Inr seen
      else case read_items bal (PrimaryOf t c 0) (filter (\<lambda>i. ClusterOf t i = c) items) seen of
             Inl err \<Rightarrow> Inl err
           | Inr seen \<Rightarrow> read_clusters bal t items cs seen)"

definition SumBalances :: "(int \<Rightarrow> int \<Rightarrow> string + string) \<Rightarrow> topology \<Rightarrow> Schema \<Rightarrow> string + int64" where
  "SumBalances bal t s =
     (case read_clusters bal t (AllTrackedItems s) [1, 2, 3] [] of
        Inl err \<Rightarrow> Inl err
      | Inr seen \<Rightarrow> Inr (sum64 (map snd seen)))"

fun sum_items :: "(int \<Rightarrow> int \<Rightarrow> string + string) \<Rightarrow> int \<Rightarrow> int list \<Rightarrow> int64 \<Rightarrow> string + int64" where
  "sum_items bal srv [] subtotal = Inr subtotal"
| "sum_items bal srv (item # items) subtotal =
     (case read_balance bal srv item of
        Inl err \<Rightarrow> Inl err
      | Inr b \<Rightarrow> sum_items bal srv items (subtotal + b))"

fun sum_clusters ::
    "(int \<Rightarrow> int \<Rightarrow> string + string) \<Rightarrow> topology \<Rightarrow> int list \<Rightarrow> int list \<Rightarrow> (int, int64) bucket \<Rightarrow> string + (int, int64) bucket" where
  "sum_clusters bal t items [] per = Inr per"
| "sum_clusters bal t items (c # cs) per =
     (case sum_items bal (PrimaryOf t c 0) (filter (\<lambda>i. ClusterOf t i = c) items) 0 of
        Inl err \<Rightarrow> Inl err
      | Inr sub \<Rightarrow> sum_clusters bal t items cs (bput c sub per))"

definition SumBalancesByCluster ::
    "(int \<Rightarrow> int \<Rightarrow> string + string) \<Rightarrow> topology \<Rightarrow> Schema \<Rightarrow> string + (int, int64) bucket \<times> int64" where
  "SumBalancesByCluster bal t s =
     (case sum_clusters bal t (AllTrackedItems s) [1..NumClusters t] [] of
        Inl err \<Rightarrow> Inl err
      | Inr per \<Rightarrow> Inr (per, sum64 (map snd per)))"

record ClusterOutstanding =
  co_TotalWAL :: int
  co_TotalLocks :: int
  co_TxnIDs :: "string list"
  co_ByServer :: "(int, Outstanding) bucket"

definition add_outstanding :: "int \<Rightarrow> Outstanding \<Rightarrow> ClusterOutstanding \<Rightarrow> ClusterOutstanding" where
  "add_outstanding srv o1 c =
     c\<lparr>co_TotalWAL := co_TotalWAL c + int (WALCount o1), co_TotalLocks := co_TotalLocks c + int (LockCount o1),
       co_TxnIDs := fold (\<lambda>i ids. if i \<in> set ids then ids else ids @ [i]) (WALTxnIDs o1) (co_TxnIDs c),
       co_ByServer := bput srv o1 (co_ByServer c)\<rparr>"

text \<open>\<open>fetch\<close> is the remote call \<open>FetchOutstanding\<close>.\<close>

fun fetch_outstanding ::
    "(int \<Rightarrow> string + Outstanding) \<Rightarrow> topology \<Rightarrow> int list \<Rightarrow> ClusterOutstanding \<Rightarrow> string option \<times> ClusterOutstanding" where
  "fetch_outstanding fetch t [] c = (None, c)"
| "fetch_outstanding fetch t (k # ks) c =
     (case fetch (PrimaryOf t k 0) of
        Inl err \<Rightarrow> (Some err, c)
      | Inr o1 \<Rightarrow> fetch_outstanding fetch t ks (add_outstanding (PrimaryOf t k 0) o1 c))"

definition FetchClusterOutstanding :: "(int \<Rightarrow> string + Outstanding) \<Rightarrow> topology \<Rightarrow> string option \<times> ClusterOutstanding" where
  "FetchClusterOutstanding fetch t =
     fetch_outstanding fetch t [1..NumClusters t]
       \<lparr>co_TotalWAL = 0, co_TotalLocks = 0, co_TxnIDs = [], co_ByServer = []\<rparr>"

definition CheckConservation :: "int64 \<Rightarrow> int64 \<Rightarrow> int64 \<Rightarrow> string option" where
  "CheckConservation initial final penalties =
     (let want = initial - penalties in
      if final \<noteq> want
      then Some (''conservation violated: initial='' @ itoa (sint initial) @ '' penalties='' @ itoa (sint penalties) @
                 '' want='' @ itoa (sint want) @ '' got='' @ itoa (sint final))
      else None)"

subsection \<open>Workload metrics\<close>

record SampleRecord =
  sm_Kind :: Kind
  sm_CrossShard :: bool
  sm_Committed :: bool
  sm_SentAt :: "int option"
  sm_RepliedAt :: "int option"
  sm_Latency :: int

record WorkloadMetrics =
  wm_Records :: "SampleRecord list"
  wm_Penalties :: int64

definition AddPenalty :: "int64 \<Rightarrow> WorkloadMetrics \<Rightarrow> WorkloadMetrics" where
  "AddPenalty amt m = m\<lparr>wm_Penalties := wm_Penalties m + amt\<rparr>"

definition RecordSample :: "SampleRecord \<Rightarrow> WorkloadMetrics \<Rightarrow> WorkloadMetrics" where
  "RecordSample r m = m\<lparr>wm_Records := wm_Records m @ [r]\<rparr>"

text \<open>\<open>idx n\<close> is \<open>int(float64(n) * p)\<close>.\<close>

definition percentile :: "int list \<Rightarrow> (int \<Rightarrow> int) \<Rightarrow> int" where
  "percentile latencies idx =
     (if latencies = [] then 0
      else (let i = idx (int (length latencies) - 1); i = (if i < 0 then 0 else i) in sort latencies ! nat i))"

subsection \<open>The driver\<close>

definition prepare_fault :: "topology \<Rightarrow> server \<Rightarrow> FaultConfig" where
  "prepare_fault t srv =
     DefaultFaultConfig\<lparr>ClusterHonestLive := int (length (filter (\<lambda>x. srv_Cluster x = srv_Cluster srv) (Servers t)))\<rparr>"

record opMeta =
  om_Op :: Op
  om_SentAt :: int
  om_LastReq :: Request
  om_Done :: bool

definition countDone :: "opMeta list \<Rightarrow> int" where
  "countDone ms = int (length (filter om_Done ms))"

definition recordResult :: "opMeta \<Rightarrow> Result \<Rightarrow> int \<Rightarrow> WorkloadMetrics \<Rightarrow> WorkloadMetrics" where
  "recordResult m result now w =
     RecordSample \<lparr>sm_Kind = op_Kind (om_Op m), sm_CrossShard = op_CrossShard (om_Op m),
       sm_Committed = (result = ResultCommitted), sm_SentAt = Some (om_SentAt m), sm_RepliedAt = Some now,
       sm_Latency = now - om_SentAt m\<rparr> w"

definition tryResolve ::
    "topology \<Rightarrow> (int \<Rightarrow> Request \<Rightarrow> (string + Reply option)) \<Rightarrow> int \<Rightarrow> opMeta \<Rightarrow> WorkloadMetrics \<Rightarrow> bool \<times> opMeta \<times> WorkloadMetrics" where
  "tryResolve t lookup now m w =
     (case collect_result t lookup (om_LastReq m) of
        None \<Rightarrow> (False, m, w)
      | Some result \<Rightarrow> (True, m\<lparr>om_Done := True\<rparr>, recordResult m result now w))"

subsection \<open>The layout of accounts\<close>

definition schema_ok :: "Schema \<Rightarrow> bool" where
  "schema_ok s \<longleftrightarrow> wf_topology (sc_Topo s) \<and> 1 \<le> sc_CustomersPerCluster s \<and>
     2 * sc_CustomersPerCluster s < ItemsPerCluster (sc_Topo s)"

text \<open>An item is a block and a place in it.\<close>

definition place :: "topology \<Rightarrow> int \<Rightarrow> int \<Rightarrow> int" where
  "place t c off = (c - 1) * ItemsPerCluster t + off + 1"

lemma place_cluster:
  assumes "wf_topology t" "1 \<le> c" "c \<le> NumClusters t" "0 \<le> off" "off < ItemsPerCluster t"
  shows "ClusterOf t (place t c off) = c"
proof -
  let ?p = "ItemsPerCluster t"
  have p: "0 < ?p" using assms(4,5) by linarith
  have "(c - 1) * ?p + off = off + (c - 1) * ?p" by simp
  then have "((c - 1) * ?p + off) div ?p = c - 1" using p assms(4,5) by simp
  moreover have "0 \<le> (c - 1) * ?p + off" using p assms(2,4) by simp
  ultimately show ?thesis using p assms(2,3) by (simp add: ClusterOf_def place_def go_div_nonneg Let_def)
qed

lemma place_inj:
  assumes "place t c off = place t c' off'" "0 \<le> off" "off < ItemsPerCluster t" "0 \<le> off'" "off' < ItemsPerCluster t"
  shows "c = c' \<and> off = off'"
proof -
  have "(c - 1) * ItemsPerCluster t + off = (c' - 1) * ItemsPerCluster t + off'"
    using assms(1) by (simp add: place_def)
  from block_unique [OF this assms(2-5)] show ?thesis by simp
qed

lemma customer_place:
  assumes ok: "schema_ok s" and c: "1 \<le> cust" "cust \<le> TotalCustomers s"
  shows "SavingsItem s cust = place (sc_Topo s) (CustCluster s cust) (2 * ((cust - 1) mod sc_CustomersPerCluster s))"
    and "CheckingItem s cust = place (sc_Topo s) (CustCluster s cust) (2 * ((cust - 1) mod sc_CustomersPerCluster s) + 1)"
    and "CustCluster s cust = (cust - 1) div sc_CustomersPerCluster s + 1"
    and "1 \<le> CustCluster s cust" and "CustCluster s cust \<le> NumClusters (sc_Topo s)"
proof -
  let ?k = "sc_CustomersPerCluster s"
  have k: "0 < ?k" using ok by (simp add: schema_ok_def)
  show cl: "CustCluster s cust = (cust - 1) div ?k + 1"
    using c k by (simp add: CustCluster_def go_div_nonneg)
  have "(cust - 1) div ?k < NumClusters (sc_Topo s)"
    using c k int_le_div_iff [of ?k "NumClusters (sc_Topo s)" "cust - 1"]
    by (simp add: TotalCustomers_def mult.commute not_le [symmetric])
  then show "CustCluster s cust \<le> NumClusters (sc_Topo s)" by (simp add: cl)
  show "1 \<le> CustCluster s cust" using c k by (simp add: cl pos_imp_zdiv_nonneg_iff)
  show "SavingsItem s cust = place (sc_Topo s) (CustCluster s cust) (2 * ((cust - 1) mod ?k))"
    using c k by (simp add: SavingsItem_def clusterBase_def place_def go_mod_nonneg Let_def)
  then show "CheckingItem s cust = place (sc_Topo s) (CustCluster s cust) (2 * ((cust - 1) mod ?k) + 1)"
    by (simp add: CheckingItem_def place_def)
qed

lemma treasury_place: "TreasuryItem s c = place (sc_Topo s) c (ItemsPerCluster (sc_Topo s) - 1)"
  by (simp add: TreasuryItem_def clusterBase_def place_def)

lemma account_offset:
  assumes "schema_ok s"
  shows "0 \<le> 2 * ((cust - 1) mod sc_CustomersPerCluster s)"
    "2 * ((cust - 1) mod sc_CustomersPerCluster s) + 1 < ItemsPerCluster (sc_Topo s) - 1"
proof -
  have "(cust - 1) mod sc_CustomersPerCluster s < sc_CustomersPerCluster s" "0 \<le> (cust - 1) mod sc_CustomersPerCluster s"
    using assms by (simp_all add: schema_ok_def)
  then show "0 \<le> 2 * ((cust - 1) mod sc_CustomersPerCluster s)"
    "2 * ((cust - 1) mod sc_CustomersPerCluster s) + 1 < ItemsPerCluster (sc_Topo s) - 1"
    using assms by (simp_all add: schema_ok_def)
qed

lemma account_clusters:
  assumes ok: "schema_ok s" and c: "1 \<le> cust" "cust \<le> TotalCustomers s"
  shows "ClusterOf (sc_Topo s) (SavingsItem s cust) = CustCluster s cust"
    and "ClusterOf (sc_Topo s) (CheckingItem s cust) = CustCluster s cust"
  using account_offset [OF ok, of cust] ok customer_place(4,5) [OF ok c]
  by (simp_all add: customer_place(1,2) [OF ok c] place_cluster schema_ok_def)

lemma treasury_cluster:
  assumes "schema_ok s" "1 \<le> c" "c \<le> NumClusters (sc_Topo s)"
  shows "ClusterOf (sc_Topo s) (TreasuryItem s c) = c"
  using assms by (simp add: treasury_place place_cluster schema_ok_def wf_topology_def)

lemma customer_unique:
  assumes ok: "schema_ok s" and c: "1 \<le> a" "a \<le> TotalCustomers s" "1 \<le> b" "b \<le> TotalCustomers s" "a \<noteq> b"
  shows "{SavingsItem s a, CheckingItem s a} \<inter> {SavingsItem s b, CheckingItem s b} = {}"
proof -
  let ?k = "sc_CustomersPerCluster s"
  have cust: "a = b" if "CustCluster s a = CustCluster s b" "(a - 1) mod ?k = (b - 1) mod ?k"
  proof -
    have "(a - 1) div ?k = (b - 1) div ?k"
      using that(1) customer_place(3) [OF ok c(1,2)] customer_place(3) [OF ok c(3,4)] by simp
    then have "a - 1 = b - 1" using that(2) by (metis div_mult_mod_eq)
    then show ?thesis by simp
  qed
  have off: "0 \<le> 2 * ((x - 1) mod ?k)" "2 * ((x - 1) mod ?k) + 1 < ItemsPerCluster (sc_Topo s)" for x
    using account_offset [OF ok, of x] by simp_all
  note p = customer_place [OF ok c(1,2)] customer_place [OF ok c(3,4)]
  have "place (sc_Topo s) (CustCluster s a) (2 * ((a - 1) mod ?k) + i) \<noteq>
        place (sc_Topo s) (CustCluster s b) (2 * ((b - 1) mod ?k) + j)" if "i \<in> {0, 1}" "j \<in> {0, 1}" for i j
  proof
    assume "place (sc_Topo s) (CustCluster s a) (2 * ((a - 1) mod ?k) + i) =
        place (sc_Topo s) (CustCluster s b) (2 * ((b - 1) mod ?k) + j)"
    from place_inj [OF this] off [of a] off [of b] that
    have "CustCluster s a = CustCluster s b" "2 * ((a - 1) mod ?k) + i = 2 * ((b - 1) mod ?k) + j" by auto
    moreover from this(2) that have "(a - 1) mod ?k = (b - 1) mod ?k" by auto
    ultimately show False using cust c(5) by blast
  qed
  from this [of 0 0] this [of 0 1] this [of 1 0] this [of 1 1] show ?thesis by (auto simp: p(1,2,6,7))
qed

lemma treasury_not_account:
  assumes ok: "schema_ok s" and c: "1 \<le> cust" "cust \<le> TotalCustomers s"
  shows "TreasuryItem s k \<noteq> SavingsItem s cust" "TreasuryItem s k \<noteq> CheckingItem s cust"
proof -
  have off: "0 \<le> 2 * ((cust - 1) mod sc_CustomersPerCluster s)"
    "2 * ((cust - 1) mod sc_CustomersPerCluster s) + 1 < ItemsPerCluster (sc_Topo s) - 1"
    using account_offset [OF ok, of cust] by simp_all
  show "TreasuryItem s k \<noteq> SavingsItem s cust" "TreasuryItem s k \<noteq> CheckingItem s cust"
    unfolding treasury_place customer_place(1,2) [OF ok c]
    using place_inj [of "sc_Topo s" k "ItemsPerCluster (sc_Topo s) - 1" "CustCluster s cust"] off by force+
qed

lemma distinct_concat_map:
  "distinct xs \<Longrightarrow> \<forall>x\<in>set xs. distinct (f x) \<Longrightarrow> \<forall>x\<in>set xs. \<forall>y\<in>set xs. x \<noteq> y \<longrightarrow> set (f x) \<inter> set (f y) = {} \<Longrightarrow>
     distinct (concat (map f xs))"
proof (induction xs)
  case (Cons x xs)
  then have "set (f x) \<inter> \<Union> (set (map (\<lambda>x. set (f x)) xs)) = {}" by auto
  with Cons show ?case by auto
qed simp

lemma set_AccountItems: "set (AccountItems s) = (\<Union>c\<in>{1..TotalCustomers s}. {SavingsItem s c, CheckingItem s c})"
  by (simp add: AccountItems_def)

lemma distinct_AccountItems: "schema_ok s \<Longrightarrow> distinct (AccountItems s)"
  unfolding AccountItems_def
  by (rule distinct_concat_map) (simp_all add: CheckingItem_def customer_unique [unfolded CheckingItem_def])

lemma distinct_AllTrackedItems:
  assumes ok: "schema_ok s"
  shows "distinct (AllTrackedItems s)"
proof -
  have "inj_on (TreasuryItem s) A" for A
  proof (rule inj_onI)
    fix k k' assume eq: "TreasuryItem s k = TreasuryItem s k'"
    have "1 \<le> ItemsPerCluster (sc_Topo s)" using ok by (simp add: schema_ok_def wf_topology_def)
    then show "k = k'" using place_inj [OF eq [unfolded treasury_place]] by simp
  qed
  moreover have "set (AccountItems s) \<inter> TreasuryItem s ` {1..NumClusters (sc_Topo s)} = {}"
    using treasury_not_account [OF ok] by (fastforce simp: set_AccountItems)
  ultimately show ?thesis
    using distinct_AccountItems [OF ok] by (simp add: AllTrackedItems_def distinct_map)
qed

text \<open>The account layout, when two items per customer and one treasury fit into a cluster: every
  customer id in range is valid and both of its accounts lie in its own cluster, every treasury lies in
  its cluster, and no two of all these accounts and treasuries share an item.\<close>

theorem account_layout:
  assumes ok: "schema_ok s"
  shows "(\<forall>c\<in>{1..TotalCustomers s}. Validate s c = None \<and>
      ClusterOf (sc_Topo s) (SavingsItem s c) = CustCluster s c \<and> ClusterOf (sc_Topo s) (CheckingItem s c) = CustCluster s c) \<and>
    (\<forall>k\<in>{1..NumClusters (sc_Topo s)}. ClusterOf (sc_Topo s) (TreasuryItem s k) = k) \<and>
    distinct (AllTrackedItems s)"
proof (intro conjI ballI)
  fix c assume c: "c \<in> {1..TotalCustomers s}"
  then show cl: "ClusterOf (sc_Topo s) (SavingsItem s c) = CustCluster s c"
    "ClusterOf (sc_Topo s) (CheckingItem s c) = CustCluster s c"
    using account_clusters [OF ok, of c] by simp_all
  show "Validate s c = None" using c by (simp add: Validate_def SameCluster_def cl)
next
  fix k assume "k \<in> {1..NumClusters (sc_Topo s)}"
  then show "ClusterOf (sc_Topo s) (TreasuryItem s k) = k" using treasury_cluster [OF ok] by simp
qed (rule distinct_AllTrackedItems [OF ok])

theorem account_layout_witness:
  "Validate (NewSchema Default) 1200 = None \<and> ClusterOf Default (SavingsItem (NewSchema Default) 1200) = 3"
proof -
  have ok: "schema_ok (NewSchema Default)"
    using wf_Default by (simp add: schema_ok_def NewSchema_def) (simp add: Default_def ItemsPerCluster_def go_div_def)
  have tot: "TotalCustomers (NewSchema Default) = 1200" by (simp add: TotalCustomers_def NewSchema_def Default_def)
  have "CustCluster (NewSchema Default) 1200 = 3" by (simp add: CustCluster_def tot) (simp add: NewSchema_def go_div_def)
  with account_layout [OF ok] tot show ?thesis by (simp add: NewSchema_def)
qed

subsection \<open>Conservation\<close>

definition tracked :: "Schema \<Rightarrow> int set" where
  "tracked s = set (AllTrackedItems s)"

text \<open>What the six operations of the generator can produce, payments to oneself excepted. \<open>RandomOp\<close>
  never asks for one (\<open>random_op_generated\<close> below).\<close>

definition generated :: "Generator \<Rightarrow> Op \<Rightarrow> bool" where
  "generated g op \<longleftrightarrow>
     (\<exists>c amt. fst (DepositChecking c amt g) = Inr op \<or> fst (TransactSavings c amt g) = Inr op) \<or>
     (\<exists>c amt b. fst (WriteCheck c amt b g) = Inr op) \<or> (\<exists>c. fst (Balance c g) = Inr op) \<or>
     (\<exists>c c' a b. c \<noteq> c' \<and> (fst (SendPayment c c' a g) = Inr op \<or> fst (Amalgamate c c' a b g) = Inr op))"

definition moves_inside :: "Schema \<Rightarrow> Request \<Rightarrow> bool" where
  "moves_inside s req \<longleftrightarrow> r_X req \<in> tracked s \<and> r_Y req \<in> tracked s \<and> r_X req \<noteq> r_Y req"

lemma Validate_range: "Validate s c = None \<Longrightarrow> 1 \<le> c \<and> c \<le> TotalCustomers s"
  by (simp add: Validate_def split: if_splits)

lemma tracked_account:
  "1 \<le> c \<Longrightarrow> c \<le> TotalCustomers s \<Longrightarrow> SavingsItem s c \<in> tracked s \<and> CheckingItem s c \<in> tracked s"
  by (auto simp: tracked_def AllTrackedItems_def set_AccountItems)

lemma tracked_treasury: "1 \<le> k \<Longrightarrow> k \<le> NumClusters (sc_Topo s) \<Longrightarrow> TreasuryItem s k \<in> tracked s"
  by (auto simp: tracked_def AllTrackedItems_def)

text \<open>Three kinds of pairs of items occur in requests.\<close>

lemma treasury_pair:
  assumes ok: "schema_ok s" and v: "Validate s c = None"
  defines "k \<equiv> TreasuryItem s (CustCluster s c)"
  shows "k \<in> tracked s" "k \<noteq> SavingsItem s c" "k \<noteq> CheckingItem s c"
    "SameCluster (sc_Topo s) k (SavingsItem s c)" "SameCluster (sc_Topo s) k (CheckingItem s c)"
    "SameCluster (sc_Topo s) (SavingsItem s c) k" "SameCluster (sc_Topo s) (CheckingItem s c) k"
proof -
  note r = Validate_range [OF v, THEN conjunct1] Validate_range [OF v, THEN conjunct2]
  note cl = customer_place(4,5) [OF ok r]
  show "k \<in> tracked s" unfolding k_def by (rule tracked_treasury [OF cl])
  show "k \<noteq> SavingsItem s c" "k \<noteq> CheckingItem s c" unfolding k_def by (rule treasury_not_account [OF ok r])+
  show "SameCluster (sc_Topo s) k (SavingsItem s c)" "SameCluster (sc_Topo s) k (CheckingItem s c)"
    "SameCluster (sc_Topo s) (SavingsItem s c) k" "SameCluster (sc_Topo s) (CheckingItem s c) k"
    by (simp_all add: SameCluster_def k_def treasury_cluster [OF ok cl] account_clusters [OF ok r])
qed

lemma customer_pair:
  assumes "schema_ok s" "Validate s c = None" "Validate s c' = None" "c \<noteq> c'"
  shows "SavingsItem s c \<noteq> CheckingItem s c'" "CheckingItem s c \<noteq> CheckingItem s c'"
  using customer_unique [of s c c'] Validate_range [of s c] Validate_range [of s c'] assms by auto

lemma generated_requests:
  assumes ok: "schema_ok (gn_Schema g)" and op: "generated g op"
  shows "(\<forall>req\<in>set (op_Requests op). moves_inside (gn_Schema g) req) \<and>
    (op_CrossShard op \<longleftrightarrow> (\<exists>req\<in>set (op_Requests op). is_cross (sc_Topo (gn_Schema g)) req))"
proof -
  let ?s = "gn_Schema g"
  have acc: "SavingsItem ?s c \<in> tracked ?s" "CheckingItem ?s c \<in> tracked ?s" if "Validate ?s c = None" for c
    using tracked_account [of c ?s] Validate_range [OF that] by simp_all
  note simps = noOp_def nextReq_def moves_inside_def is_cross_def Let_def
  from op show ?thesis
    unfolding generated_def
  proof (elim disjE exE conjE)
    fix c amt assume "fst (DepositChecking c amt g) = Inr op"
    then show ?thesis using treasury_pair [OF ok, of c] acc [of c]
      by (auto simp: DepositChecking_def simps split: option.splits)
  next
    fix c amt assume "fst (TransactSavings c amt g) = Inr op"
    then show ?thesis using treasury_pair [OF ok, of c] acc [of c]
      by (auto simp: TransactSavings_def simps split: option.splits if_splits)
  next
    fix c amt b assume "fst (WriteCheck c amt b g) = Inr op"
    then show ?thesis using treasury_pair [OF ok, of c] acc [of c]
      by (auto simp: WriteCheck_def simps split: option.splits if_splits)
  next
    fix c assume "fst (Balance c g) = Inr op"
    then show ?thesis by (auto simp: Balance_def simps split: option.splits)
  next
    fix c c' a b assume "c \<noteq> c'" "fst (SendPayment c c' a g) = Inr op"
    then show ?thesis using customer_pair [OF ok, of c c'] acc [of c] acc [of c']
      by (auto simp: SendPayment_def simps split: option.splits)
  next
    fix c c' a b assume "c \<noteq> c'" "fst (Amalgamate c c' a b g) = Inr op"
    then show ?thesis using customer_pair [OF ok, of c c'] acc [of c] acc [of c']
      by (auto simp: Amalgamate_def amalgamate_leg_def simps split: option.splits if_splits)
  qed
qed

subsection \<open>Choosing two customers may go on for ever\<close>

text \<open>The successive picks from a state of the random source.\<close>

fun picks :: "'r rng \<Rightarrow> Picker \<Rightarrow> nat \<Rightarrow> 'r \<Rightarrow> int \<times> 'r" where
  "picks R p 0 r = Pick R p r"
| "picks R p (Suc n) r = picks R p n (snd (Pick R p r))"

lemma pick_other_finds:
  "(\<And>m. m < n \<Longrightarrow> fst (picks R p m r) = c) \<Longrightarrow> fst (picks R p n r) \<noteq> c \<Longrightarrow> pick_other R p c r = Some (picks R p n r)"
proof (induction n arbitrary: r)
  case 0
  then show ?case by (cases "Pick R p r") (simp add: pick_other.simps)
next
  case (Suc n)
  have "fst (Pick R p r) = c" using Suc.prems(1) [of 0] by simp
  moreover have "pick_other R p c (snd (Pick R p r)) = Some (picks R p n (snd (Pick R p r)))"
    using Suc.prems(1) [of "Suc _"] Suc.prems(2) by (intro Suc.IH) auto
  ultimately show ?case by (cases "Pick R p r") (simp add: pick_other.simps [of R p c r])
qed

lemma pick_other_differs:
  assumes "pick_other R p c r = Some y"
  shows "\<exists>n. fst (picks R p n r) \<noteq> c"
proof (rule pick_other.raw_induct [where P = "\<lambda>R p c r y. \<exists>n. fst (picks R p n r) \<noteq> c", OF _ assms])
  fix pick and R :: "'r rng" and p c r y
  assume IH: "\<And>R p c r y. pick R p c r = Some y \<Longrightarrow> \<exists>n. fst (picks R p n r) \<noteq> c"
    and step: "(case Pick R p r of (c2, r) \<Rightarrow> if c2 = c then pick R p c r else Some (c2, r)) = Some y"
  obtain c2 r2 where p: "Pick R p r = (c2, r2)" by (cases "Pick R p r")
  show "\<exists>n. fst (picks R p n r) \<noteq> c"
  proof (cases "c2 = c")
    case True
    then have "pick R p c r2 = Some y" using step by (simp add: p)
    then obtain n where "fst (picks R p n r2) \<noteq> c" using IH by blast
    then show ?thesis by (intro exI [of _ "Suc n"]) (simp add: p)
  next
    case False
    then show ?thesis by (intro exI [of _ 0]) (simp add: p)
  qed
qed

lemma pick_other_iff:
  "pick_other R p c r = (if \<exists>n. fst (picks R p n r) \<noteq> c then Some (picks R p (LEAST n. fst (picks R p n r) \<noteq> c) r) else None)"
proof (cases "\<exists>n. fst (picks R p n r) \<noteq> c")
  case True
  let ?n = "LEAST n. fst (picks R p n r) \<noteq> c"
  have "pick_other R p c r = Some (picks R p ?n r)"
  proof (rule pick_other_finds)
    show "fst (picks R p ?n r) \<noteq> c" using True by (rule LeastI_ex)
    show "fst (picks R p m r) = c" if "m < ?n" for m using not_less_Least [OF that] by simp
  qed
  with True show ?thesis by simp
next
  case False
  then show ?thesis using pick_other_differs [of R p c r] by (cases "pick_other R p c r") auto
qed

text \<open>So whatever \<open>RandomOp\<close> returns is an operation of the generator, between two different customers
  where there are two, and never one with a penalty.\<close>

lemma pick_other_not: "pick_other R p c r = Some (c2, r2) \<Longrightarrow> c2 \<noteq> c"
  unfolding pick_other_iff by (auto split: if_splits dest: LeastI_ex) (metis (mono_tags, lifting) LeastI fst_conv)

lemma random_op_generated:
  assumes "RandomOp R p k amt r g = Some ((Inr op, g'), r')"
  shows "generated g op \<and> \<not> op_Penalty op"
proof -
  obtain c r1 where c: "Pick R p r = (c, r1)" by (cases "Pick R p r")
  show ?thesis
  proof (cases k)
    case KindBalance
    then have "Balance c g = (Inr op, g')" using assms c by (simp add: RandomOp_def)
    then show ?thesis by (auto simp: generated_def Balance_def noOp_def fst_def split: option.splits)
  next
    case KindDepositChecking
    then have d: "DepositChecking c amt g = (Inr op, g')" using assms c by (simp add: RandomOp_def)
    then have "generated g op" unfolding generated_def by (metis fst_conv)
    then show ?thesis using d by (auto simp: DepositChecking_def noOp_def Let_def split: option.splits prod.splits)
  next
    case KindTransactSavings
    then have "\<exists>a. TransactSavings c a g = (Inr op, g')" using assms c by (auto simp: RandomOp_def split: prod.splits if_splits)
    then obtain a where d: "TransactSavings c a g = (Inr op, g')" by blast
    then have "generated g op" unfolding generated_def by (metis fst_conv)
    then show ?thesis using d by (auto simp: TransactSavings_def noOp_def Let_def split: option.splits prod.splits)
  next
    case KindWriteCheck
    then have d: "WriteCheck c amt True g = (Inr op, g')" using assms c by (simp add: RandomOp_def)
    then have "generated g op" unfolding generated_def by (metis fst_conv)
    then show ?thesis using d by (auto simp: WriteCheck_def noOp_def Let_def split: option.splits prod.splits)
  next
    case KindSendPayment
    then obtain c2 r2 where c2: "pick_other R p c r1 = Some (c2, r2)" and d: "SendPayment c c2 amt g = (Inr op, g')"
      using assms c by (auto simp: RandomOp_def)
    then have "generated g op" using pick_other_not [OF c2] unfolding generated_def by (metis fst_conv)
    then show ?thesis using d by (auto simp: SendPayment_def noOp_def Let_def split: option.splits prod.splits)
  next
    case KindAmalgamate
    then obtain c2 r2 where c2: "pick_other R p c r1 = Some (c2, r2)" and d: "Amalgamate c c2 amt (half amt) g = (Inr op, g')"
      using assms c by (auto simp: RandomOp_def)
    then have "generated g op" using pick_other_not [OF c2] unfolding generated_def by (metis fst_conv)
    then show ?thesis using d by (auto simp: Amalgamate_def noOp_def Let_def split: option.splits prod.splits if_splits)
  qed
qed

text \<open>C40: \<open>RandomOp\<close> returns except in one case: the kind needs two customers and every further pick
  of the random source is the customer picked first; then its loop never ends. Whenever it does return
  for such a kind, be it a payment or an amalgamation, the second customer is the first pick that
  differs, the random source is left right after that pick, and an operation that comes out names the
  two customers in this order and only takes from accounts of the first and pays into the checking
  account of the second.\<close>

theorem random_op_terminates:
  "let c = fst (Pick R p r); r1 = snd (Pick R p r); twice = (k = KindSendPayment \<or> k = KindAmalgamate) in
     (RandomOp R p k amt r g = None \<longleftrightarrow> twice \<and> (\<forall>n. fst (picks R p n r1) = c)) \<and>
     (\<forall>n. (\<forall>m. m < n \<longrightarrow> fst (picks R p m r1) = c) \<longrightarrow> fst (picks R p n r1) \<noteq> c \<longrightarrow> twice \<longrightarrow>
       (let c2 = fst (picks R p n r1);
            result = (if k = KindSendPayment then SendPayment c c2 amt g else Amalgamate c c2 amt (half amt) g)
        in RandomOp R p k amt r g = Some (result, snd (picks R p n r1)) \<and>
           (\<forall>op. fst result = Inr op \<longrightarrow> op_Kind op = k \<and> op_Cust op = c \<and> op_Cust2 op = c2 \<and>
              (\<forall>q\<in>set (op_Requests op). r_X q \<in> {SavingsItem (gn_Schema g) c, CheckingItem (gn_Schema g) c} \<and>
                 r_Y q = CheckingItem (gn_Schema g) c2))))"
proof -
  obtain c r1 where p: "Pick R p r = (c, r1)" by (cases "Pick R p r")
  have none: "RandomOp R p k amt r g = None \<longleftrightarrow>
      (k = KindSendPayment \<or> k = KindAmalgamate) \<and> (\<forall>n. fst (picks R p n r1) = c)"
    by (cases k) (auto simp: RandomOp_def p pick_other_iff [of R p c r1] split: prod.split)
  have some: "RandomOp R p KindSendPayment amt r g = Some (SendPayment c (fst (picks R p n r1)) amt g, snd (picks R p n r1))"
    "RandomOp R p KindAmalgamate amt r g = Some (Amalgamate c (fst (picks R p n r1)) amt (half amt) g, snd (picks R p n r1))"
    if "\<forall>m. m < n \<longrightarrow> fst (picks R p m r1) = c" "fst (picks R p n r1) \<noteq> c" for n
    using pick_other_finds [of n R p r1 c] that by (cases "picks R p n r1"; simp add: RandomOp_def p)+
  have pay: "fst (SendPayment c c2 amt g) = Inr op \<Longrightarrow> op_Kind op = KindSendPayment \<and> op_Cust op = c \<and> op_Cust2 op = c2 \<and>
      (\<forall>q\<in>set (op_Requests op). r_X q = CheckingItem (gn_Schema g) c \<and> r_Y q = CheckingItem (gn_Schema g) c2)" for c2 op
    by (auto simp: SendPayment_def nextReq_def noOp_def Let_def split: option.splits)
  have amalgamate: "fst (Amalgamate c c2 amt (half amt) g) = Inr op \<Longrightarrow> op_Kind op = KindAmalgamate \<and> op_Cust op = c \<and>
      op_Cust2 op = c2 \<and> (\<forall>q\<in>set (op_Requests op). r_X q \<in> {SavingsItem (gn_Schema g) c, CheckingItem (gn_Schema g) c} \<and>
         r_Y q = CheckingItem (gn_Schema g) c2)" for c2 op
    by (auto simp: Amalgamate_def amalgamate_leg_def nextReq_def noOp_def Let_def split: option.splits if_splits)
  show ?thesis
    unfolding p Let_def fst_conv snd_conv
  proof (intro conjI allI impI none)
    fix n assume n: "\<forall>m. m < n \<longrightarrow> fst (picks R p m r1) = c" "fst (picks R p n r1) \<noteq> c" and k: "k = KindSendPayment \<or> k = KindAmalgamate"
    let ?result = "if k = KindSendPayment then SendPayment c (fst (picks R p n r1)) amt g
      else Amalgamate c (fst (picks R p n r1)) amt (half amt) g"
    show "RandomOp R p k amt r g = Some (?result, snd (picks R p n r1))" using some [OF n] k by auto
    fix op assume "fst ?result = Inr op"
    then show "op_Kind op = k" "op_Cust op = c" "op_Cust2 op = fst (picks R p n r1)"
      "\<forall>q\<in>set (op_Requests op). r_X q \<in> {SavingsItem (gn_Schema g) c, CheckingItem (gn_Schema g) c} \<and>
          r_Y q = CheckingItem (gn_Schema g) (fst (picks R p n r1))"
      using k pay [of "fst (picks R p n r1)" op] amalgamate [of "fst (picks R p n r1)" op] by auto
  qed
qed

theorem random_op_terminates_witness:
  "RandomOp \<lparr>rng_Hot = \<lambda>r. (False, r), rng_Intn = \<lambda>n r. (r mod n, r + 1)\<rparr> (NewPicker 4 2 2 1) KindAmalgamate 5 (0 :: int)
     (NewGenerator (NewSchema sample_topo) ''c'') =
   Some (Amalgamate 1 2 5 (half 5) (NewGenerator (NewSchema sample_topo) ''c''), 2)"
  using random_op_terminates [of "\<lparr>rng_Hot = \<lambda>r. (False, r), rng_Intn = \<lambda>n r. (r mod n, r + 1)\<rparr>" "NewPicker 4 2 2 1" "0 :: int"
      KindAmalgamate 5 "NewGenerator (NewSchema sample_topo) ''c''"]
  by (auto simp: Pick_def NewPicker_def Let_def)

end
