(* ===== verification/Client.thy ===== *)
theory Client
  imports Transport Testcase
begin

text \<open>
  The in-process client (\<open>internal/pbft/client.go\<close>, \<open>internal/client/driver.go\<close>): collecting replies,
  submitting a request with a retry to everybody, the open-loop driver; and the configuration read
  from the environment (\<open>internal/config/config.go\<close>). An inject function delivers an envelope into a
  replica: it is a parameter over the state \<open>'w\<close> of the replicas and returns an error or none.
\<close>

type_synonym 'w inject = "envelope \<Rightarrow> 'w \<Rightarrow> string option \<times> 'w"

subsection \<open>Replies\<close>

type_synonym ReplyCollector = "Reply list"

definition collector_Record :: "Reply \<Rightarrow> ReplyCollector \<Rightarrow> ReplyCollector" where
  "collector_Record r c = c @ [r]"

definition reply_matches :: "Request \<Rightarrow> Result \<Rightarrow> Reply \<Rightarrow> bool" where
  "reply_matches req result r \<longleftrightarrow> rp_ClientID r = r_ClientID req \<and> rp_TS r = r_TS req \<and>
     rp_X r = r_X req \<and> rp_Y r = r_Y req \<and> rp_Amt r = r_Amt req \<and> rp_Result r = result"

definition MatchingCount :: "ReplyCollector \<Rightarrow> Request \<Rightarrow> Result \<Rightarrow> int" where
  "MatchingCount c req result = int (length (filter (reply_matches req result) c))"

text \<open>\<open>n\<close> looks before the deadline and one after it; the flag says that the deadline passed.\<close>

fun reply_WaitForQuorum :: "nat \<Rightarrow> Request \<Rightarrow> Result \<Rightarrow> int \<Rightarrow> (nat \<Rightarrow> ReplyCollector) \<Rightarrow> int \<times> bool" where
  "reply_WaitForQuorum 0 req result quorum obs = (MatchingCount (obs 0) req result, True)"
| "reply_WaitForQuorum (Suc n) req result quorum obs =
     (if MatchingCount (obs 0) req result \<ge> quorum then (MatchingCount (obs 0) req result, False)
      else reply_WaitForQuorum n req result quorum (\<lambda>i. obs (Suc i)))"

subsection \<open>Submission\<close>

text \<open>\<open>enc\<close> is the JSON encoding of a request.\<close>

definition client_envelope :: "(Request \<Rightarrow> bytes) \<Rightarrow> Request \<Rightarrow> envelope" where
  "client_envelope enc req =
     \<lparr>w_SenderId = 0, w_Type = ''CLIENT_REQUEST'', w_Payload = enc req, w_Signature = None\<rparr>"

definition SubmitRequest :: "(Request \<Rightarrow> bytes) \<Rightarrow> 'w inject \<Rightarrow> Request \<Rightarrow> 'w \<Rightarrow> string option \<times> 'w" where
  "SubmitRequest enc inject req w = inject (client_envelope enc req) w"

fun inject_all :: "'w inject list \<Rightarrow> envelope \<Rightarrow> 'w \<Rightarrow> string option \<times> 'w" where
  "inject_all [] env w = (None, w)"
| "inject_all (inject # is) env w =
     (case inject env w of (Some err, w) \<Rightarrow> (Some err, w) | (None, w) \<Rightarrow> inject_all is env w)"

definition SubmitToAll :: "(Request \<Rightarrow> bytes) \<Rightarrow> 'w inject list \<Rightarrow> Request \<Rightarrow> 'w \<Rightarrow> string option \<times> 'w" where
  "SubmitToAll enc injects req w = inject_all injects (client_envelope enc req) w"

text \<open>The outcome is the count and what went wrong; \<open>n1\<close> and \<open>n2\<close> are the looks of the two waits, and
  \<open>obs1\<close>, \<open>obs2\<close> what they see.\<close>

datatype submit_error = NoError | InjectError string | DeadlineExceeded

definition waited :: "int \<times> bool \<Rightarrow> int \<times> submit_error" where
  "waited r = (fst r, if snd r then DeadlineExceeded else NoError)"

definition SubmitWithRetry ::
    "(Request \<Rightarrow> bytes) \<Rightarrow> 'w inject \<Rightarrow> 'w inject list \<Rightarrow> Request \<Rightarrow> int \<Rightarrow> nat \<Rightarrow> nat \<Rightarrow>
     (nat \<Rightarrow> ReplyCollector) \<Rightarrow> (nat \<Rightarrow> ReplyCollector) \<Rightarrow> 'w \<Rightarrow> (int \<times> submit_error) \<times> 'w" where
  "SubmitWithRetry enc primary all req quorum n1 n2 obs1 obs2 w =
     (case SubmitRequest enc primary req w of
        (Some err, w) \<Rightarrow> ((0, InjectError err), w)
      | (None, w) \<Rightarrow>
          (let r = reply_WaitForQuorum n1 req ResultCommitted quorum obs1 in
           if \<not> snd r then (waited r, w)
           else (case SubmitToAll enc all req w of
                   (Some err, w) \<Rightarrow> ((MatchingCount (obs2 0) req ResultCommitted, InjectError err), w)
                 | (None, w) \<Rightarrow> (waited (reply_WaitForQuorum n2 req ResultCommitted quorum obs2), w))))"

text \<open>The waits of the topology in looks of 20 milliseconds.\<close>

definition SubmitWithRetryForTopo ::
    "topology \<Rightarrow> (Request \<Rightarrow> bytes) \<Rightarrow> 'w inject \<Rightarrow> 'w inject list \<Rightarrow> Request \<Rightarrow>
     (nat \<Rightarrow> ReplyCollector) \<Rightarrow> (nat \<Rightarrow> ReplyCollector) \<Rightarrow> 'w \<Rightarrow> (int \<times> submit_error) \<times> 'w" where
  "SubmitWithRetryForTopo t enc primary all req obs1 obs2 w =
     (let tm = DefaultTunables t in
      SubmitWithRetry enc primary all req (ClientQuorum t)
        (nat (go_div (ClientPrimaryWait tm) 20)) (nat (go_div (ClientTotalWait tm) 20)) obs1 obs2 w)"

subsection \<open>The open-loop driver\<close>

record 'w Driver =
  dr_Topo :: topology
  dr_Injectors :: "int \<Rightarrow> 'w inject option"
  dr_View :: int

definition NewDriver :: "topology \<Rightarrow> (int \<Rightarrow> 'w inject option) \<Rightarrow> 'w Driver" where
  "NewDriver t injectors = \<lparr>dr_Topo = t, dr_Injectors = injectors, dr_View = 0\<rparr>"

definition SetView :: "int \<Rightarrow> 'w Driver \<Rightarrow> 'w Driver" where
  "SetView view d = d\<lparr>dr_View := view\<rparr>"

definition Fire :: "(Request \<Rightarrow> bytes) \<Rightarrow> 'w Driver \<Rightarrow> Request \<Rightarrow> 'w \<Rightarrow> string option \<times> 'w" where
  "Fire enc d req w =
     (let p = PrimaryOf (dr_Topo d) (ClusterOf (dr_Topo d) (r_X req)) (dr_View d) in
      case dr_Injectors d p of
        None \<Rightarrow> (Some (''no injector for primary '' @ server_name p), w)
      | Some inject \<Rightarrow> SubmitRequest enc inject req w)"

fun FireOpenLoop :: "(Request \<Rightarrow> bytes) \<Rightarrow> 'w Driver \<Rightarrow> Request list \<Rightarrow> 'w \<Rightarrow> string option \<times> 'w" where
  "FireOpenLoop enc d [] w = (None, w)"
| "FireOpenLoop enc d (req # reqs) w =
     (case Fire enc d req w of (Some err, w) \<Rightarrow> (Some err, w) | (None, w) \<Rightarrow> FireOpenLoop enc d reqs w)"

text \<open>One goroutine per request, in the order they get their turn; errors are ignored.\<close>

definition FireConcurrent :: "(Request list \<Rightarrow> Request list) \<Rightarrow> (Request \<Rightarrow> bytes) \<Rightarrow> 'w Driver \<Rightarrow> Request list \<Rightarrow> 'w \<Rightarrow> 'w" where
  "FireConcurrent order enc d reqs w = fold (\<lambda>req w. snd (Fire enc d req w)) (order reqs) w"

definition Driver_MatchingCount :: "ReplyCollector \<Rightarrow> Request \<Rightarrow> Result \<Rightarrow> int" where
  "Driver_MatchingCount c req result = MatchingCount c req result"

definition Driver_WaitFor :: "'w Driver \<Rightarrow> nat \<Rightarrow> Request \<Rightarrow> Result \<Rightarrow> (nat \<Rightarrow> ReplyCollector) \<Rightarrow> int \<times> bool" where
  "Driver_WaitFor d n req result obs = reply_WaitForQuorum n req result (ClientQuorum (dr_Topo d)) obs"

subsection \<open>Configuration\<close>

text \<open>\<open>env\<close> is the environment; a variable that is not set is empty.\<close>

definition envInt :: "(string \<Rightarrow> string) \<Rightarrow> string \<Rightarrow> int \<Rightarrow> int" where
  "envInt env key d =
     (let v = env key in if v = [] then d else case go_Atoi v of None \<Rightarrow> d | Some n \<Rightarrow> n)"

definition Load :: "(string \<Rightarrow> string) \<Rightarrow> topology" where
  "Load env =
     (let d = Default;
          host = (if env ''BYZ_HOST'' \<noteq> [] then env ''BYZ_HOST'' else Host d)
      in New (envInt env ''BYZ_NUM_CLUSTERS'' (NumClusters d)) (envInt env ''BYZ_CLUSTER_SIZE'' (ClusterSize d))
           (envInt env ''BYZ_TOTAL_ITEMS'' (TotalItems d)) (envInt env ''BYZ_BASE_PORT'' (BasePort d)) host
           (InitialBalance d))"

text \<open>Rendering as JSON takes a prefix and an indent; \<open>marshal_indent\<close> is the encoder.\<close>

definition Topology_JSON :: "(string \<Rightarrow> string \<Rightarrow> topology \<Rightarrow> string + bytes) \<Rightarrow> topology \<Rightarrow> string + bytes" where
  "Topology_JSON marshal_indent t = marshal_indent [] ''  '' t"

text \<open>\<open>strings.ToUpper\<close> of a character, and what \<open>Atoi\<close> says of a text it refuses.\<close>

definition to_upper :: "char \<Rightarrow> char" where
  "to_upper c = (let n = of_char c :: nat in if 97 \<le> n \<and> n \<le> 122 then char_of (n - 32) else c)"

definition Atoi_error :: "string \<Rightarrow> string" where
  "Atoi_error s = ''strconv.Atoi: parsing '' @ quoted s @ '': '' @
     (if Atoi s = None then ''invalid syntax'' else ''value out of range'')"

definition ParseServerID :: "string \<Rightarrow> string + int" where
  "ParseServerID s =
     (let s = map to_upper (TrimSpace s);
          s = (case s of c # cs \<Rightarrow> if c = CHR ''S'' then cs else s | [] \<Rightarrow> s)
      in case go_Atoi s of
           None \<Rightarrow> Inl (''invalid server id '' @ quoted s @ '': '' @ Atoi_error s)
         | Some n \<Rightarrow> Inr n)"

lemma TrimSpace_server_name: "TrimSpace (server_name i) = server_name i"
proof -
  obtain v b where b: "itoa i = v @ [b]" "is_digit b"
  proof -
    have "\<exists>v b. nat_digits n = v @ [b] \<and> is_digit b" for n
      using nat_digits_nonempty [of n] nat_digits_digits [of _ n] by (cases "nat_digits n" rule: rev_cases) auto
    then obtain v b v' b' where "nat_digits (nat i) = v @ [b]" "is_digit b"
      "nat_digits (nat (- i)) = v' @ [b']" "is_digit b'" by blast
    then show thesis using that [of v b] that [of "CHR ''-'' # v'" b'] by (cases "i < 0") (simp_all add: itoa_def)
  qed
  show ?thesis
    by (rule TrimSpace_id [of "CHR ''S''" b _ "itoa i" "CHR ''S'' # v"])
       (use b is_digit_not_space [of b] in \<open>simp_all add: server_name_def re_space_def\<close>)
qed

lemma to_upper_digits: "map to_upper (nat_digits n) = nat_digits n"
proof (rule map_idI)
  fix c assume "c \<in> set (nat_digits n)"
  then obtain d where "d < 10" "c = digit_char d" using nat_digits_chars by blast
  then show "to_upper c = c" by (simp add: to_upper_def digit_char_code)
qed

lemma to_upper_server_name: "map to_upper (server_name i) = server_name i"
  by (simp add: server_name_def itoa_def to_upper_digits) (simp add: to_upper_def)

lemma ParseServerID_server_name: "- (2 ^ 63) \<le> i \<Longrightarrow> i < 2 ^ 63 \<Longrightarrow> ParseServerID (server_name i) = Inr i"
  by (simp add: ParseServerID_def TrimSpace_server_name to_upper_server_name)
     (simp add: server_name_def go_Atoi_def)

text \<open>A wait that ends before its deadline has seen the quorum.\<close>

lemma WaitForQuorum_ok:
  "reply_WaitForQuorum n req result quorum obs = (k, False) \<Longrightarrow> quorum \<le> k \<and> (\<exists>i<n. k = MatchingCount (obs i) req result)"
proof (induction n arbitrary: obs)
  case (Suc n)
  show ?case
  proof (cases "MatchingCount (obs 0) req result \<ge> quorum")
    case True
    then show ?thesis using Suc.prems by auto
  next
    case False
    then have "quorum \<le> k \<and> (\<exists>i<n. k = MatchingCount (obs (Suc i)) req result)" using Suc by simp
    then show ?thesis by auto
  qed
qed simp

end
