(* ===== verification/Endtoend.thy ===== *)
theory Endtoend
  imports Wellformed Smallbank Client
begin

text \<open>
  The components together: what the test-case runner's sending order means for the coordinator, and
  what a request with a negative amount does to a store.
\<close>

subsection \<open>The sending order and the timestamps\<close>

lemma stage_nth: "i < length txns \<Longrightarrow> stage client ts txns ! i =
    \<lparr>r_ClientID = client, r_TS = ts + int i + 1, r_X = t_X (txns ! i), r_Y = t_Y (txns ! i), r_Amt = t_Amt (txns ! i), r_Op = OpEmpty\<rparr>"
proof (induction txns arbitrary: ts i)
  case (Cons t txns)
  then show ?case by (cases i) simp_all
qed simp

lemma stage_length [simp]: "length (stage client ts txns) = length txns"
  by (induction txns arbitrary: ts) simp_all

lemma executed_intra_stamps:
  assumes "ApplyTransfer (eStore e) (r_X b) (r_Y b) (r_Amt b) = Inr st" "key_ok (r_ClientID b)"
  shows "GetClientTS (eStore (executeIntra C e b seq)) (r_ClientID b) = r_TS b"
proof -
  have rel: "GetClientTS (fold (\<lambda>i s. ReleaseLock s i) is s) c = GetClientTS s c" for "is" s c
    by (induction "is" arbitrary: s) (simp_all add: store_simps)
  show ?thesis
    using assms by (simp add: executeIntra_def sendClientReply_def releaseLocksForOp_def on_store_def Let_def rel store_simps emit_def)
qed

lemma stale_request_refused:
  "r_TS a \<le> GetClientTS (eStore (n_Engine n)) (r_ClientID a) \<Longrightarrow> HandleClientRequest C a n = (False, n)"
  by (simp add: HandleClientRequest_def Let_def)

text \<open>The runner defeats the coordinator's timestamp check. It numbers the transactions of a set
  in file order under one client, but sends the cross-shard ones after all others. So when a transfer
  between clusters is listed before an ordinary one, a coordinator that has executed the ordinary one
  refuses the cross-shard request without starting anything and without a reply.\<close>

theorem reordered_cross_request_refused:
  fixes r :: runner and s :: TestSet
  defines "reqs \<equiv> pending_requests r s"
  assumes listed: "i < j" "j < length (set_Txns s)" and kinds: "is_cross (rn_Topo r) (reqs ! i)" "\<not> is_cross (rn_Topo r) (reqs ! j)"
    and funds: "ApplyTransfer (eStore e) (r_X (reqs ! j)) (r_Y (reqs ! j)) (r_Amt (reqs ! j)) = Inr st"
    and client: "key_ok (rn_ClientID r)" and ran: "n_Engine n = executeIntra C e (reqs ! j) seq"
  shows "(\<exists>us vs ws. send_order r s = us @ reqs ! j # vs @ reqs ! i # ws) \<and> HandleClientRequest C (reqs ! i) n = (False, n)"
proof -
  have len: "length reqs = length (set_Txns s)" by (simp add: reqs_def pending_requests_def)
  have mem: "reqs ! i \<in> set (filter (is_cross (rn_Topo r)) reqs)" "reqs ! j \<in> set (filter (\<lambda>q. \<not> is_cross (rn_Topo r) q) reqs)"
    using listed kinds len by simp_all
  obtain us vs where u: "filter (\<lambda>q. \<not> is_cross (rn_Topo r) q) reqs = us @ reqs ! j # vs" using split_list [OF mem(2)] by blast
  obtain vs' ws where v: "filter (is_cross (rn_Topo r)) reqs = vs' @ reqs ! i # ws" using split_list [OF mem(1)] by blast
  have order: "send_order r s = us @ reqs ! j # (vs @ vs') @ reqs ! i # ws"
    using u v by (simp add: send_order_def reqs_def)
  have "r_TS (reqs ! i) \<le> r_TS (reqs ! j)" "r_ClientID (reqs ! i) = r_ClientID (reqs ! j)" "r_ClientID (reqs ! j) = rn_ClientID r"
    using listed by (simp_all add: reqs_def pending_requests_def stage_nth)
  then have "r_TS (reqs ! i) \<le> GetClientTS (eStore (n_Engine n)) (r_ClientID (reqs ! i))"
    using executed_intra_stamps [OF funds, of C seq] client by (simp add: ran)
  with order show ?thesis by (blast intro: stale_request_refused)
qed

theorem reordered_cross_request_refused_witness:
  "let reqs = pending_requests (NewRunner sample_topo) sample_set;
       n = (sample_node 1)\<lparr>n_Engine := executeIntra plain_crypto (sample_engine 1) (reqs ! 1) 1\<rparr>
   in HandleClientRequest plain_crypto (reqs ! 0) n = (False, n)"
proof -
  let ?reqs = "pending_requests (NewRunner sample_topo) sample_set"
  let ?n = "(sample_node 1)\<lparr>n_Engine := executeIntra plain_crypto (sample_engine 1) (?reqs ! 1) 1\<rparr>"
  have reqs: "?reqs ! 0 = \<lparr>r_ClientID = ''lab4-client'', r_TS = 1, r_X = 5, r_Y = 60, r_Amt = 3, r_Op = OpEmpty\<rparr>"
    "?reqs ! 1 = \<lparr>r_ClientID = ''lab4-client'', r_TS = 2, r_X = 5, r_Y = 7, r_Amt = 2, r_Op = OpEmpty\<rparr>"
    by (simp_all add: pending_requests_def NewRunner_def sample_set_def)
  have kinds: "is_cross (rn_Topo (NewRunner sample_topo)) (?reqs ! 0)" "\<not> is_cross (rn_Topo (NewRunner sample_topo)) (?reqs ! 1)"
    unfolding reqs by (simp_all add: NewRunner_def is_cross_def SameCluster_def ClusterOf_def ItemsPerCluster_def go_div_def)
  have listed: "(0 :: nat) < 1" "1 < length (set_Txns sample_set)" by (simp_all add: sample_set_def)
  obtain st where "ApplyTransfer (eStore (sample_engine 1)) (r_X (?reqs ! 1)) (r_Y (?reqs ! 1)) (r_Amt (?reqs ! 1)) = Inr st"
    unfolding reqs by (simp add: ApplyTransfer_def Let_def)
  then have "HandleClientRequest plain_crypto (?reqs ! 0) ?n = (False, ?n)"
    by (rule reordered_cross_request_refused [THEN conjunct2, OF listed kinds]) (simp_all add: NewRunner_def key_ok_def)
  then show ?thesis by (simp add: Let_def)
qed

subsection \<open>Negative amounts\<close>

text \<open>Nobody checks the sign of an amount. A primary starts an ordinary request with a negative
  amount like any other, and executing it moves the money from \<open>y\<close> to \<open>x\<close> with no look at the balance
  of \<open>y\<close>: after it the balance of \<open>y\<close> is below zero whenever \<open>y\<close> held less than was taken.\<close>

theorem negative_amount_overdraws:
  assumes req: "norm_op (r_Op req) = OpIntra" "r_X req \<noteq> r_Y req" "r_Amt req <s 0"
    and client: "GetClientTS (eStore e) (r_ClientID req) < r_TS req" "\<not> clientTxnInFlight C e req"
      "canAcquireForOp (eStore e) req"
    and rich: "0 \<le>s GetBalance (eStore e) (r_X req)"
    and poor: "sint (GetBalance (eStore e) (r_Y req)) + sint (r_Amt req) < 0"
      "- (2 ^ 63) \<le> sint (GetBalance (eStore e) (r_Y req)) + sint (r_Amt req)"
  shows "validateForStartQuick C e req \<and> sint (GetBalance (eStore (execute_op C e req seq cert)) (r_Y req)) =
      sint (GetBalance (eStore e) (r_Y req)) + sint (r_Amt req) \<and>
    GetBalance (eStore (execute_op C e req seq cert)) (r_Y req) <s 0"
proof -
  let ?s = "eStore e"
  have enough: "\<not> GetBalance ?s (r_X req) <s r_Amt req"
    using req(3) rich by (simp add: word_sless_alt word_sle_eq)
  have start: "validateForStartQuick C e req" using req(1) client enough by (simp add: validateForStartQuick_def)
  have rel: "GetBalance (fold (\<lambda>i s. ReleaseLock s i) is s) c = GetBalance s c" for "is" s c
    by (induction "is" arbitrary: s) (simp_all add: store_simps)
  have bal: "GetBalance (eStore (execute_op C e req seq cert)) (r_Y req) = GetBalance ?s (r_Y req) + r_Amt req"
    using enough req(1,2)
    by (simp add: execute_op_def executeIntra_def ApplyTransfer_def append_entry_def sendClientReply_def releaseLocksForOp_def
        on_store_def Let_def rel store_simps emit_def)
  have range: "sint (GetBalance ?s (r_Y req) + r_Amt req) = sint (GetBalance ?s (r_Y req)) + sint (r_Amt req)"
    using poor by (simp add: sint_word_ariths signed_take_bit_int_eq_self)
  show ?thesis using start poor(1) by (simp add: bal range word_sless_alt)
qed

theorem negative_amount_overdraws_witness:
  "GetBalance (eStore (execute_op plain_crypto (sample_engine 1) (sample_req\<lparr>r_Amt := - 30\<rparr>) 1 (sample_cert Comm))) 7 <s 0"
proof -
  let ?r = "sample_req\<lparr>r_Amt := - 30\<rparr>"
  have 1: "norm_op (r_Op ?r) = OpIntra" "r_X ?r \<noteq> r_Y ?r" "r_Amt ?r <s 0"
    by (simp_all add: sample_req_def norm_op_def word_sless_alt)
  have 2: "GetClientTS (eStore (sample_engine 1)) (r_ClientID ?r) < r_TS ?r" "\<not> clientTxnInFlight plain_crypto (sample_engine 1) ?r"
    "canAcquireForOp (eStore (sample_engine 1)) ?r"
    by (simp_all add: sample_req_def clientTxnInFlight_def canAcquireForOp_def list_all_iff IsLocked_def)
  have 3: "0 \<le>s GetBalance (eStore (sample_engine 1)) (r_X ?r)"
    "sint (GetBalance (eStore (sample_engine 1)) (r_Y ?r)) + sint (r_Amt ?r) < 0"
    "- (2 ^ 63) \<le> sint (GetBalance (eStore (sample_engine 1)) (r_Y ?r)) + sint (r_Amt ?r)"
    by (simp_all add: word_sle_eq)
  from negative_amount_overdraws [OF 1 2 3] show ?thesis by (simp add: sample_req_def)
qed

subsection \<open>Clients the store does not remember\<close>

lemma intra_step:
  fixes C :: crypto_ops and seq :: int and cert :: CertificateMsg
  assumes op: "norm_op (r_Op req) = OpIntra" and xy: "r_X req \<noteq> r_Y req"
    and funds: "\<not> GetBalance (eStore e) (r_X req) <s r_Amt req"
  defines "st' \<equiv> eStore (execute_op C e req seq cert)"
  shows "GetBalance st' (r_X req) = GetBalance (eStore e) (r_X req) - r_Amt req"
    and "GetBalance st' (r_Y req) = GetBalance (eStore e) (r_Y req) + r_Amt req"
    and "GetClientTS st' (r_ClientID req) = (if key_ok (r_ClientID req) then r_TS req else GetClientTS (eStore e) (r_ClientID req))"
    and "IsLocked st' i \<Longrightarrow> IsLocked (eStore e) i"
proof -
  have rel: "GetBalance (fold (\<lambda>i s. ReleaseLock s i) is s) c = GetBalance s c"
    "GetClientTS (fold (\<lambda>i s. ReleaseLock s i) is s) d = GetClientTS s d" for "is" s c d
    by (induction "is" arbitrary: s) (auto simp: store_simps)
  have locked: "IsLocked (fold (\<lambda>i s. ReleaseLock s i) is s) j \<Longrightarrow> IsLocked s j" for "is" s j
  proof (induction "is" arbitrary: s)
    case (Cons a "is")
    then show ?case using Cons.IH [of "ReleaseLock s a"] by (simp add: store_simps)
  qed simp
  obtain st where st: "ApplyTransfer (eStore e) (r_X req) (r_Y req) (r_Amt req) = Inr st"
    and st_def: "st = setBalanceTx (r_Y req) (GetBalance (eStore e) (r_Y req) + r_Amt req)
      (setBalanceTx (r_X req) (GetBalance (eStore e) (r_X req) - r_Amt req) (eStore e))"
    using funds by (simp add: ApplyTransfer_def Let_def)
  have st': "\<exists>en. st' = fold (\<lambda>i s. ReleaseLock s i) (lockItemsForOp req) (SetClientTS (AppendDatastore st en) (r_ClientID req) (r_TS req))"
    using op by (auto simp: st'_def execute_op_def executeIntra_def st append_entry_def sendClientReply_def releaseLocksForOp_def
        on_store_def emit_def Let_def)
  then show "GetBalance st' (r_X req) = GetBalance (eStore e) (r_X req) - r_Amt req"
    "GetBalance st' (r_Y req) = GetBalance (eStore e) (r_Y req) + r_Amt req"
    "GetClientTS st' (r_ClientID req) = (if key_ok (r_ClientID req) then r_TS req else GetClientTS (eStore e) (r_ClientID req))"
    using xy by (auto simp: rel st_def store_simps)
  show "IsLocked (eStore e) i" if "IsLocked st' i" using that st' by (fastforce dest: locked simp: st_def store_simps)
qed

text \<open>The store does not remember a client whose id is empty or longer than 32768 bytes: the database
  refuses the key and nobody looks at the error. An ordinary request whose id is accepted is refused
  by the primary's check once it has been executed; one whose id is not accepted passes the check again
  after any number of executions, as long as there is money, and every time the amount moves again.\<close>

theorem unremembered_client_replays:
  fixes C :: crypto_ops and seq :: int and cert :: CertificateMsg
  assumes op: "norm_op (r_Op req) = OpIntra" and xy: "r_X req \<noteq> r_Y req"
    and valid: "validateForStartQuick C e req"
    and funds: "sint (r_Amt req) * int (Suc n) \<le> sint (GetBalance (eStore e) (r_X req))" "0 \<le> sint (r_Amt req)"
  defines "e' \<equiv> ((\<lambda>e. execute_op C e req seq cert) ^^ n) e"
  shows "(validateForStartQuick C e' req \<longleftrightarrow> \<not> key_ok (r_ClientID req) \<or> n = 0) \<and>
    GetBalance (eStore e') (r_Y req) = GetBalance (eStore e) (r_Y req) + of_nat n * r_Amt req"
proof -
  let ?run = "\<lambda>k. ((\<lambda>e. execute_op C e req seq cert) ^^ k) e"
  let ?bal = "sint (GetBalance (eStore e) (r_X req))" and ?amt = "sint (r_Amt req)"
  have inv: "same_core e (?run k) \<and> sint (GetBalance (eStore (?run k)) (r_X req)) = ?bal - int k * ?amt \<and>
      GetBalance (eStore (?run k)) (r_Y req) = GetBalance (eStore e) (r_Y req) + of_nat k * r_Amt req \<and>
      GetClientTS (eStore (?run k)) (r_ClientID req) =
        (if key_ok (r_ClientID req) \<and> 0 < k then r_TS req else GetClientTS (eStore e) (r_ClientID req)) \<and>
      (\<forall>i. IsLocked (eStore (?run k)) i \<longrightarrow> IsLocked (eStore e) i)" if "k \<le> n" for k
    using that
  proof (induction k)
    case (Suc k)
    then have ih: "same_core e (?run k)" "sint (GetBalance (eStore (?run k)) (r_X req)) = ?bal - int k * ?amt"
      "GetBalance (eStore (?run k)) (r_Y req) = GetBalance (eStore e) (r_Y req) + of_nat k * r_Amt req"
      "GetClientTS (eStore (?run k)) (r_ClientID req) =
        (if key_ok (r_ClientID req) \<and> 0 < k then r_TS req else GetClientTS (eStore e) (r_ClientID req))"
      "\<forall>i. IsLocked (eStore (?run k)) i \<longrightarrow> IsLocked (eStore e) i" by simp_all
    have "?amt * int (Suc k) \<le> ?amt * int (Suc n)" using Suc.prems funds(2) by (intro mult_left_mono) simp_all
    then have left: "?amt * int (Suc k) \<le> ?bal" using funds(1) by simp
    then have "\<not> GetBalance (eStore (?run k)) (r_X req) <s r_Amt req"
      by (simp add: word_sless_alt ih(2) algebra_simps)
    note step = intra_step [OF op xy this, of C seq cert]
    have "sint (GetBalance (eStore (?run k)) (r_X req) - r_Amt req) = ?bal - int (Suc k) * ?amt"
    proof -
      let ?x = "GetBalance (eStore (?run k)) (r_X req)"
      have "0 \<le> sint ?x - ?amt" "sint ?x - ?amt < 2 ^ 63"
        using left ih(2) funds(2) sint_lt [of ?x] by (simp_all add: algebra_simps)
      then have "sint (?x - r_Amt req) = sint ?x - ?amt" by (simp add: sint_word_ariths signed_take_bit_int_eq_self)
      then show ?thesis by (simp add: ih(2) algebra_simps)
    qed
    then have "sint (GetBalance (eStore (?run (Suc k))) (r_X req)) = ?bal - int (Suc k) * ?amt" using step(1) by simp
    moreover have "same_core e (?run (Suc k))"
      using same_core_trans [OF ih(1) same_core_execute_op] by simp
    moreover have "GetBalance (eStore (?run (Suc k))) (r_Y req) = GetBalance (eStore e) (r_Y req) + of_nat (Suc k) * r_Amt req"
      using step(2) ih(3) by (simp add: algebra_simps)
    moreover have "GetClientTS (eStore (?run (Suc k))) (r_ClientID req) =
        (if key_ok (r_ClientID req) then r_TS req else GetClientTS (eStore e) (r_ClientID req))"
      using step(3) ih(4) by simp
    moreover have "\<forall>i. IsLocked (eStore (?run (Suc k))) i \<longrightarrow> IsLocked (eStore e) i" using step(4) ih(5) by simp
    ultimately show ?case by (simp del: funpow.simps)
  qed simp
  note at = inv [OF order_refl, folded e'_def]
  have valid_e: "GetClientTS (eStore e) (r_ClientID req) < r_TS req" "\<not> clientTxnInFlight C e req" "canAcquireForOp (eStore e) req"
    using valid op by (simp_all add: validateForStartQuick_def Let_def split: if_splits)
  have "\<not> clientTxnInFlight C e' req"
    using valid_e(2) same_core_fields(1) [of e e'] at by (simp add: clientTxnInFlight_def)
  moreover have "canAcquireForOp (eStore e') req" using valid_e(3) at by (auto simp: canAcquireForOp_def list_all_iff)
  moreover have "\<not> GetBalance (eStore e') (r_X req) <s r_Amt req"
    using at funds(1) by (simp add: word_sless_alt algebra_simps)
  ultimately have "validateForStartQuick C e' req \<longleftrightarrow> GetClientTS (eStore e') (r_ClientID req) < r_TS req"
    using op by (simp add: validateForStartQuick_def Let_def not_le)
  then show ?thesis using at valid_e(1) by auto
qed

theorem unremembered_client_replays_witness:
  "let req = sample_req\<lparr>r_ClientID := []\<rparr>;
       e' = ((\<lambda>e. execute_op plain_crypto e req 1 (sample_cert Comm)) ^^ 2) (sample_engine 1)
   in validateForStartQuick plain_crypto e' req \<and> GetBalance (eStore e') (r_Y req) = 10 + 2 * r_Amt req"
proof -
  let ?r = "sample_req\<lparr>r_ClientID := []\<rparr>"
  have 1: "norm_op (r_Op ?r) = OpIntra" "r_X ?r \<noteq> r_Y ?r" "validateForStartQuick plain_crypto (sample_engine 1) ?r"
    by (simp_all add: sample_req_def norm_op_def validateForStartQuick_def clientTxnInFlight_def canAcquireForOp_def
        list_all_iff IsLocked_def word_sless_alt Let_def)
  have 2: "sint (r_Amt ?r) * int (Suc 2) \<le> sint (GetBalance (eStore (sample_engine 1)) (r_X ?r))" "0 \<le> sint (r_Amt ?r)"
    by (simp_all add: sample_req_def)
  from unremembered_client_replays [OF 1 2, of 1 "sample_cert Comm"] show ?thesis
    by (simp add: Let_def key_ok_def del: funpow.simps)
qed

end
