(* ===== verification/Remote.thy ===== *)
theory Remote
  imports Replica Smallbank
begin

text \<open>
  The HTTP interface of a server (\<open>internal/server/httpapi.go\<close>) and the client that talks to running
  servers (\<open>internal/client/remote.go\<close>). What Go's \<open>net/http\<close> and \<open>net/url\<close> do to a request between
  the two is written out: the split of the URL, the parsing of its query and the patterns of the mux.
  The JSON encoding of the bodies is a parameter; so is whether the network reaches a server.
\<close>

subsection \<open>URLs\<close>

definition hex_val :: "char \<Rightarrow> nat option" where
  "hex_val c = (let k = of_char c in
     if 48 \<le> k \<and> k \<le> 57 then Some (k - 48)
     else if 97 \<le> k \<and> k \<le> 102 then Some (k - 87)
     else if 65 \<le> k \<and> k \<le> 70 then Some (k - 55) else None)"

fun QueryUnescape :: "string \<Rightarrow> string option" where
  "QueryUnescape [] = Some []"
| "QueryUnescape (c # cs) =
     (if c = CHR ''%'' then
        (case cs of
           a # b # rest \<Rightarrow>
             (case (hex_val a, hex_val b) of
                (Some h, Some l) \<Rightarrow> map_option (Cons (char_of (16 * h + l))) (QueryUnescape rest)
              | _ \<Rightarrow> None)
         | _ \<Rightarrow> None)
      else map_option (Cons (if c = CHR ''+'' then CHR '' '' else c)) (QueryUnescape cs))"

text \<open>The text before the first \<open>c\<close> and the text after it, if there is one.\<close>

definition cut :: "char \<Rightarrow> string \<Rightarrow> string \<times> string option" where
  "cut c s = (takeWhile (\<lambda>d. d \<noteq> c) s, case dropWhile (\<lambda>d. d \<noteq> c) s of [] \<Rightarrow> None | _ # rest \<Rightarrow> Some rest)"

fun pieces :: "char \<Rightarrow> string \<Rightarrow> string list" where
  "pieces c [] = [[]]"
| "pieces c (d # s) =
     (if d = c then [] # pieces c s
      else (case pieces c s of [] \<Rightarrow> [[d]] | p # ps \<Rightarrow> (d # p) # ps))"

text \<open>One setting of a query; one that is empty, has a semicolon or a bad escape is skipped.\<close>

definition setting :: "string \<Rightarrow> (string \<times> string) option" where
  "setting s =
     (if CHR '';'' \<in> set s \<or> s = [] then None
      else case cut (CHR ''='') s of
             (k, v) \<Rightarrow> (case (QueryUnescape k, QueryUnescape (case v of None \<Rightarrow> [] | Some v \<Rightarrow> v)) of
                           (Some k, Some v) \<Rightarrow> Some (k, v)
                         | _ \<Rightarrow> None))"

text \<open>\<open>URL.Query().Get\<close>: the first setting of the key, or the empty text.\<close>

definition query_Get :: "string \<Rightarrow> string \<Rightarrow> string" where
  "query_Get q key =
     (case find (\<lambda>(k, v). k = key) (List.map_filter setting (pieces (CHR ''&'') q)) of
        None \<Rightarrow> [] | Some (k, v) \<Rightarrow> v)"

text \<open>The path and the query of the end of a URL. Control characters and a badly escaped fragment make
  the URL invalid; the fragment is not sent.\<close>

definition control_char :: "char \<Rightarrow> bool" where
  "control_char c \<longleftrightarrow> of_char c < (32 :: nat) \<or> of_char c = (127 :: nat)"

definition parse_url :: "string \<Rightarrow> (string \<times> string) option" where
  "parse_url s =
     (if list_ex control_char s then None
      else case cut (CHR ''#'') s of
             (u, frag) \<Rightarrow>
               if (case frag of None \<Rightarrow> False | Some f \<Rightarrow> QueryUnescape f = None) then None
               else (case cut (CHR ''?'') u of (path, q) \<Rightarrow> Some (path, case q of None \<Rightarrow> [] | Some q \<Rightarrow> q)))"

subsection \<open>Server\<close>

record http_request =
  hq_Method :: string
  hq_Path :: string
  hq_Query :: string
  hq_Body :: bytes

record http_response =
  hr_Status :: int
  hr_Body :: bytes

record json =
  enc_Request :: "Request \<Rightarrow> bytes"
  enc_Fault :: "FaultConfig \<Rightarrow> bytes"
  dec_Fault :: "bytes \<Rightarrow> string + FaultConfig"
  enc_Entries :: "string list \<Rightarrow> bytes"
  dec_Entries :: "bytes \<Rightarrow> string + string list"
  enc_Outstanding :: "Outstanding \<Rightarrow> bytes"
  dec_Outstanding :: "bytes \<Rightarrow> string + Outstanding"
  enc_Reply :: "Reply \<Rightarrow> bytes"
  dec_Reply :: "bytes \<Rightarrow> string + Reply"

definition http_ok :: "bytes \<Rightarrow> http_response" where
  "http_ok b = \<lparr>hr_Status = 200, hr_Body = b\<rparr>"

definition http_Error :: "string \<Rightarrow> int \<Rightarrow> http_response" where
  "http_Error msg status = \<lparr>hr_Status = status, hr_Body = msg @ [CHR 0x0A]\<rparr>"

abbreviation replica_store :: "replica \<Rightarrow> store" where
  "replica_store r \<equiv> eStore (n_Engine (r_Node r))"

definition handleHTTPOutstanding :: "json \<Rightarrow> replica \<Rightarrow> http_response" where
  "handleHTTPOutstanding J r = http_ok (enc_Outstanding J (Outstanding2PC (replica_store r)))"

definition handleHTTPResetConsensus :: "http_request \<Rightarrow> replica \<Rightarrow> http_response \<times> replica" where
  "handleHTTPResetConsensus q r =
     (if hq_Method q \<noteq> ''POST'' then (http_Error ''POST required'' 405, r) else (http_ok [], Replica_ResetConsensus r))"

definition handleHTTPBalance :: "http_request \<Rightarrow> replica \<Rightarrow> http_response" where
  "handleHTTPBalance q r =
     (case go_Atoi (query_Get (hq_Query q) ''item'') of
        None \<Rightarrow> http_Error ''item query param required'' 400
      | Some item \<Rightarrow> http_ok (PrintBalance (replica_store r) item @ [CHR 0x0A]))"

definition handleHTTPDatastore :: "replica \<Rightarrow> http_response" where
  "handleHTTPDatastore r = http_ok (PrintDatastore (replica_store r))"

definition handleHTTPDatastoreOracle :: "json \<Rightarrow> replica \<Rightarrow> http_response" where
  "handleHTTPDatastoreOracle J r = http_ok (enc_Entries J (map OracleString (Datastore (replica_store r))))"

definition handleHTTPFault :: "json \<Rightarrow> http_request \<Rightarrow> replica \<Rightarrow> http_response \<times> replica" where
  "handleHTTPFault J q r =
     (if hq_Method q \<noteq> ''POST'' then (http_Error ''POST required'' 405, r)
      else case dec_Fault J (hq_Body q) of
             Inl err \<Rightarrow> (http_Error err 400, r)
           | Inr fc \<Rightarrow> (http_ok [], Replica_SetFault fc r))"

text \<open>Handlers run one at a time, so nothing is pending when \<open>WaitReclaims\<close> is called, and the drain
  ends before its deadline.\<close>

definition handleHTTPDrain :: "crypto_ops \<Rightarrow> (int \<Rightarrow> bool) \<Rightarrow> http_request \<Rightarrow> replica \<Rightarrow> http_response \<times> replica" where
  "handleHTTPDrain C up q r =
     (if hq_Method q \<noteq> ''POST'' then (http_Error ''POST required'' 405, r)
      else (http_ok [], with_hooks C up (on_engine (DrainExecute C)) r))"

definition handleHTTPReply :: "crypto_ops \<Rightarrow> json \<Rightarrow> http_request \<Rightarrow> replica \<Rightarrow> http_response" where
  "handleHTTPReply C J q r =
     (let get = query_Get (hq_Query q) in
      case go_Atoi (get ''ts'') of
        None \<Rightarrow> http_Error ''ts required'' 400
      | Some ts \<Rightarrow>
          (case go_Atoi (get ''amt'') of
             None \<Rightarrow> http_Error ''amt required'' 400
           | Some amt \<Rightarrow>
               (case go_Atoi (get ''x'') of
                  None \<Rightarrow> http_Error ''x required'' 400
                | Some x \<Rightarrow>
                    (case go_Atoi (get ''y'') of
                       None \<Rightarrow> http_Error ''y required'' 400
                     | Some y \<Rightarrow>
                         (case LookupReply C (n_Engine (r_Node r))
                                 \<lparr>r_ClientID = get ''client_id'', r_TS = ts, r_X = x, r_Y = y, r_Amt = word_of_int amt, r_Op = OpEmpty\<rparr> of
                            None \<Rightarrow> \<lparr>hr_Status = 404, hr_Body = []\<rparr>
                          | Some reply \<Rightarrow> http_ok (enc_Reply J reply))))))"

definition RegisterHTTP :: "crypto_ops \<Rightarrow> json \<Rightarrow> (int \<Rightarrow> bool) \<Rightarrow> http_request \<Rightarrow> replica \<Rightarrow> http_response \<times> replica" where
  "RegisterHTTP C J up q r =
     (let p = hq_Path q in
      if p = ''/balance'' then (handleHTTPBalance q r, r)
      else if p = ''/datastore'' then (handleHTTPDatastore r, r)
      else if p = ''/datastore/oracle'' then (handleHTTPDatastoreOracle J r, r)
      else if p = ''/fault'' then handleHTTPFault J q r
      else if p = ''/reply'' then (handleHTTPReply C J q r, r)
      else if p = ''/drain'' then handleHTTPDrain C up q r
      else if p = ''/reset_consensus'' then handleHTTPResetConsensus q r
      else if p = ''/outstanding'' then (handleHTTPOutstanding J r, r)
      else (http_Error ''404 page not found'' 404, r))"

subsection \<open>Client\<close>

text \<open>The servers that run, and how the client reaches them: \<open>cl_Net i\<close> is the error of an HTTP call
  to server \<open>i\<close> or of a connection to it, if any; \<open>cl_Rpc i\<close> the error of the remote call.\<close>

record cloud =
  cl_Crypto :: crypto_ops
  cl_Json :: json
  cl_Topo :: topology
  cl_Up :: "int \<Rightarrow> bool"
  cl_Net :: "int \<Rightarrow> string option"
  cl_Rpc :: "int \<Rightarrow> string option"

record remote =
  rm_Conns :: "int set"
  rm_Servers :: "int \<Rightarrow> replica"

text \<open>One call over HTTP. A query with a space in it spoils the request line.\<close>

definition http_call :: "cloud \<Rightarrow> int \<Rightarrow> string \<Rightarrow> string \<Rightarrow> bytes \<Rightarrow> remote \<Rightarrow> (string + http_response) \<times> remote" where
  "http_call W i verb url body w =
     (case ServerByID (cl_Topo W) i of
        None \<Rightarrow> (Inl (''unknown server '' @ server_name i), w)
      | Some srv \<Rightarrow>
          (case parse_url url of
             None \<Rightarrow> (Inl ''invalid URL'', w)
           | Some (path, q) \<Rightarrow>
               (case cl_Net W i of
                  Some err \<Rightarrow> (Inl err, w)
                | None \<Rightarrow>
                    if CHR '' '' \<in> set path \<union> set q then (Inr \<lparr>hr_Status = 400, hr_Body = ''400 Bad Request''\<rparr>, w)
                    else (case RegisterHTTP (cl_Crypto W) (cl_Json W) (cl_Up W)
                                 \<lparr>hq_Method = verb, hq_Path = path, hq_Query = q, hq_Body = body\<rparr> (rm_Servers w i) of
                            (resp, r) \<Rightarrow> (Inr resp, w\<lparr>rm_Servers := (rm_Servers w)(i := r)\<rparr>)))))"

text \<open>The error of a call that posts, if any.\<close>

definition http_post :: "cloud \<Rightarrow> int \<Rightarrow> string \<Rightarrow> string \<Rightarrow> bytes \<Rightarrow> remote \<Rightarrow> string option \<times> remote" where
  "http_post W i what url body w =
     (case http_call W i ''POST'' url body w of
        (Inl err, w) \<Rightarrow> (Some err, w)
      | (Inr resp, w) \<Rightarrow>
          (if hr_Status resp \<noteq> 200 then Some (what @ '' '' @ server_name i @ '': '' @ hr_Body resp) else None, w))"

text \<open>The decoded body of a call that gets; the queries change nothing on the server.\<close>

definition http_get :: "cloud \<Rightarrow> int \<Rightarrow> string \<Rightarrow> string \<Rightarrow> (bytes \<Rightarrow> string + 'a) \<Rightarrow> remote \<Rightarrow> string + 'a" where
  "http_get W i what url dec w =
     (case fst (http_call W i ''GET'' url [] w) of
        Inl err \<Rightarrow> Inl err
      | Inr resp \<Rightarrow> if hr_Status resp \<noteq> 200 then Inl (server_name i @ '' '' @ what @ '': '' @ hr_Body resp)
                   else dec (hr_Body resp))"

definition Remote_ResetConsensus :: "cloud \<Rightarrow> int \<Rightarrow> remote \<Rightarrow> string option \<times> remote" where
  "Remote_ResetConsensus W i w = http_post W i ''reset_consensus'' ''/reset_consensus'' [] w"

definition Remote_DrainReplica :: "cloud \<Rightarrow> int \<Rightarrow> int \<Rightarrow> bool \<Rightarrow> remote \<Rightarrow> string option \<times> remote" where
  "Remote_DrainReplica W i timeout executeOnly w =
     http_post W i ''drain''
       (''/drain?timeout_ms='' @ itoa timeout @ (if executeOnly then ''&execute_only=1'' else [])) [] w"

definition Remote_SetFault :: "cloud \<Rightarrow> int \<Rightarrow> FaultConfig \<Rightarrow> remote \<Rightarrow> string option \<times> remote" where
  "Remote_SetFault W i fc w = http_post W i ''set fault'' ''/fault'' (enc_Fault (cl_Json W) fc) w"

definition Remote_PrintBalance :: "cloud \<Rightarrow> remote \<Rightarrow> int \<Rightarrow> int \<Rightarrow> string + string" where
  "Remote_PrintBalance W w i item =
     http_get W i ''balance query'' (''/balance?item='' @ itoa item) (\<lambda>b. Inr (TrimSpace b)) w"

definition Remote_FetchDatastoreOracle :: "cloud \<Rightarrow> remote \<Rightarrow> int \<Rightarrow> string + string list" where
  "Remote_FetchDatastoreOracle W w i =
     http_get W i ''datastore oracle'' ''/datastore/oracle'' (dec_Entries (cl_Json W)) w"

definition Remote_PrintDatastore :: "cloud \<Rightarrow> remote \<Rightarrow> int \<Rightarrow> string + string" where
  "Remote_PrintDatastore W w i = http_get W i ''datastore query'' ''/datastore'' Inr w"

definition Remote_FetchOutstanding :: "cloud \<Rightarrow> remote \<Rightarrow> int \<Rightarrow> string + Outstanding" where
  "Remote_FetchOutstanding W w i = http_get W i ''outstanding'' ''/outstanding'' (dec_Outstanding (cl_Json W)) w"

definition reply_url :: "Request \<Rightarrow> string" where
  "reply_url req = ''/reply?client_id='' @ r_ClientID req @ ''&ts='' @ itoa (r_TS req) @ ''&x='' @ itoa (r_X req) @
     ''&y='' @ itoa (r_Y req) @ ''&amt='' @ itoa (sint (r_Amt req))"

definition Remote_LookupReply :: "cloud \<Rightarrow> remote \<Rightarrow> int \<Rightarrow> Request \<Rightarrow> string + Reply option" where
  "Remote_LookupReply W w i req =
     (case fst (http_call W i ''GET'' (reply_url req) [] w) of
        Inl err \<Rightarrow> Inl err
      | Inr resp \<Rightarrow>
          if hr_Status resp = 404 then Inr None
          else if hr_Status resp \<noteq> 200 then Inl (server_name i @ '' reply query: '' @ hr_Body resp)
          else (case dec_Reply (cl_Json W) (hr_Body resp) of Inl err \<Rightarrow> Inl err | Inr reply \<Rightarrow> Inr (Some reply)))"

text \<open>A connection, once made, is kept until the client closes.\<close>

definition grpcClient :: "cloud \<Rightarrow> int \<Rightarrow> remote \<Rightarrow> string + remote" where
  "grpcClient W i w =
     (if i \<in> rm_Conns w then Inr w
      else case ServerByID (cl_Topo W) i of
             None \<Rightarrow> Inl (''unknown server '' @ server_name i)
           | Some srv \<Rightarrow>
               (case cl_Net W i of
                  Some err \<Rightarrow> Inl (''dial '' @ server_name i @ '': '' @ err)
                | None \<Rightarrow> Inr (w\<lparr>rm_Conns := insert i (rm_Conns w)\<rparr>)))"

definition Remote_Close :: "remote \<Rightarrow> remote" where
  "Remote_Close w = w\<lparr>rm_Conns := {}\<rparr>"

definition Remote_SendRequest :: "cloud \<Rightarrow> int \<Rightarrow> Request \<Rightarrow> remote \<Rightarrow> string option \<times> remote" where
  "Remote_SendRequest W i req w =
     (let env = \<lparr>w_SenderId = 0, w_Type = ''CLIENT_REQUEST'', w_Payload = enc_Request (cl_Json W) req, w_Signature = None\<rparr> in
      case grpcClient W i w of
        Inl err \<Rightarrow> (Some err, w)
      | Inr w \<Rightarrow>
          (case cl_Rpc W i of
             Some err \<Rightarrow> (Some err, w)
           | None \<Rightarrow>
               (let r = rm_Servers w i in
                case service_Send (cl_Crypto W) (r_Hub r) env of
                  (CallError err, h) \<Rightarrow> (Some err, w)
                | (NilAck, h) \<Rightarrow> (Some (''send to '' @ server_name i @ '' rejected: ''), w)
                | (Ack ok msg, h) \<Rightarrow>
                    (if \<not> ok then Some (''send to '' @ server_name i @ '' rejected: '' @ msg) else None,
                     w\<lparr>rm_Servers := (rm_Servers w)(i := r\<lparr>r_Hub := h\<rparr>)\<rparr>))))"

subsection \<open>Queries\<close>

definition plain_char :: "char \<Rightarrow> bool" where
  "plain_char c \<longleftrightarrow> c \<notin> set ''&;%+# '' \<and> \<not> control_char c"

definition plain :: "string \<Rightarrow> bool" where
  "plain s \<longleftrightarrow> list_all plain_char s"

lemma plain_simps [simp]: "plain []" "plain (c # s) = (plain_char c \<and> plain s)" "plain (s @ r) = (plain s \<and> plain r)"
  by (auto simp: plain_def)

fun render_query :: "(string \<times> string) list \<Rightarrow> string" where
  "render_query [] = []"
| "render_query [(k, v)] = k @ CHR ''='' # v"
| "render_query ((k, v) # ps) = k @ CHR ''='' # v @ CHR ''&'' # render_query ps"

definition plain_setting :: "string \<times> string \<Rightarrow> bool" where
  "plain_setting p \<longleftrightarrow> plain (fst p) \<and> plain (snd p) \<and> CHR ''='' \<notin> set (fst p)"

lemma digit_char_plain:
  assumes "d < 10"
  shows "plain_char (digit_char d)"
proof -
  have code: "of_char (digit_char d) = 48 + d" using assms by (rule digit_char_code)
  have "digit_char d \<notin> set ''&;%+# ''"
  proof
    assume "digit_char d \<in> set ''&;%+# ''"
    then have "(of_char (digit_char d) :: nat) \<in> {38, 59, 37, 43, 35, 32}" by auto
    then show False using assms unfolding code by simp
  qed
  then show ?thesis using assms by (simp add: plain_char_def control_char_def code)
qed

lemma itoa_plain [simp]: "plain (itoa i)"
proof -
  have "plain (nat_digits n)" for n
    unfolding plain_def list_all_iff using nat_digits_chars digit_char_plain by blast
  then show ?thesis by (simp add: itoa_def) (simp add: plain_char_def control_char_def)
qed

lemma unescape_plain: "plain s \<Longrightarrow> QueryUnescape s = Some s"
  by (induction s) (auto simp: plain_char_def)

lemma cut_at: "c \<notin> set s \<Longrightarrow> cut c (s @ c # r) = (s, Some r)"
  by (induction s) (auto simp: cut_def)

lemma cut_none: "c \<notin> set s \<Longrightarrow> cut c s = (s, None)"
  by (induction s) (auto simp: cut_def)

lemma pieces_none: "c \<notin> set s \<Longrightarrow> pieces c s = [s]"
  by (induction s) auto

lemma pieces_at: "c \<notin> set s \<Longrightarrow> pieces c (s @ c # r) = s # pieces c r"
  by (induction s) auto

lemma plain_not [simp]: "plain s \<Longrightarrow> c \<in> set s \<Longrightarrow> plain_char c"
  by (simp add: plain_def list_all_iff)

lemma plain_sep: "plain s \<Longrightarrow> c \<in> set ''&;%+# '' \<Longrightarrow> c \<notin> set s"
  using plain_not [of s c] by (auto simp: plain_char_def)

lemma plain_settingD:
  assumes "plain_setting (k, v)"
  shows "setting (k @ CHR ''='' # v) = Some (k, v)" "CHR ''&'' \<notin> set (k @ CHR ''='' # v)"
  using assms plain_sep [of k] plain_sep [of v]
  by (simp_all add: plain_setting_def setting_def cut_at unescape_plain)

lemma render_query_pairs:
  "ps \<noteq> [] \<Longrightarrow> list_all plain_setting ps \<Longrightarrow> List.map_filter setting (pieces (CHR ''&'') (render_query ps)) = ps"
proof (induction ps rule: render_query.induct)
  case (2 k v)
  then show ?case using plain_settingD [of k v] by (simp add: pieces_none List.map_filter_def)
next
  case (3 k v p ps)
  have "pieces (CHR ''&'') (render_query ((k, v) # p # ps)) = (k @ CHR ''='' # v) # pieces (CHR ''&'') (render_query (p # ps))"
    using 3(3) plain_settingD(2) [of k v] pieces_at [of "CHR ''&''" "k @ CHR ''='' # v" "render_query (p # ps)"] by simp
  then show ?case using 3 plain_settingD(1) [of k v] by (simp add: List.map_filter_simps)
qed simp

lemma query_Get_render:
  assumes "ps \<noteq> []" "list_all plain_setting ps"
  shows "query_Get (render_query ps) key = (case map_of ps key of None \<Rightarrow> [] | Some v \<Rightarrow> v)"
proof -
  have "(case find (\<lambda>(k, v). k = key) ps of None \<Rightarrow> [] | Some (k, v) \<Rightarrow> v) = (case map_of ps key of None \<Rightarrow> [] | Some v \<Rightarrow> v)"
    by (induction ps) auto
  then show ?thesis by (simp add: query_Get_def render_query_pairs [OF assms])
qed

lemma render_query_plain:
  "list_all plain_setting ps \<Longrightarrow> c \<in> set (render_query ps) \<Longrightarrow> plain_char c \<or> c = CHR ''&'' \<or> c = CHR ''=''"
  by (induction ps rule: render_query.induct) (auto simp: plain_setting_def)

lemma parse_url_render:
  assumes "plain path" "CHR ''?'' \<notin> set path" "list_all plain_setting ps"
  shows "parse_url (path @ CHR ''?'' # render_query ps) = Some (path, render_query ps)"
    and "CHR '' '' \<notin> set path \<union> set (render_query ps)"
proof -
  let ?u = "path @ CHR ''?'' # render_query ps"
  have char: "plain_char c \<or> c \<in> {CHR ''?'', CHR ''&'', CHR ''=''}" if "c \<in> set ?u" for c
    using that assms render_query_plain [OF assms(3), of c] by auto
  have "\<not> control_char c" if "c \<in> {CHR ''?'', CHR ''&'', CHR ''=''}" for c
    using that by (auto simp: control_char_def)
  then have "\<not> list_ex control_char ?u"
    using char unfolding list_ex_iff plain_char_def by blast
  moreover have "CHR ''#'' \<notin> set ?u" using char [of "CHR ''#''"] by (auto simp: plain_char_def)
  ultimately show "parse_url ?u = Some (path, render_query ps)"
    using assms(2) by (simp add: parse_url_def cut_none [of "CHR ''#''"] cut_at)
  show "CHR '' '' \<notin> set path \<union> set (render_query ps)"
    using char [of "CHR '' ''"] by (auto simp: plain_char_def)
qed

lemma plain_path: "CHR ''?'' \<notin> set p \<Longrightarrow> plain p \<Longrightarrow> parse_url p = Some (p, [])"
  using plain_sep [of p "CHR ''#''"] by (auto simp: parse_url_def cut_none list_ex_iff plain_def list_all_iff plain_char_def)

subsection \<open>A balance over HTTP\<close>

lemma http_call_query:
  assumes "ServerByID (cl_Topo W) i = Some srv" "cl_Net W i = None"
    and "plain path" "CHR ''?'' \<notin> set path" "list_all plain_setting ps"
  shows "http_call W i verb (path @ CHR ''?'' # render_query ps) body w =
    (case RegisterHTTP (cl_Crypto W) (cl_Json W) (cl_Up W)
        \<lparr>hq_Method = verb, hq_Path = path, hq_Query = render_query ps, hq_Body = body\<rparr> (rm_Servers w i) of
       (resp, r) \<Rightarrow> (Inr resp, w\<lparr>rm_Servers := (rm_Servers w)(i := r)\<rparr>))"
  using assms(1,2) parse_url_render [OF assms(3-5)] by (simp add: http_call_def)

lemma TrimSpace_newline:
  assumes "\<not> re_space a" "a \<noteq> CHR 0x0B" "\<not> re_space b" "b \<noteq> CHR 0x0B" "s = a # u" "s = v @ [b]"
  shows "TrimSpace (s @ [CHR 0x0A]) = s"
proof -
  let ?sp = "\<lambda>c. re_space c \<or> c = CHR 0x0B"
  have 1: "dropWhile ?sp (s @ [CHR 0x0A]) = s @ [CHR 0x0A]" using assms(1,2) by (simp add: assms(5))
  have "re_space (CHR 0x0A)" by (simp add: re_space_def)
  then have "dropWhile ?sp (rev (s @ [CHR 0x0A])) = rev s" using assms(3,4) by (simp add: assms(6))
  with 1 show ?thesis by (simp add: TrimSpace_def Let_def)
qed

lemma itoa_last: "\<exists>v b. itoa i = v @ [b] \<and> is_digit b"
proof -
  have last: "\<exists>v b. nat_digits n = v @ [b] \<and> is_digit b" for n
    using nat_digits_nonempty [of n] nat_digits_digits [of _ n] by (cases "nat_digits n" rule: rev_cases) auto
  show ?thesis
  proof (cases "i < 0")
    case True
    with last [of "nat (- i)"] show ?thesis by (auto simp: itoa_def intro: exI [of _ "CHR ''-'' # _"])
  qed (use last in \<open>simp add: itoa_def\<close>)
qed

lemma PrintBalance_trim: "TrimSpace (PrintBalance s i @ [CHR 0x0A]) = PrintBalance s i"
proof -
  obtain v b where b: "itoa (sint (GetBalance s i)) = v @ [b]" "is_digit b" using itoa_last by blast
  show ?thesis
    by (rule TrimSpace_newline [of "CHR ''b''" b _ "tl (PrintBalance s i)" "''bal['' @ itoa i @ ''] = '' @ v"])
       (use b is_digit_not_space [of b] in \<open>simp_all add: PrintBalance_def re_space_def\<close>)
qed

lemma digits1_end: "digits1 (nat_digits n) = Some (nat_digits n, [])"
  using digits1_nat [of "[]" n] by simp

lemma balance_line: "0 \<le> i \<Longrightarrow> balance_find (PrintBalance s i) = Some (itoa (sint (GetBalance s i)))"
proof -
  assume i: "0 \<le> i"
  let ?z = "sint (GetBalance s i)"
  have here: "balance_here (''bal['' @ nat_digits (nat i) @ ''] = '' @ itoa z) = Some (itoa z)" for z
  proof (cases "z < 0")
    case True
    then show ?thesis
      by (simp add: balance_here_def lit_def digits1_nat not_digit itoa_def digits1_end re_space_def)
  next
    case False
    obtain c cs where c: "nat_digits (nat z) = c # cs" "is_digit c" using hd_nat_digits by blast
    then have "\<not> re_space c" "c \<noteq> CHR ''-''" using is_digit_not_space by (auto simp: is_digit_def digit_val_def Let_def)
    with False c show ?thesis
      using digits1_end [of "nat z"]
      by (simp add: balance_here_def lit_def digits1_nat not_digit itoa_def re_space_def)
  qed
  show ?thesis using here [of ?z] i by (simp add: PrintBalance_def itoa_nat)
qed

lemma signed_int_itoa: "signed_int (itoa (sint (b :: int64))) = sint b"
  using sint_lt [of b] sint_ge [of b] by (simp add: signed_int_def)

lemma go_Atoi_itoa: "- (2 ^ 63) \<le> i \<Longrightarrow> i < 2 ^ 63 \<Longrightarrow> go_Atoi (itoa i) = Some i"
  by (simp add: go_Atoi_def)

lemma fetch_balance:
  assumes "ServerByID (cl_Topo W) i = Some srv" "cl_Net W i = None" "0 \<le> item" "item < 2 ^ 63"
  shows "Remote_PrintBalance W w i item = Inr (PrintBalance (replica_store (rm_Servers w i)) item)"
proof -
  have url: "''/balance?item='' @ itoa item = ''/balance'' @ CHR ''?'' # render_query [(''item'', itoa item)]" by simp
  have plain: "plain ''/balance''" "CHR ''?'' \<notin> set ''/balance''" "list_all plain_setting [(''item'', itoa item)]"
    by (simp_all add: plain_setting_def plain_char_def control_char_def)
  have get: "query_Get (render_query [(''item'', itoa item)]) ''item'' = itoa item"
    using query_Get_render [OF _ plain(3), of "''item''"] by (simp del: render_query.simps)
  have "RegisterHTTP C J up \<lparr>hq_Method = ''GET'', hq_Path = ''/balance'', hq_Query = render_query [(''item'', itoa item)], hq_Body = []\<rparr> r =
      (http_ok (PrintBalance (replica_store r) item @ [CHR 0x0A]), r)" for C J up r
    using assms(3,4) by (simp add: RegisterHTTP_def handleHTTPBalance_def get go_Atoi_itoa del: render_query.simps)
  then show ?thesis
    unfolding Remote_PrintBalance_def http_get_def url http_call_query [OF assms(1,2) plain]
    by (simp add: http_ok_def PrintBalance_trim del: render_query.simps)
qed

lemma fetch_read_balance:
  assumes "ServerByID (cl_Topo W) i = Some srv" "cl_Net W i = None" "0 \<le> item" "item < 2 ^ 63"
  shows "read_balance (Remote_PrintBalance W w) i item = Inr (GetBalance (replica_store (rm_Servers w i)) item)"
  using assms(3) by (simp add: read_balance_def bench_parseBalanceLine_def fetch_balance [OF assms] balance_line signed_int_itoa)

text \<open>A balance survives the way from the store of a server to the client: the server prints it,
  the URL that asks for it is parsed back to the item, and both parsers of the client (the test-case
  runner's and the benchmark's) read exactly the signed 64-bit balance of that server's store.\<close>

theorem remote_balance_roundtrip:
  assumes "ServerByID (cl_Topo W) i = Some srv" "cl_Net W i = None" "0 \<le> item" "item < 2 ^ 63"
  shows "\<exists>line. Remote_PrintBalance W w i item = Inr line \<and>
      parseBalanceLine line = GetBalance (replica_store (rm_Servers w i)) item \<and>
      read_balance (Remote_PrintBalance W w) i item = Inr (GetBalance (replica_store (rm_Servers w i)) item)"
  using assms(3)
  by (simp add: fetch_balance [OF assms] fetch_read_balance [OF assms] parseBalanceLine_def balance_line signed_int_itoa)

text \<open>A concrete encoding of replies for the examples: the fields in a row, the client id last.\<close>

definition sample_enc_reply :: "Reply \<Rightarrow> bytes" where
  "sample_enc_reply r = itoa (rp_TS r) @ CHR ''|'' # itoa (rp_Seq r) @ CHR ''|'' # itoa (rp_X r) @ CHR ''|'' #
     itoa (rp_Y r) @ CHR ''|'' # itoa (sint (rp_Amt r)) @ CHR ''|'' #
     itoa (case rp_Result r of ResultCommitted \<Rightarrow> 0 | ResultInsufficient \<Rightarrow> 1 | ResultAbort \<Rightarrow> 2) @ CHR ''|'' # rp_ClientID r"

definition sample_field :: "bytes \<Rightarrow> (int \<times> bytes) option" where
  "sample_field s = (case cut (CHR ''|'') s of (a, Some rest) \<Rightarrow> map_option (\<lambda>i. (i, rest)) (Atoi a) | _ \<Rightarrow> None)"

definition sample_dec_reply :: "bytes \<Rightarrow> string + Reply" where
  "sample_dec_reply s =
     (case do { (ts, s) \<leftarrow> sample_field s; (seq, s) \<leftarrow> sample_field s; (x, s) \<leftarrow> sample_field s; (y, s) \<leftarrow> sample_field s;
                (amt, s) \<leftarrow> sample_field s; (res, s) \<leftarrow> sample_field s;
                Some \<lparr>rp_ClientID = s, rp_TS = ts, rp_Seq = seq, rp_X = x, rp_Y = y, rp_Amt = word_of_int amt,
                      rp_Result = (if res = 0 then ResultCommitted else if res = 1 then ResultInsufficient else ResultAbort)\<rparr> } of
        None \<Rightarrow> Inl ''bad reply'' | Some r \<Rightarrow> Inr r)"

lemma sample_field_itoa: "sample_field (itoa i @ CHR ''|'' # rest) = Some (i, rest)"
  by (simp add: sample_field_def cut_at itoa_sep [simplified])

lemma sample_reply_roundtrip: "sample_dec_reply (sample_enc_reply r) = Inr r"
  by (cases "rp_Result r"; cases r) (simp_all add: sample_dec_reply_def sample_enc_reply_def sample_field_itoa)

definition sample_cloud :: cloud where
  "sample_cloud = \<lparr>cl_Crypto = plain_crypto,
     cl_Json = \<lparr>enc_Request = \<lambda>_. [], enc_Fault = \<lambda>_. [], dec_Fault = \<lambda>_. Inl ''unused'', enc_Entries = \<lambda>_. [],
       dec_Entries = \<lambda>_. Inr [], enc_Outstanding = \<lambda>_. [], dec_Outstanding = \<lambda>_. Inl ''unused'',
       enc_Reply = sample_enc_reply, dec_Reply = sample_dec_reply\<rparr>,
     cl_Topo = sample_topo, cl_Up = \<lambda>_. True, cl_Net = \<lambda>_. None, cl_Rpc = \<lambda>_. None\<rparr>"

definition sample_remote :: remote where
  "sample_remote = \<lparr>rm_Conns = {}, rm_Servers = sample_replica\<rparr>"

lemma sample_server: "1 \<le> i \<Longrightarrow> i \<le> 8 \<Longrightarrow> \<exists>srv. ServerByID (cl_Topo sample_cloud) i = Some srv"
  by (auto simp: sample_cloud_def ServerByID_def)

theorem remote_balance_roundtrip_witness:
  "\<exists>line. Remote_PrintBalance sample_cloud sample_remote 2 5 = Inr line \<and> parseBalanceLine line = 10"
proof -
  obtain srv where "ServerByID (cl_Topo sample_cloud) 2 = Some srv" using sample_server [of 2] by auto
  from remote_balance_roundtrip [OF this, of 5 sample_remote] show ?thesis
    by (auto simp: sample_cloud_def sample_remote_def sample_replica_def)
qed

subsection \<open>A reply over HTTP\<close>

definition reply_settings :: "string \<Rightarrow> Request \<Rightarrow> (string \<times> string) list" where
  "reply_settings client req = [(''client_id'', client), (''ts'', itoa (r_TS req)), (''x'', itoa (r_X req)), (''y'', itoa (r_Y req)),
     (''amt'', itoa (sint (r_Amt req)))]"

definition int64_fields :: "Request \<Rightarrow> bool" where
  "int64_fields req \<longleftrightarrow> (\<forall>i\<in>{r_TS req, r_X req, r_Y req}. - (2 ^ 63) \<le> i \<and> i < 2 ^ 63)"

lemma go_Atoi_amt: "go_Atoi (itoa (sint (a :: int64))) = Some (sint a)"
  using sint_lt [of a] sint_ge [of a] by (intro go_Atoi_itoa) simp_all

text \<open>What the server answers to a query whose first settings of each key are these.\<close>

lemma reply_query:
  assumes "list_all plain_setting ps" "ps \<noteq> []" and "int64_fields req"
    and "map_of ps ''client_id'' = Some (r_ClientID req)" "map_of ps ''ts'' = Some (itoa (r_TS req))"
      "map_of ps ''x'' = Some (itoa (r_X req))" "map_of ps ''y'' = Some (itoa (r_Y req))"
      "map_of ps ''amt'' = Some (itoa (sint (r_Amt req)))"
  shows "RegisterHTTP C J up \<lparr>hq_Method = ''GET'', hq_Path = ''/reply'', hq_Query = render_query ps, hq_Body = []\<rparr> r =
    (case LookupReply C (n_Engine (r_Node r)) (req\<lparr>r_Op := OpEmpty\<rparr>) of
       None \<Rightarrow> \<lparr>hr_Status = 404, hr_Body = []\<rparr> | Some reply \<Rightarrow> http_ok (enc_Reply J reply), r)"
proof -
  have eq: "\<lparr>r_ClientID = r_ClientID req, r_TS = r_TS req, r_X = r_X req, r_Y = r_Y req, r_Amt = r_Amt req, r_Op = OpEmpty\<rparr> = req\<lparr>r_Op := OpEmpty\<rparr>"
    by simp
  show ?thesis
    using assms(3)
    by (simp add: RegisterHTTP_def handleHTTPReply_def query_Get_render [OF assms(2,1)] assms(4-8) go_Atoi_amt go_Atoi_itoa
        int64_fields_def Let_def) (simp only: eq)
qed

lemma fetch_reply:
  assumes up: "ServerByID (cl_Topo W) i = Some srv" "cl_Net W i = None"
    and json: "\<And>rep. dec_Reply (cl_Json W) (enc_Reply (cl_Json W) rep) = Inr rep"
    and url: "reply_url req' = ''/reply'' @ CHR ''?'' # render_query ps"
    and ps: "list_all plain_setting ps" "ps \<noteq> []" "int64_fields req"
      "map_of ps ''client_id'' = Some (r_ClientID req)" "map_of ps ''ts'' = Some (itoa (r_TS req))"
      "map_of ps ''x'' = Some (itoa (r_X req))" "map_of ps ''y'' = Some (itoa (r_Y req))"
      "map_of ps ''amt'' = Some (itoa (sint (r_Amt req)))"
  shows "Remote_LookupReply W w i req' = Inr (LookupReply (cl_Crypto W) (n_Engine (r_Node (rm_Servers w i))) (req\<lparr>r_Op := OpEmpty\<rparr>))"
proof -
  have path: "plain ''/reply''" "CHR ''?'' \<notin> set ''/reply''" by (simp_all add: plain_char_def control_char_def)
  show ?thesis
    unfolding Remote_LookupReply_def url http_call_query [OF up path ps(1)] reply_query [OF ps]
    by (simp add: http_ok_def json split: option.split)
qed

lemma plain_reply_settings: "plain client \<Longrightarrow> list_all plain_setting (reply_settings client req)"
  by (simp add: reply_settings_def plain_setting_def) (simp add: plain_char_def control_char_def)

text \<open>The client's query for a reply finds it. If the client id has none of the characters that
  mean something in a URL (the test-case runner's and the benchmark's ids have none), what the client
  reads from a server it can reach is what the engine of that server has recorded for the request, and
  no reply otherwise, provided that decoding undoes the encoding of a reply.\<close>

theorem remote_reply_lookup:
  assumes "ServerByID (cl_Topo W) i = Some srv" "cl_Net W i = None"
    and "\<And>rep. dec_Reply (cl_Json W) (enc_Reply (cl_Json W) rep) = Inr rep"
    and "plain (r_ClientID req)" "int64_fields req"
  shows "Remote_LookupReply W w i req = Inr (LookupReply (cl_Crypto W) (n_Engine (r_Node (rm_Servers w i))) (req\<lparr>r_Op := OpEmpty\<rparr>))"
proof (rule fetch_reply [OF assms(1-3), of _ "reply_settings (r_ClientID req) req"])
  show "list_all plain_setting (reply_settings (r_ClientID req) req)" using assms(4) by (rule plain_reply_settings)
qed (use assms(5) in \<open>simp_all add: reply_url_def reply_settings_def\<close>)

text \<open>A server of the example deployment that has recorded one reply.\<close>

definition replied :: "int \<Rightarrow> Request \<Rightarrow> Result \<Rightarrow> replica" where
  "replied i req res = on_node (on_engine (\<lambda>e. sendClientReply plain_crypto e (mk_reply req 1 res))) (sample_replica i)"

lemma replied_lookup:
  "LookupReply plain_crypto (n_Engine (r_Node (replied i req res))) (req\<lparr>r_Op := OpEmpty\<rparr>) = Some (mk_reply req 1 res)"
proof -
  have "TxnID plain_crypto \<lparr>r_ClientID = r_ClientID req, r_TS = r_TS req, r_X = r_X req, r_Y = r_Y req, r_Amt = r_Amt req, r_Op = OpEmpty\<rparr> =
      TxnID plain_crypto (req\<lparr>r_Op := OpEmpty\<rparr>)" by (rule arg_cong [where f = "TxnID plain_crypto"]) simp
  then show ?thesis
    by (simp add: replied_def on_node_def on_engine_def LookupReply_def sendClientReply_def mk_reply_def emit_def Let_def)
qed

theorem remote_reply_lookup_witness:
  "Remote_LookupReply sample_cloud (sample_remote\<lparr>rm_Servers := \<lambda>i. replied i sample_req ResultCommitted\<rparr>) 2 sample_req =
     Inr (Some (mk_reply sample_req 1 ResultCommitted))"
proof -
  obtain srv where srv: "ServerByID (cl_Topo sample_cloud) 2 = Some srv" using sample_server [of 2] by auto
  have net: "cl_Net sample_cloud 2 = None" and json: "dec_Reply (cl_Json sample_cloud) (enc_Reply (cl_Json sample_cloud) rep) = Inr rep" for rep
    by (simp_all add: sample_cloud_def sample_reply_roundtrip)
  have "plain (r_ClientID sample_req)" "int64_fields sample_req"
    by (simp_all add: sample_req_def plain_char_def control_char_def int64_fields_def)
  from remote_reply_lookup [OF srv net json this, of "sample_remote\<lparr>rm_Servers := \<lambda>i. replied i sample_req ResultCommitted\<rparr>"]
  show ?thesis by (simp add: replied_lookup) (simp add: sample_cloud_def replied_lookup)
qed

text \<open>The client id is put into the URL without escaping, so an id that contains a setting of its
  own asks for somebody else's reply: for the id \<open>c&ts=n\<close> the server answers with its reply to request
  number \<open>n\<close> of client \<open>c\<close>, whatever the number of the request asked for.\<close>

theorem unescaped_client_id:
  assumes "ServerByID (cl_Topo W) i = Some srv" "cl_Net W i = None"
    and "\<And>rep. dec_Reply (cl_Json W) (enc_Reply (cl_Json W) rep) = Inr rep"
    and "plain c" "int64_fields (req\<lparr>r_TS := n\<rparr>)" and "r_ClientID req = c @ ''&ts='' @ itoa n"
  shows "Remote_LookupReply W w i req =
    Inr (LookupReply (cl_Crypto W) (n_Engine (r_Node (rm_Servers w i))) (req\<lparr>r_ClientID := c, r_TS := n, r_Op := OpEmpty\<rparr>))"
proof -
  let ?ps = "(''client_id'', c) # (''ts'', itoa n) # tl (reply_settings c req)"
  let ?req = "req\<lparr>r_ClientID := c, r_TS := n\<rparr>"
  have ps: "list_all plain_setting ?ps"
    using plain_reply_settings [OF assms(4), of req] plain_reply_settings [OF assms(4), of ?req] by (simp add: reply_settings_def)
  have url: "reply_url req = ''/reply'' @ CHR ''?'' # render_query ?ps"
    using assms(6) by (simp add: reply_url_def reply_settings_def)
  have "Remote_LookupReply W w i req =
      Inr (LookupReply (cl_Crypto W) (n_Engine (r_Node (rm_Servers w i))) (?req\<lparr>r_Op := OpEmpty\<rparr>))"
    by (rule fetch_reply [OF assms(1-3) url ps]) (use assms(5) in \<open>simp_all add: reply_settings_def int64_fields_def\<close>)
  then show ?thesis by simp
qed

theorem unescaped_client_id_witness:
  "Remote_LookupReply sample_cloud (sample_remote\<lparr>rm_Servers := \<lambda>i. replied i sample_req ResultCommitted\<rparr>) 2
     (sample_req\<lparr>r_ClientID := r_ClientID sample_req @ ''&ts='' @ itoa 1, r_TS := 99\<rparr>) = Inr (Some (mk_reply sample_req 1 ResultCommitted))"
proof -
  obtain srv where srv: "ServerByID (cl_Topo sample_cloud) 2 = Some srv" using sample_server [of 2] by auto
  have net: "cl_Net sample_cloud 2 = None" and json: "dec_Reply (cl_Json sample_cloud) (enc_Reply (cl_Json sample_cloud) rep) = Inr rep" for rep
    by (simp_all add: sample_cloud_def sample_reply_roundtrip)
  let ?req = "sample_req\<lparr>r_ClientID := r_ClientID sample_req @ ''&ts='' @ itoa 1, r_TS := 99\<rparr>"
  have "plain (r_ClientID sample_req)" "int64_fields (?req\<lparr>r_TS := 1\<rparr>)" "r_ClientID ?req = r_ClientID sample_req @ ''&ts='' @ itoa 1"
    by (simp_all add: sample_req_def plain_char_def control_char_def int64_fields_def)
  from unescaped_client_id [OF srv net json this, of "sample_remote\<lparr>rm_Servers := \<lambda>i. replied i sample_req ResultCommitted\<rparr>"]
  have "Remote_LookupReply sample_cloud (sample_remote\<lparr>rm_Servers := \<lambda>i. replied i sample_req ResultCommitted\<rparr>) 2 ?req =
      Inr (LookupReply plain_crypto (n_Engine (r_Node (replied 2 sample_req ResultCommitted))) (?req\<lparr>r_ClientID := r_ClientID sample_req, r_TS := 1, r_Op := OpEmpty\<rparr>))"
    by (simp add: sample_cloud_def)
  moreover have "?req\<lparr>r_ClientID := r_ClientID sample_req, r_TS := 1, r_Op := OpEmpty\<rparr> = sample_req\<lparr>r_Op := OpEmpty\<rparr>"
    by (simp add: sample_req_def)
  ultimately show ?thesis by (simp add: replied_lookup)
qed

subsection \<open>The sum of all balances\<close>

lemma sum64_list: "sum64 xs = sum_list xs"
  by (induction xs) simp_all

lemma sum64_bucket:
  assumes "bkeys_ok m"
  shows "sum64 (map snd m) = (\<Sum>k\<in>fst ` set m. the (bget m k))"
proof -
  have dist: "distinct (map fst m)" using assms by (rule bkeys_distinct)
  have "map snd m = map (\<lambda>k. the (bget m k)) (map fst m)" using dist by (auto simp: map_of_is_SomeI)
  then show ?thesis using sum.distinct_set_conv_list [OF dist, of "\<lambda>k. the (bget m k)"] by (simp only: sum64_list set_map)
qed

definition put_all :: "(int \<Rightarrow> int64) \<Rightarrow> int list \<Rightarrow> (int, int64) bucket \<Rightarrow> (int, int64) bucket" where
  "put_all V items m = fold (\<lambda>i. bput i (V i)) items m"

lemma put_all_get: "bget (put_all V items m) i = (if i \<in> set items then Some (V i) else bget m i)"
  unfolding put_all_def by (induction items arbitrary: m) auto

lemma put_all_ok: "bkeys_ok m \<Longrightarrow> bkeys_ok (put_all V items m)" "fst ` set (put_all V items m) = set items \<union> fst ` set m"
  unfolding put_all_def by (induction items arbitrary: m) auto

lemma sum64_put_all: "sum64 (map snd (put_all V items [])) = (\<Sum>i\<in>set items. V i)"
  using sum64_bucket [OF put_all_ok(1) [OF bkeys_ok_Nil, of V items]] by (simp add: put_all_get put_all_ok(2))

lemma read_items_all:
  "\<forall>i\<in>set items. read_balance bal srv i = Inr (V i) \<Longrightarrow> read_items bal srv items m = Inr (put_all V items m)"
  by (induction items arbitrary: m) (simp_all add: put_all_def)

lemma read_clusters_all:
  assumes "\<forall>c\<in>set cs. c \<le> NumClusters t \<longrightarrow> (\<forall>i\<in>set items. ClusterOf t i = c \<longrightarrow> read_balance bal (PrimaryOf t c 0) i = Inr (V i))"
    and "sorted cs"
  shows "read_clusters bal t items cs m =
    Inr (put_all V (concat (map (\<lambda>c. filter (\<lambda>i. ClusterOf t i = c) items) (filter (\<lambda>c. c \<le> NumClusters t) cs))) m)"
  using assms
proof (induction cs arbitrary: m)
  case (Cons c cs)
  show ?case
  proof (cases "c \<le> NumClusters t")
    case True
    then have "read_items bal (PrimaryOf t c 0) (filter (\<lambda>i. ClusterOf t i = c) items) m =
        Inr (put_all V (filter (\<lambda>i. ClusterOf t i = c) items) m)"
      using Cons.prems(1) by (intro read_items_all) simp
    then show ?thesis using True Cons.IH Cons.prems by (simp add: put_all_def)
  next
    case False
    then have "filter (\<lambda>c. c \<le> NumClusters t) (c # cs) = []" using Cons.prems(2) by (auto simp: filter_empty_conv)
    then show ?thesis using False by (simp add: put_all_def del: filter.simps)
  qed
qed (simp add: put_all_def)

lemma tracked_range:
  assumes ok: "schema_ok s" and i: "i \<in> tracked s"
  shows "1 \<le> i" "i \<le> NumClusters (sc_Topo s) * ItemsPerCluster (sc_Topo s)"
    "1 \<le> ClusterOf (sc_Topo s) i" "ClusterOf (sc_Topo s) i \<le> NumClusters (sc_Topo s)"
proof -
  let ?t = "sc_Topo s" and ?p = "ItemsPerCluster (sc_Topo s)"
  have wf: "wf_topology ?t" using ok by (simp add: schema_ok_def)
  obtain c off where c: "i = place ?t c off" "1 \<le> c" "c \<le> NumClusters ?t" "0 \<le> off" "off < ?p"
  proof -
    consider (acc) k where "1 \<le> k" "k \<le> TotalCustomers s" "i = SavingsItem s k \<or> i = CheckingItem s k"
      | (tre) k where "1 \<le> k" "k \<le> NumClusters ?t" "i = TreasuryItem s k"
      using i by (auto simp: tracked_def AllTrackedItems_def set_AccountItems)
    then show thesis
    proof cases
      case acc
      note p = customer_place [OF ok acc(1,2)]
      have off: "0 \<le> 2 * ((k - 1) mod sc_CustomersPerCluster s)" "2 * ((k - 1) mod sc_CustomersPerCluster s) + 1 < ?p"
        using account_offset [OF ok, of k] by simp_all
      show thesis using acc(3)
      proof
        assume "i = SavingsItem s k" then show thesis using off p(4,5) by (intro that [OF _ p(4,5) off(1)]) (simp_all add: p(1))
      next
        assume "i = CheckingItem s k"
        then show thesis using off by (intro that [of "CustCluster s k" "2 * ((k - 1) mod sc_CustomersPerCluster s) + 1"]) (simp_all add: p(2,4,5))
      qed
    next
      case tre
      have "1 \<le> ?p" using wf by (simp add: wf_topology_def)
      then show thesis using tre by (intro that [of k "?p - 1"]) (simp_all add: treasury_place)
    qed
  qed
  then show "1 \<le> ClusterOf ?t i" "ClusterOf ?t i \<le> NumClusters ?t" using place_cluster [OF wf c(2-5)] by simp_all
  have low: "0 \<le> (c - 1) * ?p" using c(2,4,5) by simp
  have "(c - 1) * ?p + ?p = c * ?p" by (simp add: left_diff_distrib)
  moreover have "c * ?p \<le> NumClusters ?t * ?p" using c(3-5) by (intro mult_right_mono) simp_all
  ultimately show "1 \<le> i" "i \<le> NumClusters ?t * ?p" using low c(4,5) unfolding c(1) place_def by linarith+
qed

lemma remote_sum:
  assumes ok: "schema_ok s" and topo: "cl_Topo W = sc_Topo s"
    and size: "NumClusters (sc_Topo s) * ItemsPerCluster (sc_Topo s) < 2 ^ 63"
    and net: "\<And>c. 1 \<le> c \<Longrightarrow> c \<le> 3 \<Longrightarrow> c \<le> NumClusters (sc_Topo s) \<Longrightarrow> cl_Net W (PrimaryOf (sc_Topo s) c 0) = None"
  shows "SumBalances (Remote_PrintBalance W w) (sc_Topo s) s =
    Inr (\<Sum>i\<in>{i \<in> tracked s. ClusterOf (sc_Topo s) i \<le> 3}.
           GetBalance (replica_store (rm_Servers w (PrimaryOf (sc_Topo s) (ClusterOf (sc_Topo s) i) 0))) i)"
proof -
  let ?t = "sc_Topo s"
  define V where "V i = GetBalance (replica_store (rm_Servers w (PrimaryOf ?t (ClusterOf ?t i) 0))) i" for i
  have wf: "wf_topology ?t" using ok by (simp add: schema_ok_def)
  have read: "\<forall>c\<in>set [1, 2, 3]. c \<le> NumClusters ?t \<longrightarrow> (\<forall>i\<in>set (AllTrackedItems s).
      ClusterOf ?t i = c \<longrightarrow> read_balance (Remote_PrintBalance W w) (PrimaryOf ?t c 0) i = Inr (V i))"
  proof (intro ballI impI)
    fix c i assume c: "c \<in> set [1, 2, 3 :: int]" "c \<le> NumClusters ?t" and i: "i \<in> set (AllTrackedItems s)" "ClusterOf ?t i = c"
    have "PrimaryOf ?t c 0 \<in> members ?t c"
      using primary_rotation [of ?t c 0] wf c by (auto simp: valid_cluster_def)
    then have "\<exists>srv. ServerByID ?t (PrimaryOf ?t c 0) = Some srv"
      by (auto simp: ServerByID_Some [OF wf] members_def ServersInCluster_def)
    then obtain srv where "ServerByID (cl_Topo W) (PrimaryOf ?t c 0) = Some srv" by (auto simp: topo)
    moreover have "cl_Net W (PrimaryOf ?t c 0) = None" using net c by auto
    moreover have "0 \<le> i" "i < 2 ^ 63" using tracked_range [OF ok, of i] i(1) size by (simp_all add: tracked_def)
    ultimately show "read_balance (Remote_PrintBalance W w) (PrimaryOf ?t c 0) i = Inr (V i)"
      using fetch_read_balance [of W "PrimaryOf ?t c 0" srv i w] i(2) by (simp add: V_def)
  qed
  let ?L = "concat (map (\<lambda>c. filter (\<lambda>i. ClusterOf ?t i = c) (AllTrackedItems s)) (filter (\<lambda>c. c \<le> NumClusters ?t) [1, 2, 3]))"
  have "read_clusters (Remote_PrintBalance W w) ?t (AllTrackedItems s) [1, 2, 3] [] = Inr (put_all V ?L [])"
    by (rule read_clusters_all [OF read]) simp
  then have sum: "SumBalances (Remote_PrintBalance W w) ?t s = Inr (\<Sum>i\<in>set ?L. V i)"
    by (simp only: SumBalances_def sum.case sum64_put_all)
  have "i \<in> set ?L \<longleftrightarrow> i \<in> {i \<in> tracked s. ClusterOf ?t i \<le> 3}" for i
    using tracked_range(3,4) [OF ok, of i] by (auto simp: tracked_def)
  then have "set ?L = {i \<in> tracked s. ClusterOf ?t i \<le> 3}" by blast
  then show ?thesis unfolding sum V_def by simp
qed


definition sample_schema :: Schema where
  "sample_schema = \<lparr>sc_Topo = sample_topo, sc_CustomersPerCluster = 2, sc_PenaltyAmount = 1\<rparr>"

lemma sample_schema_ok: "schema_ok sample_schema"
proof -
  have "wf_topology sample_topo" unfolding sample_topo_def by (rule wf_New) simp_all
  then show ?thesis by (simp add: schema_ok_def sample_schema_def ItemsPerCluster_def go_div_def)
qed


end
