(* ===== verification/Driving.thy ===== *)
theory Driving
  imports Remote Client
begin

text \<open>
  The two programs that drive a deployment: the test-case runner's \<open>RunSet\<close>
  (\<open>internal/testcase/runner.go\<close>) and the benchmark's \<open>Run\<close> (\<open>internal/smallbank/driver.go\<close>). Their
  state is the deployment, the clock and their own record. Calls take no time; while a driver sleeps
  the deployment goes on, as the parameter \<open>en_Idle\<close> says. The context is never cancelled. Every
  waiting loop sleeps in each round and ends at its deadline.
\<close>

record env =
  en_Cloud :: cloud
  en_Idle :: "int \<Rightarrow> remote \<Rightarrow> remote"

text \<open>Time in nanoseconds; sleeping and the tunables in milliseconds.\<close>

record driver_state =
  ds_Remote :: remote
  ds_Now :: int

definition ms :: "int \<Rightarrow> int" where
  "ms d = 1000000 * d"

definition Sleep :: "env \<Rightarrow> int \<Rightarrow> 's driver_state_scheme \<Rightarrow> 's driver_state_scheme" where
  "Sleep E d s = s\<lparr>ds_Remote := en_Idle E d (ds_Remote s), ds_Now := ds_Now s + ms d\<rparr>"

lemma Sleep_Now [simp]: "ds_Now (Sleep E d s) = ds_Now s + ms d"
  by (simp add: Sleep_def)

definition on_remote :: "(remote \<Rightarrow> 'a \<times> remote) \<Rightarrow> 's driver_state_scheme \<Rightarrow> 'a \<times> 's driver_state_scheme" where
  "on_remote f s = (case f (ds_Remote s) of (a, w) \<Rightarrow> (a, s\<lparr>ds_Remote := w\<rparr>))"

lemma on_remote_Now [simp]: "ds_Now (snd (on_remote f s)) = ds_Now s"
  by (simp add: on_remote_def split: prod.split)

text \<open>Setting the faults of all servers and resetting some, until a call fails.\<close>

fun configure :: "cloud \<Rightarrow> (server \<Rightarrow> FaultConfig) \<Rightarrow> (server \<Rightarrow> bool) \<Rightarrow> server list \<Rightarrow> remote \<Rightarrow> string option \<times> remote" where
  "configure W fault reset [] w = (None, w)"
| "configure W fault reset (srv # srvs) w =
     (case Remote_SetFault W (srv_ID srv) (fault srv) w of
        (Some err, w) \<Rightarrow> (Some (''set fault '' @ server_name (srv_ID srv) @ '': '' @ err), w)
      | (None, w) \<Rightarrow>
          if reset srv then
            (case Remote_ResetConsensus W (srv_ID srv) w of
               (Some err, w) \<Rightarrow> (Some (''reset '' @ server_name (srv_ID srv) @ '': '' @ err), w)
             | (None, w) \<Rightarrow> configure W fault reset srvs w)
          else configure W fault reset srvs w)"

subsection \<open>The test-case runner\<close>

record session = driver_state +
  ss_Runner :: runner

abbreviation ss_Topo :: "session \<Rightarrow> topology" where
  "ss_Topo s \<equiv> rn_Topo (ss_Runner s)"

definition ApplySetConfig :: "env \<Rightarrow> TestSet \<Rightarrow> session \<Rightarrow> string option \<times> session" where
  "ApplySetConfig E ts s =
     (let t = ss_Topo s in
      on_remote (configure (en_Cloud E) (set_fault ts t) (\<lambda>srv. srv_ID srv \<in> toIDSet (set_Live ts)) (Servers t)) s)"

text \<open>The times of sending, by timestamp.\<close>

type_synonym sent_times = "(int, int) bucket"

definition send_request :: "env \<Rightarrow> TestSet \<Rightarrow> Request \<Rightarrow> sent_times \<times> session \<Rightarrow> string option \<times> sent_times \<times> session" where
  "send_request E ts req acc =
     (case acc of (sent, s) \<Rightarrow>
        (case ContactFor ts (ClusterOf (ss_Topo s) (r_X req)) of
           Inl err \<Rightarrow> (Some err, sent, s)
         | Inr contact \<Rightarrow>
             (case Remote_SendRequest (en_Cloud E) contact req (ds_Remote s) of
                (err, w) \<Rightarrow>
                  (case sendOne (\<lambda>_ _. err) (ds_Now s) ts req (ss_Runner s) of
                     (failed, r) \<Rightarrow> (failed, if failed = None then bput (r_TS req) (ds_Now s) sent else sent,
                                     s\<lparr>ds_Remote := w, ss_Runner := r\<rparr>)))))"

definition collect_reply :: "env \<Rightarrow> Request \<Rightarrow> session \<Rightarrow> bool \<times> session" where
  "collect_reply E req s =
     (case collectReply (Remote_LookupReply (en_Cloud E) (ds_Remote s)) (ds_Now s) req (ss_Runner s) of
        (got, r) \<Rightarrow> (got, s\<lparr>ss_Runner := r\<rparr>))"

type_synonym tracks = "(int, settleTrack) bucket"

text \<open>One round of a waiting loop over the requests: a request without its replies may be sent again,
  to its contact and to all servers of the coordinator's cluster, errors ignored.\<close>

definition settle_one :: "env \<Rightarrow> TestSet \<Rightarrow> Request \<Rightarrow> bool \<times> tracks \<times> session \<Rightarrow> bool \<times> tracks \<times> session" where
  "settle_one E ts req acc =
     (case acc of (settled, tracks, s) \<Rightarrow>
        (case collect_reply E req s of
           (True, s) \<Rightarrow> (settled, tracks, s)
         | (False, s) \<Rightarrow>
             (case maybeResend (ds_Now s) ts req (DefaultTunables (ss_Topo s)) (ss_Topo s) (bget tracks (r_TS req)) of
                (track, targets) \<Rightarrow>
                  (False, case track of None \<Rightarrow> tracks | Some k \<Rightarrow> bput (r_TS req) k tracks,
                   s\<lparr>ds_Remote := fold (\<lambda>i w. snd (Remote_SendRequest (en_Cloud E) i req w)) targets (ds_Remote s)\<rparr>))))"

definition settle_round :: "env \<Rightarrow> TestSet \<Rightarrow> Request list \<Rightarrow> tracks \<times> session \<Rightarrow> bool \<times> tracks \<times> session" where
  "settle_round E ts reqs acc = fold (settle_one E ts) reqs (True, acc)"

lemma settle_round_Now: "ds_Now (snd (snd (settle_round E ts reqs acc))) = ds_Now (snd acc)"
proof -
  have one: "ds_Now (snd (snd (settle_one E ts req a))) = ds_Now (snd (snd a))" for req a
    by (auto simp: settle_one_def collect_reply_def split: prod.split bool.split)
  have "ds_Now (snd (snd (fold (settle_one E ts) reqs a))) = ds_Now (snd (snd a))" for a
    by (induction reqs arbitrary: a) (simp_all add: one)
  from this [of "(True, acc)"] show ?thesis by (simp add: settle_round_def)
qed

lemma poll_interval [simp]: "SettlePollInterval (DefaultTunables t) = 50"
  by (simp add: DefaultTunables_def Let_def)

function settle_loop :: "env \<Rightarrow> TestSet \<Rightarrow> Request list \<Rightarrow> int \<Rightarrow> tracks \<times> session \<Rightarrow> session" where
  "settle_loop E ts reqs deadline acc =
     (if ds_Now (snd acc) < deadline then
        (case settle_round E ts reqs acc of
           (settled, tracks, s) \<Rightarrow>
             if settled then s
             else settle_loop E ts reqs deadline (tracks, Sleep E (SettlePollInterval (DefaultTunables (ss_Topo s))) s))
      else snd acc)"
  by pat_completeness auto
termination
proof (relation "measure (\<lambda>(E, ts, reqs, deadline, acc). nat (deadline - ds_Now (snd acc)))", goal_cases)
  case (2 E ts reqs deadline acc settled y tracks s)
  then have "s = snd (snd (settle_round E ts reqs acc))" by (metis snd_conv)
  then have "ds_Now s = ds_Now (snd acc)" by (simp add: settle_round_Now)
  then show ?case using 2(1) by (simp add: ms_def)
qed simp

declare settle_loop.simps [simp del]

definition start_tracks :: "sent_times \<Rightarrow> Request list \<Rightarrow> tracks" where
  "start_tracks sent reqs =
     fold (\<lambda>req. bput (r_TS req)
       \<lparr>sk_SentAt = (case bget sent (r_TS req) of None \<Rightarrow> 0 | Some at \<Rightarrow> at), sk_ResendRound = 0\<rparr>) reqs []"

definition waitOneTxn :: "env \<Rightarrow> TestSet \<Rightarrow> Request \<Rightarrow> sent_times \<Rightarrow> session \<Rightarrow> session" where
  "waitOneTxn E ts req sent s =
     (if bget sent (r_TS req) = None then s
      else settle_loop E ts [req] (ds_Now s + ms (SettlePerCrossTxn (DefaultTunables (ss_Topo s)))) (start_tracks sent [req], s))"

definition waitSettle :: "env \<Rightarrow> TestSet \<Rightarrow> Request list \<Rightarrow> sent_times \<Rightarrow> session \<Rightarrow> session" where
  "waitSettle E ts pending sent s =
     (let tm = DefaultTunables (ss_Topo s);
          cross = int (length (filter (is_cross (ss_Topo s)) pending));
          deadline = ds_Now s + ms (SettleDeadline tm (int (length pending)) + cross * SettlePerCrossTxn tm)
      in settle_loop E ts pending deadline (start_tracks sent pending, s))"

definition waitCrossSettle :: "env \<Rightarrow> TestSet \<Rightarrow> Request list \<Rightarrow> sent_times \<Rightarrow> session \<Rightarrow> session" where
  "waitCrossSettle E ts pending sent s =
     (let tm = DefaultTunables (ss_Topo s);
          cross = filter (worth_waiting (Remote_PrintBalance (en_Cloud E) (ds_Remote s)) ts (ss_Topo s)) pending
      in if cross = [] then s
         else settle_loop E ts cross (ds_Now s + ms (int (length cross) * SettlePerCrossTxn tm)) (start_tracks sent cross, s))"

definition drain_one :: "env \<Rightarrow> topology \<Rightarrow> TestSet \<Rightarrow> server \<Rightarrow> remote \<Rightarrow> remote" where
  "drain_one E t ts srv w =
     (if srv_ID srv \<notin> toIDSet (set_Live ts) then w
      else (let tm = DefaultTunables t; isPrimary = (PrimaryOf t (srv_Cluster srv) 0 = srv_ID srv) in
            if isPrimary then snd (Remote_DrainReplica (en_Cloud E) (srv_ID srv) (ReclaimDrainWait tm) False w)
            else snd (Remote_DrainReplica (en_Cloud E) (srv_ID srv) (LockPollInterval tm * 20) True w)))"

text \<open>One goroutine per live server; they touch different servers.\<close>

definition drainReplicas :: "env \<Rightarrow> TestSet \<Rightarrow> session \<Rightarrow> session" where
  "drainReplicas E ts s = s\<lparr>ds_Remote := fold (drain_one E (ss_Topo s) ts) (Servers (ss_Topo s)) (ds_Remote s)\<rparr>"

fun send_plain :: "env \<Rightarrow> TestSet \<Rightarrow> Request list \<Rightarrow> sent_times \<times> session \<Rightarrow> string option \<times> sent_times \<times> session" where
  "send_plain E ts [] acc = (None, acc)"
| "send_plain E ts (req # reqs) acc =
     (case send_request E ts req acc of
        (Some err, acc) \<Rightarrow> (Some err, acc)
      | (None, acc) \<Rightarrow> send_plain E ts reqs acc)"

fun send_cross :: "env \<Rightarrow> TestSet \<Rightarrow> Request list \<Rightarrow> sent_times \<times> session \<Rightarrow> string option \<times> sent_times \<times> session" where
  "send_cross E ts [] acc = (None, acc)"
| "send_cross E ts (req # reqs) acc =
     (case send_request E ts req acc of
        (Some err, acc) \<Rightarrow> (Some err, acc)
      | (None, sent, s) \<Rightarrow> send_cross E ts reqs (sent, waitOneTxn E ts req sent s))"

fun count_unresolved :: "env \<Rightarrow> Request list \<Rightarrow> session \<Rightarrow> int \<times> session" where
  "count_unresolved E [] s = (0, s)"
| "count_unresolved E (req # reqs) s =
     (case collect_reply E req s of
        (got, s) \<Rightarrow> (case count_unresolved E reqs s of (n, s) \<Rightarrow> (if got then n else n + 1, s)))"

definition RunSet :: "env \<Rightarrow> TestSet \<Rightarrow> session \<Rightarrow> (string + Request list) \<times> session" where
  "RunSet E ts s =
     (case ApplySetConfig E ts s of
        (Some err, s) \<Rightarrow> (Inl err, s)
      | (None, s) \<Rightarrow>
          (let t = ss_Topo s; tm = DefaultTunables t; pending = pending_requests (ss_Runner s) ts;
               s = s\<lparr>ss_Runner := (ss_Runner s)\<lparr>rn_NextTS := rn_NextTS (ss_Runner s) + int (length (set_Txns ts))\<rparr>\<rparr>
           in case send_plain E ts (filter (\<lambda>q. \<not> is_cross t q) pending) ([], s) of
                (Some err, _, s) \<Rightarrow> (Inl err, s)
              | (None, acc) \<Rightarrow>
                  (case send_cross E ts (filter (is_cross t) pending) acc of
                     (Some err, _, s) \<Rightarrow> (Inl err, s)
                   | (None, sent, s) \<Rightarrow>
                       (let s = waitSettle E ts pending sent s;
                            s = waitCrossSettle E ts pending sent s
                        in case count_unresolved E pending s of
                             (unresolved, s) \<Rightarrow>
                               (let s = Sleep E (if unresolved > 0 then ViewChangeTimeout tm * 6 else ViewChangeTimeout tm) s
                                in (Inr pending, drainReplicas E ts s))))))"

subsection \<open>The benchmark\<close>

text \<open>The skew and the seed of the random source are in the source; durations in milliseconds.\<close>

record bench_config =
  cf_Txns :: nat
  cf_Amt :: int64
  cf_SettleTimeout :: int
  cf_MultiStepTimeout :: int
  cf_Pace :: int

definition DefaultConfig :: bench_config where
  "DefaultConfig = \<lparr>cf_Txns = 1000, cf_Amt = 2, cf_SettleTimeout = 300000, cf_MultiStepTimeout = 10000, cf_Pace = 25\<rparr>"

record 'r bench = driver_state +
  bn_Gen :: Generator
  bn_Metrics :: WorkloadMetrics
  bn_Rng :: 'r

abbreviation bn_Schema :: "'r bench \<Rightarrow> Schema" where
  "bn_Schema b \<equiv> gn_Schema (bn_Gen b)"

definition NewBench :: "topology \<Rightarrow> remote \<Rightarrow> int \<Rightarrow> 'r \<Rightarrow> 'r bench" where
  "NewBench t w now r =
     \<lparr>ds_Remote = w, ds_Now = now, bn_Gen = NewGenerator (NewSchema t) ''smallbank-client'',
      bn_Metrics = \<lparr>wm_Records = [], wm_Penalties = 0\<rparr>, bn_Rng = r\<rparr>"

definition PrepareCluster :: "env \<Rightarrow> topology \<Rightarrow> 'r bench \<Rightarrow> string option \<times> 'r bench" where
  "PrepareCluster E t b = on_remote (configure (en_Cloud E) (prepare_fault t) (\<lambda>_. True) (Servers t)) b"

definition contact :: "topology \<Rightarrow> int \<Rightarrow> int" where
  "contact t cluster = PrimaryOf t cluster 0"

function waitResult :: "env \<Rightarrow> topology \<Rightarrow> Request \<Rightarrow> int \<Rightarrow> 'r bench \<Rightarrow> Result option \<times> 'r bench" where
  "waitResult E t req deadline b =
     (if ds_Now b < deadline then
        (case collect_result t (Remote_LookupReply (en_Cloud E) (ds_Remote b)) req of
           Some res \<Rightarrow> (Some res, b)
         | None \<Rightarrow> waitResult E t req deadline (Sleep E 50 b))
      else (None, b))"
  by pat_completeness auto
termination
  by (relation "measure (\<lambda>(E, t, req, deadline, b). nat (deadline - ds_Now b))") (simp_all add: ms_def)

declare waitResult.simps [simp del]

text \<open>Ten customers of every cluster give ten each to its treasury.\<close>

fun fund_loop :: "env \<Rightarrow> topology \<Rightarrow> (int \<times> int) list \<Rightarrow> 'r bench \<Rightarrow> string option \<times> 'r bench" where
  "fund_loop E t [] b = (None, b)"
| "fund_loop E t ((cluster, local) # cs) b =
     (let s = bn_Schema b; cust = (cluster - 1) * sc_CustomersPerCluster s + local in
      case nextReq (CheckingItem s cust) (TreasuryItem s cluster) 10 (bn_Gen b) of
        (req, g) \<Rightarrow>
          (case on_remote (Remote_SendRequest (en_Cloud E) (contact t cluster) req) (b\<lparr>bn_Gen := g\<rparr>) of
             (Some err, b) \<Rightarrow> (Some err, b)
           | (None, b) \<Rightarrow> fund_loop E t cs (snd (waitResult E t req (ds_Now b + ms 30000) b))))"

definition fundTreasury :: "env \<Rightarrow> topology \<Rightarrow> 'r bench \<Rightarrow> string option \<times> 'r bench" where
  "fundTreasury E t b = fund_loop E t (concat (map (\<lambda>c. map (\<lambda>l. (c, l)) [1..10]) [1..NumClusters t])) b"

definition kind_name :: "Kind \<Rightarrow> string" where
  "kind_name k = (case k of KindBalance \<Rightarrow> ''Bal'' | KindDepositChecking \<Rightarrow> ''DC'' | KindTransactSavings \<Rightarrow> ''TS''
     | KindAmalgamate \<Rightarrow> ''Amg'' | KindWriteCheck \<Rightarrow> ''WC'' | KindSendPayment \<Rightarrow> ''SP'')"

text \<open>The requests of one operation. With more than one, each is waited for, and one that does not
  commit ends the operation. The result is the last request sent.\<close>

fun submit :: "env \<Rightarrow> topology \<Rightarrow> Kind \<Rightarrow> bool \<Rightarrow> int \<Rightarrow> Request list \<Rightarrow> Request \<Rightarrow> 'r bench \<Rightarrow> (string + Request) \<times> 'r bench" where
  "submit E t k multi step [] prev b = (Inr prev, b)"
| "submit E t k multi step (req # reqs) prev b =
     (case on_remote (Remote_SendRequest (en_Cloud E) (contact t (ClusterOf t (r_X req))) req) b of
        (Some err, b) \<Rightarrow> (Inl (''send '' @ kind_name k @ '': '' @ err), b)
      | (None, b) \<Rightarrow>
          if multi then
            (case waitResult E t req (ds_Now b + ms step) b of
               (res, b) \<Rightarrow> if res \<noteq> Some ResultCommitted then (Inr req, b) else submit E t k multi step reqs req b)
          else submit E t k multi step reqs req b)"

definition add_metrics :: "(WorkloadMetrics \<Rightarrow> WorkloadMetrics) \<Rightarrow> 'r bench \<Rightarrow> 'r bench" where
  "add_metrics f b = b\<lparr>bn_Metrics := f (bn_Metrics b)\<rparr>"

text \<open>The \<open>i\<close>-th of the operations still to do; \<open>None\<close> is an operation whose choice never ends.\<close>

fun run_ops ::
    "env \<Rightarrow> topology \<Rightarrow> 'r rng \<Rightarrow> Picker \<Rightarrow> bench_config \<Rightarrow> nat \<Rightarrow> nat \<Rightarrow> opMeta list \<Rightarrow> 'r bench \<Rightarrow> ((string + opMeta list) \<times> 'r bench) option" where
  "run_ops E t R p cfg 0 i metas b = Some (Inr metas, b)"
| "run_ops E t R p cfg (Suc n) i metas b =
     (case RandomOp R p (UniformKinds ! (i mod length UniformKinds)) (cf_Amt cfg) (bn_Rng b) (bn_Gen b) of
        None \<Rightarrow> None
      | Some ((Inl err, g), r) \<Rightarrow> Some (Inl err, b\<lparr>bn_Gen := g, bn_Rng := r\<rparr>)
      | Some ((Inr op, g), r) \<Rightarrow>
          (let b = b\<lparr>bn_Gen := g, bn_Rng := r\<rparr>; at = ds_Now b in
           if op_ReadOnly op then
             run_ops E t R p cfg n (Suc i) metas
               (add_metrics (RecordSample \<lparr>sm_Kind = op_Kind op, sm_CrossShard = False, sm_Committed = True, sm_SentAt = Some at,
                                           sm_RepliedAt = Some at, sm_Latency = 0\<rparr>) b)
           else
             (let step = (if cf_MultiStepTimeout cfg \<le> 0 then 10000 else cf_MultiStepTimeout cfg) in
              case submit E t (op_Kind op) (length (op_Requests op) > 1) step (op_Requests op) emptyRequest b of
                (Inl err, b) \<Rightarrow> Some (Inl err, b)
              | (Inr prev, b) \<Rightarrow>
                  (let metas = metas @ [\<lparr>om_Op = op, om_SentAt = at, om_LastReq = prev, om_Done = False\<rparr>];
                       b = (if op_Penalty op then add_metrics (AddPenalty (sc_PenaltyAmount (bn_Schema b))) b else b);
                       b = (if cf_Pace cfg > 0 then Sleep E (cf_Pace cfg) b else b)
                   in run_ops E t R p cfg n (Suc i) metas b))))"

text \<open>One round over the operations that are not done, and the loop that repeats it, used
  to settle and then to drain.\<close>

fun resolve_round :: "env \<Rightarrow> topology \<Rightarrow> opMeta list \<Rightarrow> 'r bench \<Rightarrow> opMeta list \<times> 'r bench" where
  "resolve_round E t [] b = ([], b)"
| "resolve_round E t (m # metas) b =
     (if om_Done m then (case resolve_round E t metas b of (metas, b) \<Rightarrow> (m # metas, b))
      else (case tryResolve t (Remote_LookupReply (en_Cloud E) (ds_Remote b)) (ds_Now b) m (bn_Metrics b) of
              (_, m, w) \<Rightarrow> (case resolve_round E t metas (b\<lparr>bn_Metrics := w\<rparr>) of (metas, b) \<Rightarrow> (m # metas, b))))"

lemma resolve_round_Now [simp]: "ds_Now (snd (resolve_round E t metas b)) = ds_Now b"
  by (induction E t metas b rule: resolve_round.induct) (auto split: prod.split)

function resolve_loop :: "env \<Rightarrow> topology \<Rightarrow> bool \<Rightarrow> int \<Rightarrow> opMeta list \<Rightarrow> 'r bench \<Rightarrow> opMeta list \<times> 'r bench" where
  "resolve_loop E t draining deadline metas b =
     (if ds_Now b < deadline then
        (case resolve_round E t metas b of
           (metas, b) \<Rightarrow> if list_all om_Done metas then (metas, b)
                         else resolve_loop E t draining deadline metas (Sleep E (if draining then 100 else 50) b))
      else (metas, b))"
  by pat_completeness auto
termination
proof (relation "measure (\<lambda>(E, t, draining, deadline, metas, b). nat (deadline - ds_Now b))", goal_cases)
  case (2 E t draining deadline metas b metas' b')
  then have "b' = snd (resolve_round E t metas b)" by (metis snd_conv)
  then have "ds_Now b' = ds_Now b" by simp
  then show ?case using 2(1) by (simp add: ms_def)
qed simp

declare resolve_loop.simps [simp del]

definition record_unresolved :: "opMeta list \<Rightarrow> 'r bench \<Rightarrow> 'r bench" where
  "record_unresolved metas b =
     fold (\<lambda>m b. if om_Done m then b
             else add_metrics (RecordSample \<lparr>sm_Kind = op_Kind (om_Op m), sm_CrossShard = op_CrossShard (om_Op m),
                    sm_Committed = False, sm_SentAt = Some (om_SentAt m), sm_RepliedAt = None,
                    sm_Latency = ds_Now b - om_SentAt m\<rparr>) b) metas b"

definition drain_primary :: "env \<Rightarrow> topology \<Rightarrow> int \<Rightarrow> remote \<Rightarrow> remote" where
  "drain_primary E t c w = snd (Remote_DrainReplica (en_Cloud E) (PrimaryOf t c 0) 5000 True w)"

definition no_outstanding :: ClusterOutstanding where
  "no_outstanding = \<lparr>co_TotalWAL = 0, co_TotalLocks = 0, co_TxnIDs = [], co_ByServer = []\<rparr>"

text \<open>The wait for the write-ahead logs of all primaries to stay empty for three seconds.\<close>

function quiesce :: "env \<Rightarrow> topology \<Rightarrow> int \<Rightarrow> ClusterOutstanding \<Rightarrow> int option \<Rightarrow> 'r bench \<Rightarrow> (string + ClusterOutstanding) \<times> 'r bench" where
  "quiesce E t deadline prev since b =
     (if ds_Now b < deadline then
        (let b = b\<lparr>ds_Remote := fold (drain_primary E t) [1..NumClusters t] (ds_Remote b)\<rparr> in
         case FetchClusterOutstanding (Remote_FetchOutstanding (en_Cloud E) (ds_Remote b)) t of
           (Some err, _) \<Rightarrow> (Inl err, b)
         | (None, out) \<Rightarrow>
             if co_TotalWAL out = 0 \<and> (case since of None \<Rightarrow> False | Some t0 \<Rightarrow> ds_Now b - t0 \<ge> ms 3000) then (Inr out, b)
             else quiesce E t deadline out
                    (if co_TotalWAL out = 0 then (case since of None \<Rightarrow> Some (ds_Now b) | Some t0 \<Rightarrow> Some t0) else None)
                    (Sleep E 500 b))
      else (Inl (''2PC WAL not clear: wal='' @ itoa (co_TotalWAL prev) @ '' locks='' @ itoa (co_TotalLocks prev)), b))"
  by pat_completeness auto
termination
  by (relation "measure (\<lambda>(E, t, deadline, prev, since, b). nat (deadline - ds_Now b))") (simp_all add: ms_def)

declare quiesce.simps [simp del]

definition Wait2PCQuiescence :: "env \<Rightarrow> topology \<Rightarrow> int \<Rightarrow> 'r bench \<Rightarrow> (string + ClusterOutstanding) \<times> 'r bench" where
  "Wait2PCQuiescence E t maxWait b = quiesce E t (ds_Now b + ms maxWait) no_outstanding None b"

datatype bench_error =
    PrepareFailed string
  | InitialSum string
  | FundTreasury string
  | OperationFailed string
  | Quiescence string
  | FinalSum string
  | Stranded ClusterOutstanding string
  | Violated string "(int, int64) bucket option"

definition check_sums :: "env \<Rightarrow> topology \<Rightarrow> int64 \<Rightarrow> ClusterOutstanding \<Rightarrow> 'r bench \<Rightarrow> bench_error option" where
  "check_sums E t initial out b =
     (let bal = Remote_PrintBalance (en_Cloud E) (ds_Remote b) in
      case SumBalances bal t (bn_Schema b) of
        Inl err \<Rightarrow> Some (FinalSum err)
      | Inr final \<Rightarrow>
          (case CheckConservation initial final (wm_Penalties (bn_Metrics b)) of
             None \<Rightarrow> None
           | Some err \<Rightarrow>
               if co_TotalWAL out > 0 then Some (Stranded out err)
               else (case SumBalancesByCluster bal t (bn_Schema b) of
                       Inr (per, _) \<Rightarrow> Some (Violated err (Some per))
                     | Inl _ \<Rightarrow> Some (Violated err None))))"

text \<open>The end of a run, once its operations have settled or not: draining the rest, waiting for the
  write-ahead logs, and the sums.\<close>

definition finish_run :: "env \<Rightarrow> topology \<Rightarrow> int64 \<Rightarrow> bench_config \<Rightarrow> opMeta list \<Rightarrow> 'r bench \<Rightarrow> bench_error option \<times> 'r bench" where
  "finish_run E t initial cfg metas b =
     (case resolve_loop E t True (ds_Now b + ms (cf_SettleTimeout cfg)) metas b of
        (metas, b) \<Rightarrow>
          (let wait = (if cf_SettleTimeout cfg < 180000 then 180000 else cf_SettleTimeout cfg) in
           case Wait2PCQuiescence E t wait b of
             (Inl err, b) \<Rightarrow> (Some (Quiescence err), b)
           | (Inr out, b) \<Rightarrow> (check_sums E t initial out b, b)))"

text \<open>\<open>hot\<close> is the size of the hot set, a tenth of the customers in floating-point arithmetic.\<close>

definition Run :: "env \<Rightarrow> topology \<Rightarrow> 'r rng \<Rightarrow> int \<Rightarrow> bench_config \<Rightarrow> 'r bench \<Rightarrow> (bench_error option \<times> 'r bench) option" where
  "Run E t R hot cfg b =
     (case PrepareCluster E t b of
        (Some err, b) \<Rightarrow> Some (Some (PrepareFailed err), b)
      | (None, b) \<Rightarrow>
          (case SumBalances (Remote_PrintBalance (en_Cloud E) (ds_Remote b)) t (bn_Schema b) of
             Inl err \<Rightarrow> Some (Some (InitialSum err), b)
           | Inr initial \<Rightarrow>
               (let p = NewPicker (TotalCustomers (bn_Schema b)) (NumClusters t) (sc_CustomersPerCluster (bn_Schema b)) hot in
                case fundTreasury E t b of
                  (Some err, b) \<Rightarrow> Some (Some (FundTreasury err), b)
                | (None, b) \<Rightarrow>
                    (case run_ops E t R p cfg (cf_Txns cfg) 0 [] b of
                       None \<Rightarrow> None
                     | Some (Inl err, b) \<Rightarrow> Some (Some (OperationFailed err), b)
                     | Some (Inr metas, b) \<Rightarrow>
                         (case resolve_loop E t False (ds_Now b + ms (cf_SettleTimeout cfg)) metas b of
                            (metas, b) \<Rightarrow>
                              Some (finish_run E t initial cfg metas (record_unresolved metas b)))))))"

end
