(* ===== verification/Verdict.thy ===== *)
theory Verdict
  imports Driving
begin

text \<open>
  What the verdict of a benchmark run says about the deployment: the chain from \<open>PrepareCluster\<close> to
  the last comparison, with the frame of every step of the driver's own state.
\<close>

subsection \<open>Operations\<close>

named_theorems gen_simps \<open>the generator after one operation\<close>

lemma nextReq_schema [gen_simps]: "gn_Schema (snd (nextReq x y amt g)) = gn_Schema g"
  by (simp add: nextReq_def Let_def)

definition plain_op :: "Generator \<Rightarrow> (string + Op) \<times> Generator \<Rightarrow> bool" where
  "plain_op g res \<longleftrightarrow> gn_Schema (snd res) = gn_Schema g \<and> (\<forall>op. fst res = Inr op \<longrightarrow> \<not> op_Penalty op)"

lemma amalgamate_leg_schema: "gn_Schema (snd (snd (amalgamate_leg x y amt acc))) = gn_Schema (snd (snd acc))"
  by (auto simp: amalgamate_leg_def nextReq_def Let_def split: prod.split)

lemma plain_ops:
  "plain_op g (Balance c g)" "plain_op g (DepositChecking c amt g)" "plain_op g (TransactSavings c amt g)"
  "plain_op g (SendPayment c c' amt g)" "plain_op g (WriteCheck c amt True g)"
  by (auto simp: plain_op_def Balance_def DepositChecking_def TransactSavings_def SendPayment_def WriteCheck_def
      nextReq_def noOp_def Let_def split: option.split sum.split prod.split)

lemma plain_Amalgamate: "plain_op g (Amalgamate c c' a b g)"
proof -
  have leg: "gn_Schema g' = gn_Schema (snd (snd acc))" if "amalgamate_leg x y amt acc = (rs, cr, g')" for x y amt acc rs cr g'
    using amalgamate_leg_schema [of x y amt acc] that by simp
  show ?thesis
    unfolding plain_op_def Amalgamate_def Let_def
    by (auto split: option.split prod.split dest!: leg simp: noOp_def amalgamate_leg_schema)
qed

lemma RandomOp_plain: "RandomOp R p k amt r g = Some (res, r') \<Longrightarrow> plain_op g res"
  by (cases k) (auto simp: RandomOp_def plain_ops plain_Amalgamate split: prod.splits option.splits if_splits)

subsection \<open>The record of the benchmark\<close>

text \<open>A step of the driver keeps the account layout and, but for the penalties of the operations
  themselves, the sum of penalties.\<close>

definition kept :: "'r bench \<Rightarrow> 'r bench \<Rightarrow> bool" where
  "kept b b' \<longleftrightarrow> bn_Schema b' = bn_Schema b \<and> wm_Penalties (bn_Metrics b') = wm_Penalties (bn_Metrics b)"

named_theorems kept_intros \<open>steps that keep the layout and the penalties\<close>

lemma kept_refl [simp, kept_intros]: "kept b b"
  by (simp add: kept_def)

lemma kept_trans [trans]: "kept a b \<Longrightarrow> kept b c \<Longrightarrow> kept a c"
  by (simp add: kept_def)

lemma kept_Sleep [kept_intros]: "kept b (Sleep E d b)"
  by (simp add: kept_def Sleep_def)

lemma kept_on_remote [kept_intros]: "kept b (snd (on_remote f b))"
  by (simp add: kept_def on_remote_def split: prod.split)

lemma kept_record [kept_intros]: "kept b (add_metrics (RecordSample r) b)"
  by (simp add: kept_def add_metrics_def RecordSample_def)

lemma kept_PrepareCluster [kept_intros]: "kept b (snd (PrepareCluster E t b))"
  unfolding PrepareCluster_def by (rule kept_on_remote)

lemma kept_waitResult [kept_intros]: "kept b (snd (waitResult E t req deadline b))"
proof (induction E t req deadline b rule: waitResult.induct)
  case (1 E t req deadline b)
  then show ?case
    by (subst waitResult.simps) (auto split: option.split intro: kept_trans kept_Sleep)
qed

lemma kept_fund_loop: "kept b (snd (fund_loop E t cs b))"
proof (induction E t cs b rule: fund_loop.induct)
  case (2 E t cluster local cs b)
  let ?s = "bn_Schema b" and ?cust = "(cluster - 1) * sc_CustomersPerCluster (bn_Schema b) + local"
  obtain req g where n: "nextReq (CheckingItem ?s ?cust) (TreasuryItem ?s cluster) 10 (bn_Gen b) = (req, g)" by fastforce
  obtain err b1 where r: "on_remote (Remote_SendRequest (en_Cloud E) (contact t cluster) req) (b\<lparr>bn_Gen := g\<rparr>) = (err, b1)" by fastforce
  have "kept b (b\<lparr>bn_Gen := g\<rparr>)" using nextReq_schema [of "CheckingItem ?s ?cust" "TreasuryItem ?s cluster" 10 "bn_Gen b"] n
    by (simp add: kept_def)
  then have b1: "kept b b1" using kept_on_remote [of "b\<lparr>bn_Gen := g\<rparr>" "Remote_SendRequest (en_Cloud E) (contact t cluster) req"] r
    by (auto intro: kept_trans)
  show ?case
  proof (cases err)
    case None
    have "kept b1 (snd (fund_loop E t cs (snd (waitResult E t req (ds_Now b1 + ms 30000) b1))))"
      using "2.IH" [OF refl refl n [symmetric] r [symmetric] None] by (rule kept_trans [OF kept_waitResult])
    then show ?thesis using b1 n r None by (auto simp: Let_def intro: kept_trans)
  qed (use b1 n r in \<open>simp add: Let_def\<close>)
qed simp

lemma kept_submit: "kept b (snd (submit E t k multi step reqs prev b))"
proof (induction E t k multi step reqs prev b rule: submit.induct)
  case (2 E t k multi step req reqs prev b)
  obtain err b1 where r: "on_remote (Remote_SendRequest (en_Cloud E) (contact t (ClusterOf t (r_X req))) req) b = (err, b1)" by fastforce
  have b1: "kept b b1"
    using kept_on_remote [of b "Remote_SendRequest (en_Cloud E) (contact t (ClusterOf t (r_X req))) req"] r by simp
  show ?case
  proof (cases "err = None \<and> multi")
    case True
    obtain res b2 where w: "waitResult E t req (ds_Now b1 + ms step) b1 = (res, b2)" by fastforce
    have b2: "kept b b2" using b1 kept_waitResult [of b1 E t req "ds_Now b1 + ms step"] w by (auto intro: kept_trans)
    show ?thesis
    proof (cases "res = Some ResultCommitted")
      case True
      then have "kept b2 (snd (submit E t k multi step reqs req b2))"
        using "2.IH"(1) [OF r [symmetric] _ _ w [symmetric]] \<open>err = None \<and> multi\<close> by simp
      then show ?thesis using b2 r w True \<open>err = None \<and> multi\<close> by (auto intro: kept_trans)
    next
      case False
      then show ?thesis using b2 r w \<open>err = None \<and> multi\<close> by simp
    qed
  next
    case False
    then show ?thesis using "2.IH"(2) [OF r [symmetric]] b1 r by (cases err) (auto intro: kept_trans)
  qed
qed simp

lemma kept_run_ops:
  "run_ops E t R p cfg n i metas b = Some (Inr metas', b') \<Longrightarrow> kept b b'"
proof (induction n arbitrary: i metas b)
  case (Suc n)
  from Suc.prems obtain op g r where op: "RandomOp R p (UniformKinds ! (i mod length UniformKinds)) (cf_Amt cfg) (bn_Rng b) (bn_Gen b) =
      Some ((Inr op, g), r)"
    by (simp add: Let_def split: option.splits prod.splits sum.splits)
  let ?b = "b\<lparr>bn_Gen := g, bn_Rng := r\<rparr>"
  have plain: "gn_Schema g = bn_Schema b" "\<not> op_Penalty op" using RandomOp_plain [OF op] by (simp_all add: plain_op_def)
  then have b: "kept b ?b" by (simp add: kept_def)
  show ?case
  proof (cases "op_ReadOnly op")
    case True
    then have "\<exists>r. kept (add_metrics (RecordSample r) ?b) b'"
      using Suc.prems op by (auto simp: Let_def dest: Suc.IH)
    then show ?thesis using kept_trans [OF b kept_trans [OF kept_record]] by blast
  next
    case False
    let ?step = "if cf_MultiStepTimeout cfg \<le> 0 then 10000 else cf_MultiStepTimeout cfg"
    obtain res b1 where s: "submit E t (op_Kind op) (length (op_Requests op) > 1) ?step (op_Requests op) emptyRequest ?b = (res, b1)" by fastforce
    then have b1: "kept b b1" using b kept_submit [of ?b E t "op_Kind op" "length (op_Requests op) > 1" ?step "op_Requests op" emptyRequest]
      by (auto intro: kept_trans)
    obtain prev where "res = Inr prev" using Suc.prems op False s by (cases res) (simp_all add: Let_def)
    then have "kept (if cf_Pace cfg > 0 then Sleep E (cf_Pace cfg) b1 else b1) b'"
      using Suc.prems op False s plain(2) by (intro Suc.IH) (auto simp: Let_def)
    then have "kept b1 b'" using kept_trans [OF kept_Sleep [of b1 E "cf_Pace cfg"]] by (simp split: if_splits)
    with b1 show ?thesis by (rule kept_trans)
  qed
qed simp

lemma kept_resolve_round: "kept b (snd (resolve_round E t metas b))"
proof (induction E t metas b rule: resolve_round.induct)
  case (2 E t m metas b)
  obtain ok m' w where r: "tryResolve t (Remote_LookupReply (en_Cloud E) (ds_Remote b)) (ds_Now b) m (bn_Metrics b) = (ok, m', w)"
    by (metis prod_cases3)
  then have "kept b (b\<lparr>bn_Metrics := w\<rparr>)"
    by (auto simp: kept_def tryResolve_def recordResult_def RecordSample_def split: option.splits)
  then have "\<not> om_Done m \<Longrightarrow> kept b (snd (resolve_round E t metas (b\<lparr>bn_Metrics := w\<rparr>)))"
    using "2.IH"(2) [OF _ r [symmetric] refl] by (rule kept_trans)
  then show ?case using "2.IH"(1) by (auto simp: r split: prod.split)
qed simp

lemma kept_resolve_loop: "kept b (snd (resolve_loop E t draining deadline metas b))"
proof (induction E t draining deadline metas b rule: resolve_loop.induct)
  case (1 E t draining deadline metas b)
  obtain metas1 b1 where r: "resolve_round E t metas b = (metas1, b1)" by fastforce
  then have b1: "kept b b1" using kept_resolve_round [of b E t metas] by simp
  let ?next = "Sleep E (if draining then 100 else 50) b1"
  have "ds_Now b < deadline \<Longrightarrow> \<not> list_all om_Done metas1 \<Longrightarrow> kept ?next (snd (resolve_loop E t draining deadline metas1 ?next))"
    using "1.IH" [OF _ r [symmetric]] by blast
  then have "ds_Now b < deadline \<Longrightarrow> \<not> list_all om_Done metas1 \<Longrightarrow> kept b (snd (resolve_loop E t draining deadline metas1 ?next))"
    using kept_trans [OF b1 kept_trans [OF kept_Sleep]] by blast
  then show ?case by (subst resolve_loop.simps) (use b1 r in simp)
qed

lemma kept_record_unresolved: "kept b (record_unresolved metas b)"
proof -
  have "kept b (fold f metas b)" if "\<And>m b. kept b (f m b)" for f :: "opMeta \<Rightarrow> 'a bench \<Rightarrow> 'a bench"
    using that by (induction metas arbitrary: b) (auto intro: kept_trans)
  then show ?thesis unfolding record_unresolved_def by (simp add: kept_record)
qed

lemma quiesce_sound:
  "quiesce E t deadline prev since b = (Inr out, b') \<Longrightarrow> (\<And>t0. since = Some t0 \<Longrightarrow> t0 \<le> ds_Now b) \<Longrightarrow>
     kept b b' \<and> FetchClusterOutstanding (Remote_FetchOutstanding (en_Cloud E) (ds_Remote b')) t = (None, out) \<and>
     co_TotalWAL out = 0 \<and> (case since of None \<Rightarrow> ds_Now b | Some t0 \<Rightarrow> t0) + ms 3000 \<le> ds_Now b'"
proof (induction E t deadline prev since b rule: quiesce.induct)
  case (1 E t deadline prev since b)
  define b1 where "b1 = b\<lparr>ds_Remote := fold (drain_primary E t) [1..NumClusters t] (ds_Remote b)\<rparr>"
  have b1: "kept b b1" "ds_Now b1 = ds_Now b" by (simp_all add: kept_def b1_def)
  obtain err out1 where f: "FetchClusterOutstanding (Remote_FetchOutstanding (en_Cloud E) (ds_Remote b1)) t = (err, out1)" by fastforce
  have time: "ds_Now b < deadline" using "1.prems"(1) by (rule contrapos_pp) (subst quiesce.simps, simp)
  have err: "err = None"
  proof (rule ccontr)
    assume "err \<noteq> None"
    then obtain e where "err = Some e" by blast
    with "1.prems"(1) f time show False by (subst (asm) quiesce.simps) (simp add: b1_def Let_def)
  qed
  let ?clear = "co_TotalWAL out1 = 0 \<and> (case since of None \<Rightarrow> False | Some t0 \<Rightarrow> ds_Now b1 - t0 \<ge> ms 3000)"
  let ?since = "if co_TotalWAL out1 = 0 then (case since of None \<Rightarrow> Some (ds_Now b1) | Some t0 \<Rightarrow> Some t0) else None"
  have step: "quiesce E t deadline prev since b = (if ?clear then (Inr out1, b1) else quiesce E t deadline out1 ?since (Sleep E 500 b1))"
    unfolding quiesce.simps [of E t deadline prev since b] b1_def [symmetric] Let_def using time err f by simp
  show ?case
  proof (cases ?clear)
    case True
    then have "out = out1" "b' = b1" using "1.prems"(1) step by simp_all
    then show ?thesis using True b1 f err by (auto split: option.splits)
  next
    case False
    have "t0 \<le> ds_Now (Sleep E 500 b1)" if "?since = Some t0" for t0
      using that "1.prems"(2) b1(2) by (auto simp: ms_def split: if_splits option.splits)
    moreover have "quiesce E t deadline out1 ?since (Sleep E 500 b1) = (Inr out, b')" using "1.prems"(1) step False by simp
    ultimately have ih: "kept (Sleep E 500 b1) b' \<and>
        FetchClusterOutstanding (Remote_FetchOutstanding (en_Cloud E) (ds_Remote b')) t = (None, out) \<and> co_TotalWAL out = 0 \<and>
        (case ?since of None \<Rightarrow> ds_Now (Sleep E 500 b1) | Some t0 \<Rightarrow> t0) + ms 3000 \<le> ds_Now b'"
      using "1.IH" [OF time b1_def f [symmetric, unfolded err] refl False] by blast
    have "(case since of None \<Rightarrow> ds_Now b | Some t0 \<Rightarrow> t0) \<le> (case ?since of None \<Rightarrow> ds_Now (Sleep E 500 b1) | Some t0 \<Rightarrow> t0)"
      using "1.prems"(2) b1(2) by (auto simp: ms_def split: option.split)
    moreover have "kept b b'" using ih kept_trans [OF b1(1) kept_trans [OF kept_Sleep [of b1 E 500]]] by blast
    ultimately show ?thesis using ih by linarith
  qed
qed

lemma outstanding_reads:
  assumes "Remote_FetchOutstanding W w i = Inr out"
  shows "cl_Net W i = None" and "dec_Outstanding (cl_Json W) (enc_Outstanding (cl_Json W) (Outstanding2PC (replica_store (rm_Servers w i)))) = Inr out"
proof -
  have "plain ''/outstanding''" by (simp add: plain_char_def control_char_def)
  then have "parse_url ''/outstanding'' = Some (''/outstanding'', [])" by (intro plain_path) simp_all
  then show "cl_Net W i = None" "dec_Outstanding (cl_Json W) (enc_Outstanding (cl_Json W) (Outstanding2PC (replica_store (rm_Servers w i)))) = Inr out"
    using assms by (auto simp: Remote_FetchOutstanding_def http_get_def http_call_def RegisterHTTP_def handleHTTPOutstanding_def http_ok_def
        split: option.splits)
qed

text \<open>The codec keeps the number of entries.\<close>

definition keeps_count :: "json \<Rightarrow> bool" where
  "keeps_count J \<longleftrightarrow> (\<forall>a b. dec_Outstanding J (enc_Outstanding J a) = Inr b \<longrightarrow> WALCount b = WALCount a)"

lemma fetched_clear:
  assumes json: "keeps_count (cl_Json W)"
  shows "fetch_outstanding (Remote_FetchOutstanding W w) t ks acc = (None, out) \<Longrightarrow> 0 \<le> co_TotalWAL acc \<Longrightarrow>
    co_TotalWAL acc \<le> co_TotalWAL out \<and>
    (co_TotalWAL out = 0 \<longrightarrow> (\<forall>c\<in>set ks. cl_Net W (PrimaryOf t c 0) = None \<and> wal (replica_store (rm_Servers w (PrimaryOf t c 0))) = []))"
proof (induction ks arbitrary: acc)
  case (Cons c ks)
  let ?p = "PrimaryOf t c 0"
  obtain o1 where o1: "Remote_FetchOutstanding W w ?p = Inr o1"
    and rest: "fetch_outstanding (Remote_FetchOutstanding W w) t ks (add_outstanding ?p o1 acc) = (None, out)"
    using Cons.prems(1) by (auto split: sum.splits)
  have count: "WALCount o1 = length (wal (replica_store (rm_Servers w ?p)))"
    using json outstanding_reads(2) [OF o1] by (simp add: keeps_count_def Outstanding2PC_def)
  have acc: "co_TotalWAL (add_outstanding ?p o1 acc) = co_TotalWAL acc + int (WALCount o1)" by (simp add: add_outstanding_def)
  note ih = Cons.IH [OF rest, unfolded acc]
  show ?case using ih Cons.prems(2) count outstanding_reads(1) [OF o1] by (cases "wal (replica_store (rm_Servers w ?p))") auto
qed simp

text \<open>What the primaries' stores hold of the accounts and treasuries of clusters 1, 2 and 3.\<close>

definition money :: "Schema \<Rightarrow> remote \<Rightarrow> int64" where
  "money s w = (\<Sum>i\<in>{i \<in> tracked s. ClusterOf (sc_Topo s) i \<le> 3}.
     GetBalance (replica_store (rm_Servers w (PrimaryOf (sc_Topo s) (ClusterOf (sc_Topo s) i) 0))) i)"

lemma run_checks:
  assumes "Run E t R hot cfg b = Some (None, b')"
  shows "\<exists>initial. SumBalances (Remote_PrintBalance (en_Cloud E) (ds_Remote (snd (PrepareCluster E t b)))) t (bn_Schema b) = Inr initial \<and>
     SumBalances (Remote_PrintBalance (en_Cloud E) (ds_Remote b')) t (bn_Schema b) = Inr (initial - wm_Penalties (bn_Metrics b)) \<and>
     wm_Penalties (bn_Metrics b') = wm_Penalties (bn_Metrics b) \<and>
     (\<exists>out. FetchClusterOutstanding (Remote_FetchOutstanding (en_Cloud E) (ds_Remote b')) t = (None, out) \<and> co_TotalWAL out = 0)"
proof -
  obtain err1 b1 where 1: "PrepareCluster E t b = (err1, b1)" by fastforce
  from assms obtain initial where sum: "err1 = None" "SumBalances (Remote_PrintBalance (en_Cloud E) (ds_Remote b1)) t (bn_Schema b1) = Inr initial"
    by (auto simp: Run_def 1 split: option.splits sum.splits)
  obtain err2 b2 where 2: "fundTreasury E t b1 = (err2, b2)" by fastforce
  let ?p = "NewPicker (TotalCustomers (bn_Schema b1)) (NumClusters t) (sc_CustomersPerCluster (bn_Schema b1)) hot"
  from assms sum 2 obtain metas b3 where 3: "err2 = None" "run_ops E t R ?p cfg (cf_Txns cfg) 0 [] b2 = Some (Inr metas, b3)"
    by (auto simp: Run_def 1 split: option.splits sum.splits)
  obtain metas4 b4 where 4: "resolve_loop E t False (ds_Now b3 + ms (cf_SettleTimeout cfg)) metas b3 = (metas4, b4)" by fastforce
  let ?b5 = "record_unresolved metas4 b4"
  obtain metas6 b6 where 6: "resolve_loop E t True (ds_Now ?b5 + ms (cf_SettleTimeout cfg)) metas4 ?b5 = (metas6, b6)" by fastforce
  let ?wait = "if cf_SettleTimeout cfg < 180000 then 180000 else cf_SettleTimeout cfg"
  from assms sum 2 3 4 6 obtain out where 7: "Wait2PCQuiescence E t ?wait b6 = (Inr out, b')" "check_sums E t initial out b' = None"
    by (auto simp: Run_def finish_run_def 1 Let_def split: prod.splits sum.splits)
  note q = quiesce_sound [OF 7(1) [unfolded Wait2PCQuiescence_def], simplified]
  have b1: "kept b b1" using kept_PrepareCluster [of b E t] 1 by simp
  have "kept b1 b2" using 2 kept_fund_loop unfolding fundTreasury_def by (metis snd_conv)
  also have "kept b2 b3" using 3(2) by (rule kept_run_ops)
  also have "kept b3 b4" using kept_resolve_loop 4 by (metis snd_conv)
  also have "kept b4 ?b5" by (rule kept_record_unresolved)
  also have "kept ?b5 b6" using kept_resolve_loop 6 by (metis snd_conv)
  also have "kept b6 b'" using q by simp
  finally have "kept b b'" by (rule kept_trans [OF b1])
  then show ?thesis using sum 1 b1 q 7(2)
    by (auto simp: check_sums_def kept_def CheckConservation_def Let_def split: sum.splits option.splits if_splits)
qed

subsection \<open>A calm deployment\<close>

text \<open>An example where nothing happens but what the driver asks for: eight servers whose stores hold
  10 of everything, and \<open>k\<close> free places in every inbound queue.\<close>

definition calm_cloud :: cloud where
  "calm_cloud = sample_cloud\<lparr>cl_Json := (cl_Json sample_cloud)
     \<lparr>dec_Fault := \<lambda>_. Inr DefaultFaultConfig, enc_Outstanding := \<lambda>out. itoa (int (WALCount out)),
      dec_Outstanding := \<lambda>b. case Atoi b of None \<Rightarrow> Inl ''bad number''
        | Some n \<Rightarrow> Inr \<lparr>WALCount = nat n, LockCount = 0, WALTxnIDs = []\<rparr>\<rparr>\<rparr>"

definition calm_rep :: "nat \<Rightarrow> replica \<Rightarrow> bool" where
  "calm_rep k r \<longleftrightarrow>
     eLog (n_Engine (r_Node r)) = [] \<and> (\<forall>x\<in>set (eEffects (n_Engine (r_Node r))). hook_of x = None) \<and>
     wal (replica_store r) = [] \<and> (\<forall>j. GetBalance (replica_store r) j = 10) \<and>
     length (h_Inbound (r_Hub r)) + k \<le> h_InboundCap (r_Hub r)"

definition calm :: "nat \<Rightarrow> remote \<Rightarrow> bool" where
  "calm k w \<longleftrightarrow> (\<forall>i. calm_rep k (rm_Servers w i))"

lemma calm_rep_mono: "calm_rep k r \<Longrightarrow> k' \<le> k \<Longrightarrow> calm_rep k' r"
  by (simp add: calm_rep_def)

lemma calm_mono: "calm k w \<Longrightarrow> k' \<le> k \<Longrightarrow> calm k' w"
  by (auto simp: calm_def intro: calm_rep_mono)

lemma calm_upd: "calm k w \<Longrightarrow> calm_rep k r \<Longrightarrow> calm k (w\<lparr>rm_Servers := (rm_Servers w)(i := r)\<rparr>)"
  by (simp add: calm_def)

lemma calm_rep_SetFault: "calm_rep k r \<Longrightarrow> calm_rep k (Replica_SetFault fc r)"
  by (simp add: calm_rep_def Replica_SetFault_def on_node_def on_engine_def SetFault_def)

lemma ClearLocksAndWAL_balance: "GetBalance (ClearLocksAndWAL s) j = GetBalance s j"
  by (simp add: GetBalance_def ClearLocksAndWAL_def split: option.split)

lemma calm_rep_Reset: "calm_rep k r \<Longrightarrow> calm_rep k (Replica_ResetConsensus r)"
  by (cases "r_TwoPC r";
    simp add: calm_rep_def Replica_ResetConsensus_def on_node_def on_engine_def ResetConsensus_def
      cancelViewChangeTimerLocked_def on_store_def ClearLocksAndWAL_balance Coordinator_Reset_def Let_def;
    simp add: ClearLocksAndWAL_def)

lemma calm_rep_drain: "calm_rep k r \<Longrightarrow> with_hooks C up (on_engine (DrainExecute C)) r = r"
proof -
  assume r: "calm_rep k r"
  then have "DrainExecute C (n_Engine (r_Node r)) = n_Engine (r_Node r)"
    by (simp add: calm_rep_def DrainExecute_eq tryExecute.simps exec_round_def)
  with r show ?thesis by (simp add: calm_rep_def with_hooks_def on_node_def on_engine_def run_hooks_idle)
qed

lemma calm_cloud_simps [simp]:
  "cl_Crypto calm_cloud = plain_crypto" "cl_Topo calm_cloud = sample_topo" "cl_Net calm_cloud i = None" "cl_Rpc calm_cloud i = None"
  "dec_Fault (cl_Json calm_cloud) b = Inr DefaultFaultConfig"
  by (simp_all add: calm_cloud_def sample_cloud_def)

lemma calm_server: "1 \<le> i \<Longrightarrow> i \<le> 8 \<Longrightarrow> \<exists>srv. ServerByID sample_topo i = Some srv"
  using sample_server [of i] by (simp add: sample_cloud_def)

lemma calm_call:
  assumes "1 \<le> i" "i \<le> 8" "CHR ''?'' \<notin> set p" "plain p"
  shows "http_call calm_cloud i verb p body w =
    (case RegisterHTTP plain_crypto (cl_Json calm_cloud) (cl_Up calm_cloud)
        \<lparr>hq_Method = verb, hq_Path = p, hq_Query = [], hq_Body = body\<rparr> (rm_Servers w i) of
       (resp, r) \<Rightarrow> (Inr resp, w\<lparr>rm_Servers := (rm_Servers w)(i := r)\<rparr>))"
  using calm_server [OF assms(1,2)] assms(4) plain_sep [of p "CHR '' ''"]
  by (auto simp: http_call_def plain_path [OF assms(3,4)])

lemma calm_SetFault:
  assumes "1 \<le> i" "i \<le> 8" "calm k w"
  shows "\<exists>w'. Remote_SetFault calm_cloud i fc w = (None, w') \<and> calm k w'"
proof -
  have "calm_rep k (rm_Servers w i)" using assms(3) by (simp add: calm_def)
  then show ?thesis
    by (simp add: Remote_SetFault_def http_post_def calm_call [OF assms(1,2)] plain_char_def control_char_def RegisterHTTP_def
        handleHTTPFault_def http_ok_def calm_upd [OF assms(3)] calm_rep_SetFault)
qed

lemma calm_Reset:
  assumes "1 \<le> i" "i \<le> 8" "calm k w"
  shows "\<exists>w'. Remote_ResetConsensus calm_cloud i w = (None, w') \<and> calm k w'"
proof -
  have "calm_rep k (rm_Servers w i)" using assms(3) by (simp add: calm_def)
  then show ?thesis
    by (simp add: Remote_ResetConsensus_def http_post_def calm_call [OF assms(1,2)] plain_char_def control_char_def RegisterHTTP_def
        handleHTTPResetConsensus_def http_ok_def calm_upd [OF assms(3)] calm_rep_Reset)
qed

lemma calm_drain:
  assumes "1 \<le> i" "i \<le> 8" "calm k w"
  shows "calm k (snd (Remote_DrainReplica calm_cloud i 5000 True w))"
proof -
  let ?q = "render_query [(''timeout_ms'', itoa 5000), (''execute_only'', ''1'')]"
  have url: "''/drain?timeout_ms='' @ itoa 5000 @ ''&execute_only=1'' = ''/drain'' @ CHR ''?'' # ?q" by simp
  have p: "plain ''/drain''" "CHR ''?'' \<notin> set ''/drain''" "list_all plain_setting [(''timeout_ms'', itoa 5000), (''execute_only'', ''1'')]"
    by (simp_all add: plain_setting_def plain_char_def control_char_def)
  obtain srv where srv: "ServerByID (cl_Topo calm_cloud) i = Some srv" using calm_server [OF assms(1,2)] by auto
  have "calm_rep k (rm_Servers w i)" using assms(3) by (simp add: calm_def)
  then show ?thesis
    using assms(3) unfolding Remote_DrainReplica_def http_post_def if_True url http_call_query [OF srv calm_cloud_simps(3) p]
    by (simp add: RegisterHTTP_def handleHTTPDrain_def http_ok_def calm_rep_drain calm_upd del: render_query.simps)
qed

lemma calm_send:
  assumes "1 \<le> i" "i \<le> 8" "calm (Suc k) w"
  shows "\<exists>w'. Remote_SendRequest calm_cloud i req w = (None, w') \<and> calm k w'"
proof -
  obtain srv where srv: "ServerByID sample_topo i = Some srv" using calm_server [OF assms(1,2)] by auto
  define w1 where "w1 = (if i \<in> rm_Conns w then w else w\<lparr>rm_Conns := insert i (rm_Conns w)\<rparr>)"
  have conn: "grpcClient calm_cloud i w = Inr w1" using srv by (simp add: grpcClient_def w1_def)
  have same: "rm_Servers w1 = rm_Servers w" by (simp add: w1_def)
  have rep: "calm_rep (Suc k) (rm_Servers w1 j)" for j using assms(3) by (simp add: calm_def same)
  let ?r = "rm_Servers w1 i"
  define env where "env = \<lparr>w_SenderId = 0, w_Type = ''CLIENT_REQUEST'', w_Payload = enc_Request (cl_Json calm_cloud) req, w_Signature = None\<rparr>"
  have room: "length (h_Inbound (r_Hub ?r)) < h_InboundCap (r_Hub ?r)" using rep [of i] by (simp add: calm_rep_def)
  let ?h = "(r_Hub ?r)\<lparr>h_Inbound := h_Inbound (r_Hub ?r) @ [env]\<rparr>"
  have srv_send: "service_Send plain_crypto (r_Hub ?r) env = (Ack True [], ?h)"
    using room by (simp add: service_Send_def Deliver_def Inject_def env_def)
  then have send: "Remote_SendRequest calm_cloud i req w = (None, w1\<lparr>rm_Servers := (rm_Servers w1)(i := ?r\<lparr>r_Hub := ?h\<rparr>)\<rparr>)"
    using conn srv_send by (simp add: Remote_SendRequest_def env_def [symmetric] Let_def)
  have "calm k w1" using rep calm_rep_mono [of "Suc k" _ k] by (simp add: calm_def)
  moreover have "calm_rep k (?r\<lparr>r_Hub := ?h\<rparr>)" using rep [of i] by (simp add: calm_rep_def)
  ultimately show ?thesis using send calm_upd by blast
qed

lemma calm_outstanding:
  assumes "1 \<le> i" "i \<le> 8" "calm k w"
  shows "Remote_FetchOutstanding calm_cloud w i = Inr \<lparr>WALCount = 0, LockCount = 0, WALTxnIDs = []\<rparr>"
proof -
  have "wal (replica_store (rm_Servers w i)) = []" using assms(3) by (simp add: calm_def calm_rep_def)
  then show ?thesis
    by (simp add: Remote_FetchOutstanding_def http_get_def calm_call [OF assms(1,2)] plain_char_def control_char_def RegisterHTTP_def
        handleHTTPOutstanding_def http_ok_def Outstanding2PC_def) (simp add: calm_cloud_def)
qed

text \<open>The driver on it. Nothing happens while it sleeps.\<close>

definition calm_env :: env where
  "calm_env = \<lparr>en_Cloud = calm_cloud, en_Idle = \<lambda>_ w. w\<rparr>"

lemma calm_env_simps [simp]: "en_Cloud calm_env = calm_cloud" "ds_Remote (Sleep calm_env d s) = ds_Remote s"
  by (simp_all add: calm_env_def Sleep_def)

lemma sample_contacts: "PrimaryOf sample_topo 1 0 = 1" "PrimaryOf sample_topo 2 0 = 5"
  by (simp_all add: PrimaryOf_def ServersInCluster_def go_mod_wrap)

lemma calm_configure:
  assumes "\<forall>srv\<in>set srvs. 1 \<le> srv_ID srv \<and> srv_ID srv \<le> 8" "calm k w"
  shows "\<exists>w'. configure calm_cloud fault reset srvs w = (None, w') \<and> calm k w'"
  using assms
proof (induction srvs arbitrary: w)
  case (Cons srv srvs)
  then have i: "1 \<le> srv_ID srv" "srv_ID srv \<le> 8" by simp_all
  obtain w1 where 1: "Remote_SetFault calm_cloud (srv_ID srv) (fault srv) w = (None, w1)" "calm k w1"
    using calm_SetFault [OF i Cons.prems(2)] by blast
  obtain w2 where 2: "Remote_ResetConsensus calm_cloud (srv_ID srv) w1 = (None, w2)" "calm k w2"
    using calm_Reset [OF i 1(2)] by blast
  show ?case using Cons.IH [of w1] Cons.IH [of w2] Cons.prems(1) 1 2 by simp
qed simp

lemma calm_wait: "ds_Remote (snd (waitResult calm_env t req deadline b)) = ds_Remote b"
proof (induction calm_env t req deadline b rule: waitResult.induct)
  case (1 t req deadline b)
  then show ?case by (subst waitResult.simps) (simp split: option.split)
qed

lemma calm_fund:
  assumes "\<forall>(c, l)\<in>set cs. c \<in> {1, 2}" "calm (length cs) (ds_Remote b)"
  shows "\<exists>b'. fund_loop calm_env sample_topo cs b = (None, b') \<and> calm 0 (ds_Remote b')"
  using assms
proof (induction cs arbitrary: b)
  case (Cons cl cs)
  obtain c l where cl: "cl = (c, l)" by fastforce
  have c: "1 \<le> contact sample_topo c" "contact sample_topo c \<le> 8"
    using Cons.prems(1) by (auto simp: cl contact_def sample_contacts)
  let ?s = "bn_Schema b"
  obtain req g where n: "nextReq (CheckingItem ?s ((c - 1) * sc_CustomersPerCluster ?s + l)) (TreasuryItem ?s c) 10 (bn_Gen b) = (req, g)" by fastforce
  obtain w where w: "Remote_SendRequest calm_cloud (contact sample_topo c) req (ds_Remote b) = (None, w)" "calm (length cs) w"
    using calm_send [OF c, of "length cs" "ds_Remote b" req] Cons.prems(2) by auto
  let ?b = "b\<lparr>bn_Gen := g, ds_Remote := w\<rparr>"
  have "\<exists>b'. fund_loop calm_env sample_topo cs (snd (waitResult calm_env sample_topo req (ds_Now ?b + ms 30000) ?b)) = (None, b') \<and>
      calm 0 (ds_Remote b')"
    using Cons.prems(1) w(2) by (intro Cons.IH) (simp_all add: calm_wait)
  then show ?case using n w(1) by (simp add: cl on_remote_def Let_def)
qed simp

lemma calm_fetch:
  assumes "calm k w"
  shows "\<exists>out. FetchClusterOutstanding (Remote_FetchOutstanding calm_cloud w) sample_topo = (None, out) \<and> co_TotalWAL out = 0"
  by (simp add: FetchClusterOutstanding_def upto_small sample_contacts calm_outstanding [OF _ _ assms] add_outstanding_def)

lemma calm_quiesce:
  assumes "calm k (ds_Remote b)"
    and "case since of None \<Rightarrow> ds_Now b + ms 3500 \<le> deadline | Some t0 \<Rightarrow> ds_Now b < t0 + ms 3500 \<and> t0 + ms 3500 \<le> deadline"
  shows "\<exists>out b'. quiesce calm_env sample_topo deadline prev since b = (Inr out, b') \<and> calm k (ds_Remote b')"
  using assms
proof (induction calm_env sample_topo deadline prev since b rule: quiesce.induct)
  case (1 deadline prev since b)
  define b1 where "b1 = b\<lparr>ds_Remote := fold (drain_primary calm_env sample_topo) [1..NumClusters sample_topo] (ds_Remote b)\<rparr>"
  have b1: "calm k (ds_Remote b1)" "ds_Now b1 = ds_Now b"
    using 1(2) by (simp_all add: b1_def upto_small drain_primary_def sample_contacts calm_drain)
  obtain out1 where f: "FetchClusterOutstanding (Remote_FetchOutstanding (en_Cloud calm_env) (ds_Remote b1)) sample_topo = (None, out1)"
    "co_TotalWAL out1 = 0"
    using calm_fetch [OF b1(1)] by auto
  have time: "ds_Now b < deadline" using 1(3) by (auto simp: ms_def split: option.splits)
  let ?clear = "co_TotalWAL out1 = 0 \<and> (case since of None \<Rightarrow> False | Some t0 \<Rightarrow> ds_Now b1 - t0 \<ge> ms 3000)"
  let ?since = "if co_TotalWAL out1 = 0 then (case since of None \<Rightarrow> Some (ds_Now b1) | Some t0 \<Rightarrow> Some t0) else None"
  have step: "quiesce calm_env sample_topo deadline prev since b =
      (if ?clear then (Inr out1, b1) else quiesce calm_env sample_topo deadline out1 ?since (Sleep calm_env 500 b1))"
    unfolding quiesce.simps [of calm_env sample_topo deadline prev since b] b1_def [symmetric] Let_def using time f by simp
  show ?case
  proof (cases ?clear)
    case False
    have "\<exists>out b'. quiesce calm_env sample_topo deadline out1 ?since (Sleep calm_env 500 b1) = (Inr out, b') \<and> calm k (ds_Remote b')"
    proof (rule "1.hyps" [OF time b1_def f(1) [symmetric] refl False])
      show "calm k (ds_Remote (Sleep calm_env 500 b1))" using b1 by simp
      show "case ?since of None \<Rightarrow> ds_Now (Sleep calm_env 500 b1) + ms 3500 \<le> deadline
          | Some t0 \<Rightarrow> ds_Now (Sleep calm_env 500 b1) < t0 + ms 3500 \<and> t0 + ms 3500 \<le> deadline"
        using 1(3) False f(2) b1(2) by (auto simp: ms_def split: option.splits)
    qed
    then show ?thesis using step False by simp
  qed (use step b1 in simp)
qed

definition calm_bench :: "int bench" where
  "calm_bench = \<lparr>ds_Remote = sample_remote, ds_Now = 0, bn_Gen = NewGenerator sample_schema ''c'',
     bn_Metrics = \<lparr>wm_Records = [], wm_Penalties = 0\<rparr>, bn_Rng = 0\<rparr>"

lemma calm_start: "calm 20 (ds_Remote calm_bench)"
  by (simp add: calm_bench_def calm_def calm_rep_def sample_remote_def sample_replica_def NewHub_def empty_store_def GetBalance_def)

lemma calm_sum:
  assumes "calm k w"
  shows "SumBalances (Remote_PrintBalance calm_cloud w) sample_topo sample_schema =
    Inr (\<Sum>i\<in>{i \<in> tracked sample_schema. ClusterOf sample_topo i \<le> 3}. 10)"
proof -
  have 1: "cl_Topo calm_cloud = sc_Topo sample_schema" "NumClusters (sc_Topo sample_schema) * ItemsPerCluster (sc_Topo sample_schema) < 2 ^ 63"
    by (simp_all add: sample_schema_def ItemsPerCluster_def go_div_def)
  have "GetBalance (replica_store (rm_Servers w i)) j = 10" for i j using assms by (simp add: calm_def calm_rep_def)
  with remote_sum [OF sample_schema_ok 1 calm_cloud_simps(3), of w] show ?thesis by (simp add: sample_schema_def)
qed

text \<open>The run of the benchmark on it: one operation, which only reads.\<close>

definition calm_config :: bench_config where
  "calm_config = DefaultConfig\<lparr>cf_Txns := 1\<rparr>"

definition calm_rng :: "int rng" where
  "calm_rng = \<lparr>rng_Hot = \<lambda>r. (False, r), rng_Intn = \<lambda>n r. (r mod n, r + 1)\<rparr>"

lemma calm_run: "\<exists>b'. Run calm_env sample_topo calm_rng 1 calm_config calm_bench = Some (None, b')"
proof -
  have ids: "\<forall>srv\<in>set (Servers sample_topo). 1 \<le> srv_ID srv \<and> srv_ID srv \<le> 8" by simp
  obtain b1 where 1: "PrepareCluster calm_env sample_topo calm_bench = (None, b1)" "calm 20 (ds_Remote b1)"
    using calm_configure [OF ids calm_start, of "prepare_fault sample_topo" "\<lambda>_. True"]
    by (auto simp: PrepareCluster_def on_remote_def)
  have k1: "kept calm_bench b1" using kept_PrepareCluster [of calm_bench calm_env sample_topo] 1(1) by simp
  let ?cs = "concat (map (\<lambda>c. map (\<lambda>l. (c, l)) [1..10]) [1..NumClusters sample_topo])"
  have cs: "length ?cs = 20" "\<forall>(c, l)\<in>set ?cs. c \<in> {1, 2}" by (auto simp: upto_small)
  obtain b2 where 2: "fundTreasury calm_env sample_topo b1 = (None, b2)" "calm 0 (ds_Remote b2)"
    using calm_fund [OF cs(2), of b1] 1(2) unfolding cs(1) fundTreasury_def by blast
  have k2: "kept calm_bench b2" using kept_fund_loop [of b1] 2(1) k1 unfolding fundTreasury_def by (metis kept_trans snd_conv)
  let ?p = "NewPicker (TotalCustomers (bn_Schema b1)) (NumClusters sample_topo) (sc_CustomersPerCluster (bn_Schema b1)) 1"
  have schema: "bn_Schema b1 = sample_schema" "bn_Schema b2 = sample_schema"
    using k1 k2 by (simp_all add: kept_def calm_bench_def NewGenerator_def)
  have total: "TotalCustomers sample_schema = 4" by (simp add: TotalCustomers_def sample_schema_def)
  let ?c = "1 + bn_Rng b2 mod 4"
  have c: "1 \<le> ?c" "?c \<le> TotalCustomers sample_schema" using pos_mod_bound [of 4 "bn_Rng b2"] total by simp_all
  have valid: "Validate sample_schema ?c = None"
    using account_clusters [OF sample_schema_ok c] c by (simp add: Validate_def SameCluster_def)
  have op: "RandomOp calm_rng ?p KindBalance 2 (bn_Rng b2) (bn_Gen b2) =
      Some ((Inr ((noOp KindBalance ?c)\<lparr>op_ReadOnly := True\<rparr>), bn_Gen b2), bn_Rng b2 + 1)"
    using valid by (simp add: RandomOp_def Pick_def calm_rng_def NewPicker_def Let_def schema total Balance_def)
  obtain b3 where 3: "run_ops calm_env sample_topo calm_rng ?p calm_config 1 0 [] b2 = Some (Inr [], b3)" "calm 0 (ds_Remote b3)"
    using 2(2) op by (simp add: UniformKinds_def calm_config_def DefaultConfig_def Let_def add_metrics_def)
  have k3: "kept calm_bench b3" using k2 kept_run_ops [OF 3(1)] by (rule kept_trans)
  have none: "resolve_loop calm_env sample_topo d deadline [] b = ([], b)" for d deadline b
    by (subst resolve_loop.simps) simp
  obtain out b' where 4: "Wait2PCQuiescence calm_env sample_topo 300000 b3 = (Inr out, b')" "calm 0 (ds_Remote b')"
    using calm_quiesce [OF 3(2), where since = None and deadline = "ds_Now b3 + ms 300000" and prev = no_outstanding] by (auto simp: Wait2PCQuiescence_def ms_def)
  have k4: "kept calm_bench b'"
    using quiesce_sound [OF 4(1) [unfolded Wait2PCQuiescence_def]] k3 by (auto intro: kept_trans)
  have "check_sums calm_env sample_topo (\<Sum>i\<in>{i \<in> tracked sample_schema. ClusterOf sample_topo i \<le> 3}. 10) out b' = None"
    using k4 calm_sum [OF 4(2)]
    by (simp add: check_sums_def kept_def calm_bench_def NewGenerator_def CheckConservation_def)
  then show ?thesis
    using 1(1) calm_sum [OF 1(2)] 2(1) 3(1) 4(1)
    by (simp add: Run_def finish_run_def schema none record_unresolved_def calm_config_def DefaultConfig_def Let_def)
qed

text \<open>C31: When a benchmark run ends without an error, the deployment it leaves is settled and
  accounts for every unit. In the stores themselves, not only in what the driver is told: no
  cluster's primary has an entry in its write-ahead log, and the sum of the balances the primaries
  of clusters 1, 2 and 3 hold for all accounts and treasuries is the sum right after the preparation
  minus the penalties recorded before the run; as the operations of a run never record a penalty, the sum is
  unchanged if none was recorded before. Assumed are an account layout that fits its topology, the
  same topology at the driver and in its layout, and a JSON codec that keeps the number of entries.
  The driver asks for all clusters, so that they can be reached is not assumed.\<close>

theorem run_verdict:
  assumes run: "Run E (sc_Topo (bn_Schema b)) R hot cfg b = Some (None, b')"
    and ok: "schema_ok (bn_Schema b)" and topo: "cl_Topo (en_Cloud E) = sc_Topo (bn_Schema b)"
    and size: "NumClusters (sc_Topo (bn_Schema b)) * ItemsPerCluster (sc_Topo (bn_Schema b)) < 2 ^ 63"
    and json: "keeps_count (cl_Json (en_Cloud E))"
  shows "(\<forall>c. 1 \<le> c \<and> c \<le> NumClusters (sc_Topo (bn_Schema b)) \<longrightarrow>
       wal (replica_store (rm_Servers (ds_Remote b') (PrimaryOf (sc_Topo (bn_Schema b)) c 0))) = []) \<and>
     money (bn_Schema b) (ds_Remote b') =
       money (bn_Schema b) (ds_Remote (snd (PrepareCluster E (sc_Topo (bn_Schema b)) b))) - wm_Penalties (bn_Metrics b) \<and>
     wm_Penalties (bn_Metrics b') = wm_Penalties (bn_Metrics b)"
proof -
  let ?t = "sc_Topo (bn_Schema b)" and ?W = "en_Cloud E"
  obtain initial out where
    sums: "SumBalances (Remote_PrintBalance ?W (ds_Remote (snd (PrepareCluster E ?t b)))) ?t (bn_Schema b) = Inr initial"
      "SumBalances (Remote_PrintBalance ?W (ds_Remote b')) ?t (bn_Schema b) = Inr (initial - wm_Penalties (bn_Metrics b))"
    and pen: "wm_Penalties (bn_Metrics b') = wm_Penalties (bn_Metrics b)"
    and out: "FetchClusterOutstanding (Remote_FetchOutstanding ?W (ds_Remote b')) ?t = (None, out)" "co_TotalWAL out = 0"
    using run_checks [OF run] by blast
  have clear: "cl_Net ?W (PrimaryOf ?t c 0) = None \<and> wal (replica_store (rm_Servers (ds_Remote b') (PrimaryOf ?t c 0))) = []"
    if "1 \<le> c" "c \<le> NumClusters ?t" for c
    using fetched_clear [OF json out(1) [unfolded FetchClusterOutstanding_def]] out(2) that by simp
  then have "SumBalances (Remote_PrintBalance ?W w) ?t (bn_Schema b) = Inr (money (bn_Schema b) w)" for w
    using remote_sum [OF ok topo size] by (simp add: money_def)
  then show ?thesis using clear sums pen by simp
qed

theorem run_verdict_witness:
  "\<exists>b'. Run calm_env sample_topo calm_rng 1 calm_config calm_bench = Some (None, b') \<and>
     wal (replica_store (rm_Servers (ds_Remote b') 1)) = [] \<and> wal (replica_store (rm_Servers (ds_Remote b') 5)) = []"
proof -
  obtain b' where run: "Run calm_env sample_topo calm_rng 1 calm_config calm_bench = Some (None, b')" using calm_run by blast
  have s: "bn_Schema calm_bench = sample_schema" by (simp add: calm_bench_def NewGenerator_def)
  have topo: "sc_Topo sample_schema = sample_topo" by (simp add: sample_schema_def)
  have json: "keeps_count (cl_Json (en_Cloud calm_env))"
    by (auto simp: keeps_count_def calm_cloud_def split: option.splits)
  have size: "NumClusters sample_topo * ItemsPerCluster sample_topo < 2 ^ 63" by (simp add: ItemsPerCluster_def go_div_def)
  have "\<forall>c. 1 \<le> c \<and> c \<le> NumClusters sample_topo \<longrightarrow> wal (replica_store (rm_Servers (ds_Remote b') (PrimaryOf sample_topo c 0))) = []"
    using run_verdict [where b = calm_bench and E = calm_env and R = calm_rng and hot = 1 and cfg = calm_config and b' = b',
        unfolded s topo, OF run sample_schema_ok _ size json] by simp
  from this [rule_format, of 1] this [rule_format, of 2] show ?thesis using run by (auto simp: sample_contacts)
qed

end
