(* ===== verification/Settlement.thy ===== *)
theory Settlement
  imports Smallbank CrossShard
begin

text \<open>
  What the SmallBank workload does to the money of a deployment. The clusters of a deployment, each
  with the engine of one of its correct replicas, execute the requests of the workload: transfers
  inside a cluster at once, transfers between clusters by the steps of two-phase commit, in any
  interleaving that keeps the locks and the order of the protocol. Money is then conserved up to what
  is in flight, and what is in flight is what the write-ahead logs show.
\<close>

subsection \<open>Transfers under way\<close>

text \<open>Where a transfer between two clusters stands: at its coordinator debited, committed or aborted, at
  its participant not credited (yet, or no longer), credited, or committed.\<close>

datatype coord_side = Debited | CoordDone | CoordUndone

datatype part_side = NotCredited | Credited | PartDone

type_synonym book = "string \<Rightarrow> (Request \<times> coord_side \<times> part_side) option"

text \<open>The items that are locked for a transfer because it has a preimage of them.\<close>

fun claimed :: "Request \<times> coord_side \<times> part_side \<Rightarrow> int set" where
  "claimed (q, c, d) = (if c = Debited then {r_X q} else {}) \<union> (if d = Credited then {r_Y q} else {})"

definition busy :: "book \<Rightarrow> int \<Rightarrow> bool" where
  "busy P i \<longleftrightarrow> (\<exists>u p. P u = Some p \<and> i \<in> claimed p)"

text \<open>Its money in flight: what it has taken less what it has given.\<close>

fun pend :: "Request \<times> coord_side \<times> part_side \<Rightarrow> int64" where
  "pend (q, c, d) = (if c = CoordUndone then 0 else r_Amt q) - (if d = NotCredited then 0 else r_Amt q)"

definition in_flight :: "book \<Rightarrow> int64" where
  "in_flight P = (\<Sum>u\<in>dom P. pend (the (P u)))"

text \<open>Cluster \<open>k\<close> executes a request.\<close>

definition executes :: "crypto_ops \<Rightarrow> int \<Rightarrow> Request \<Rightarrow> int \<times> CertificateMsg \<Rightarrow> (int \<Rightarrow> engine) \<Rightarrow> int \<Rightarrow> engine" where
  "executes C k req slot S = S(k := execute_op C (S k) req (fst slot) (snd slot))"

text \<open>One step: a cluster executes one operation of one request. An item that is locked for a transfer
  under way takes no part in another; a coordinator commits only a transfer its participant has
  credited, may give one up at any time before that decision, also after the participant has credited
  it, and does not change its mind; a participant follows the coordinator's decision. Operations may
  be executed again, and a participant may credit a transfer that was given up meanwhile.\<close>

inductive settle_step :: "crypto_ops \<Rightarrow> topology \<Rightarrow> Request set \<Rightarrow> (int \<Rightarrow> engine) \<Rightarrow> book \<Rightarrow> (int \<Rightarrow> engine) \<Rightarrow> book \<Rightarrow> bool"
  for C t Q where
  intra: "q \<in> Q \<Longrightarrow> \<not> is_cross t q \<Longrightarrow> \<not> busy P (r_X q) \<Longrightarrow> \<not> busy P (r_Y q) \<Longrightarrow>
    settle_step C t Q S P (executes C (ClusterOf t (r_X q)) (q\<lparr>r_Op := OpIntra\<rparr>) slot S) P"
| prepare: "q \<in> Q \<Longrightarrow> is_cross t q \<Longrightarrow> P (TxnID C q) = None \<Longrightarrow> \<not> busy P (r_X q) \<Longrightarrow>
    settle_step C t Q S P (executes C (ClusterOf t (r_X q)) (q\<lparr>r_Op := OpCoordPrepare\<rparr>) slot S)
      (if GetBalance (eStore (S (ClusterOf t (r_X q)))) (r_X q) <s r_Amt q then P
       else P(TxnID C q \<mapsto> (q, Debited, NotCredited)))"
| credit: "P u = Some (q, c, NotCredited) \<Longrightarrow> \<not> busy P (r_Y q) \<Longrightarrow>
    settle_step C t Q S P (executes C (ClusterOf t (r_Y q)) (q\<lparr>r_Op := OpPartPrepareCommit\<rparr>) slot S) (P(u \<mapsto> (q, c, Credited)))"
| refuse: "P u = Some (q, c, d) \<Longrightarrow>
    settle_step C t Q S P (executes C (ClusterOf t (r_Y q)) (q\<lparr>r_Op := OpPartPrepareAbort\<rparr>) slot S) P"
| commit: "P u = Some (q, c, d) \<Longrightarrow> c = CoordDone \<or> c = Debited \<and> d = Credited \<Longrightarrow>
    settle_step C t Q S P (executes C (ClusterOf t (r_X q)) (q\<lparr>r_Op := OpCoordCommit\<rparr>) slot S) (P(u \<mapsto> (q, CoordDone, d)))"
| abort: "P u = Some (q, c, d) \<Longrightarrow> c \<noteq> CoordDone \<Longrightarrow>
    settle_step C t Q S P (executes C (ClusterOf t (r_X q)) (q\<lparr>r_Op := OpCoordAbort\<rparr>) slot S) (P(u \<mapsto> (q, CoordUndone, d)))"
| part_commit: "P u = Some (q, CoordDone, d) \<Longrightarrow>
    settle_step C t Q S P (executes C (ClusterOf t (r_Y q)) (q\<lparr>r_Op := OpPartCommit\<rparr>) slot S) (P(u \<mapsto> (q, CoordDone, PartDone)))"
| part_abort: "P u = Some (q, CoordUndone, d) \<Longrightarrow>
    settle_step C t Q S P (executes C (ClusterOf t (r_Y q)) (q\<lparr>r_Op := OpPartAbort\<rparr>) slot S) (P(u \<mapsto> (q, CoordUndone, NotCredited)))"

inductive settle_run :: "crypto_ops \<Rightarrow> topology \<Rightarrow> Request set \<Rightarrow> (int \<Rightarrow> engine) \<Rightarrow> (int \<Rightarrow> engine) \<Rightarrow> book \<Rightarrow> bool"
  for C t Q S0 where
  start: "settle_run C t Q S0 S0 Map.empty"
| step: "settle_run C t Q S0 S P \<Longrightarrow> settle_step C t Q S P S' P' \<Longrightarrow> settle_run C t Q S0 S' P'"

subsection \<open>Balances and preimages of a deployment\<close>

definition bal :: "topology \<Rightarrow> (int \<Rightarrow> engine) \<Rightarrow> int \<Rightarrow> int64" where
  "bal t S i = GetBalance (eStore (S (ClusterOf t i))) i"

definition deployment_total :: "Schema \<Rightarrow> (int \<Rightarrow> engine) \<Rightarrow> int64" where
  "deployment_total s S = (\<Sum>i\<in>tracked s. bal (sc_Topo s) S i)"

definition pre :: "(int \<Rightarrow> engine) \<Rightarrow> int \<Rightarrow> string \<Rightarrow> WALPreimage option" where
  "pre S k u = bget (wal (eStore (S k))) u"

text \<open>The preimages the clusters hold, from the book and the balances.\<close>

definition expected :: "topology \<Rightarrow> book \<Rightarrow> (int \<Rightarrow> int64) \<Rightarrow> int \<Rightarrow> string \<Rightarrow> WALPreimage option" where
  "expected t P B k u =
     (case P u of
        None \<Rightarrow> None
      | Some (q, c, d) \<Rightarrow>
          if c = Debited \<and> k = ClusterOf t (r_X q) then Some [(r_X q, B (r_X q) + r_Amt q)]
          else if d = Credited \<and> k = ClusterOf t (r_Y q) then Some [(r_Y q, B (r_Y q) - r_Amt q)]
          else None)"

abbreviation clusters :: "topology \<Rightarrow> int set" where
  "clusters t \<equiv> {1..NumClusters t}"

definition entry_ok :: "crypto_ops \<Rightarrow> topology \<Rightarrow> Request set \<Rightarrow> string \<Rightarrow> Request \<times> coord_side \<times> part_side \<Rightarrow> bool" where
  "entry_ok C t Q u p = (case p of (q, c, d) \<Rightarrow> u = TxnID C q \<and> q \<in> Q \<and> is_cross t q \<and>
     (c = CoordDone \<longrightarrow> d \<noteq> NotCredited) \<and> (d = PartDone \<longrightarrow> c = CoordDone))"

definition settle_inv :: "crypto_ops \<Rightarrow> Schema \<Rightarrow> Request set \<Rightarrow> int64 \<Rightarrow> (int \<Rightarrow> engine) \<Rightarrow> book \<Rightarrow> bool" where
  "settle_inv C s Q T S P \<longleftrightarrow> finite (dom P) \<and> (\<forall>k\<in>clusters (sc_Topo s). store_ok (eStore (S k))) \<and>
     (\<forall>u p. P u = Some p \<longrightarrow> entry_ok C (sc_Topo s) Q u p) \<and>
     (\<forall>u v p p'. u \<noteq> v \<longrightarrow> P u = Some p \<longrightarrow> P v = Some p' \<longrightarrow> claimed p \<inter> claimed p' = {}) \<and>
     (\<forall>k\<in>clusters (sc_Topo s). pre S k = expected (sc_Topo s) P (bal (sc_Topo s) S) k) \<and>
     deployment_total s S + in_flight P = T"

lemma expected_frame:
  assumes "\<And>p i. P u = Some p \<Longrightarrow> i \<in> claimed p \<Longrightarrow> B' i = B i"
  shows "expected t P B' k u = expected t P B k u"
proof (cases "P u")
  case (Some p)
  obtain q c d where p: "p = (q, c, d)" by (cases p)
  have "c = Debited \<Longrightarrow> B' (r_X q) = B (r_X q)" "d = Credited \<Longrightarrow> B' (r_Y q) = B (r_Y q)"
    using assms [OF Some] by (simp_all add: p)
  then show ?thesis by (simp add: expected_def Some p)
qed (simp add: expected_def)

lemma in_flight_upd:
  assumes "finite (dom P)"
  shows "in_flight (P(u \<mapsto> p)) + (case P u of None \<Rightarrow> 0 | Some p0 \<Rightarrow> pend p0) = in_flight P + pend p"
proof -
  have "(\<Sum>v\<in>dom P - {u}. pend (the ((P(u \<mapsto> p)) v))) = (\<Sum>v\<in>dom P - {u}. pend (the (P v)))"
    by (rule sum.cong) auto
  then have "in_flight (P(u \<mapsto> p)) = pend p + (\<Sum>v\<in>dom P - {u}. pend (the (P v)))"
    using assms by (simp add: in_flight_def sum.insert_remove)
  then show ?thesis
  proof (cases "P u")
    case None
    then have "u \<notin> dom P" by auto
    then show ?thesis using None \<open>in_flight (P(u \<mapsto> p)) = _\<close> by (simp add: in_flight_def)
  next
    case (Some p0)
    then have "u \<in> dom P" by auto
    then have "in_flight P = pend p0 + (\<Sum>v\<in>dom P - {u}. pend (the (P v)))"
      using sum.remove [OF assms, of u "\<lambda>v. pend (the (P v))"] Some by (simp add: in_flight_def)
    then show ?thesis using Some \<open>in_flight (P(u \<mapsto> p)) = _\<close> by simp
  qed
qed

text \<open>A step that moves the balances of a set \<open>I\<close> of at most one item by \<open>\<delta>\<close> and one transfer from one
  stage to the next.\<close>

lemma settle_keep:
  assumes inv: "settle_inv C s Q T S P" and ok: "entry_ok C (sc_Topo s) Q u p"
    and st: "\<forall>k\<in>clusters (sc_Topo s). store_ok (eStore (S' k))"
    and I: "I = {} \<or> I = {i} \<and> i \<in> tracked s"
    and b: "\<forall>j. bal (sc_Topo s) S' j = bal (sc_Topo s) S j + (if j \<in> I then \<delta> else 0)"
    and free: "\<forall>v p. v \<noteq> u \<longrightarrow> P v = Some p \<longrightarrow> claimed p \<inter> I = {}"
    and cl: "claimed p \<subseteq> (case P u of None \<Rightarrow> {} | Some p \<Rightarrow> claimed p) \<union> I"
    and pr: "\<forall>k\<in>clusters (sc_Topo s). \<forall>v. pre S' k v =
      (if v = u then expected (sc_Topo s) (P(u \<mapsto> p)) (bal (sc_Topo s) S') k u else pre S k v)"
    and amt: "(if I = {} then 0 else \<delta>) + pend p = (case P u of None \<Rightarrow> 0 | Some p \<Rightarrow> pend p)"
  shows "settle_inv C s Q T S' (P(u \<mapsto> p))"
proof -
  let ?t = "sc_Topo s"
  have fin: "finite (dom P)" and ents: "\<And>v p. P v = Some p \<Longrightarrow> entry_ok C ?t Q v p"
    and dj: "\<And>u v p p'. u \<noteq> v \<Longrightarrow> P u = Some p \<Longrightarrow> P v = Some p' \<Longrightarrow> claimed p \<inter> claimed p' = {}"
    and pre: "\<And>k. k \<in> clusters ?t \<Longrightarrow> pre S k = expected ?t P (bal ?t S) k"
    and tot: "deployment_total s S + in_flight P = T"
    using inv unfolding settle_inv_def by blast+
  have "deployment_total s S' = deployment_total s S + (\<Sum>j\<in>tracked s. if j \<in> I then \<delta> else 0)"
    using b by (simp add: deployment_total_def sum.distrib)
  also have "(\<Sum>j\<in>tracked s. if j \<in> I then \<delta> else 0) = (if I = {} then 0 else \<delta>)"
    using I by (auto simp: tracked_def)
  finally have "deployment_total s S' = deployment_total s S + (if I = {} then 0 else \<delta>)" .
  moreover have "(if I = {} then 0 else \<delta>) + in_flight (P(u \<mapsto> p)) = in_flight P"
    using in_flight_upd [OF fin, of u p] unfolding amt [symmetric] by (simp add: algebra_simps)
  ultimately have "deployment_total s S' + in_flight (P(u \<mapsto> p)) = T"
    using tot by (simp add: add.assoc)
  moreover have "expected ?t (P(u \<mapsto> p)) (bal ?t S') k v = expected ?t P (bal ?t S) k v" if v: "v \<noteq> u" for k v
  proof -
    have "expected ?t (P(u \<mapsto> p)) (bal ?t S') k v = expected ?t P (bal ?t S') k v" using v by (simp add: expected_def)
    moreover have "bal ?t S' i = bal ?t S i" if "P v = Some p" "i \<in> claimed p" for p i
    proof -
      have "i \<notin> I" using free v that by blast
      then show ?thesis using b by simp
    qed
    ultimately show ?thesis by (simp add: expected_frame [of P v "bal ?t S'" "bal ?t S"])
  qed
  then have "pre S' k = expected ?t (P(u \<mapsto> p)) (bal ?t S') k" if "k \<in> clusters ?t" for k
    using pr pre that by (auto simp: fun_eq_iff)
  moreover have new: "claimed p0 \<inter> claimed p = {}" if "v \<noteq> u" "P v = Some p0" for v p0
  proof -
    have "claimed p0 \<inter> (case P u of None \<Rightarrow> {} | Some p \<Rightarrow> claimed p) = {}"
      using dj [OF that] by (cases "P u") simp_all
    moreover have "claimed p0 \<inter> I = {}" using free that by blast
    ultimately show ?thesis using cl by blast
  qed
  then have "claimed a \<inter> claimed b = {}" if "v \<noteq> w" "(P(u \<mapsto> p)) v = Some a" "(P(u \<mapsto> p)) w = Some b" for v w a b
    using that dj [of v w a b] new [of v a] new [of w b] by (cases "v = u"; cases "w = u") (simp_all add: Int_commute del: claimed.simps)
  ultimately show ?thesis
    unfolding settle_inv_def using fin ents st ok by auto
qed

lemma settle_same:
  assumes inv: "settle_inv C s Q T S P"
    and st: "\<forall>k\<in>clusters (sc_Topo s). store_ok (eStore (S' k))"
    and b: "bal (sc_Topo s) S' = bal (sc_Topo s) S" and pr: "\<forall>k\<in>clusters (sc_Topo s). pre S' k = pre S k"
  shows "settle_inv C s Q T S' P"
  using assms by (simp add: settle_inv_def deployment_total_def)

subsection \<open>What a step of the protocol does\<close>

lemma executes_store:
  assumes "store_ok (eStore (S k))"
  shows "store_ok (eStore (executes C k req slot S k))"
    "GetBalance (eStore (executes C k req slot S k)) i = lg_bal (ledger_step C req (ledger_of (eStore (S k)))) i"
    "pre (executes C k req slot S) k u = lg_pre (ledger_step C req (ledger_of (eStore (S k)))) u"
  using execute_op_refines [OF assms, of C req "fst slot" "snd slot"]
  by (simp_all add: executes_def pre_def flip: ledger_bal)

lemma executes_other:
  "j \<noteq> k \<Longrightarrow> executes C k req slot S j = S j"
  "j \<noteq> k \<Longrightarrow> pre (executes C k req slot S) j = pre S j"
  by (simp_all add: executes_def pre_def fun_eq_iff)

lemma executes_ok:
  assumes "\<forall>k\<in>K. store_ok (eStore (S k))" "k \<in> K"
  shows "\<forall>j\<in>K. store_ok (eStore (executes C k req slot S j))"
  using assms executes_store(1) [of S k C req slot] executes_other(1) [of _ k C req slot S] by metis

lemma executes_bal:
  assumes "store_ok (eStore (S k))"
  shows "bal t (executes C k req slot S) i =
    (if ClusterOf t i = k then lg_bal (ledger_step C req (ledger_of (eStore (S k)))) i else bal t S i)"
  using executes_store(2) [of S k C req slot i, OF assms] by (simp add: bal_def executes_other(1))

lemma ledger_reads_bal: "ClusterOf t i = k \<Longrightarrow> lg_bal (ledger_of (eStore (S k))) i = bal t S i"
  by (auto simp: bal_def ledger_bal)

lemma ledger_reads_pre: "lg_pre (ledger_of (eStore (S k))) = pre S k"
  by (simp add: pre_def ledger_bal fun_eq_iff)

text \<open>The requests of the workload.\<close>

definition workload_ok :: "Schema \<Rightarrow> Request set \<Rightarrow> bool" where
  "workload_ok s Q \<longleftrightarrow> (\<forall>q\<in>Q. moves_inside s q) \<and> (\<forall>i\<in>tracked s. ClusterOf (sc_Topo s) i \<in> clusters (sc_Topo s))"

lemma settle_intra:
  assumes inv: "settle_inv C s Q T S P" and w: "workload_ok s Q" and q: "q \<in> Q" "\<not> is_cross (sc_Topo s) q"
    and free: "\<not> busy P (r_X q)" "\<not> busy P (r_Y q)"
  shows "settle_inv C s Q T (executes C (ClusterOf (sc_Topo s) (r_X q)) (q\<lparr>r_Op := OpIntra\<rparr>) slot S) P"
proof -
  let ?t = "sc_Topo s" and ?k = "ClusterOf (sc_Topo s) (r_X q)" and ?x = "r_X q" and ?y = "r_Y q" and ?a = "r_Amt q"
  let ?S = "executes C ?k (q\<lparr>r_Op := OpIntra\<rparr>) slot S"
  have xy: "?x \<in> tracked s" "?y \<in> tracked s" "?x \<noteq> ?y" "?k \<in> clusters ?t"
    using w q(1) by (auto simp: workload_ok_def moves_inside_def)
  have same: "ClusterOf ?t ?y = ?k" using q(2) by (simp add: is_cross_def SameCluster_def)
  have ok: "\<forall>k\<in>clusters ?t. store_ok (eStore (S k))" using inv by (simp add: settle_inv_def)
  then have okk: "store_ok (eStore (S ?k))" using xy(4) by blast
  have pr: "pre ?S ?k = pre S ?k"
    using executes_store(3) [of S ?k, OF okk, of C "q\<lparr>r_Op := OpIntra\<rparr>" slot]
    by (auto simp: fun_eq_iff ledger_step_def norm_op_def Let_def simp flip: ledger_reads_pre)
  have pr': "pre ?S k = pre S k" for k using pr executes_other(2) by (cases "k = ?k") auto
  show ?thesis
  proof (cases "bal ?t S ?x <s ?a")
    case True
    have "bal ?t ?S i = bal ?t S i" for i
      using True by (simp add: executes_bal [of S ?k ?t, OF okk] ledger_step_def norm_op_def ledger_reads_bal Let_def)
    then show ?thesis by (intro settle_same [OF inv executes_ok [OF ok xy(4)]]) (simp_all add: fun_eq_iff pr')
  next
    case False
    have b: "bal ?t ?S i = (if i = ?y then bal ?t S ?y + ?a else if i = ?x then bal ?t S ?x - ?a else bal ?t S i)" for i
      using False same by (auto simp: executes_bal [of S ?k ?t, OF okk] ledger_step_def norm_op_def ledger_reads_bal Let_def)
    have "expected ?t P (bal ?t ?S) k u = expected ?t P (bal ?t S) k u" for k u
    proof (rule expected_frame)
      fix p i assume "P u = Some p" "i \<in> claimed p"
      then have "i \<noteq> ?x" "i \<noteq> ?y" using free unfolding busy_def by blast+
      then show "bal ?t ?S i = bal ?t S i" by (simp add: b)
    qed
    moreover have "deployment_total s ?S = deployment_total s S"
    proof -
      have "finite (tracked s)" by (simp add: tracked_def)
      moreover have "bal ?t ?S i = bal ?t S i + (if i = ?y then ?a else 0) - (if i = ?x then ?a else 0)" for i
        using xy(3) by (simp add: b)
      ultimately show ?thesis using xy(1,2) by (simp add: deployment_total_def sum.distrib sum_subtractf)
    qed
    ultimately show ?thesis
      using inv executes_ok [OF ok xy(4), of C "q\<lparr>r_Op := OpIntra\<rparr>" slot] by (auto simp: settle_inv_def pr' fun_eq_iff)
  qed
qed

text \<open>A request executed in cluster \<open>k\<close> that belongs to transfer \<open>u\<close>.\<close>

lemma settle_exec:
  assumes inv: "settle_inv C s Q T S P" and ok: "entry_ok C (sc_Topo s) Q u p" and k: "k \<in> clusters (sc_Topo s)"
    and I: "I = {} \<or> I = {i} \<and> i \<in> tracked s \<and> ClusterOf (sc_Topo s) i = k"
    and b: "\<And>j. lg_bal (ledger_step C req (ledger_of (eStore (S k)))) j = GetBalance (eStore (S k)) j + (if j \<in> I then \<delta> else 0)"
    and pr: "lg_pre (ledger_step C req (ledger_of (eStore (S k)))) = (pre S k)(u := w)"
    and w: "w = expected (sc_Topo s) (P(u \<mapsto> p)) (\<lambda>j. bal (sc_Topo s) S j + (if j \<in> I then \<delta> else 0)) k u"
    and others: "\<And>j. j \<noteq> k \<Longrightarrow>
      expected (sc_Topo s) (P(u \<mapsto> p)) (\<lambda>j. bal (sc_Topo s) S j + (if j \<in> I then \<delta> else 0)) j u =
      expected (sc_Topo s) P (bal (sc_Topo s) S) j u"
    and free: "\<And>v p. v \<noteq> u \<Longrightarrow> P v = Some p \<Longrightarrow> claimed p \<inter> I = {}"
    and cl: "claimed p \<subseteq> (case P u of None \<Rightarrow> {} | Some p \<Rightarrow> claimed p) \<union> I"
    and amt: "(if I = {} then 0 else \<delta>) + pend p = (case P u of None \<Rightarrow> 0 | Some p \<Rightarrow> pend p)"
  shows "settle_inv C s Q T (executes C k req slot S) (P(u \<mapsto> p))"
proof -
  let ?t = "sc_Topo s" and ?S = "executes C k req slot S"
  have st: "\<forall>k\<in>clusters ?t. store_ok (eStore (S k))" and pre: "\<forall>k\<in>clusters ?t. pre S k = expected ?t P (bal ?t S) k"
    using inv by (simp_all add: settle_inv_def)
  have stk: "store_ok (eStore (S k))" using st k by blast
  have B: "bal ?t ?S = (\<lambda>j. bal ?t S j + (if j \<in> I then \<delta> else 0))"
  proof
    fix j
    show "bal ?t ?S j = bal ?t S j + (if j \<in> I then \<delta> else 0)"
    proof (cases "ClusterOf ?t j = k")
      case True
      then show ?thesis by (simp add: executes_bal [of S k ?t, OF stk] b) (simp add: bal_def)
    next
      case False
      then have "j \<notin> I" using I by auto
      then show ?thesis using False by (simp add: executes_bal [of S k ?t, OF stk])
    qed
  qed
  have P: "pre ?S j v = (if v = u then expected ?t (P(u \<mapsto> p)) (bal ?t ?S) j u else pre S j v)" if "j \<in> clusters ?t" for j v
  proof (cases "j = k")
    case True
    then show ?thesis using executes_store(3) [of S k C req slot v, OF stk] by (simp add: pr w B)
  next
    case False
    then show ?thesis using others [OF False] pre that by (simp add: executes_other(2) B)
  qed
  show ?thesis
  proof (rule settle_keep [where I = I and i = i and \<delta> = \<delta>, OF inv ok executes_ok [OF st k]])
    show "I = {} \<or> I = {i} \<and> i \<in> tracked s" using I by auto
    show "\<forall>v p. v \<noteq> u \<longrightarrow> P v = Some p \<longrightarrow> claimed p \<inter> I = {}" using free by blast
  qed (use B P cl amt in simp_all)
qed

lemma cross_facts:
  assumes "workload_ok s Q" and "q \<in> Q" "is_cross (sc_Topo s) q"
  shows "r_X q \<in> tracked s" "r_Y q \<in> tracked s" "r_X q \<noteq> r_Y q"
    "ClusterOf (sc_Topo s) (r_X q) \<in> clusters (sc_Topo s)" "ClusterOf (sc_Topo s) (r_Y q) \<in> clusters (sc_Topo s)"
    "ClusterOf (sc_Topo s) (r_X q) \<noteq> ClusterOf (sc_Topo s) (r_Y q)"
proof -
  show "r_X q \<in> tracked s" "r_Y q \<in> tracked s" "r_X q \<noteq> r_Y q"
    using assms(1,2) by (auto simp: workload_ok_def moves_inside_def)
  then show "ClusterOf (sc_Topo s) (r_X q) \<in> clusters (sc_Topo s)" "ClusterOf (sc_Topo s) (r_Y q) \<in> clusters (sc_Topo s)"
    using assms(1) unfolding workload_ok_def by blast+
  show "ClusterOf (sc_Topo s) (r_X q) \<noteq> ClusterOf (sc_Topo s) (r_Y q)" using assms(3) by (simp add: is_cross_def SameCluster_def)
qed

lemma pending_facts:
  assumes inv: "settle_inv C s Q T S P" and w: "workload_ok s Q" and P: "P u = Some (q, c, d)"
  shows "u = TxnID C q" "q \<in> Q" "is_cross (sc_Topo s) q"
    "c = CoordDone \<Longrightarrow> d \<noteq> NotCredited" "d = PartDone \<Longrightarrow> c = CoordDone"
    "pre S (ClusterOf (sc_Topo s) (r_X q)) u = (if c = Debited then Some [(r_X q, bal (sc_Topo s) S (r_X q) + r_Amt q)] else None)"
    "pre S (ClusterOf (sc_Topo s) (r_Y q)) u = (if d = Credited then Some [(r_Y q, bal (sc_Topo s) S (r_Y q) - r_Amt q)] else None)"
proof -
  have "entry_ok C (sc_Topo s) Q u (q, c, d)" using inv P by (simp add: settle_inv_def)
  then show u: "u = TxnID C q" "q \<in> Q" "is_cross (sc_Topo s) q" "c = CoordDone \<Longrightarrow> d \<noteq> NotCredited" "d = PartDone \<Longrightarrow> c = CoordDone"
    by (auto simp: entry_ok_def)
  note f = cross_facts [OF w u(2,3)]
  have "pre S k = expected (sc_Topo s) P (bal (sc_Topo s) S) k" if "k \<in> clusters (sc_Topo s)" for k
    using inv that by (simp add: settle_inv_def)
  from this [OF f(4)] this [OF f(5)] f(6)
  show "pre S (ClusterOf (sc_Topo s) (r_X q)) u = (if c = Debited then Some [(r_X q, bal (sc_Topo s) S (r_X q) + r_Amt q)] else None)"
    "pre S (ClusterOf (sc_Topo s) (r_Y q)) u = (if d = Credited then Some [(r_Y q, bal (sc_Topo s) S (r_Y q) - r_Amt q)] else None)"
    by (auto simp: expected_def P)
qed

text \<open>No other transfer claims what this one claims, or what is free.\<close>

lemma claimed_once:
  "settle_inv C s Q T S P \<Longrightarrow> P u = Some p \<Longrightarrow> i \<in> claimed p \<Longrightarrow> v \<noteq> u \<Longrightarrow> P v = Some p' \<Longrightarrow> i \<notin> claimed p'"
  unfolding settle_inv_def by blast

lemma bal_at: "GetBalance (eStore (S (ClusterOf t i))) i = bal t S i"
  by (simp add: bal_def)

lemmas step_simps = ledger_step_def norm_op_def Let_def ledger_reads_pre ledger_bal(1)

lemma settle_prepare:
  assumes inv: "settle_inv C s Q T S P" and w: "workload_ok s Q" and q: "q \<in> Q" "is_cross (sc_Topo s) q"
    and new: "P (TxnID C q) = None" and free: "\<not> busy P (r_X q)"
  shows "settle_inv C s Q T (executes C (ClusterOf (sc_Topo s) (r_X q)) (q\<lparr>r_Op := OpCoordPrepare\<rparr>) slot S)
    (if GetBalance (eStore (S (ClusterOf (sc_Topo s) (r_X q)))) (r_X q) <s r_Amt q then P
     else P(TxnID C q \<mapsto> (q, Debited, NotCredited)))"
proof -
  let ?t = "sc_Topo s" and ?k = "ClusterOf (sc_Topo s) (r_X q)" and ?u = "TxnID C q"
  let ?S = "executes C ?k (q\<lparr>r_Op := OpCoordPrepare\<rparr>) slot S"
  note f = cross_facts [OF w q]
  have st: "\<forall>k\<in>clusters ?t. store_ok (eStore (S k))" and pre: "pre S ?k = expected ?t P (bal ?t S) ?k"
    using inv f(4) by (simp_all add: settle_inv_def)
  then have stk: "store_ok (eStore (S ?k))" using f(4) by blast
  show ?thesis
  proof (cases "GetBalance (eStore (S ?k)) (r_X q) <s r_Amt q")
    case True
    have "bal ?t ?S = bal ?t S"
      using True by (simp add: fun_eq_iff executes_bal [of S ?k ?t, OF stk] step_simps) (simp add: bal_def)
    moreover have "pre ?S k = pre S k" for k
      using True executes_store(3) [of S ?k C "q\<lparr>r_Op := OpCoordPrepare\<rparr>" slot, OF stk]
      by (cases "k = ?k") (auto simp: fun_eq_iff step_simps executes_other(2))
    ultimately show ?thesis using settle_same [OF inv executes_ok [OF st f(4)]] True by simp
  next
    case False
    have "settle_inv C s Q T ?S (P(?u \<mapsto> (q, Debited, NotCredited)))"
    proof (rule settle_exec [OF inv, where I = "{r_X q}" and i = "r_X q" and \<delta> = "- r_Amt q" and w = "Some [(r_X q, bal ?t S (r_X q))]"])
      show "claimed p \<inter> {r_X q} = {}" if "P v = Some p" for v p using free that unfolding busy_def by blast
      show "lg_pre (ledger_step C (q\<lparr>r_Op := OpCoordPrepare\<rparr>) (ledger_of (eStore (S ?k)))) =
          (pre S ?k)(?u := Some [(r_X q, bal ?t S (r_X q))])"
        using False by (simp add: step_simps bal_def)
    qed (use False f q new in \<open>auto simp: entry_ok_def expected_def step_simps\<close>)
    then show ?thesis using False by simp
  qed
qed

text \<open>A step that leaves balances and preimages alone.\<close>

lemma settle_idle:
  assumes inv: "settle_inv C s Q T S P" and k: "k \<in> clusters (sc_Topo s)"
    and b: "lg_bal (ledger_step C req (ledger_of (eStore (S k)))) = GetBalance (eStore (S k))"
    and pr: "lg_pre (ledger_step C req (ledger_of (eStore (S k)))) = pre S k"
  shows "settle_inv C s Q T (executes C k req slot S) P"
proof -
  let ?t = "sc_Topo s"
  have st: "\<forall>k\<in>clusters ?t. store_ok (eStore (S k))" using inv by (simp add: settle_inv_def)
  then have stk: "store_ok (eStore (S k))" using k by blast
  have "bal ?t (executes C k req slot S) = bal ?t S"
    by (simp add: fun_eq_iff executes_bal [of S k ?t, OF stk] b) (simp add: bal_def)
  moreover have "pre (executes C k req slot S) j = pre S j" for j
    using executes_store(3) [of S k C req slot, OF stk] pr by (cases "j = k") (auto simp: fun_eq_iff executes_other(2))
  ultimately show ?thesis using settle_same [OF inv executes_ok [OF st k]] by simp
qed

lemma settle_credit:
  assumes inv: "settle_inv C s Q T S P" and w: "workload_ok s Q" and P: "P u = Some (q, c, NotCredited)"
    and free: "\<not> busy P (r_Y q)"
  shows "settle_inv C s Q T (executes C (ClusterOf (sc_Topo s) (r_Y q)) (q\<lparr>r_Op := OpPartPrepareCommit\<rparr>) slot S)
    (P(u \<mapsto> (q, c, Credited)))"
proof -
  let ?t = "sc_Topo s" and ?k = "ClusterOf (sc_Topo s) (r_Y q)"
  note p = pending_facts [OF inv w P] and f = cross_facts [OF w pending_facts(2,3) [OF inv w P]]
  show ?thesis
  proof (rule settle_exec [OF inv _ f(5), where I = "{r_Y q}" and i = "r_Y q" and \<delta> = "r_Amt q" and w = "Some [(r_Y q, bal ?t S (r_Y q))]"])
    show "claimed p \<inter> {r_Y q} = {}" if "P v = Some p" for v p using free that unfolding busy_def by blast
    show "entry_ok C ?t Q u (q, c, Credited)" using p by (simp add: entry_ok_def)
    show "lg_pre (ledger_step C (q\<lparr>r_Op := OpPartPrepareCommit\<rparr>) (ledger_of (eStore (S ?k)))) =
        (pre S ?k)(u := Some [(r_Y q, bal ?t S (r_Y q))])"
      using p(1,7) by (simp add: step_simps bal_def)
    show "lg_bal (ledger_step C (q\<lparr>r_Op := OpPartPrepareCommit\<rparr>) (ledger_of (eStore (S ?k)))) j =
        GetBalance (eStore (S ?k)) j + (if j \<in> {r_Y q} then r_Amt q else 0)" for j
      using p(1,7) by (simp add: step_simps)
  qed (use f P p(4) in \<open>auto simp: expected_def\<close>)
qed

lemma settle_refuse:
  assumes inv: "settle_inv C s Q T S P" and w: "workload_ok s Q" and P: "P u = Some (q, c, d)"
  shows "settle_inv C s Q T (executes C (ClusterOf (sc_Topo s) (r_Y q)) (q\<lparr>r_Op := OpPartPrepareAbort\<rparr>) slot S) P"
  by (rule settle_idle [OF inv cross_facts(5) [OF w pending_facts(2,3) [OF inv w P]]]) (simp_all add: step_simps)

lemma settle_commit:
  assumes inv: "settle_inv C s Q T S P" and w: "workload_ok s Q" and P: "P u = Some (q, c, d)"
    and c: "c = CoordDone \<or> c = Debited \<and> d = Credited"
  shows "settle_inv C s Q T (executes C (ClusterOf (sc_Topo s) (r_X q)) (q\<lparr>r_Op := OpCoordCommit\<rparr>) slot S)
    (P(u \<mapsto> (q, CoordDone, d)))"
proof -
  note p = pending_facts [OF inv w P] and f = cross_facts [OF w pending_facts(2,3) [OF inv w P]]
  show ?thesis
  proof (rule settle_exec [OF inv _ f(4), where I = "{}" and w = None])
    show "entry_ok C (sc_Topo s) Q u (q, CoordDone, d)" using p c by (auto simp: entry_ok_def)
    show "lg_pre (ledger_step C (q\<lparr>r_Op := OpCoordCommit\<rparr>) (ledger_of (eStore (S (ClusterOf (sc_Topo s) (r_X q)))))) =
        (pre S (ClusterOf (sc_Topo s) (r_X q)))(u := None)"
      using p(1) by (simp add: step_simps)
  qed (use f P c in \<open>auto simp: expected_def step_simps\<close>)
qed

lemma settle_part_commit:
  assumes inv: "settle_inv C s Q T S P" and w: "workload_ok s Q" and P: "P u = Some (q, CoordDone, d)"
  shows "settle_inv C s Q T (executes C (ClusterOf (sc_Topo s) (r_Y q)) (q\<lparr>r_Op := OpPartCommit\<rparr>) slot S)
    (P(u \<mapsto> (q, CoordDone, PartDone)))"
proof -
  note p = pending_facts [OF inv w P] and f = cross_facts [OF w pending_facts(2,3) [OF inv w P]]
  show ?thesis
  proof (rule settle_exec [OF inv _ f(5), where I = "{}" and w = None])
    show "entry_ok C (sc_Topo s) Q u (q, CoordDone, PartDone)" using p by (auto simp: entry_ok_def)
    show "lg_pre (ledger_step C (q\<lparr>r_Op := OpPartCommit\<rparr>) (ledger_of (eStore (S (ClusterOf (sc_Topo s) (r_Y q)))))) =
        (pre S (ClusterOf (sc_Topo s) (r_Y q)))(u := None)"
      using p(1) by (simp add: step_simps)
  qed (use f P p(4) in \<open>auto simp: expected_def step_simps\<close>)
qed

lemma settle_abort:
  assumes inv: "settle_inv C s Q T S P" and w: "workload_ok s Q" and P: "P u = Some (q, c, d)" and c: "c \<noteq> CoordDone"
  shows "settle_inv C s Q T (executes C (ClusterOf (sc_Topo s) (r_X q)) (q\<lparr>r_Op := OpCoordAbort\<rparr>) slot S)
    (P(u \<mapsto> (q, CoordUndone, d)))"
proof -
  let ?t = "sc_Topo s" and ?k = "ClusterOf (sc_Topo s) (r_X q)"
  note p = pending_facts [OF inv w P] and f = cross_facts [OF w pending_facts(2,3) [OF inv w P]]
  show ?thesis
  proof (cases "c = Debited")
    case True
    show ?thesis
    proof (rule settle_exec [OF inv _ f(4), where I = "{r_X q}" and i = "r_X q" and \<delta> = "r_Amt q" and w = None])
      show "entry_ok C ?t Q u (q, CoordUndone, d)" using p c by (auto simp: entry_ok_def)
      show "lg_pre (ledger_step C (q\<lparr>r_Op := OpCoordAbort\<rparr>) (ledger_of (eStore (S ?k)))) = (pre S ?k)(u := None)"
        using p(1) by (simp add: step_simps)
      show "lg_bal (ledger_step C (q\<lparr>r_Op := OpCoordAbort\<rparr>) (ledger_of (eStore (S ?k)))) j =
          GetBalance (eStore (S ?k)) j + (if j \<in> {r_X q} then r_Amt q else 0)" for j
        using p(1,6) True by (simp add: step_simps lg_undo_bal) (simp add: bal_def)
      show "claimed p' \<inter> {r_X q} = {}" if "v \<noteq> u" "P v = Some p'" for v p'
        using claimed_once [OF inv P _ that, of "r_X q"] True by simp
    qed (use f P True p(5) in \<open>auto simp: expected_def\<close>)
  next
    case False
    then have "c = CoordUndone" using c by (cases c) simp_all
    then have same: "P(u \<mapsto> (q, CoordUndone, d)) = P" using P by auto
    show ?thesis unfolding same
      by (rule settle_idle [OF inv f(4)]) (use p(1,6) False in \<open>simp_all add: step_simps lg_undo_bal fun_upd_idem\<close>)
  qed
qed

lemma settle_part_abort:
  assumes inv: "settle_inv C s Q T S P" and w: "workload_ok s Q" and P: "P u = Some (q, CoordUndone, d)"
  shows "settle_inv C s Q T (executes C (ClusterOf (sc_Topo s) (r_Y q)) (q\<lparr>r_Op := OpPartAbort\<rparr>) slot S)
    (P(u \<mapsto> (q, CoordUndone, NotCredited)))"
proof -
  let ?t = "sc_Topo s" and ?k = "ClusterOf (sc_Topo s) (r_Y q)"
  note p = pending_facts [OF inv w P] and f = cross_facts [OF w pending_facts(2,3) [OF inv w P]]
  show ?thesis
  proof (cases "d = Credited")
    case True
    show ?thesis
    proof (rule settle_exec [OF inv _ f(5), where I = "{r_Y q}" and i = "r_Y q" and \<delta> = "- r_Amt q" and w = None])
      show "entry_ok C ?t Q u (q, CoordUndone, NotCredited)" using p by (auto simp: entry_ok_def)
      show "lg_pre (ledger_step C (q\<lparr>r_Op := OpPartAbort\<rparr>) (ledger_of (eStore (S ?k)))) = (pre S ?k)(u := None)"
        using p(1) by (simp add: step_simps)
      show "lg_bal (ledger_step C (q\<lparr>r_Op := OpPartAbort\<rparr>) (ledger_of (eStore (S ?k)))) j =
          GetBalance (eStore (S ?k)) j + (if j \<in> {r_Y q} then - r_Amt q else 0)" for j
        using p(1,7) True by (simp add: step_simps lg_undo_bal) (simp add: bal_def)
      show "claimed p' \<inter> {r_Y q} = {}" if "v \<noteq> u" "P v = Some p'" for v p'
        using claimed_once [OF inv P _ that, of "r_Y q"] True by simp
    qed (use f P True in \<open>auto simp: expected_def\<close>)
  next
    case False
    then have "d = NotCredited" using p(5) by (cases d) auto
    then have same: "P(u \<mapsto> (q, CoordUndone, NotCredited)) = P" using P by auto
    show ?thesis unfolding same
      by (rule settle_idle [OF inv f(5)]) (use p(1,7) False in \<open>simp_all add: step_simps lg_undo_bal fun_upd_idem\<close>)
  qed
qed

subsection \<open>The workload conserves money\<close>

lemma settle_inv_step:
  assumes "settle_step C (sc_Topo s) Q S P S' P'" and "settle_inv C s Q T S P" and "workload_ok s Q"
  shows "settle_inv C s Q T S' P'"
  using assms
proof (induction rule: settle_step.induct)
  case (intra q P S slot)
  then show ?case by (intro settle_intra)
next
  case (prepare q P S slot)
  then show ?case by (intro settle_prepare)
next
  case (credit P u q c S slot)
  then show ?case by (intro settle_credit)
next
  case (refuse P u q c d S slot)
  then show ?case by (intro settle_refuse)
next
  case (commit P u q c d S slot)
  then show ?case by (intro settle_commit)
next
  case (abort P u q c d S slot)
  then show ?case by (intro settle_abort)
next
  case (part_commit P u q d S slot)
  then show ?case by (intro settle_part_commit)
next
  case (part_abort P u q d S slot)
  then show ?case by (intro settle_part_abort)
qed

lemma settle_inv_run:
  assumes "settle_run C (sc_Topo s) Q S0 S P" and "workload_ok s Q"
    and "\<forall>k\<in>clusters (sc_Topo s). store_ok (eStore (S0 k)) \<and> wal (eStore (S0 k)) = []"
  shows "settle_inv C s Q (deployment_total s S0) S P"
  using assms
proof (induction rule: settle_run.induct)
  case start
  then show ?case by (simp add: settle_inv_def in_flight_def pre_def expected_def fun_eq_iff)
next
  case (step S P S' P')
  then show ?case using settle_inv_step by blast
qed

text \<open>Nothing is in flight where no preimage is left.\<close>

lemma quiet_in_flight:
  assumes inv: "settle_inv C s Q T S P" and w: "workload_ok s Q"
    and quiet: "\<forall>k\<in>clusters (sc_Topo s). wal (eStore (S k)) = []"
  shows "in_flight P = 0"
proof -
  have "pend p = 0" if P: "P u = Some p" for u p
  proof -
    obtain q c d where p: "p = (q, c, d)" by (cases p)
    note f = pending_facts [OF inv w P [unfolded p]]
    have none: "pre S k u = None" if "k \<in> clusters (sc_Topo s)" for k using quiet that by (simp add: pre_def)
    have "c \<noteq> Debited" "d \<noteq> Credited"
      using f(6,7) none cross_facts(4,5) [OF w f(2,3)] by (auto split: if_splits)
    then show ?thesis using f(4,5) by (cases c; cases d) (simp_all add: p)
  qed
  then show ?thesis by (auto simp: in_flight_def intro!: sum.neutral)
qed

lemma workload_ok_ops:
  assumes ok: "schema_ok s" and ops: "\<forall>op\<in>set ops. \<exists>g. gn_Schema g = s \<and> generated g op"
  shows "workload_ok s (\<Union>op\<in>set ops. set (op_Requests op))"
proof -
  have "moves_inside s q" if "op \<in> set ops" "q \<in> set (op_Requests op)" for op q
    using ops that ok generated_requests by blast
  moreover have "ClusterOf (sc_Topo s) i \<in> clusters (sc_Topo s)" if "i \<in> tracked s" for i
  proof -
    have acc: "ClusterOf (sc_Topo s) j \<in> clusters (sc_Topo s)"
      if "1 \<le> c" "c \<le> TotalCustomers s" "j \<in> {SavingsItem s c, CheckingItem s c}" for c j
      using account_clusters [OF ok that(1,2)] customer_place(4,5) [OF ok that(1,2)] that(3) by auto
    then show ?thesis
      using that treasury_cluster [OF ok] by (force simp: tracked_def AllTrackedItems_def set_AccountItems)
  qed
  ultimately show ?thesis by (auto simp: workload_ok_def)
qed

lemma random_ops_generated:
  fixes R :: "'r rng"
  assumes "\<forall>op\<in>set ops. \<exists>p k amt r g g' r'. gn_Schema g = s \<and> RandomOp R p k amt r g = Some ((Inr op, g'), r')"
  shows "\<forall>op\<in>set ops. \<exists>g. gn_Schema g = s \<and> generated g op \<and> \<not> op_Penalty op"
proof
  fix op assume "op \<in> set ops"
  then obtain p k amt r g g' r' where g: "gn_Schema g = s" and r: "RandomOp R p k amt r g = Some ((Inr op, g'), r')"
    using assms by blast
  show "\<exists>g. gn_Schema g = s \<and> generated g op \<and> \<not> op_Penalty op"
    by (rule exI [of _ g]) (simp add: g random_op_generated [OF r])
qed

text \<open>C39: The workload conserves money, and the write-ahead logs show when it can be counted. Take an
  account layout that fits its clusters (\<open>schema_ok\<close>) and any operations that \<open>RandomOp\<close> has generated
  for it, and let the clusters, whose stores start without preimages, execute their requests in any
  interleaving that keeps the locks and the order of two-phase commit: transfers carried out, refused
  for lack of funds, committed in both clusters or given up in both. Then at every moment the total
  over all accounts and treasuries, each read in its own cluster, plus the money in flight is the
  total at the start (modulo \<open>2\<^sup>6\<^sup>4\<close>); and whenever no cluster holds a preimage, which is what
  \<open>Wait2PCQuiescence\<close> waits for, nothing is in flight, so the total is the one at the start and
  \<open>CheckConservation\<close> accepts it exactly if the penalties recorded sum to 0. No generated operation
  carries a penalty, and one is marked cross-shard exactly if one of its requests leaves its cluster.\<close>

theorem workload_conserves:
  fixes R :: "'r rng"
  assumes ok: "schema_ok s"
    and ops: "\<forall>op\<in>set ops. \<exists>p k amt r g g' r'. gn_Schema g = s \<and> RandomOp R p k amt r g = Some ((Inr op, g'), r')"
    and start: "\<forall>k\<in>{1..NumClusters (sc_Topo s)}. store_ok (eStore (S0 k)) \<and> wal (eStore (S0 k)) = []"
    and run: "settle_run C (sc_Topo s) (\<Union>op\<in>set ops. set (op_Requests op)) S0 S P"
  shows "deployment_total s S + in_flight P = deployment_total s S0 \<and>
    ((\<forall>k\<in>{1..NumClusters (sc_Topo s)}. wal (eStore (S k)) = []) \<longrightarrow>
       deployment_total s S = deployment_total s S0 \<and>
       (\<forall>penalties. CheckConservation (deployment_total s S0) (deployment_total s S) penalties = None \<longleftrightarrow> penalties = 0)) \<and>
    (\<forall>op\<in>set ops. \<not> op_Penalty op \<and> (op_CrossShard op \<longleftrightarrow> (\<exists>q\<in>set (op_Requests op). is_cross (sc_Topo s) q)))"
proof -
  have gen: "\<exists>g. gn_Schema g = s \<and> generated g op \<and> \<not> op_Penalty op" if "op \<in> set ops" for op
    using random_ops_generated [OF ops] that by blast
  then have w: "workload_ok s (\<Union>op\<in>set ops. set (op_Requests op))" by (intro workload_ok_ops [OF ok]) blast
  have inv: "settle_inv C s (\<Union>op\<in>set ops. set (op_Requests op)) (deployment_total s S0) S P"
    by (rule settle_inv_run [OF run w start])
  then have total: "deployment_total s S + in_flight P = deployment_total s S0" by (simp add: settle_inv_def)
  have "deployment_total s S = deployment_total s S0" if "\<forall>k\<in>{1..NumClusters (sc_Topo s)}. wal (eStore (S k)) = []"
    using total quiet_in_flight [OF inv w that] by simp
  moreover have "\<not> op_Penalty op \<and> (op_CrossShard op \<longleftrightarrow> (\<exists>q\<in>set (op_Requests op). is_cross (sc_Topo s) q))"
    if "op \<in> set ops" for op using gen [OF that] ok generated_requests by blast
  ultimately show ?thesis using total by (auto simp: CheckConservation_def Let_def)
qed

definition sample_source :: "int rng" where
  "sample_source = \<lparr>rng_Hot = \<lambda>r. (False, r), rng_Intn = \<lambda>n r. (r mod n, r + 400)\<rparr>"

definition sample_clusters :: "int \<Rightarrow> engine" where
  "sample_clusters k = (sample_engine 1)\<lparr>eStore := empty_store 10 3000\<rparr>"

theorem workload_conserves_witness:
  "\<exists>op S P. fst (SendPayment 1 401 3 (NewGenerator (NewSchema Default) ''c'')) = Inr op \<and> op_CrossShard op \<and> P \<noteq> Map.empty \<and>
     settle_run plain_crypto Default (set (op_Requests op)) sample_clusters S P \<and>
     (\<forall>k\<in>{1..3}. wal (eStore (S k)) = []) \<and>
     deployment_total (NewSchema Default) S = deployment_total (NewSchema Default) sample_clusters"
proof -
  let ?s = "NewSchema Default" and ?g = "NewGenerator (NewSchema Default) ''c''" and ?C = plain_crypto
  have ok: "schema_ok ?s"
    using wf_Default by (simp add: schema_ok_def NewSchema_def) (simp add: Default_def ItemsPerCluster_def go_div_def)
  have tot: "TotalCustomers ?s = 1200" "sc_Topo ?s = Default" "NumClusters Default = 3"
    by (simp_all add: TotalCustomers_def NewSchema_def Default_def)
  have cl: "CustCluster ?s 1 = 1" "CustCluster ?s 401 = 2"
    by (simp_all add: CustCluster_def tot) (simp_all add: NewSchema_def go_div_def)
  note acc = account_clusters [OF ok, of 1, unfolded tot cl] account_clusters [OF ok, of 401, unfolded tot cl]
  have v: "Validate ?s 1 = None" "Validate ?s 401 = None"
    using acc by (simp_all add: Validate_def SameCluster_def tot)
  define q where "q = \<lparr>r_ClientID = ''c'', r_TS = 1, r_X = CheckingItem ?s 1, r_Y = CheckingItem ?s 401, r_Amt = 3, r_Op = OpEmpty\<rparr>"
  define op where "op = (noOp KindSendPayment 1)\<lparr>op_Cust2 := 401, op_Amt := 3, op_Requests := [q], op_CrossShard := True\<rparr>"
  have op: "SendPayment 1 401 3 ?g = (Inr op, ?g\<lparr>gn_Seq := 1\<rparr>)"
    using acc by (simp add: SendPayment_def NewGenerator_def v nextReq_def op_def q_def Let_def SameCluster_def tot)
  have "RandomOp sample_source (NewPicker 1200 3 400 3) KindSendPayment 3 0 ?g = Some ((Inr op, ?g\<lparr>gn_Seq := 1\<rparr>), 800)"
    by (simp add: RandomOp_def Pick_def sample_source_def NewPicker_def pick_other.simps op Let_def)
  then have ops: "\<forall>op\<in>set [op]. \<exists>p k amt r g g' r'. gn_Schema g = ?s \<and> RandomOp sample_source p k amt r g = Some ((Inr op, g'), r')"
    by (auto simp: NewGenerator_def intro!: exI)
  have start: "\<forall>k\<in>{1..NumClusters (sc_Topo ?s)}. store_ok (eStore (sample_clusters k)) \<and> wal (eStore (sample_clusters k)) = []"
    by (simp add: sample_clusters_def)
  let ?Q = "\<Union>op\<in>set [op]. set (op_Requests op)"
  have q: "q \<in> ?Q" "is_cross Default q" "\<not> GetBalance (eStore (sample_clusters k)) (r_X q) <s r_Amt q" for k
    using acc by (simp_all add: op_def is_cross_def SameCluster_def q_def sample_clusters_def)
  let ?u = "TxnID ?C q" and ?slot = "(1, undefined)"
  note run0 = settle_run.start [of ?C Default ?Q sample_clusters]
  obtain S1 where run1: "settle_run ?C Default ?Q sample_clusters S1 [?u \<mapsto> (q, Debited, NotCredited)]"
    using settle_run.step [OF run0 settle_step.prepare [of q ?Q Default Map.empty ?C sample_clusters]] q by (auto simp: busy_def)
  have xy: "r_X q \<noteq> r_Y q" using acc by (auto simp: q_def)
  obtain S2 where run2: "settle_run ?C Default ?Q sample_clusters S2 [?u \<mapsto> (q, Debited, Credited)]"
  proof -
    have "\<not> busy [?u \<mapsto> (q, Debited, NotCredited)] (r_Y q)" using xy by (auto simp: busy_def split: if_splits)
    from settle_run.step [OF run1 settle_step.credit [of _ ?u q Debited, OF _ this, where slot = ?slot]] show ?thesis
      by (intro that) simp
  qed
  obtain S3 where run3: "settle_run ?C Default ?Q sample_clusters S3 [?u \<mapsto> (q, CoordDone, Credited)]"
    using settle_run.step [OF run2 settle_step.commit [of _ ?u q Debited Credited]] by auto
  obtain S4 where run4: "settle_run ?C Default ?Q sample_clusters S4 [?u \<mapsto> (q, CoordDone, PartDone)]"
    using settle_run.step [OF run3 settle_step.part_commit [of _ ?u q Credited]] by auto
  have run: "settle_run ?C (sc_Topo ?s) ?Q sample_clusters S4 [?u \<mapsto> (q, CoordDone, PartDone)]"
    using run4 by (simp only: tot(2))
  have gen: "\<forall>op\<in>set [op]. \<exists>g. gn_Schema g = ?s \<and> generated g op" using random_ops_generated [OF ops] by blast
  have inv: "settle_inv ?C ?s ?Q (deployment_total ?s sample_clusters) S4 [?u \<mapsto> (q, CoordDone, PartDone)]"
    by (rule settle_inv_run [OF run workload_ok_ops [OF ok gen] start])
  have quiet: "wal (eStore (S4 k)) = []" if "k \<in> {1..3}" for k
  proof -
    have none: "pre S4 k u = None" for u
      using inv that by (simp add: settle_inv_def tot expected_def)
    show ?thesis using none [of "fst (hd (wal (eStore (S4 k))))"] by (cases "wal (eStore (S4 k))") (auto simp: pre_def)
  qed
  have "deployment_total ?s S4 = deployment_total ?s sample_clusters"
    using workload_conserves [OF ok ops start run] quiet by (simp add: tot)
  then show ?thesis
    using op run4 quiet by (intro exI [of _ op] exI [of _ S4] exI [of _ "[?u \<mapsto> (q, CoordDone, PartDone)]"]) (simp add: op_def)
qed

end
