(* ===== verification/Backing.thy ===== *)
theory Backing
  imports Hazards Viewchange
begin

text \<open>
  What the slots of a replica rest on in the normal case of a view: votes with verified signatures,
  certificates that verify, proposals that may be made, and a ledger that is what the executed slots
  made of the first one. Every handler of the normal case keeps this (\<open>sound\<close>); \<open>Cluster\<close> puts the
  replicas of a cluster together.
\<close>

subsection \<open>What the slots of a replica rest on\<close>

text \<open>\<open>P i b\<close> says that the network may present bytes \<open>b\<close> as signed by server \<open>i\<close>; \<open>D d r\<close> that
  request \<open>r\<close> may be proposed under digest \<open>d\<close>.\<close>

definition votes_backed :: "crypto_ops \<Rightarrow> (int \<Rightarrow> bytes \<Rightarrow> bool) \<Rightarrow> KeyRing \<Rightarrow> bytes \<Rightarrow> (int, bytes) bucket \<Rightarrow> bool" where
  "votes_backed C P ring b votes \<longleftrightarrow> votes_ok (C, ring, b) votes \<and> (\<forall>i\<in>fst ` set votes. P i b)"

definition cert_backed :: "crypto_ops \<Rightarrow> (int \<Rightarrow> bytes \<Rightarrow> bool) \<Rightarrow> engine \<Rightarrow> phase \<Rightarrow> int \<Rightarrow> bytes \<Rightarrow> CertificateMsg \<Rightarrow> bool" where
  "cert_backed C P e p k d c \<longleftrightarrow> cm_Seq c = k \<and> cm_View c = eView e \<and> cm_Digest c = d \<and>
     verifyCert C e c p (phase_quorum e p) \<and> (\<forall>i\<in>signers c. P i (cert_bytes p c))"

definition untouched :: "seqState \<Rightarrow> bool" where
  "untouched s \<longleftrightarrow> sPrepares s = [] \<and> sCommits s = [] \<and> sPrepareCert s = None \<and> sCommitCert s = None"

definition slot_backed ::
    "crypto_ops \<Rightarrow> (int \<Rightarrow> bytes \<Rightarrow> bool) \<Rightarrow> (bytes \<Rightarrow> Request \<Rightarrow> bool) \<Rightarrow> engine \<Rightarrow> int \<Rightarrow> seqState \<Rightarrow> bool" where
  "slot_backed C P D e k s \<longleftrightarrow>
     votes_backed C P (eRing e) (PhaseSigningBytes ''PREPARE'' k (eView e) (sDigest s)) (sPrepares s) \<and>
     votes_backed C P (eRing e) (PhaseSigningBytes ''COMMIT'' k (eView e) (sDigest s)) (sCommits s) \<and>
     (\<forall>c. sPrepareCert s = Some c \<longrightarrow> cert_backed C P e Prep k (sDigest s) c) \<and>
     (\<forall>c. sCommitCert s = Some c \<longrightarrow> cert_backed C P e Comm k (sDigest s) c) \<and>
     (sExecuted s \<longrightarrow> sCommitCert s \<noteq> None) \<and>
     (if sPrePrepare s then D (sDigest s) (sReq s) else untouched s) \<and>
     \<not> sDiscarded s"

text \<open>The state of a replica that runs since \<open>L\<close> was its ledger: every slot is backed, the store is
  well formed, and its ledger is what the executed slots made of \<open>L\<close>.\<close>

definition sound ::
    "crypto_ops \<Rightarrow> (int \<Rightarrow> bytes \<Rightarrow> bool) \<Rightarrow> (bytes \<Rightarrow> Request \<Rightarrow> bool) \<Rightarrow> ledger \<Rightarrow> engine \<Rightarrow> bool" where
  "sound C P D L e \<longleftrightarrow>
     (\<forall>k s. bget (eLog e) k = Some s \<longrightarrow> slot_backed C P D e k s) \<and>
     (\<forall>k. 1 \<le> k \<longrightarrow> k < eExecSeq e \<longrightarrow> (\<exists>s. bget (eLog e) k = Some s \<and> sExecuted s)) \<and>
     1 \<le> eExecSeq e \<and> store_ok (eStore e) \<and>
     ledger_of (eStore e) = fold (ledger_step C) (slot_reqs e 1 (eExecSeq e)) L"

text \<open>What a slot rests on depends on the identity and the quorums of the engine only.\<close>

definition same_frame :: "engine \<Rightarrow> engine \<Rightarrow> bool" where
  "same_frame e e' \<longleftrightarrow> eView e' = eView e \<and> eRing e' = eRing e \<and> eSelf e' = eSelf e \<and>
     ePrepareCollect e' = ePrepareCollect e \<and> eCommitQuorum e' = eCommitQuorum e"

lemma same_frame_evolves: "evolves e e' \<Longrightarrow> same_frame e e'"
  by (simp add: same_frame_def evolves_def)

lemma cert_backed_frame: "same_frame e e' \<Longrightarrow> cert_backed C P e' p k d c = cert_backed C P e p k d c"
  by (cases p) (simp_all add: same_frame_def cert_backed_def verifyCert_def phase_quorum_def)

lemma slot_backed_frame: "same_frame e e' \<Longrightarrow> slot_backed C P D e' k s = slot_backed C P D e k s"
  using cert_backed_frame [of e e' C P] by (simp add: slot_backed_def same_frame_def)

lemma slot_backed_mono:
  assumes "slot_backed C P D e k s" and "\<And>i b. P i b \<Longrightarrow> Q i b"
  shows "slot_backed C Q D e k s"
  using assms by (auto simp: slot_backed_def votes_backed_def cert_backed_def)

lemma sound_mono:
  assumes "sound C P D L e" and "\<And>i b. P i b \<Longrightarrow> Q i b"
  shows "sound C Q D L e"
proof -
  have "slot_backed C Q D e k s" if "slot_backed C P D e k s" for k s
    using that assms(2) by (rule slot_backed_mono)
  with assms(1) show ?thesis by (simp add: sound_def)
qed

lemma slot_reqs_log: "eLog e' = eLog e \<Longrightarrow> slot_reqs e' lo hi = slot_reqs e lo hi"
  by (rule slot_reqs_cong) (simp add: slot_req_def)

text \<open>Steps that leave the log alone.\<close>

lemma sound_keep:
  assumes "sound C P D L e" and "same_frame e e'" and "eLog e' = eLog e" "eExecSeq e' = eExecSeq e"
    and "store_ok (eStore e')" "ledger_of (eStore e') = ledger_of (eStore e)"
  shows "sound C P D L e'"
  using assms slot_backed_frame [OF assms(2)] slot_reqs_log [OF assms(3)] by (simp add: sound_def)

lemma same_frame_core: "same_core e e' \<Longrightarrow> same_frame e e'"
  using same_core_fields [of e e'] by (simp add: same_frame_def)

lemma sound_core:
  assumes "sound C P D L e" and "same_core e e'"
    and "store_ok (eStore e')" "ledger_of (eStore e') = ledger_of (eStore e)"
  shows "sound C P D L e'"
  using sound_keep [OF assms(1) same_frame_core [OF assms(2)] _ _ assms(3,4)] same_core_fields [OF assms(2)] by simp

lemma sound_emit [simp]: "sound C P D L (emit x e) = sound C P D L e"
proof -
  have f: "same_frame e (emit x e)" "same_frame (emit x e) e" by (simp_all add: same_frame_def emit_def)
  show ?thesis
    using slot_backed_frame [OF f(1)] slot_reqs_log [of "emit x e" e] by (simp add: sound_def emit_def)
qed

lemma sound_store_ok: "sound C P D L e \<Longrightarrow> store_ok (eStore e)"
  by (simp add: sound_def)

lemma sound_slot: "sound C P D L e \<Longrightarrow> bget (eLog e) k = Some s \<Longrightarrow> slot_backed C P D e k s"
  by (simp add: sound_def)

lemma backed_proposed: "slot_backed C P D e k s \<Longrightarrow> sExecuted s \<Longrightarrow> sPrePrepare s"
  by (auto simp: slot_backed_def untouched_def split: if_splits)

text \<open>Writing a slot: votes and certificates of a slot that is there, or a proposal where none is.\<close>

lemma same_frame_put [simp]: "same_frame e (put_slot k s e)"
  by (simp add: same_frame_def put_slot_def)

lemma sound_write:
  assumes s: "sound C P D L e" and b: "slot_backed C P D e k s'"
    and old: "1 \<le> k \<Longrightarrow> k < eExecSeq e \<Longrightarrow> \<exists>s. bget (eLog e) k = Some s \<and> sReq s' = sReq s \<and> sExecuted s'"
  shows "sound C P D L (put_slot k s' e)"
proof -
  have log: "bget (eLog (put_slot k s' e)) j = (if j = k then Some s' else bget (eLog e) j)" for j
    by (simp add: put_slot_def)
  have "slot_req (put_slot k s' e) j = slot_req e j" if "1 \<le> j" "j < eExecSeq e" for j
    using that old b sound_slot [OF s] by (cases "j = k") (auto simp: slot_req_def log slot_backed_def)
  then have reqs: "slot_reqs (put_slot k s' e) 1 (eExecSeq e) = slot_reqs e 1 (eExecSeq e)"
    by (intro slot_reqs_cong) auto
  have "\<exists>s. bget (eLog (put_slot k s' e)) j = Some s \<and> sExecuted s" if "1 \<le> j" "j < eExecSeq e" for j
    using that old s by (cases "j = k") (auto simp: log sound_def)
  moreover have "slot_backed C P D (put_slot k s' e) j t" if "bget (eLog (put_slot k s' e)) j = Some t" for j t
    using that b sound_slot [OF s] slot_backed_frame [OF same_frame_put [of e k s'], of C P D]
    by (auto simp: log split: if_splits)
  ultimately show ?thesis
    using s reqs by (simp add: sound_def) (simp add: put_slot_def)
qed

lemma sound_update:
  assumes "sound C P D L e" and "bget (eLog e) k = Some s" and "slot_backed C P D e k s'"
    and "sReq s' = sReq s" "sExecuted s' = sExecuted s"
  shows "sound C P D L (put_slot k s' e)"
  using assms(1,3) by (rule sound_write) (use assms in \<open>auto simp: sound_def\<close>)

subsection \<open>The handlers keep it\<close>

lemma sound_exec_round:
  assumes r: "exec_round C e = Some e'" and s: "sound C P D L e"
  shows "sound C P D L e'"
proof -
  let ?n = "eExecSeq e"
  obtain t where t: "bget (eLog e) ?n = Some t" "runnable t" and n: "eExecSeq e' = ?n + 1"
    and log: "\<And>k. bget (eLog e') k = (if k = ?n then Some (ran t) else bget (eLog e) k)"
    using exec_round_log [OF r] by blast
  note bt = sound_slot [OF s t(1)]
  have live: "\<not> sDiscarded t" using bt by (simp add: slot_backed_def)
  have comm: "sCommitCert t \<noteq> None" using t(2) live by (simp add: runnable_def)
  have "ran t = t\<lparr>sExecuted := True\<rparr>" using live by (simp add: ran_def)
  then have bt': "slot_backed C P D e ?n (ran t)"
    using bt comm by (auto simp: slot_backed_def untouched_def)
  have fr: "same_frame e e'" by (rule same_frame_evolves [OF evolves_exec_round [OF r]])
  have backed: "slot_backed C P D e' k u" if "bget (eLog e') k = Some u" for k u
    using that bt' sound_slot [OF s] slot_backed_frame [OF fr, of C P D] by (auto simp: log split: if_splits)
  have ex: "\<exists>u. bget (eLog e') k = Some u \<and> sExecuted u" if "1 \<le> k" "k < ?n + 1" for k
    using that s live by (cases "k = ?n") (auto simp: log sound_def ran_def)
  have one: "1 \<le> ?n" using s by (simp add: sound_def)
  have reqs: "slot_reqs e' 1 (?n + 1) = slot_reqs e 1 (?n + 1)"
    by (rule slot_reqs_cong) (simp add: slot_req_def log t(1) ran_def)
  have "slot_reqs e 1 (?n + 1) = slot_reqs e 1 ?n @ slot_req e ?n"
    using slot_reqs_split [of 1 ?n "?n + 1" e] one slot_reqs_step [of ?n "?n + 1" e]
    by (simp add: slot_reqs_def [of e "?n + 1"])
  then show ?thesis
    using exec_round_ledger [OF r sound_store_ok [OF s]] s backed ex one by (simp add: sound_def n reqs)
qed

lemma sound_tryExecute: "sound C P D L e \<Longrightarrow> sound C P D L (tryExecute C e)"
proof (induction C e rule: tryExecute.induct)
  case (1 C e)
  show ?case
  proof (cases "exec_round C e")
    case (Some e')
    then show ?thesis
      using 1(1) [OF Some sound_exec_round [OF Some 1(2)]] by (simp add: tryExecute.simps [of C e])
  qed (use 1(2) in \<open>simp add: tryExecute.simps [of C e]\<close>)
qed

lemma cert_backedI:
  assumes "cm_View c = eView e" "verifyCert C e c p (phase_quorum e p)" "\<And>i. i \<in> signers c \<Longrightarrow> P i (cert_bytes p c)"
  shows "cert_backed C P e p (cm_Seq c) (cm_Digest c) c"
  using assms by (simp add: cert_backed_def)

lemma sound_onCommitCert:
  assumes s: "sound C P D L e"
    and P: "\<And>i. verifyCert C e c Comm (eCommitQuorum e) \<Longrightarrow> i \<in> signers c \<Longrightarrow> P i (cert_bytes Comm c)"
  shows "sound C P D L (onCommitCert C e c)"
proof (cases "bget (eLog e) (cm_Seq c)")
  case (Some t)
  have "sound C P D L (put_slot (cm_Seq c) (t\<lparr>sCommitCert := Some c\<rparr>) e)"
    if "sPrePrepare t" "sDigest t = cm_Digest c" "cm_View c = eView e" "verifyCert C e c Comm (eCommitQuorum e)"
    using sound_slot [OF s Some] cert_backedI [of c e C Comm P] that P
    by (intro sound_update [OF s Some]) (auto simp: slot_backed_def phase_quorum_def)
  with s Some show ?thesis by (simp add: onCommitCert_def sound_tryExecute)
qed (use s in \<open>simp add: onCommitCert_def\<close>)

definition vote_bytes :: "phase \<Rightarrow> PhaseMsg \<Rightarrow> bytes" where
  "vote_bytes p m = PhaseSigningBytes (phase_name p) (pm_Seq m) (pm_View m) (pm_Digest m)"

text \<open>One more vote: what the slot holds stays backed, and so is a certificate built from it.\<close>

lemma add_vote_backed:
  assumes "votes_backed C P ring b votes" and "add_vote C ring b votes from sig = Some votes'"
    and "ring_Verify C ring from b sig \<Longrightarrow> P from b"
  shows "votes_backed C P ring b votes'"
proof -
  have v: "ring_Verify C ring from b sig" "votes' = bput from sig votes"
    using assms(2) by (auto simp: add_vote_def split: if_splits)
  have "phase_vote (C, ring, b) votes from sig = votes'" using assms(2) by (simp add: phase_vote_def)
  then have "votes_ok (C, ring, b) votes'"
    using phase_votes.invar_add [of "(C, ring, b)" votes "from" sig] assms(1) by (simp add: votes_backed_def)
  then show ?thesis using assms(1,3) v by (auto simp: votes_backed_def)
qed

lemma built_backed:
  fixes C :: crypto_ops and P :: "int \<Rightarrow> bytes \<Rightarrow> bool" and e :: engine and s :: seqState and k :: int and p :: phase
  defines "votes \<equiv> (case p of Prep \<Rightarrow> sPrepares s | Comm \<Rightarrow> sCommits s)"
  assumes "votes_backed C P (eRing e) (PhaseSigningBytes (phase_name p) k (eView e) (sDigest s)) votes"
    and "buildCertLocked e k s p = Some c"
  shows "cert_backed C P e p k (sDigest s) c"
  using built_certificate [of C e p k s] assms by (auto simp: votes_backed_def cert_backed_def cert_bytes_def)

lemma sound_onCommit:
  assumes s: "sound C P D L e"
    and P: "ring_Verify C (eRing e) i (vote_bytes Comm m) sig \<Longrightarrow> P i (vote_bytes Comm m)"
  shows "sound C P D L (onCommit C e i m sig)"
proof (cases "bget (eLog e) (pm_Seq m)")
  case (Some t)
  let ?k = "pm_Seq m"
  let ?b = "PhaseSigningBytes ''COMMIT'' (pm_Seq m) (pm_View m) (pm_Digest m)"
  have b: "vote_bytes Comm m = ?b" by (simp add: vote_bytes_def phase_name_def)
  note bt = sound_slot [OF s Some]
  have vote: "slot_backed C P D e ?k (t\<lparr>sCommits := v\<rparr>)"
    if "add_vote C (eRing e) ?b (sCommits t) i sig = Some v" "pm_View m = eView e" "sDigest t = pm_Digest m"
      "sPrepareCert t \<noteq> None" for v
  proof -
    have "votes_backed C P (eRing e) ?b (sCommits t)" using bt that(2,3) by (simp add: slot_backed_def)
    then have "votes_backed C P (eRing e) ?b v" using that(1) P [unfolded b] by (rule add_vote_backed)
    then show ?thesis using bt that by (auto simp: slot_backed_def untouched_def split: if_splits)
  qed
  have put: "sound C P D L (put_slot ?k (t\<lparr>sCommits := v\<rparr>) e)"
    if "slot_backed C P D e ?k (t\<lparr>sCommits := v\<rparr>)" for v
    using that by (intro sound_update [OF s Some]) simp_all
  have full: "sound C P D L (put_slot ?k (t\<lparr>sCommits := v, sCommitCert := buildCertLocked e ?k (t\<lparr>sCommits := v\<rparr>) Comm\<rparr>) e)"
    and certs: "\<And>c j. buildCertLocked e ?k (t\<lparr>sCommits := v\<rparr>) Comm = Some c \<Longrightarrow> j \<in> signers c \<Longrightarrow> P j (cert_bytes Comm c)"
    if "slot_backed C P D e ?k (t\<lparr>sCommits := v\<rparr>)" "sPrepareCert t \<noteq> None" "sCommitCert t = None" for v
  proof -
    have c: "cert_backed C P e Comm ?k (sDigest t) c" if "buildCertLocked e ?k (t\<lparr>sCommits := v\<rparr>) Comm = Some c" for c
      using built_backed [of C P e Comm ?k "t\<lparr>sCommits := v\<rparr>" c] that \<open>slot_backed C P D e ?k (t\<lparr>sCommits := v\<rparr>)\<close>
      by (simp add: slot_backed_def phase_name_def)
    then show "\<And>c j. buildCertLocked e ?k (t\<lparr>sCommits := v\<rparr>) Comm = Some c \<Longrightarrow> j \<in> signers c \<Longrightarrow> P j (cert_bytes Comm c)"
      by (simp add: cert_backed_def)
    show "sound C P D L (put_slot ?k (t\<lparr>sCommits := v, sCommitCert := buildCertLocked e ?k (t\<lparr>sCommits := v\<rparr>) Comm\<rparr>) e)"
      using that c by (intro sound_update [OF s Some]) (auto simp: slot_backed_def untouched_def split: if_splits)
  qed
  have final: "sound C P D L (onCommitCert C (emit x (put_slot ?k (t\<lparr>sCommits := v, sCommitCert := Some c\<rparr>) e)) c)"
    if "slot_backed C P D e ?k (t\<lparr>sCommits := v\<rparr>)" "sPrepareCert t \<noteq> None" "sCommitCert t = None"
      "buildCertLocked e ?k (t\<lparr>sCommits := v\<rparr>) Comm = Some c" for v c x
    using full [OF that(1-3)] certs [OF that(1-3)] that(4) by (intro sound_onCommitCert) simp_all
  show ?thesis
    using s Some vote put full final by (fastforce simp: onCommit_def Let_def split: option.split)
qed (use s in \<open>simp add: onCommit_def\<close>)

lemma sound_sendCommit:
  assumes s: "sound C P D L e" and own: "\<And>b. b \<in> signed (sendCommit C e k v d) \<Longrightarrow> P (eSelf e) b"
  shows "sound C P D L (sendCommit C e k v d)"
proof (cases "Primary e = eSelf e")
  case True
  let ?m = "\<lparr>pm_Seq = k, pm_View = v, pm_Digest = d\<rparr>" and ?b = "PhaseSigningBytes ''COMMIT'' k v d"
  let ?e = "onCommit C (emit (ESign ?b) e) (eSelf e) ?m (ring_Sign C (eRing e) ?b)"
  have send: "sendCommit C e k v d = ?e" using True by (simp add: sendCommit_def Let_def)
  have "signed (emit (ESign ?b) e) \<subseteq> signed ?e" using evolves_onCommit unfolding evolves_def by blast
  then have "P (eSelf e) ?b" using own unfolding send by auto
  then show ?thesis
    unfolding send by (intro sound_onCommit) (simp_all add: s vote_bytes_def phase_name_def)
qed (use s in \<open>simp add: sendCommit_def Let_def\<close>)

lemma sound_onPrepareCert:
  assumes s: "sound C P D L e"
    and P: "\<And>i. verifyCert C e c Prep (ePrepareCollect e) \<Longrightarrow> i \<in> signers c \<Longrightarrow> P i (cert_bytes Prep c)"
    and own: "\<And>b. b \<in> signed (onPrepareCert C e c) \<Longrightarrow> P (eSelf e) b"
  shows "sound C P D L (onPrepareCert C e c)"
proof (cases "bget (eLog e) (cm_Seq c)")
  case (Some t)
  let ?e = "put_slot (cm_Seq c) (t\<lparr>sPrepareCert := Some c\<rparr>) e"
  show ?thesis
  proof (cases "sPrePrepare t \<and> sDigest t = cm_Digest c \<and> cm_View c = eView e \<and> verifyCert C e c Prep (ePrepareCollect e)")
    case True
    have on: "onPrepareCert C e c = sendCommit C ?e (cm_Seq c) (cm_View c) (cm_Digest c)"
      using True Some by (simp add: onPrepareCert_def)
    have "sound C P D L ?e"
      using sound_slot [OF s Some] cert_backedI [of c e C Prep P] True P
      by (intro sound_update [OF s Some]) (auto simp: slot_backed_def phase_quorum_def)
    moreover have "eSelf ?e = eSelf e" by (simp add: put_slot_def)
    ultimately show ?thesis using own unfolding on by (intro sound_sendCommit) simp_all
  qed (use s Some in \<open>auto simp: onPrepareCert_def\<close>)
qed (use s in \<open>simp add: onPrepareCert_def\<close>)

lemma sound_onPrepare:
  assumes s: "sound C P D L e"
    and P: "ring_Verify C (eRing e) i (vote_bytes Prep m) sig \<Longrightarrow> P i (vote_bytes Prep m)"
    and own: "\<And>b. b \<in> signed (onPrepare C e i m sig) \<Longrightarrow> P (eSelf e) b"
  shows "sound C P D L (onPrepare C e i m sig)"
proof (cases "bget (eLog e) (pm_Seq m)")
  case (Some t)
  let ?k = "pm_Seq m"
  let ?b = "PhaseSigningBytes ''PREPARE'' (pm_Seq m) (pm_View m) (pm_Digest m)"
  have b: "vote_bytes Prep m = ?b" by (simp add: vote_bytes_def phase_name_def)
  note bt = sound_slot [OF s Some]
  show ?thesis
  proof (cases "is_primary e \<and> pm_View m = eView e \<and> sPrePrepare t \<and> sDigest t = pm_Digest m \<and>
      add_vote C (eRing e) ?b (sPrepares t) i sig \<noteq> None")
    case True
    then obtain v where v: "add_vote C (eRing e) ?b (sPrepares t) i sig = Some v" by blast
    let ?t = "t\<lparr>sPrepares := v\<rparr>"
    let ?c = "buildCertLocked e ?k ?t Prep"
    have "votes_backed C P (eRing e) ?b (sPrepares t)" using bt True by (simp add: slot_backed_def)
    then have vb: "votes_backed C P (eRing e) ?b v" using v P [unfolded b] by (rule add_vote_backed)
    then have t: "slot_backed C P D e ?k ?t" using bt True by (auto simp: slot_backed_def)
    have put: "sound C P D L (put_slot ?k ?t e)" using t by (intro sound_update [OF s Some]) simp_all
    have c: "cert_backed C P e Prep ?k (sDigest t) c" if "?c = Some c" for c
      using built_backed [of C P e Prep ?k ?t c] that vb True by (simp add: phase_name_def)
    show ?thesis
    proof (cases "ePrepareCollect e \<le> int (length v) \<and> sPrepareCert t = None")
      case ready: True
      let ?e = "put_slot ?k (?t\<lparr>sPrepareCert := ?c\<rparr>) e"
      have full: "sound C P D L ?e"
        using t c True by (intro sound_update [OF s Some]) (auto simp: slot_backed_def)
      show ?thesis
      proof (cases ?c)
        case None
        then have "onPrepare C e i m sig = ?e" using True ready Some v by (simp add: onPrepare_def Let_def)
        then show ?thesis using full by simp
      next
        case (Some c')
        let ?e' = "emit (EBroadcast (MPrepareCert c')) ?e"
        have on: "onPrepare C e i m sig = onPrepareCert C ?e' c'"
          using True ready Some v \<open>bget (eLog e) (pm_Seq m) = Some t\<close> by (simp add: onPrepare_def Let_def)
        have "eSelf ?e' = eSelf e" by (simp add: put_slot_def)
        then show ?thesis
          using full c [OF Some] own unfolding on
          by (intro sound_onPrepareCert) (simp_all add: cert_backed_def)
      qed
    next
      case False
      then have "onPrepare C e i m sig = put_slot ?k ?t e" using True Some v by (auto simp: onPrepare_def Let_def)
      then show ?thesis using put by simp
    qed
  qed (use s Some in \<open>auto simp: onPrepare_def\<close>)
qed (use s in \<open>simp add: onPrepare_def\<close>)

lemma sound_sendPrepare:
  assumes s: "sound C P D L e" and own: "\<And>b. b \<in> signed (sendPrepare C e k v d) \<Longrightarrow> P (eSelf e) b"
  shows "sound C P D L (sendPrepare C e k v d)"
proof (cases "Primary e = eSelf e")
  case True
  let ?m = "\<lparr>pm_Seq = k, pm_View = v, pm_Digest = d\<rparr>" and ?b = "PhaseSigningBytes ''PREPARE'' k v d"
  let ?e = "onPrepare C (emit (ESign ?b) e) (eSelf e) ?m (ring_Sign C (eRing e) ?b)"
  have send: "sendPrepare C e k v d = ?e" using True by (simp add: sendPrepare_def Let_def is_primary_def)
  have "signed (emit (ESign ?b) e) \<subseteq> signed ?e" using evolves_onPrepare unfolding evolves_def by blast
  then have "P (eSelf e) ?b" using own unfolding send by auto
  then show ?thesis
    using own unfolding send by (intro sound_onPrepare) (simp_all add: s vote_bytes_def phase_name_def)
qed (use s in \<open>simp add: sendPrepare_def Let_def is_primary_def\<close>)

lemma acquire_keeps_ledger:
  assumes "\<And>s i. store_ok s \<Longrightarrow> store_ok (snd (acq s i q)) \<and> ledger_of (snd (acq s i q)) = ledger_of s"
  shows "store_ok s \<Longrightarrow> store_ok (snd (acquire_items acq q is s)) \<and>
     ledger_of (snd (acquire_items acq q is s)) = ledger_of s"
proof (induction "is" arbitrary: s)
  case (Cons i "is")
  then show ?case using assms [OF Cons.prems, of i] Cons.IH [of "snd (acq s i q)"] by (cases "acq s i q") auto
qed simp

lemma acquire_ledgers:
  assumes "store_ok s"
  shows "store_ok (snd (acquire_items AcquireLock q is s)) \<and>
      ledger_of (snd (acquire_items AcquireLock q is s)) = ledger_of s"
    and "store_ok (snd (acquire_items AcquireLockForSeq q is s)) \<and>
      ledger_of (snd (acquire_items AcquireLockForSeq q is s)) = ledger_of s"
proof -
  have "ledger_of (snd (AcquireLock s i q)) = ledger_of s" "ledger_of (snd (AcquireLockForSeq s i q)) = ledger_of s" for s i
    by (simp_all add: ledger_of_def store_simps Datastore_def fun_eq_iff)
  then show "store_ok (snd (acquire_items AcquireLock q is s)) \<and>
      ledger_of (snd (acquire_items AcquireLock q is s)) = ledger_of s"
    and "store_ok (snd (acquire_items AcquireLockForSeq q is s)) \<and>
      ledger_of (snd (acquire_items AcquireLockForSeq q is s)) = ledger_of s"
    using acquire_keeps_ledger [of AcquireLock q, OF _ assms] acquire_keeps_ledger [of AcquireLockForSeq q, OF _ assms]
      store_ok_locks by blast+
qed

lemma sound_store:
  "sound C P D L e \<Longrightarrow> store_ok st \<Longrightarrow> ledger_of st = ledger_of (eStore e) \<Longrightarrow> sound C P D L (e\<lparr>eStore := st\<rparr>)"
  by (rule sound_core) simp_all

lemma sound_replies:
  assumes "sound C P D L e"
  shows "sound C P D L (sendClientReject C e r k res)" "sound C P D L (dropCrossPrepare e r)"
    "sound C P D L (maybeRejectInsufficient C e r b)" "sound C P D L (releaseLocksForOp e r)"
    "sound C P D L (broadcastPrePrepare e m)" "sound C P D L (watchPrepareQuorum e k r)"
proof -
  show rej: "sound C P D L (sendClientReject C e r k res)" for k res
    by (rule sound_core [OF assms]) (simp_all add: sendClientReject_def sound_store_ok [OF assms])
  then show "sound C P D L (maybeRejectInsufficient C e r b)" using assms by (simp add: maybeRejectInsufficient_def)
  show "sound C P D L (dropCrossPrepare e r)"
    by (rule sound_core [OF assms]) (simp_all add: sound_store_ok [OF assms])
  show "sound C P D L (releaseLocksForOp e r)"
    by (rule sound_core [OF assms]) (simp_all add: sound_store_ok [OF assms] abs_release_all)
  show "sound C P D L (broadcastPrePrepare e m)" "sound C P D L (watchPrepareQuorum e k r)"
    using assms by (simp_all add: broadcastPrePrepare_def watchPrepareQuorum_def)
qed

lemma sound_processPrePrepare:
  assumes s: "sound C P D L e" and own: "\<And>b. b \<in> signed (processPrePrepare C e msg) \<Longrightarrow> P (eSelf e) b"
  shows "sound C P D L (processPrePrepare C e msg)"
proof -
  let ?send = "\<lambda>e. sendPrepare C e (pp_Seq msg) (pp_View msg) (pp_Digest msg)"
  obtain ok st where acq: "acquire_items AcquireLockForSeq (pp_Seq msg) (lockItemsForOp (pp_Req msg)) (eStore e) = (ok, st)"
    by fastforce
  have st: "sound C P D L (e\<lparr>eStore := st\<rparr>)"
    using acquire_ledgers(2) [OF sound_store_ok [OF s], of "pp_Seq msg" "lockItemsForOp (pp_Req msg)"] acq
    by (intro sound_store [OF s]) simp_all
  have send: "sound C P D L (?send e)" if "processPrePrepare C e msg = ?send e"
    using own unfolding that by (rule sound_sendPrepare [OF s])
  have send': "sound C P D L (?send (e\<lparr>eStore := st\<rparr>))" if "processPrePrepare C e msg = ?send (e\<lparr>eStore := st\<rparr>)"
    using own unfolding that by (intro sound_sendPrepare [OF st]) simp
  show ?thesis
    using s st send send' sound_replies(1) [OF s]
    by (cases ok) (auto simp: processPrePrepare_def ensureLocksForOp_def acq)
qed

lemma emptySlot_backed: "slot_backed C P D e k emptySlot"
  by (simp add: slot_backed_def emptySlot_def votes_backed_def votes_ok_def untouched_def)

lemma sound_adopt:
  assumes s: "sound C P D L e" and free: "\<And>t. bget (eLog e) k = Some t \<Longrightarrow> \<not> sPrePrepare t" and D: "D d r"
  shows "sound C P D L (adopt d r k e)"
proof -
  have new: "slot_backed C P D e' k (t\<lparr>sDigest := d, sReq := r, sPrePrepare := True\<rparr>)"
    if "slot_backed C P D e' k t" "\<not> sPrePrepare t" for t e'
    using that D by (auto simp: slot_backed_def untouched_def votes_backed_def votes_ok_def)
  have low: "\<exists>t. bget (eLog e) k = Some t \<and> sPrePrepare t" if "1 \<le> k" "k < eExecSeq e"
  proof -
    have "\<exists>t. bget (eLog e) k = Some t \<and> sExecuted t" using that s unfolding sound_def by blast
    then obtain t where "bget (eLog e) k = Some t" "sExecuted t" by blast
    then show ?thesis using backed_proposed sound_slot [OF s] by blast
  qed
  have unexec: "sound C P D L (put_slot k t e')"
    if "sound C P D L e'" "slot_backed C P D e' k t" "eExecSeq e' = eExecSeq e" for t e'
    using that(1,2) by (rule sound_write) (use that(3) low free in auto)
  have timer: "sound C P D L (cancelViewChangeTimerLocked e')" if "sound C P D L e'" for e'
    using that by (rule sound_keep) (use that in \<open>simp_all add: cancelViewChangeTimerLocked_def same_frame_def sound_store_ok\<close>)
  show ?thesis
  proof (cases "bget (eLog e) k")
    case None
    let ?e = "put_slot k emptySlot e"
    have e: "sound C P D L ?e" by (rule unexec [OF s emptySlot_backed refl])
    have "slot_backed C P D ?e k (emptySlot\<lparr>sDigest := d, sReq := r, sPrePrepare := True\<rparr>)"
      by (rule new [OF emptySlot_backed]) (simp add: emptySlot_def)
    then have "sound C P D L (put_slot k (emptySlot\<lparr>sDigest := d, sReq := r, sPrePrepare := True\<rparr>) ?e)"
      by (intro unexec [OF e]) (simp_all add: put_slot_def)
    moreover have "revive emptySlot = emptySlot" by (simp add: revive_def emptySlot_def)
    ultimately show ?thesis using None timer by (simp add: adopt_def ensureSeqLocked_def)
  next
    case (Some t)
    have "revive t = t" using sound_slot [OF s Some] by (simp add: revive_def slot_backed_def)
    then show ?thesis
      using Some timer [OF unexec [OF s new [OF sound_slot [OF s Some] free [OF Some]] refl]]
      by (simp add: adopt_def ensureSeqLocked_def)
  qed
qed

lemma eSelf_adopt: "eSelf (adopt d r k e) = eSelf e"
  by (cases "bget (eLog e) k") (simp_all add: adopt_def ensureSeqLocked_def cancelViewChangeTimerLocked_def put_slot_def)

lemma sound_onPrePrepare:
  assumes s: "sound C P D L e" and D: "D (pp_Digest msg) (pp_Req msg)"
    and own: "\<And>b. b \<in> signed (onPrePrepare C e msg) \<Longrightarrow> P (eSelf e) b"
  shows "sound C P D L (onPrePrepare C e msg)"
proof (cases "pp_View msg \<noteq> eView e \<or> \<not> opMatchesCluster e (pp_Req msg) \<or> \<not> gapClearLocked e (pp_Seq msg) \<or>
    (case bget (eLog e) (pp_Seq msg) of None \<Rightarrow> False | Some s \<Rightarrow> sPrePrepare s \<and> \<not> sDiscarded s)")
  case True
  then show ?thesis using s by (auto simp: onPrePrepare_def)
next
  case False
  let ?e = "adopt (pp_Digest msg) (pp_Req msg) (pp_Seq msg) e"
  have on: "onPrePrepare C e msg = processPrePrepare C ?e msg" using False by (auto simp: onPrePrepare_def)
  have "\<not> sPrePrepare t" if "bget (eLog e) (pp_Seq msg) = Some t" for t
    using False that sound_slot [OF s that] by (auto simp: slot_backed_def)
  then have "sound C P D L ?e" using D by (intro sound_adopt [OF s])
  then show ?thesis
    using own unfolding on by (intro sound_processPrePrepare) (simp_all add: eSelf_adopt)
qed

lemma sound_nextSeq: "sound C P D L e \<Longrightarrow> sound C P D L (e\<lparr>eNextSeq := n\<rparr>)"
  by (rule sound_keep) (simp_all add: same_frame_def sound_store_ok)

lemma eSelf_keeps [simp]: "eSelf (broadcastPrePrepare e m) = eSelf e" "eSelf (watchPrepareQuorum e k r) = eSelf e"
  by (simp_all add: broadcastPrePrepare_def watchPrepareQuorum_def emit_def)

lemma sound_propose:
  assumes s: "sound C P D L e" and free: "bget (eLog e) k = None" and D: "D (Digest C r) r"
    and own: "\<And>b. b \<in> signed (propose C e r k prim) \<Longrightarrow> P (eSelf e) b"
  shows "sound C P D L (propose C e r k prim)"
proof -
  let ?msg = "\<lparr>pp_Seq = k, pp_View = eView e, pp_Digest = Digest C r, pp_Req = r\<rparr>"
  let ?a = "broadcastPrePrepare (adopt (Digest C r) r k e) ?msg"
  let ?p = "processPrePrepare C ?a ?msg"
  have "sound C P D L (adopt (Digest C r) r k e)" by (rule sound_adopt [OF s]) (simp_all add: free D)
  then have a: "sound C P D L ?a" by (rule sound_replies)
  have "signed ?p \<subseteq> signed (propose C e r k prim)"
    by (auto simp: propose_def Let_def watchPrepareQuorum_def)
  then have p: "sound C P D L ?p"
    using own by (intro sound_processPrePrepare [OF a]) (auto simp: eSelf_adopt)
  then show ?thesis by (simp add: propose_def Let_def sound_replies)
qed

lemma sound_startConsensus:
  assumes s: "sound C P D L e" and inv: "one_proposal e" and prim: "is_primary e"
    and D: "D (Digest C (req\<lparr>r_Op := norm_op (r_Op req)\<rparr>)) (req\<lparr>r_Op := norm_op (r_Op req)\<rparr>)"
    and own: "\<And>b. b \<in> signed (startConsensus C e req) \<Longrightarrow> P (eSelf e) b"
  shows "sound C P D L (startConsensus C e req)"
proof -
  let ?req = "req\<lparr>r_Op := norm_op (r_Op req)\<rparr>" and ?e = "e\<lparr>eNextSeq := eNextSeq e + 1\<rparr>"
  obtain ok st where acq: "acquire_items AcquireLock (eNextSeq e) (lockItemsForOp ?req) (eStore e) = (ok, st)"
    by fastforce
  have nxt: "sound C P D L ?e" by (rule sound_nextSeq [OF s])
  have st: "sound C P D L (?e\<lparr>eStore := st\<rparr>)"
    using acquire_ledgers(1) [OF sound_store_ok [OF s], of "eNextSeq e" "lockItemsForOp ?req"] acq
    by (intro sound_store [OF nxt]) simp_all
  have free: "bget (eLog e) (eNextSeq e) = None"
    using inv prim by (cases "bget (eLog e) (eNextSeq e)") (auto simp: one_proposal_def proposal_def)
  have proposed: "sound C P D L (propose C e' ?req (eNextSeq e) True)"
    if "startConsensus C e req = propose C e' ?req (eNextSeq e) True" "sound C P D L e'" "eLog e' = eLog e" "eSelf e' = eSelf e" for e'
    using own that(3,4) unfolding that(1) by (intro sound_propose [OF that(2)]) (simp_all add: free D)
  have p1: "startConsensus C e req = propose C ?e ?req (eNextSeq e) True \<Longrightarrow> sound C P D L (propose C ?e ?req (eNextSeq e) True)"
    by (erule proposed) (simp_all add: nxt)
  have p2: "startConsensus C e req = propose C (?e\<lparr>eStore := st\<rparr>) ?req (eNextSeq e) True \<Longrightarrow>
      sound C P D L (propose C (?e\<lparr>eStore := st\<rparr>) ?req (eNextSeq e) True)"
    by (erule proposed) (simp_all add: st)
  show ?thesis
  proof (cases "\<not> isCommitPhaseOp (r_Op ?req) \<and> clusterHonestLive e < ePrepareCollect e \<or>
      \<not> isCommitPhaseOp (r_Op ?req) \<and> \<not> awaitStartable e ?req \<or> \<not> validateForStartQuick C e ?req")
    case True
    then show ?thesis using prim s by (auto simp: startConsensus_def Let_def sound_replies)
  next
    case pass: False
    show ?thesis
    proof (cases "isCommitPhaseOp (r_Op ?req)")
      case True
      then have "startConsensus C e req = (if locksHeldForCommitOp ?e ?req then propose C ?e ?req (eNextSeq e) True else ?e)"
        using pass prim by (simp add: startConsensus_def Let_def assignSeq_def)
      then show ?thesis using p1 nxt by (cases "locksHeldForCommitOp ?e ?req") auto
    next
      case False
      then have "startConsensus C e req = (if ok then propose C (?e\<lparr>eStore := st\<rparr>) ?req (eNextSeq e) True
          else dropCrossPrepare (releaseLocksForOp (?e\<lparr>eStore := st\<rparr>) ?req) ?req)"
        using pass prim acq by (simp add: startConsensus_def Let_def assignSeq_def acquireLocksForOp_def)
      then show ?thesis using p2 sound_replies(2) [OF sound_replies(4) [OF st]] by (cases ok) auto
    qed
  qed
qed

end
