(* ===== verification/Cluster.thy ===== *)
theory Cluster
  imports Backing
begin

text \<open>
  A whole cluster in one view: its correct replicas, each with the state and the handlers of the
  code, and a network that delivers any envelope to any of them in any order, as often as it likes.
  What faulty servers do needs no model of its own: it is whatever the network delivers. The one
  thing the network cannot do is make a signature of a correct replica that the replica did not
  make. Reachable states satisfy an invariant of every slot (\<open>sound\<close>), and from it follow agreement
  between the certificates that correct replicas hold and, when proposals carry the digest of their
  request, one history for all of them.
\<close>

subsection \<open>A cluster and its network\<close>

text \<open>Client requests and queues touch neither the log nor the store.\<close>

definition idle_step :: "engine \<Rightarrow> engine \<Rightarrow> bool" where
  "idle_step e e' \<longleftrightarrow> (\<exists>ci ii pc ts. e' = e\<lparr>eClientIngress := ci, eInternalIngress := ii, ePendingClients := pc, eTimerSet := ts\<rparr>)"

lemma idle_step_fields:
  assumes "idle_step e e'"
  shows "evolves e e'" "eLog e' = eLog e" "eExecSeq e' = eExecSeq e" "eStore e' = eStore e"
proof -
  obtain ci ii pc ts where e': "e' = e\<lparr>eClientIngress := ci, eInternalIngress := ii, ePendingClients := pc, eTimerSet := ts\<rparr>"
    using assms by (auto simp: idle_step_def)
  have "is_primary e' = is_primary e" by (rule is_primary_cong) (simp_all add: e')
  moreover have "proposal e' = proposal e" by (rule proposal_cong) (simp add: e')
  ultimately show "evolves e e'" by (simp add: evolves_def) (simp add: e' signed_def)
  show "eLog e' = eLog e" "eExecSeq e' = eExecSeq e" "eStore e' = eStore e" by (simp_all add: e')
qed

lemma idle_self [simp]: "idle_step e e"
  unfolding idle_step_def
  by (intro exI [of _ "eClientIngress e"] exI [of _ "eInternalIngress e"] exI [of _ "ePendingClients e"] exI [of _ "eTimerSet e"]) simp

lemma idle_onBackup: "idle_step e (onBackupClientRequest C e req)"
proof -
  have "idle_step e (e\<lparr>ePendingClients := pc, eTimerSet := ts\<rparr>)" for pc ts
    unfolding idle_step_def by (intro exI [of _ "eClientIngress e"] exI [of _ "eInternalIngress e"] exI [of _ pc] exI [of _ ts]) simp
  moreover have "idle_step e (e\<lparr>ePendingClients := pc\<rparr>)" for pc
    unfolding idle_step_def by (intro exI [of _ "eClientIngress e"] exI [of _ "eInternalIngress e"] exI [of _ pc] exI [of _ "eTimerSet e"]) simp
  ultimately show ?thesis by (simp add: onBackupClientRequest_def scheduleViewChangeTimerLocked_def)
qed

lemma idle_enqueue: "enqueuePrimary e req fromClient = Some e' \<Longrightarrow> idle_step e e'"
proof -
  have "idle_step e (e\<lparr>eClientIngress := ci\<rparr>)" "idle_step e (e\<lparr>eInternalIngress := ci\<rparr>)" for ci
    unfolding idle_step_def
    by (intro exI [of _ ci] exI [of _ "eInternalIngress e"] exI [of _ "ePendingClients e"] exI [of _ "eTimerSet e"], simp)
       (intro exI [of _ "eClientIngress e"] exI [of _ ci] exI [of _ "ePendingClients e"] exI [of _ "eTimerSet e"], simp)
  then show "enqueuePrimary e req fromClient = Some e' \<Longrightarrow> idle_step e e'"
    by (auto simp: enqueuePrimary_def split: if_splits)
qed

lemma sound_idle: "sound C P D L e \<Longrightarrow> idle_step e e' \<Longrightarrow> sound C P D L e'"
  by (rule sound_keep) (simp_all add: idle_step_fields same_frame_evolves sound_store_ok)

text \<open>What of an envelope belongs to the normal case of a view: a primary takes no PRE-PREPARE, and
  nobody leaves the view or gives up a slot.\<close>

definition in_view :: "engine \<Rightarrow> Envelope \<Rightarrow> bool" where
  "in_view e env = (case env_Payload env of
      MPrePrepare _ \<Rightarrow> \<not> is_primary e | MViewChange _ \<Rightarrow> False | MNewView _ \<Rightarrow> False | MDiscardSeq _ \<Rightarrow> False | _ \<Rightarrow> True)"

text \<open>The signatures an envelope presents: who is said to have signed what, and the signature.\<close>

definition cert_claims :: "phase \<Rightarrow> CertificateMsg \<Rightarrow> (int \<times> bytes \<times> bytes) list" where
  "cert_claims p c = map (\<lambda>s. (se_ServerID s, cert_bytes p c, se_Sig s)) (cm_Sigs c)"

definition claims :: "Envelope \<Rightarrow> (int \<times> bytes \<times> bytes) list" where
  "claims env = (case env_Payload env of
      MPrepare m \<Rightarrow> [(env_SenderId env, vote_bytes Prep m, env_Signature env)]
    | MCommit m \<Rightarrow> [(env_SenderId env, vote_bytes Comm m, env_Signature env)]
    | MPrepareCert c \<Rightarrow> cert_claims Prep c
    | MCommitCert c \<Rightarrow> cert_claims Comm c
    | _ \<Rightarrow> [])"

text \<open>Who may be presented as having signed what, in a cluster with members \<open>M\<close> of which \<open>H\<close> are
  correct: a correct replica only what it has signed, a faulty member anything.\<close>

definition may_claim :: "int set \<Rightarrow> int set \<Rightarrow> (int \<Rightarrow> engine) \<Rightarrow> int \<Rightarrow> bytes \<Rightarrow> bool" where
  "may_claim M H S i b \<longleftrightarrow> i \<in> M \<and> (i \<in> H \<longrightarrow> b \<in> signed (S i))"

definition genuine :: "crypto_ops \<Rightarrow> int set \<Rightarrow> int set \<Rightarrow> (int \<Rightarrow> engine) \<Rightarrow> KeyRing \<Rightarrow> Envelope \<Rightarrow> bool" where
  "genuine C M H S ring env =
     list_all (\<lambda>(i, b, sig). ring_Verify C ring i b sig \<longrightarrow> may_claim M H S i b) (claims env)"

definition proposes :: "(bytes \<Rightarrow> Request \<Rightarrow> bool) \<Rightarrow> Envelope \<Rightarrow> bool" where
  "proposes D env = (case env_Payload env of MPrePrepare m \<Rightarrow> D (pp_Digest m) (pp_Req m) | _ \<Rightarrow> True)"

definition queued :: "engine \<Rightarrow> Request option" where
  "queued e = (case eClientIngress e @ eInternalIngress e of [] \<Rightarrow> None | r # _ \<Rightarrow> Some (r\<lparr>r_Op := norm_op (r_Op r)\<rparr>))"

text \<open>A step of the cluster is a step of one of its correct replicas: it handles an envelope, its
  primary loop takes the next request, or its two-phase commit hands it one.\<close>

inductive cluster_step ::
    "crypto_ops \<Rightarrow> iteration \<Rightarrow> (bytes \<Rightarrow> Request \<Rightarrow> bool) \<Rightarrow> int set \<Rightarrow> int set \<Rightarrow>
     (int \<Rightarrow> engine) \<Rightarrow> (int \<Rightarrow> engine) \<Rightarrow> bool"
  for C I D M H where
  receive: "i \<in> H \<Longrightarrow> in_view (S i) env \<Longrightarrow> genuine C M H S (eRing (S i)) env \<Longrightarrow> proposes D env \<Longrightarrow>
    cluster_step C I D M H S (S(i := Handle C I (S i) env))"
| ingress: "i \<in> H \<Longrightarrow> is_primary (S i) \<Longrightarrow> (\<forall>r. queued (S i) = Some r \<longrightarrow> D (Digest C r) r) \<Longrightarrow>
    ingress_turn C (S i) = Some e \<Longrightarrow> cluster_step C I D M H S (S(i := e))"
| internal: "i \<in> H \<Longrightarrow> isPrimaryIngress (S i) \<Longrightarrow> cluster_step C I D M H S (S(i := StartConsensus C (S i) req))"

inductive cluster_run ::
    "crypto_ops \<Rightarrow> iteration \<Rightarrow> (bytes \<Rightarrow> Request \<Rightarrow> bool) \<Rightarrow> int set \<Rightarrow> int set \<Rightarrow>
     (int \<Rightarrow> engine) \<Rightarrow> (int \<Rightarrow> engine) \<Rightarrow> bool"
  for C I D M H where
  start: "cluster_run C I D M H S S"
| step: "cluster_run C I D M H S S1 \<Longrightarrow> cluster_step C I D M H S1 S2 \<Longrightarrow> cluster_run C I D M H S S2"

inductive_cases cluster_stepE: "cluster_step C I D M H S S'"

text \<open>A cluster as it is started: nothing signed, empty logs, one view, the same ledger everywhere.\<close>

definition fresh_cluster :: "topology \<Rightarrow> int set \<Rightarrow> int \<Rightarrow> ledger \<Rightarrow> (int \<Rightarrow> engine) \<Rightarrow> bool" where
  "fresh_cluster t H v L S \<longleftrightarrow> (\<forall>i\<in>H. eSelf (S i) = i \<and> eView (S i) = v \<and> eLog (S i) = [] \<and> eExecSeq (S i) = 1 \<and>
     eEffects (S i) = [] \<and> ePrepareCollect (S i) = Quorum t \<and> eCommitQuorum (S i) = Quorum t \<and>
     store_ok (eStore (S i)) \<and> ledger_of (eStore (S i)) = L)"

text \<open>The invariant of a reachable cluster.\<close>

definition cluster_inv ::
    "crypto_ops \<Rightarrow> (bytes \<Rightarrow> Request \<Rightarrow> bool) \<Rightarrow> topology \<Rightarrow> int set \<Rightarrow> int set \<Rightarrow> int \<Rightarrow> ledger \<Rightarrow> (int \<Rightarrow> engine) \<Rightarrow> bool" where
  "cluster_inv C D t M H v L S \<longleftrightarrow> (\<forall>i\<in>H. eSelf (S i) = i \<and> eView (S i) = v \<and>
     ePrepareCollect (S i) = Quorum t \<and> eCommitQuorum (S i) = Quorum t \<and> one_proposal (S i) \<and>
     sound C (may_claim M H S) D L (S i))"

lemma cluster_inv_fresh:
  assumes "fresh_cluster t H v L S"
  shows "cluster_inv C D t M H v L S"
  using assms
  by (auto simp: cluster_inv_def fresh_cluster_def sound_def slot_reqs_def one_proposal_start signed_def)

subsection \<open>Every step keeps the invariant\<close>

definition advances :: "engine \<Rightarrow> engine \<Rightarrow> bool" where
  "advances e e' \<longleftrightarrow> same_frame e e' \<and> signed e \<subseteq> signed e'"

lemma advances_trans: "advances a b \<Longrightarrow> advances b c \<Longrightarrow> advances a c"
  by (auto simp: advances_def same_frame_def)

lemma advances_evolves: "evolves e e' \<Longrightarrow> advances e e'"
  by (simp add: advances_def same_frame_evolves) (simp add: evolves_def)

lemma advances_core: "same_core e e' \<Longrightarrow> signed e' = signed e \<Longrightarrow> advances e e'"
  by (rule advances_evolves [OF evolves_same_core])

lemma advances_refl [simp]: "advances e e"
  by (simp add: advances_def same_frame_def)

lemma advances_adopt: "advances e (adopt d r k e)"
  by (cases "bget (eLog e) k")
     (simp_all add: advances_def same_frame_def adopt_def ensureSeqLocked_def cancelViewChangeTimerLocked_def put_slot_def signed_def)

lemma advances_onPrePrepare: "advances e (onPrePrepare C e msg)"
proof -
  let ?e = "adopt (pp_Digest msg) (pp_Req msg) (pp_Seq msg) e"
  have p: "advances ?e (processPrePrepare C ?e msg)" if "pp_View msg = eView e"
    by (rule advances_evolves, rule evolves_processPrePrepare) (simp_all add: that sealed_adopt adopt_steps)
  have "advances e (processPrePrepare C ?e msg)" if "pp_View msg = eView e"
    by (rule advances_trans [OF advances_adopt p [OF that]])
  then show ?thesis by (simp add: onPrePrepare_def)
qed

lemma advances_propose: "advances e (propose C e r k prim)"
proof -
  let ?msg = "\<lparr>pp_Seq = k, pp_View = eView e, pp_Digest = Digest C r, pp_Req = r\<rparr>"
  let ?d = "adopt (Digest C r) r k e"
  let ?a = "broadcastPrePrepare ?d ?msg"
  let ?p = "processPrePrepare C ?a ?msg"
  have "advances ?d ?a" by (rule advances_evolves) (simp add: broadcastPrePrepare_def evolves_emit)
  moreover have "advances ?a ?p"
    by (rule advances_evolves, rule evolves_processPrePrepare) (simp_all add: sealed_adopt adopt_steps)
  moreover have "advances ?p (watchPrepareQuorum ?p k r)"
    by (rule advances_evolves) (simp add: watchPrepareQuorum_def evolves_emit)
  ultimately have "advances ?d ?p" "advances ?p (watchPrepareQuorum ?p k r)" by (blast intro: advances_trans)+
  then have "advances e ?p" "advances e (watchPrepareQuorum ?p k r)"
    using advances_trans [OF advances_adopt] by (blast intro: advances_trans)+
  then show ?thesis by (simp add: propose_def Let_def)
qed

lemma advances_startConsensus: "advances e (startConsensus C e req)"
proof -
  let ?e = "e\<lparr>eNextSeq := eNextSeq e + 1\<rparr>"
  have nxt: "advances e ?e" by (simp add: advances_def same_frame_def)
  have core: "advances a (a\<lparr>eStore := st\<rparr>)" "advances a (dropCrossPrepare a r)" "advances a (releaseLocksForOp a r)"
    "advances a (maybeRejectInsufficient C a r b)" for a st r b
    by (rule advances_core; simp add: maybeRejectInsufficient_def sendClientReject_def)+
  note steps = core advances_propose nxt advances_trans [OF nxt] advances_trans [OF nxt advances_trans [OF core(1)]]
    advances_trans [OF core(3) core(2)] advances_trans [OF core(4) core(2)]
  show ?thesis
    unfolding startConsensus_def Let_def assignSeq_def acquireLocksForOp_def
    by (auto intro: steps split: prod.split)
qed

lemma one_proposal_idle: "one_proposal e \<Longrightarrow> idle_step e e' \<Longrightarrow> one_proposal e'"
  by (rule one_proposal_evolves [OF _ idle_step_fields(1)])

text \<open>Taking one step of replica \<open>i\<close> to \<open>e\<close>.\<close>

lemma cluster_inv_update:
  assumes inv: "cluster_inv C D t M H v L S" and i: "i \<in> H"
    and adv: "advances (S i) e" and one: "one_proposal e" and snd: "sound C (may_claim M H (S(i := e))) D L e"
  shows "cluster_inv C D t M H v L (S(i := e))"
proof -
  have mono: "may_claim M H S j b \<Longrightarrow> may_claim M H (S(i := e)) j b" for j b
    using adv by (auto simp: may_claim_def advances_def)
  then have "sound C (may_claim M H (S(i := e))) D L (S j)" if "j \<in> H" for j
    using inv that sound_mono [of C "may_claim M H S" D L "S j"] by (auto simp: cluster_inv_def)
  then show ?thesis using inv i adv one snd by (auto simp: cluster_inv_def advances_def same_frame_def)
qed

lemma genuine_cert:
  assumes "genuine C M H S (eRing e) env" and "claims env = cert_claims p c" and "verifyCert C e c p q"
    and "i \<in> signers c"
  shows "may_claim M H S i (cert_bytes p c)"
proof -
  obtain s where s: "s \<in> set (cm_Sigs c)" "se_ServerID s = i" using assms(4) by (auto simp: signers_def)
  have "sigs_valid C (PublicKey (eRing e)) (cert_bytes p c) (cm_Sigs c)"
    using assms(3) by (auto simp: verifyCert_def check_sigs_iff cert_bytes_def split: if_splits)
  then have "ring_Verify C (eRing e) i (cert_bytes p c) (se_Sig s)"
    using s by (auto simp: sigs_valid_def list_all_iff ring_Verify_def split: option.splits)
  then show ?thesis
    using assms(1,2) s by (auto simp: genuine_def list_all_iff cert_claims_def)
qed

lemma Handle_inv:
  assumes s: "sound C P D L e" and one: "one_proposal e" and v: "in_view e env" and D: "proposes D env"
    and g: "genuine C M H S (eRing e) env" and le: "\<And>i b. may_claim M H S i b \<Longrightarrow> P i b"
    and own: "\<And>b. b \<in> signed (Handle C I e env) \<Longrightarrow> P (eSelf e) b"
  shows "sound C P D L (Handle C I e env) \<and> one_proposal (Handle C I e env) \<and> advances e (Handle C I e env)"
proof (cases "Alive (eFault e)")
  case False
  then show ?thesis using s one by (simp add: Handle_def)
next
  case alive: True
  show ?thesis
  proof (cases "env_Payload env")
    case (MClientRequest req)
    have "idle_step e (StartClientConsensus C e req)" if "is_primary e" "\<not> ByzantineLeader (eFault e)"
      using that alive idle_enqueue [of e req True]
      by (auto simp: StartClientConsensus_def isPrimaryIngress_def split: option.split)
    then have "idle_step e (onClientRequest C e req) \<or>
        onClientRequest C e req = emit (EHook (HandleClientRequestHook req)) e"
      using idle_onBackup [of e C req] by (auto simp: onClientRequest_def)
    moreover have "evolves e (emit (EHook (HandleClientRequestHook req)) e)" by (simp add: evolves_emit)
    ultimately have "sound C P D L (onClientRequest C e req) \<and> evolves e (onClientRequest C e req)"
      using s sound_idle [OF s] idle_step_fields(1) by auto
    then show ?thesis
      using MClientRequest alive one_proposal_evolves [OF one] advances_evolves by (simp add: Handle_def)
  next
    case (MPrePrepare msg)
    then show ?thesis
      using alive v D s one own sound_onPrePrepare [of C P D L e msg] one_proposal_onPrePrepare [of e C msg] advances_onPrePrepare
      by (simp add: Handle_def in_view_def proposes_def)
  next
    case (MPrepare m)
    then have "ring_Verify C (eRing e) (env_SenderId env) (vote_bytes Prep m) (env_Signature env) \<Longrightarrow>
        P (env_SenderId env) (vote_bytes Prep m)"
      using g le by (simp add: genuine_def claims_def)
    then show ?thesis
      using MPrepare alive s one own evolves_onPrepare sound_onPrepare [of C P D L e "env_SenderId env" m "env_Signature env"]
      by (auto simp: Handle_def intro: one_proposal_evolves [OF one] advances_evolves)
  next
    case (MPrepareCert c)
    then have "claims env = cert_claims Prep c" by (simp add: claims_def)
    from genuine_cert [OF g this] show ?thesis
      using MPrepareCert alive s one own le evolves_onPrepareCert sound_onPrepareCert [of C P D L e c]
      by (auto simp: Handle_def intro: one_proposal_evolves [OF one] advances_evolves)
  next
    case (MCommit m)
    then have "ring_Verify C (eRing e) (env_SenderId env) (vote_bytes Comm m) (env_Signature env) \<Longrightarrow>
        P (env_SenderId env) (vote_bytes Comm m)"
      using g le by (simp add: genuine_def claims_def)
    then show ?thesis
      using MCommit alive s one evolves_onCommit sound_onCommit [of C P D L e "env_SenderId env" m "env_Signature env"]
      by (auto simp: Handle_def intro: one_proposal_evolves [OF one] advances_evolves)
  next
    case (MCommitCert c)
    then have "claims env = cert_claims Comm c" by (simp add: claims_def)
    from genuine_cert [OF g this] show ?thesis
      using MCommitCert alive s one le evolves_onCommitCert sound_onCommitCert [of C P D L e c]
      by (auto simp: Handle_def intro: one_proposal_evolves [OF one] advances_evolves)
  qed (use v s one in \<open>simp_all add: in_view_def Handle_def\<close>)
qed

lemma ingress_inv:
  assumes s: "sound C P D L e" and one: "one_proposal e" and prim: "is_primary e"
    and D: "\<forall>r. queued e = Some r \<longrightarrow> D (Digest C r) r" and t: "ingress_turn C e = Some e'"
    and own: "\<And>b. b \<in> signed e' \<Longrightarrow> P (eSelf e) b"
  shows "sound C P D L e' \<and> one_proposal e' \<and> advances e e'"
proof -
  obtain e1 req where e1: "idle_step e e1" "e' = startConsensus C e1 req" "queued e = Some (req\<lparr>r_Op := norm_op (r_Op req)\<rparr>)"
  proof (cases "eClientIngress e")
    case (Cons r rest)
    have "idle_step e (e\<lparr>eClientIngress := rest\<rparr>)"
      unfolding idle_step_def
      by (intro exI [of _ rest] exI [of _ "eInternalIngress e"] exI [of _ "ePendingClients e"] exI [of _ "eTimerSet e"]) simp
    then show thesis using t Cons by (intro that [of "e\<lparr>eClientIngress := rest\<rparr>" r]) (auto simp: ingress_turn_def queued_def)
  next
    case Nil
    then obtain r rest where q: "eInternalIngress e = r # rest"
      using t by (auto simp: ingress_turn_def split: list.splits)
    have "idle_step e (e\<lparr>eInternalIngress := rest\<rparr>)"
      unfolding idle_step_def
      by (intro exI [of _ "eClientIngress e"] exI [of _ rest] exI [of _ "ePendingClients e"] exI [of _ "eTimerSet e"]) simp
    then show thesis using t Nil q by (intro that [of "e\<lparr>eInternalIngress := rest\<rparr>" r]) (auto simp: ingress_turn_def queued_def)
  qed
  note f = idle_step_fields [OF e1(1)]
  have prim1: "is_primary e1" and self1: "eSelf e1 = eSelf e" using f(1) prim by (simp_all add: evolves_def)
  have one1: "one_proposal e1" by (rule one_proposal_evolves [OF one f(1)])
  have "sound C P D L e'"
    unfolding e1(2) using D e1(3) own self1
    by (intro sound_startConsensus [OF sound_idle [OF s e1(1)] one1 prim1]) (simp_all add: e1(2))
  moreover have "one_proposal e'" unfolding e1(2) by (rule one_proposal_startConsensus [OF one1 prim1])
  moreover have "advances e e'"
    unfolding e1(2) by (rule advances_trans [OF advances_evolves [OF f(1)] advances_startConsensus])
  ultimately show ?thesis by blast
qed

lemma cluster_inv_step:
  assumes inv: "cluster_inv C D t M H v L S" and sub: "H \<subseteq> M" and st: "cluster_step C I D M H S S'"
  shows "cluster_inv C D t M H v L S'"
proof -
  have old: "sound C (may_claim M H S) D L (S i)" "one_proposal (S i)" "eSelf (S i) = i" if "i \<in> H" for i
    using inv that by (simp_all add: cluster_inv_def)
  have top: "sound C (\<lambda>_ _. True) D L (S i)" if "i \<in> H" for i
    using old(1) [OF that] by (rule sound_mono) simp
  have le: "may_claim M H S j b \<Longrightarrow> may_claim M H (S(i := e)) j b" if "advances (S i) e" for i e j b
    using that by (auto simp: may_claim_def advances_def)
  have snd: "sound C (may_claim M H (S(i := e))) D L (S i)" if "i \<in> H" "advances (S i) e" for i e
    using old(1) [OF that(1)] le [OF that(2)] by (rule sound_mono)
  have own: "may_claim M H (S(i := e)) (eSelf (S i)) b" if "i \<in> H" "b \<in> signed e" for i e b
    using that sub old(3) by (auto simp: may_claim_def)
  from st show ?thesis
  proof cases
    case (receive i env)
    let ?e = "Handle C I (S i) env"
    have adv: "advances (S i) ?e"
      using Handle_inv [OF top [OF receive(2)] old(2) [OF receive(2)] receive(3,5,4), of I] by blast
    show ?thesis
      unfolding receive(1)
      using Handle_inv [OF snd [OF receive(2) adv] old(2) [OF receive(2)] receive(3,5,4), of I] le [OF adv] own [OF receive(2)]
      by (intro cluster_inv_update [OF inv receive(2) adv]) blast+
  next
    case (ingress i e)
    have adv: "advances (S i) e"
      using ingress_inv [OF top [OF ingress(2)] old(2) [OF ingress(2)] ingress(3,4,5)] by blast
    show ?thesis
      unfolding ingress(1)
      using ingress_inv [OF snd [OF ingress(2) adv] old(2) [OF ingress(2)] ingress(3,4,5)] own [OF ingress(2)]
      by (intro cluster_inv_update [OF inv ingress(2) adv]) blast+
  next
    case (internal i req)
    let ?e = "StartConsensus C (S i) req"
    have idle: "idle_step (S i) ?e"
      using internal(3) idle_enqueue [of "S i" req False] by (auto simp: StartConsensus_def split: option.split)
    have adv: "advances (S i) ?e" by (rule advances_evolves [OF idle_step_fields(1) [OF idle]])
    show ?thesis
      unfolding internal(1)
      by (rule cluster_inv_update [OF inv internal(2) adv one_proposal_idle [OF old(2) [OF internal(2)] idle]
            sound_idle [OF snd [OF internal(2) adv] idle]])
  qed
qed

lemma cluster_inv_run:
  "cluster_run C I D M H S S' \<Longrightarrow> cluster_inv C D t M H v L S \<Longrightarrow> H \<subseteq> M \<Longrightarrow> cluster_inv C D t M H v L S'"
  by (induction rule: cluster_run.induct) (auto intro: cluster_inv_step)

subsection \<open>Agreement\<close>

definition certified :: "seqState \<Rightarrow> bool" where
  "certified s \<longleftrightarrow> sPrepareCert s \<noteq> None \<or> sCommitCert s \<noteq> None"

text \<open>The certificates of two replicas share a correct signer, and that one signed a single digest.\<close>

lemma certified_agree:
  assumes inv: "cluster_inv C D t M H v L S"
    and tight: "ClusterSize t = 3 * F t + 1" "int (card M) = ClusterSize t" "finite M"
    and faulty: "int (card (M - H)) \<le> F t"
    and ij: "i \<in> H" "j \<in> H" and s: "bget (eLog (S i)) k = Some s" "bget (eLog (S j)) k = Some s'"
    and cert: "certified s" "certified s'"
  shows "sDigest s = sDigest s'"
proof -
  have at: "\<exists>p c. cert_backed C (may_claim M H S) (S i) p k (sDigest s) c"
    if "i \<in> H" "bget (eLog (S i)) k = Some s" "certified s" for i s
  proof -
    have b: "slot_backed C (may_claim M H S) D (S i) k s"
      using inv that(1) sound_slot [OF _ that(2)] by (auto simp: cluster_inv_def)
    show ?thesis
      using that(3) b unfolding certified_def slot_backed_def by (cases "sPrepareCert s"; cases "sCommitCert s"; blast)
  qed
  obtain p c q d where c: "cert_backed C (may_claim M H S) (S i) p k (sDigest s) c"
    and d: "cert_backed C (may_claim M H S) (S j) q k (sDigest s') d"
    using at [OF ij(1) s(1) cert(1)] at [OF ij(2) s(2) cert(2)] by blast
  have q: "phase_quorum (S l) r = Quorum t" if "l \<in> H" for l r
    using inv that by (cases r) (auto simp: cluster_inv_def phase_quorum_def)
  have "int (card M) + int (nat (F t)) < Quorum t + Quorum t" using tight by (simp add: Quorum_def)
  moreover have "card (M - H) \<le> nat (F t)" using faulty by simp
  moreover have "signers c \<subseteq> M" "signers d \<subseteq> M" using c d by (auto simp: cert_backed_def may_claim_def)
  ultimately obtain m where m: "m \<in> signers c" "m \<in> signers d" "m \<notin> M - H"
    using engine_cert.common_correct_signer [of "(C, S i, p)" c "(C, S j, q)" d M "nat (F t)" "M - H"]
      c d q ij tight(3) by (auto simp: cert_backed_def)
  then have mH: "m \<in> H" and sig: "cert_bytes p c \<in> signed (S m)" "cert_bytes q d \<in> signed (S m)"
    using c d by (auto simp: cert_backed_def may_claim_def)
  have v: "eView (S l) = v" if "l \<in> H" for l using inv that by (simp add: cluster_inv_def)
  have b: "cert_bytes p c = PhaseSigningBytes (phase_name p) k (eView (S m)) (sDigest s)"
    "cert_bytes q d = PhaseSigningBytes (phase_name q) k (eView (S m)) (sDigest s')"
    using c d v ij mH by (auto simp: cert_backed_def cert_bytes_def)
  have "one_proposal (S m)" using inv mH by (simp add: cluster_inv_def)
  then have "sealed (S m) k (sDigest s)" "sealed (S m) k (sDigest s')"
    using sig unfolding b one_proposal_def by blast+
  then show ?thesis by (rule sealed_unique)
qed

text \<open>Requests with one digest do the same to a ledger. Two conditions are needed: SHA-256 does not collide
  on what is hashed (\<open>collision_free\<close>), and what is hashed tells requests apart, which it does for client
  ids and operation names without the separator (\<open>separable\<close>; \<open>digest_separator_collision\<close> shows that
  without it even a perfect hash confuses two requests).\<close>

definition honest_proposal :: "crypto_ops \<Rightarrow> Request set \<Rightarrow> bytes \<Rightarrow> Request \<Rightarrow> bool" where
  "honest_proposal C R d r \<longleftrightarrow> d = Digest C r \<and> r \<in> R"

definition collision_free :: "crypto_ops \<Rightarrow> Request set \<Rightarrow> bool" where
  "collision_free C R \<longleftrightarrow> inj_on (sha256 C) (digest_input ` R)"

definition separable :: "Request set \<Rightarrow> bool" where
  "separable R \<longleftrightarrow> (\<forall>r\<in>R. sep_free r)"

lemma same_digest_same_txn:
  assumes ok: "collision_free C R" "separable R" and R: "a \<in> R" "b \<in> R" and eq: "Digest C a = Digest C b"
  shows "same_txn a b \<and> norm_op (r_Op a) = norm_op (r_Op b)"
proof -
  have sep: "sep_free a" "sep_free b" and inj: "inj_on (sha256 C) (digest_input ` R)"
    using ok R by (simp_all add: collision_free_def separable_def)
  have "digest_input a = digest_input b"
    using eq R inj_onD [OF inj, of "digest_input a" "digest_input b"] by (simp add: Digest_def)
  then show ?thesis using digest_input_inj [OF sep] by simp
qed

lemma same_digest_same_step:
  assumes ok: "collision_free C R" "separable R" and R: "a \<in> R" "b \<in> R" and eq: "Digest C a = Digest C b"
  shows "ledger_step C a = ledger_step C b"
proof -
  have same: "same_txn a b" "norm_op (r_Op a) = norm_op (r_Op b)" using same_digest_same_txn [OF assms] by simp_all
  then have "clientReq a = clientReq b" by (simp add: same_txn_def clientReq_def)
  then have "TxnID C a = TxnID C b" by (simp add: TxnID_def)
  with same show ?thesis
    by (simp add: fun_eq_iff ledger_step_def same_txn_def lg_entry_def lg_stamp_def Let_def split: op_kind.split)
qed

lemma fold_slot_reqs_cong:
  assumes "\<And>k. lo \<le> k \<Longrightarrow> k < hi \<Longrightarrow> map f (slot_req a k) = map f (slot_req b k)"
  shows "fold f (slot_reqs a lo hi) = fold f (slot_reqs b lo hi)"
proof -
  have "map f (slot_reqs a lo hi) = map f (slot_reqs b lo hi)"
    unfolding slot_reqs_def map_concat map_map using assms by (intro arg_cong [where f = concat]) simp
  moreover have "fold f xs = fold (\<lambda>g. g) (map f xs)" for xs by (simp add: fold_map comp_def)
  ultimately show ?thesis by metis
qed

lemma executed_slot:
  assumes inv: "cluster_inv C D t M H v L S" and i: "i \<in> H" and k: "1 \<le> k" "k < eExecSeq (S i)"
  shows "\<exists>s. bget (eLog (S i)) k = Some s \<and> certified s \<and> slot_req (S i) k = [sReq s] \<and> D (sDigest s) (sReq s)"
proof -
  have snd: "sound C (may_claim M H S) D L (S i)" using inv i by (simp add: cluster_inv_def)
  then obtain s where s: "bget (eLog (S i)) k = Some s" "sExecuted s" using k unfolding sound_def by blast
  have b: "slot_backed C (may_claim M H S) D (S i) k s" by (rule sound_slot [OF snd s(1)])
  then have "sPrePrepare s" using s(2) by (rule backed_proposed)
  then show ?thesis using s b by (auto simp: slot_backed_def certified_def slot_req_def)
qed

subsection \<open>A run of the example cluster\<close>

text \<open>An envelope handled by several replicas, one after the other.\<close>

lemma deliver_all:
  assumes "set js \<subseteq> H" "distinct js"
    and "\<And>j. j \<in> set js \<Longrightarrow> in_view (S j) env \<and> advances (S j) (Handle C I (S j) env) \<and> genuine C M H S (eRing (S j)) env"
    and "proposes D env" and "cluster_run C I D M H S0 S"
  shows "cluster_run C I D M H S0 (\<lambda>j. if j \<in> set js then Handle C I (S j) env else S j)"
  using assms(1-3)
proof (induction js rule: rev_induct)
  case Nil
  then show ?case using assms(5) by simp
next
  case (snoc j js)
  let ?S = "\<lambda>j. if j \<in> set js then Handle C I (S j) env else S j"
  have run: "cluster_run C I D M H S0 ?S"
    by (rule snoc.IH) (use snoc.prems in simp_all)
  have j: "j \<notin> set js" "j \<in> H" using snoc.prems(1,2) by auto
  have "may_claim M H ?S i b" if "may_claim M H S i b" for i b
    using that snoc.prems(3) by (auto simp: may_claim_def advances_def)
  then have "genuine C M H ?S (eRing (?S j)) env"
    using snoc.prems(3) [of j] j(1) by (auto simp: genuine_def list_all_iff)
  then have st: "cluster_step C I D M H ?S (?S(j := Handle C I (?S j) env))"
    using snoc.prems(3) [of j] j assms(4) by (intro cluster_step.receive) simp_all
  have eq: "?S(j := Handle C I (?S j) env) = (\<lambda>i. if i \<in> set (js @ [j]) then Handle C I (S i) env else S i)"
    using j(1) by (intro ext) simp
  show ?case using cluster_run.step [OF run st] unfolding eq .
qed

definition from_peer :: "payload \<Rightarrow> Envelope" where
  "from_peer p = \<lparr>env_SenderId = 1, env_Payload = p, env_Signature = []\<rparr>"

definition sample_stage :: "int \<Rightarrow> int \<Rightarrow> engine" where
  "sample_stage n i =
     (let a = onPrePrepare plain_crypto (sample_engine i) sample_pp; b = onPrepareCert plain_crypto a (sample_cert Prep)
      in if i \<notin> {2, 3, 4} \<or> n = 0 then sample_engine i else if n = 1 then a else if n = 2 then b
         else onCommitCert plain_crypto b (sample_cert Comm))"

lemma sample_stage_1:
  assumes i: "i \<in> {2, 3, 4}"
  defines "s \<equiv> emptySlot\<lparr>sDigest := Digest plain_crypto sample_req, sReq := sample_req\<lparr>r_Op := OpIntra\<rparr>, sPrePrepare := True\<rparr>"
  shows "same_frame (sample_engine i) (sample_stage 1 i)" "\<not> is_primary (sample_stage 1 i)"
    "bget (eLog (sample_stage 1 i)) k = (if k = 1 then Some s else None)" "eExecSeq (sample_stage 1 i) = 1"
    "store_ok (eStore (sample_stage 1 i))" "ledger_of (eStore (sample_stage 1 i)) = ledger_of (empty_store 10 100)"
    "cert_bytes Prep (sample_cert Prep) \<in> signed (sample_stage 1 i)" "Alive (eFault (sample_stage 1 i))"
proof -
  let ?a = "adopt (pp_Digest sample_pp) (pp_Req sample_pp) 1 (sample_engine i)"
  have st: "sample_stage 1 i = onPrePrepare plain_crypto (sample_engine i) sample_pp" using i by (simp add: sample_stage_def Let_def)
  note acc = sample_accepts [OF i, of sample_pp, folded st]
  have pre: "pp_Seq sample_pp = 1" "pp_View sample_pp = 0" "r_Op (pp_Req sample_pp) = OpIntra" "0 < r_TS (pp_Req sample_pp)"
    "\<not> (10 :: int64) <s r_Amt (pp_Req sample_pp)" "r_X (pp_Req sample_pp) \<in> {1..50}" "r_Y (pp_Req sample_pp) \<in> {1..50}"
    by (simp_all add: sample_pp_def sample_req_def)
  note acc = acc [OF pre]
  note f = same_core_fields [OF acc(1)]
  show fr: "same_frame (sample_engine i) (sample_stage 1 i)"
    unfolding st using advances_onPrePrepare by (simp add: advances_def)
  show "bget (eLog (sample_stage 1 i)) k = (if k = 1 then Some s else None)"
    by (simp add: f adopt_slot revive_def emptySlot_def s_def sample_pp_def)
  show "eExecSeq (sample_stage 1 i) = 1" by (simp add: f adopt_steps)
  show "store_ok (eStore (sample_stage 1 i))" "ledger_of (eStore (sample_stage 1 i)) = ledger_of (empty_store 10 100)"
    using acc(3,4) by simp_all
  show "cert_bytes Prep (sample_cert Prep) \<in> signed (sample_stage 1 i)" unfolding st using i by (rule sample_vote)
  have np: "\<not> is_primary (sample_engine i)" using sample_primary_iff [of i] i by auto
  have "is_primary (sample_stage 1 i) = is_primary ?a" by (rule is_primary_cong) (rule f)+
  then show "\<not> is_primary (sample_stage 1 i)" using np by (simp add: adopt_steps)
  show "Alive (eFault (sample_stage 1 i))" by (simp add: f adopt_steps DefaultFaultConfig_def)
qed

lemma is_primary_frame: "evolves e e' \<Longrightarrow> is_primary e' = is_primary e"
  by (simp add: evolves_def)

lemma sample_stage_2:
  assumes i: "i \<in> {2, 3, 4}"
  defines "s \<equiv> emptySlot\<lparr>sDigest := Digest plain_crypto sample_req, sReq := sample_req\<lparr>r_Op := OpIntra\<rparr>, sPrePrepare := True,
      sPrepareCert := Some (sample_cert Prep)\<rparr>"
  shows "evolves (sample_stage 1 i) (sample_stage 2 i)"
    "bget (eLog (sample_stage 2 i)) k = (if k = 1 then Some s else None)" "eExecSeq (sample_stage 2 i) = 1"
    "eStore (sample_stage 2 i) = eStore (sample_stage 1 i)" "Alive (eFault (sample_stage 2 i))"
    "cert_bytes Comm (sample_cert Comm) \<in> signed (sample_stage 2 i)"
proof -
  note one = sample_stage_1 [OF i]
  have st: "sample_stage 2 i = onPrepareCert plain_crypto (sample_stage 1 i) (sample_cert Prep)"
    using i by (simp add: sample_stage_def Let_def)
  show "evolves (sample_stage 1 i) (sample_stage 2 i)" unfolding st by (rule evolves_onPrepareCert)
  let ?s = "emptySlot\<lparr>sDigest := Digest plain_crypto sample_req, sReq := sample_req\<lparr>r_Op := OpIntra\<rparr>, sPrePrepare := True\<rparr>"
  let ?e = "put_slot 1 (?s\<lparr>sPrepareCert := Some (sample_cert Prep)\<rparr>) (sample_stage 1 i)"
  have c: "cm_Seq (sample_cert Prep) = 1" "cm_View (sample_cert Prep) = 0" "cm_Digest (sample_cert Prep) = Digest plain_crypto sample_req"
    by (simp_all add: sample_cert_def)
  have v: "eView (sample_stage 1 i) = 0" "eRing (sample_stage 1 i) = sample_ring i" "ePrepareCollect (sample_stage 1 i) = 3"
    using one(1) by (simp_all add: same_frame_def)
  have "verifyCert plain_crypto (sample_stage 1 i) (sample_cert Prep) Prep 3" by (rule sample_cert_ok [OF v(2)]) simp
  then have e: "sample_stage 2 i = sendCommit plain_crypto ?e 1 0 (Digest plain_crypto sample_req)"
    by (simp add: st onPrepareCert_def c v one(3))
  have np: "Primary ?e \<noteq> eSelf ?e" using one(2) by (simp add: is_primary_def [symmetric])
  obtain b x where e: "sample_stage 2 i = emit x (emit (ESign b) ?e)" "b = PhaseSigningBytes ''COMMIT'' 1 0 (Digest plain_crypto sample_req)"
    using np unfolding e sendCommit_def Let_def by auto
  show "bget (eLog (sample_stage 2 i)) k = (if k = 1 then Some s else None)"
    unfolding e(1) by (simp add: emit_def put_slot_def one(3) s_def)
  show "eExecSeq (sample_stage 2 i) = 1" "eStore (sample_stage 2 i) = eStore (sample_stage 1 i)" "Alive (eFault (sample_stage 2 i))"
    unfolding e(1) by (simp_all add: emit_def put_slot_def one)
  have "cert_bytes Comm (sample_cert Comm) = b" by (simp add: e(2) cert_bytes_def sample_cert_def phase_name_def)
  then show "cert_bytes Comm (sample_cert Comm) \<in> signed (sample_stage 2 i)"
    unfolding e(1) by (simp split: effect.split)
qed

lemma sample_stage_3:
  assumes i: "i \<in> {2, 3, 4}"
  defines "s \<equiv> emptySlot\<lparr>sDigest := Digest plain_crypto sample_req, sReq := sample_req\<lparr>r_Op := OpIntra\<rparr>, sPrePrepare := True,
      sPrepareCert := Some (sample_cert Prep), sCommitCert := Some (sample_cert Comm), sExecuted := True\<rparr>"
  shows "evolves (sample_stage 2 i) (sample_stage 3 i)" "eExecSeq (sample_stage 3 i) = 2"
    "bget (eLog (sample_stage 3 i)) 1 = Some s"
    "ledger_of (eStore (sample_stage 3 i)) = ledger_step plain_crypto (sample_req\<lparr>r_Op := OpIntra\<rparr>) (ledger_of (empty_store 10 100))"
proof -
  note one = sample_stage_1 [OF i] and two = sample_stage_2 [OF i]
  have st: "sample_stage 3 i = onCommitCert plain_crypto (sample_stage 2 i) (sample_cert Comm)"
    using i by (simp add: sample_stage_def Let_def)
  show "evolves (sample_stage 2 i) (sample_stage 3 i)" unfolding st by (rule evolves_onCommitCert)
  let ?s = "emptySlot\<lparr>sDigest := Digest plain_crypto sample_req, sReq := sample_req\<lparr>r_Op := OpIntra\<rparr>, sPrePrepare := True,
      sPrepareCert := Some (sample_cert Prep)\<rparr>"
  let ?q = "put_slot 1 (?s\<lparr>sCommitCert := Some (sample_cert Comm)\<rparr>) (sample_stage 2 i)"
  have c: "cm_Seq (sample_cert Comm) = 1" "cm_View (sample_cert Comm) = 0" "cm_Digest (sample_cert Comm) = Digest plain_crypto sample_req"
    by (simp_all add: sample_cert_def)
  have v: "eView (sample_stage 2 i) = 0" "eRing (sample_stage 2 i) = sample_ring i" "eCommitQuorum (sample_stage 2 i) = 3"
    using two(1) one(1) by (simp_all add: same_frame_def evolves_def)
  have "verifyCert plain_crypto (sample_stage 2 i) (sample_cert Comm) Comm 3" by (rule sample_cert_ok [OF v(2)]) simp
  then have e: "sample_stage 3 i = tryExecute plain_crypto ?q"
    by (simp add: st onCommitCert_def c v two(2))
  have exec: "eExecSeq ?q = 1" by (simp add: put_slot_def two(3))
  have log: "bget (eLog ?q) k = (if k = 1 then Some (?s\<lparr>sCommitCert := Some (sample_cert Comm)\<rparr>) else None)" for k
    by (simp add: put_slot_def two(2))
  have "stops_at ?q 2"
    unfolding stops_at_def exec log by (simp add: upto_small runnable_def emptySlot_def)
  then show stop: "eExecSeq (sample_stage 3 i) = 2" unfolding e by (rule tryExecute_stops)
  show "bget (eLog (sample_stage 3 i)) 1 = Some s"
    using tryExecute_log [of ?q plain_crypto, THEN conjunct2, rule_format, of 1] stop
    unfolding e [symmetric] exec log by (auto simp: ran_def s_def emptySlot_def)
  have "slot_reqs ?q 1 2 = [sample_req\<lparr>r_Op := OpIntra\<rparr>]"
    unfolding slot_reqs_def slot_req_def log by (simp add: upto_small emptySlot_def)
  then show "ledger_of (eStore (sample_stage 3 i)) =
      ledger_step plain_crypto (sample_req\<lparr>r_Op := OpIntra\<rparr>) (ledger_of (empty_store 10 100))"
    using tryExecute_ledger [of ?q plain_crypto] one(5,6) two(4) stop by (simp add: e exec)
qed

lemma genuine_sample_cert:
  assumes "\<And>i. i \<in> {2, 3, 4} \<Longrightarrow> cert_bytes p (sample_cert p) \<in> signed (S i)" and "claims env = cert_claims p (sample_cert p)"
  shows "genuine C {1, 2, 3, 4} {2, 3, 4} S ring env"
proof -
  have "list_all (\<lambda>(i, b, sig). may_claim {1, 2, 3, 4} {2, 3, 4} S i b) (cert_claims p (sample_cert p))"
    using assms(1) by (simp add: cert_claims_def may_claim_def) (simp add: sample_cert_def)
  then show ?thesis unfolding genuine_def assms(2) by (rule list.pred_mono_strong) auto
qed

definition sample_reqs :: "Request set" where
  "sample_reqs = {sample_req\<lparr>r_Op := OpIntra\<rparr>}"

lemma sample_stages:
  "sample_stage 0 = sample_engine"
  "i \<in> {2, 3, 4} \<Longrightarrow> sample_stage 1 i = Handle plain_crypto I (sample_engine i) (from_peer (MPrePrepare sample_pp))"
  "i \<in> {2, 3, 4} \<Longrightarrow> sample_stage 2 i = Handle plain_crypto I (sample_stage 1 i) (from_peer (MPrepareCert (sample_cert Prep)))"
  "i \<in> {2, 3, 4} \<Longrightarrow> sample_stage 3 i = Handle plain_crypto I (sample_stage 2 i) (from_peer (MCommitCert (sample_cert Comm)))"
  using sample_stage_1(8) [of i] sample_stage_2(5) [of i]
  by (simp_all add: fun_eq_iff sample_stage_def Let_def Handle_def from_peer_def DefaultFaultConfig_def)

lemma sample_next:
  assumes run: "cluster_run plain_crypto I D M {2, 3, 4} sample_engine (sample_stage n)"
    and eq: "\<And>i. i \<in> {2, 3, 4} \<Longrightarrow> sample_stage (n + 1) i = Handle plain_crypto I (sample_stage n i) env"
    and ok: "\<And>i. i \<in> {2, 3, 4} \<Longrightarrow> in_view (sample_stage n i) env \<and> advances (sample_stage n i) (Handle plain_crypto I (sample_stage n i) env)"
    and gen: "\<And>i. genuine plain_crypto M {2, 3, 4} (sample_stage n) (eRing (sample_stage n i)) env"
    and D: "proposes D env"
  shows "cluster_run plain_crypto I D M {2, 3, 4} sample_engine (sample_stage (n + 1))"
proof -
  have "sample_stage n i = sample_engine i" if "i \<notin> {2, 3, 4}" for n i using that by (simp add: sample_stage_def Let_def)
  then have "(\<lambda>j. if j \<in> set [2, 3, 4] then Handle plain_crypto I (sample_stage n j) env else sample_stage n j) = sample_stage (n + 1)"
    using eq by (intro ext) auto
  then show ?thesis
    using deliver_all [of "[2, 3, 4]" "{2, 3, 4}" "sample_stage n" env plain_crypto I M D sample_engine] ok gen D run by simp
qed

lemma sample_run_1:
  "cluster_run plain_crypto I (honest_proposal plain_crypto sample_reqs) {1, 2, 3, 4} {2, 3, 4} sample_engine (sample_stage 1)"
proof (rule sample_next [where n = 0 and env = "from_peer (MPrePrepare sample_pp)", simplified])
  show "cluster_run plain_crypto I (honest_proposal plain_crypto sample_reqs) {1, 2, 3, 4} {2, 3, 4} sample_engine (sample_stage 0)"
    unfolding sample_stages(1) by (rule cluster_run.start)
  show "proposes (honest_proposal plain_crypto sample_reqs) (from_peer (MPrePrepare sample_pp))"
    by (simp add: proposes_def from_peer_def honest_proposal_def sample_pp_def sample_reqs_def Digest_def digest_input_def norm_op_def sample_req_def transfer_fields_def)
  fix i :: int
  show "genuine plain_crypto {1, 2, 3, 4} {2, 3, 4} (sample_stage 0) (eRing (sample_stage 0 i)) (from_peer (MPrePrepare sample_pp))"
    by (simp add: genuine_def claims_def from_peer_def)
  assume "i = 2 \<or> i = 3 \<or> i = 4"
  then have i: "i \<in> {2, 3, 4}" by simp
  show "sample_stage 1 i = Handle plain_crypto I (sample_stage 0 i) (from_peer (MPrePrepare sample_pp))"
    unfolding sample_stages(1) by (rule sample_stages(2) [OF i])
  show "in_view (sample_stage 0 i) (from_peer (MPrePrepare sample_pp)) \<and>
      advances (sample_stage 0 i) (Handle plain_crypto I (sample_stage 0 i) (from_peer (MPrePrepare sample_pp)))"
    unfolding sample_stages(1) using sample_primary_iff [of i] i advances_onPrePrepare
    by (auto simp: in_view_def from_peer_def Handle_def)
qed

lemma sample_run_2:
  "cluster_run plain_crypto I (honest_proposal plain_crypto sample_reqs) {1, 2, 3, 4} {2, 3, 4} sample_engine (sample_stage 2)"
proof (rule sample_next [where n = 1 and env = "from_peer (MPrepareCert (sample_cert Prep))", simplified])
  show "cluster_run plain_crypto I (honest_proposal plain_crypto sample_reqs) {1, 2, 3, 4} {2, 3, 4} sample_engine (sample_stage 1)" by (rule sample_run_1)
  show "proposes (honest_proposal plain_crypto sample_reqs) (from_peer (MPrepareCert (sample_cert Prep)))" by (simp add: proposes_def from_peer_def)
  fix i :: int
  show "genuine plain_crypto {1, 2, 3, 4} {2, 3, 4} (sample_stage 1) (eRing (sample_stage 1 i)) (from_peer (MPrepareCert (sample_cert Prep)))"
    by (rule genuine_sample_cert [OF sample_stage_1(7)]) (simp_all add: claims_def from_peer_def)
  assume "i = 2 \<or> i = 3 \<or> i = 4"
  then have i: "i \<in> {2, 3, 4}" by simp
  show "sample_stage 2 i = Handle plain_crypto I (sample_stage 1 i) (from_peer (MPrepareCert (sample_cert Prep)))"
    by (rule sample_stages(3) [OF i])
  show "in_view (sample_stage 1 i) (from_peer (MPrepareCert (sample_cert Prep))) \<and>
      advances (sample_stage 1 i) (Handle plain_crypto I (sample_stage 1 i) (from_peer (MPrepareCert (sample_cert Prep))))"
    using advances_evolves [OF evolves_onPrepareCert] by (simp add: in_view_def from_peer_def Handle_def)
qed

lemma sample_cluster_run:
  "cluster_run plain_crypto I (honest_proposal plain_crypto sample_reqs) {1, 2, 3, 4} {2, 3, 4} sample_engine (sample_stage 3)"
proof (rule sample_next [where n = 2 and env = "from_peer (MCommitCert (sample_cert Comm))", simplified])
  show "cluster_run plain_crypto I (honest_proposal plain_crypto sample_reqs) {1, 2, 3, 4} {2, 3, 4} sample_engine (sample_stage 2)" by (rule sample_run_2)
  show "proposes (honest_proposal plain_crypto sample_reqs) (from_peer (MCommitCert (sample_cert Comm)))" by (simp add: proposes_def from_peer_def)
  fix i :: int
  show "genuine plain_crypto {1, 2, 3, 4} {2, 3, 4} (sample_stage 2) (eRing (sample_stage 2 i)) (from_peer (MCommitCert (sample_cert Comm)))"
    by (rule genuine_sample_cert [OF sample_stage_2(6)]) (simp_all add: claims_def from_peer_def)
  assume "i = 2 \<or> i = 3 \<or> i = 4"
  then have i: "i \<in> {2, 3, 4}" by simp
  show "sample_stage 3 i = Handle plain_crypto I (sample_stage 2 i) (from_peer (MCommitCert (sample_cert Comm)))"
    by (rule sample_stages(4) [OF i])
  show "in_view (sample_stage 2 i) (from_peer (MCommitCert (sample_cert Comm))) \<and>
      advances (sample_stage 2 i) (Handle plain_crypto I (sample_stage 2 i) (from_peer (MCommitCert (sample_cert Comm))))"
    using advances_evolves [OF evolves_onCommitCert] by (simp add: in_view_def from_peer_def Handle_def)
qed

subsection \<open>Properties\<close>

text \<open>C1: Agreement. In a cluster of exactly \<open>3f + 1\<close> servers, at most \<open>f\<close> of them faulty, let the
  correct replicas start with empty logs in one view and handle whatever the network delivers: any
  PRE-PREPAREs to backups, votes, certificates and client requests, in any order, forged at will
  except for signatures of correct replicas, and signed by members only. Then whenever two correct
  replicas hold a PREPARE or COMMIT certificate for the same sequence number, their slots have the
  same digest; and a slot is executed only with such a certificate.\<close>

theorem correct_replicas_agree:
  assumes tight: "ClusterSize t = 3 * F t + 1" "int (card M) = ClusterSize t" "finite M"
    and faulty: "H \<subseteq> M" "int (card (M - H)) \<le> F t"
    and run: "fresh_cluster t H v L S0" "cluster_run C I D M H S0 S"
    and slots: "i \<in> H" "j \<in> H" "bget (eLog (S i)) k = Some s" "bget (eLog (S j)) k = Some s'"
  shows "(certified s \<longrightarrow> certified s' \<longrightarrow> sDigest s = sDigest s') \<and> (sExecuted s \<longrightarrow> certified s)"
proof -
  have inv: "cluster_inv C D t M H v L S" by (rule cluster_inv_run [OF run(2) cluster_inv_fresh [OF run(1)] faulty(1)])
  then have "slot_backed C (may_claim M H S) D (S i) k s"
    using slots(1) sound_slot [OF _ slots(3)] by (auto simp: cluster_inv_def)
  then have "sExecuted s \<longrightarrow> certified s" by (auto simp: slot_backed_def certified_def)
  then show ?thesis using certified_agree [OF inv tight faulty(2) slots] by blast
qed

lemma sample_fresh: "fresh_cluster sample_topo {2, 3, 4} 0 (ledger_of (empty_store 10 100)) sample_engine"
  by (simp add: fresh_cluster_def Quorum_def F_def go_div_def)

lemma sample_tight:
  "ClusterSize sample_topo = 3 * F sample_topo + 1" "int (card {1, 2, 3, 4 :: int}) = ClusterSize sample_topo"
  "int (card ({1, 2, 3, 4} - {2, 3, 4 :: int})) \<le> F sample_topo"
  by (simp_all add: F_def go_div_def)

theorem correct_replicas_agree_witness:
  "\<exists>s s'. bget (eLog (sample_stage 3 2)) 1 = Some s \<and> bget (eLog (sample_stage 3 4)) 1 = Some s' \<and>
     sExecuted s \<and> certified s \<and> sDigest s = sDigest s'"
proof -
  obtain s s' where s: "bget (eLog (sample_stage 3 2)) 1 = Some s" "bget (eLog (sample_stage 3 4)) 1 = Some s'"
    and e: "sExecuted s" "sExecuted s'"
    using sample_stage_3(3) [of 2] sample_stage_3(3) [of 4] by fastforce
  have run: "cluster_run plain_crypto \<lparr>it_log = id, it_reqs = id, it_vcs = id, it_prepared = id\<rparr> (honest_proposal plain_crypto sample_reqs)
      {1, 2, 3, 4} {2, 3, 4} sample_engine (sample_stage 3)" by (rule sample_cluster_run)
  have agree: "(certified s \<longrightarrow> certified s' \<longrightarrow> sDigest s = sDigest s') \<and> (sExecuted s \<longrightarrow> certified s)"
    by (rule correct_replicas_agree [OF sample_tight(1,2) _ _ sample_tight(3) sample_fresh run _ _ s]) simp_all
  have "(certified s' \<longrightarrow> certified s \<longrightarrow> sDigest s' = sDigest s) \<and> (sExecuted s' \<longrightarrow> certified s')"
    by (rule correct_replicas_agree [OF sample_tight(1,2) _ _ sample_tight(3) sample_fresh run _ _ s(2,1)]) simp_all
  then show ?thesis using s e agree by blast
qed

text \<open>C2: One history. In the same cluster, if every proposal carries the digest of its request, SHA-256
  does not collide on the digest inputs of the requests proposed, and no client id or operation name of
  these requests contains the separator \<open>|\<close> (without which two requests can share a digest input), all
  correct replicas run through one history:
  the ledger of a replica that has executed further is the ledger of the other plus the requests of
  the slots in between, so balances, histories, client timestamps and preimages of replicas that
  stand at the same number are equal.\<close>

theorem one_history:
  assumes tight: "ClusterSize t = 3 * F t + 1" "int (card M) = ClusterSize t" "finite M"
    and faulty: "H \<subseteq> M" "int (card (M - H)) \<le> F t"
    and run: "fresh_cluster t H v L S0" "cluster_run C I (honest_proposal C R) M H S0 S"
    and hash: "collision_free C R" and plain: "separable R"
    and ij: "i \<in> H" "j \<in> H" "eExecSeq (S i) \<le> eExecSeq (S j)"
  shows "ledger_of (eStore (S j)) =
    fold (ledger_step C) (slot_reqs (S j) (eExecSeq (S i)) (eExecSeq (S j))) (ledger_of (eStore (S i)))"
proof -
  let ?D = "honest_proposal C R" and ?n = "eExecSeq (S i)"
  have inv: "cluster_inv C ?D t M H v L S" by (rule cluster_inv_run [OF run(2) cluster_inv_fresh [OF run(1)] faulty(1)])
  have ledger: "ledger_of (eStore (S l)) = fold (ledger_step C) (slot_reqs (S l) 1 (eExecSeq (S l))) L \<and> 1 \<le> eExecSeq (S l)"
    if "l \<in> H" for l using inv that by (simp add: cluster_inv_def sound_def)
  have "map (ledger_step C) (slot_req (S j) k) = map (ledger_step C) (slot_req (S i) k)" if k: "1 \<le> k" "k < ?n" for k
  proof -
    obtain s where s: "bget (eLog (S i)) k = Some s" "certified s" "slot_req (S i) k = [sReq s]" "?D (sDigest s) (sReq s)"
      using executed_slot [OF inv ij(1) k] by blast
    have "k < eExecSeq (S j)" using k ij(3) by simp
    then obtain s' where s': "bget (eLog (S j)) k = Some s'" "certified s'" "slot_req (S j) k = [sReq s']" "?D (sDigest s') (sReq s')"
      using executed_slot [OF inv ij(2) k(1)] by blast
    have "sDigest s = sDigest s'"
      by (rule certified_agree [OF inv tight faulty(2) ij(1,2) s(1) s'(1) s(2) s'(2)])
    then show ?thesis
      using s(3,4) s'(3,4) same_digest_same_step [OF hash plain, of "sReq s'" "sReq s"] by (simp add: honest_proposal_def)
  qed
  then have "fold (ledger_step C) (slot_reqs (S j) 1 ?n) = fold (ledger_step C) (slot_reqs (S i) 1 ?n)"
    by (rule fold_slot_reqs_cong)
  then show ?thesis
    using ledger [OF ij(1)] ledger [OF ij(2)] slot_reqs_split [of 1 ?n "eExecSeq (S j)" "S j"] ij(3) by simp
qed

theorem one_history_witness:
  "ledger_of (eStore (sample_stage 3 4)) = ledger_of (eStore (sample_stage 3 2)) \<and>
   GetBalance (eStore (sample_stage 3 2)) 5 = 7 \<and> GetBalance (eStore (sample_stage 3 2)) 7 = 13"
proof -
  note st = sample_stage_3(2,4) [of 2] sample_stage_3(2,4) [of 4]
  have "ledger_of (eStore (sample_stage 3 4)) =
      fold (ledger_step plain_crypto) (slot_reqs (sample_stage 3 4) (eExecSeq (sample_stage 3 2)) (eExecSeq (sample_stage 3 4)))
        (ledger_of (eStore (sample_stage 3 2)))"
  proof (rule one_history [OF sample_tight(1,2) _ _ sample_tight(3) sample_fresh sample_cluster_run])
    show "collision_free plain_crypto sample_reqs" "separable sample_reqs"
      by (simp_all add: collision_free_def separable_def sample_reqs_def sep_free_def sample_req_def)
  qed (use st in simp_all)
  then have eq: "ledger_of (eStore (sample_stage 3 4)) = ledger_of (eStore (sample_stage 3 2))"
    using st by (simp add: slot_reqs_def)
  have "lg_bal (ledger_of (eStore (sample_stage 3 2))) i =
      lg_bal (ledger_step plain_crypto (sample_req\<lparr>r_Op := OpIntra\<rparr>) (ledger_of (empty_store 10 100))) i" for i
    using st(2) by simp
  then show ?thesis
    using eq by (simp add: ledger_bal ledger_step_def norm_op_def sample_req_def lg_entry_def lg_stamp_def Let_def)
qed

text \<open>C3: Certificates of one cluster count in every other, which is why the network above had to keep
  foreign votes out. What is signed names no cluster, every replica holds the keys of all servers, and
  no check looks where a signer belongs. So whatever commit certificate a replica \<open>b\<close> of any cluster
  accepts, a replica \<open>a\<close> of another accepts for the slot of the same number, view and digest, and
  executes its own proposal there, though nobody of its cluster has voted; and a faulty primary may
  put any request under that digest.\<close>

theorem foreign_certificate_commits:
  assumes keys: "PublicKey (eRing a) = PublicKey (eRing b)" "eCommitQuorum a = eCommitQuorum b" "eView a = eView b"
    and accepted: "verifyCert C b c Comm (eCommitQuorum b)" "cm_View c = eView b"
    and slot: "bget (eLog a) (cm_Seq c) = Some s" "sPrePrepare s" "sDigest s = cm_Digest c"
    and next_slot: "eExecSeq a = cm_Seq c" "\<not> sDiscarded s" "\<not> sExecuted s"
  shows "onCommitCert C a c = tryExecute C (put_slot (cm_Seq c) (s\<lparr>sCommitCert := Some c\<rparr>) a) \<and>
    slot_req (onCommitCert C a c) (cm_Seq c) = [sReq s] \<and> cm_Seq c < eExecSeq (onCommitCert C a c)"
proof -
  let ?e = "put_slot (cm_Seq c) (s\<lparr>sCommitCert := Some c\<rparr>) a"
  have "verifyCert C a c Comm (eCommitQuorum a)" using accepted(1) keys by (simp add: verifyCert_def split: if_splits)
  then have on: "onCommitCert C a c = tryExecute C ?e" using accepted(2) keys(3) slot by (simp add: onCommitCert_def)
  have log: "bget (eLog ?e) (cm_Seq c) = Some (s\<lparr>sCommitCert := Some c\<rparr>)" "eExecSeq ?e = cm_Seq c"
    by (simp_all add: put_slot_def next_slot)
  have run: "runnable (s\<lparr>sCommitCert := Some c\<rparr>)" using next_slot by (simp add: runnable_def)
  have "eExecSeq (tryExecute C ?e) \<noteq> cm_Seq c"
    using tryExecute_not_runnable [of C ?e] tryExecute_log [of ?e C] log run by auto
  moreover have "eExecSeq ?e \<le> eExecSeq (tryExecute C ?e)" using tryExecute_log by blast
  ultimately have lt: "cm_Seq c < eExecSeq (tryExecute C ?e)" using log(2) by simp
  then have "bget (eLog (tryExecute C ?e)) (cm_Seq c) = Some (ran (s\<lparr>sCommitCert := Some c\<rparr>))"
    using tryExecute_log [of ?e C, THEN conjunct2, rule_format, of "cm_Seq c"] log by auto
  then show ?thesis using on lt next_slot(2) by (simp add: slot_req_def ran_def)
qed

definition foreign_cert :: CertificateMsg where
  "foreign_cert = \<lparr>cm_Seq = 1, cm_View = 0, cm_Digest = Digest plain_crypto sample_req,
     cm_Sigs = map (\<lambda>i. \<lparr>se_ServerID = i, se_Sig = ring_Sign plain_crypto (sample_ring i)
       (PhaseSigningBytes ''COMMIT'' 1 0 (Digest plain_crypto sample_req))\<rparr>) [6, 7, 8]\<rparr>"

theorem foreign_certificate_commits_witness:
  "signers foreign_cert = {6, 7, 8} \<and> eCluster (sample_engine 6) = 2 \<and> eCluster (sample_engine 2) = 1 \<and>
   1 < eExecSeq (onCommitCert plain_crypto (sample_stage 1 2) foreign_cert)"
proof -
  note one = sample_stage_1 [of 2]
  let ?s = "emptySlot\<lparr>sDigest := Digest plain_crypto sample_req, sReq := sample_req\<lparr>r_Op := OpIntra\<rparr>, sPrePrepare := True\<rparr>"
  have fr: "eRing (sample_stage 1 2) = sample_ring 2" "eView (sample_stage 1 2) = 0" "eCommitQuorum (sample_stage 1 2) = 3"
    using one(1) by (simp_all add: same_frame_def)
  have c: "cm_Seq foreign_cert = 1" "cm_View foreign_cert = 0" "cm_Digest foreign_cert = Digest plain_crypto sample_req"
    by (simp_all add: foreign_cert_def)
  have v: "verifyCert plain_crypto (sample_engine 6) foreign_cert Comm 3"
    by (simp add: verifyCert_def foreign_cert_def PublicKey_def sample_ring_def upto_small ring_Sign_def
        plain_crypto_def phase_name_def)
  have pk: "PublicKey (sample_ring 2) = PublicKey (sample_ring 6)"
    by (simp add: fun_eq_iff PublicKey_def sample_ring_def)
  have "bget (eLog (sample_stage 1 2)) 1 = Some ?s" "eExecSeq (sample_stage 1 2) = 1" using one(3,4) by simp_all
  then have "cm_Seq foreign_cert < eExecSeq (onCommitCert plain_crypto (sample_stage 1 2) foreign_cert)"
    by (intro foreign_certificate_commits [of "sample_stage 1 2" "sample_engine 6" plain_crypto foreign_cert ?s,
          THEN conjunct2, THEN conjunct2])
       (simp_all add: fr c v pk emptySlot_def)
  then have "1 < eExecSeq (onCommitCert plain_crypto (sample_stage 1 2) foreign_cert)" by (simp only: c)
  moreover have "signers foreign_cert = {6, 7, 8}" by (simp add: signers_def foreign_cert_def)
  ultimately show ?thesis by (simp add: sample_engine_def fresh_engine_def Let_def)
qed

end
