(* ===== verification/Debug.thy ===== *)
theory Debug
  imports Cluster
begin

text \<open>
  What a replica tells an operator about itself (\<open>internal/pbft/debug.go\<close>): the status of its slots,
  the NEW-VIEWs it has accepted and the VIEW-CHANGEs it has received, and the small accessors of the
  engine. The status of a slot is tied to what the slots of a cluster's replicas rest on.
\<close>

subsection \<open>Accessors\<close>

definition View :: "engine \<Rightarrow> int" where
  "View e = eView e"

definition SetViewChangeTimeout :: "engine \<Rightarrow> int \<Rightarrow> engine" where
  "SetViewChangeTimeout e d = e\<lparr>eTimeout := d, eTunables := (eTunables e)\<lparr>ViewChangeTimeout := d\<rparr>\<rparr>"

definition SetCrossShardHooks :: "engine \<Rightarrow> bool \<Rightarrow> engine" where
  "SetCrossShardHooks e h = e\<lparr>eHooks := h\<rparr>"

definition ClientTxnInFlight :: "crypto_ops \<Rightarrow> engine \<Rightarrow> Request \<Rightarrow> bool" where
  "ClientTxnInFlight C e req = clientTxnInFlight C e req"

definition ensureSeq :: "engine \<Rightarrow> int \<Rightarrow> seqState \<times> engine" where
  "ensureSeq e seq = ensureSeqLocked e seq"

text \<open>\<open>bytesEqual\<close> is a loop over the indices; the model writes equality.\<close>

definition bytesEqual :: "bytes \<Rightarrow> bytes \<Rightarrow> bool" where
  "bytesEqual a b = (if length a \<noteq> length b then False else list_all (\<lambda>i. a ! i = b ! i) [0..<length a])"

lemma bytesEqual_iff: "bytesEqual a b \<longleftrightarrow> a = b"
proof (cases "length a = length b")
  case True
  then show ?thesis using nth_equalityI [of a b] by (fastforce simp: bytesEqual_def list_all_iff)
qed (auto simp: bytesEqual_def)

subsection \<open>Printing\<close>

text \<open>A request with \<open>%v\<close>, and the zero request for a slot that is not there.\<close>

definition request_text :: "Request \<Rightarrow> string" where
  "request_text r = ''{'' @ r_ClientID r @ '' '' @ itoa (r_TS r) @ '' '' @ itoa (r_X r) @ '' '' @ itoa (r_Y r) @ '' '' @
     itoa (sint (r_Amt r)) @ '' '' @ op_str (r_Op r) @ ''}''"

definition no_request :: Request where
  "no_request = \<lparr>r_ClientID = [], r_TS = 0, r_X = 0, r_Y = 0, r_Amt = 0, r_Op = OpEmpty\<rparr>"

definition status_line :: "engine \<Rightarrow> int \<Rightarrow> string" where
  "status_line e s =
     (let req = (case bget (eLog e) s of None \<Rightarrow> no_request | Some st \<Rightarrow> sReq st)
      in ''v='' @ itoa (eView e) @ '' s='' @ itoa s @ '' '' @ StatusCode e s @ '' '' @ request_text req @ [CHR 0x0A])"

definition PrintStatus :: "engine \<Rightarrow> int \<Rightarrow> string" where
  "PrintStatus e seq = concat (map (status_line e) (statusSeqsLocked e seq))"

definition PrintView :: "engine \<Rightarrow> string" where
  "PrintView e = concat (map (\<lambda>nv. ''NEW_VIEW v='' @ itoa (nv_NewView nv) @
     '' pre_prepares='' @ itoa (int (length (nv_PrePrepares nv))) @
     '' view_changes='' @ itoa (int (length (nv_ViewChanges nv))) @ [CHR 0x0A]) (eNewViewLog e))"

definition PrintLog :: "engine \<Rightarrow> string" where
  "PrintLog e = concat (map (\<lambda>vc. ''VIEW_CHANGE new_view='' @ itoa (vc_NewView vc) @
     '' stable='' @ itoa (vc_LatestStable vc) @ '' prepared='' @ itoa (int (length (vc_Prepared vc))) @
     '' pending='' @ itoa (int (length (vc_PendingReqs vc))) @ [CHR 0x0A]) (eViewChangeReceived e))"

subsection \<open>Waiting for the reclaim watchers\<close>

text \<open>The wait ends when no watcher is left (\<open>idle\<close>), the context is cancelled or the timer fires. Time
  is counted in ticks; the result is how many of them it blocked.\<close>

fun WaitReclaims :: "nat \<Rightarrow> (nat \<Rightarrow> bool) \<Rightarrow> (nat \<Rightarrow> bool) \<Rightarrow> nat" where
  "WaitReclaims 0 idle cancelled = 0"
| "WaitReclaims (Suc timeout) idle cancelled =
     (if idle 0 \<or> cancelled 0 then 0
      else Suc (WaitReclaims timeout (\<lambda>i. idle (Suc i)) (\<lambda>i. cancelled (Suc i))))"

text \<open>It returns by its timeout, and a wait that ends earlier says that the watchers are gone only if it
  was not cancelled.\<close>

lemma WaitReclaims_bound: "WaitReclaims timeout idle cancelled \<le> timeout"
  by (induction timeout idle cancelled rule: WaitReclaims.induct) simp_all

lemma WaitReclaims_idle:
  "WaitReclaims timeout idle cancelled < timeout \<Longrightarrow>
   idle (WaitReclaims timeout idle cancelled) \<or> cancelled (WaitReclaims timeout idle cancelled)"
  by (induction timeout idle cancelled rule: WaitReclaims.induct) auto

subsection \<open>What the status of a slot means\<close>

lemma StatusCode_cases:
  assumes "bget (eLog e) k = Some s"
  shows "StatusCode e k = ''E'' \<longleftrightarrow> sPrePrepare s \<and> sExecuted s"
    "StatusCode e k \<in> {''C'', ''E''} \<longrightarrow> sCommitCert s \<noteq> None \<or> sExecuted s"
    "StatusCode e k \<in> {''P'', ''C'', ''E''} \<longrightarrow> sPrePrepare s"
  using assms by (auto simp: StatusCode_def)

text \<open>C10: The status display of correct replicas tells the truth. In a cluster as for
  \<open>correct_replicas_agree\<close>, with proposals that carry the digest of their request, no collision of SHA-256
  on the digest inputs of the requests proposed, and no separator \<open>|\<close> in their client ids and operation
  names: a replica shows E for every slot below the one it will execute next; and when two
  replicas both show a slot as committed or executed, it is the same transaction with the same
  operation and the same effect on the ledger.\<close>

theorem status_tells_truth:
  assumes tight: "ClusterSize t = 3 * F t + 1" "int (card M) = ClusterSize t" "finite M"
    and faulty: "H \<subseteq> M" "int (card (M - H)) \<le> F t"
    and run: "fresh_cluster t H v L S0" "cluster_run C I (honest_proposal C R) M H S0 S"
    and hash: "collision_free C R" and plain: "separable R"
    and ij: "i \<in> H" "j \<in> H"
  shows "(\<forall>k. 1 \<le> k \<and> k < eExecSeq (S i) \<longrightarrow> StatusCode (S i) k = ''E'') \<and>
    (\<forall>k. StatusCode (S i) k \<in> {''C'', ''E''} \<and> StatusCode (S j) k \<in> {''C'', ''E''} \<longrightarrow>
       (\<exists>s s'. bget (eLog (S i)) k = Some s \<and> bget (eLog (S j)) k = Some s' \<and>
          same_txn (sReq s) (sReq s') \<and> norm_op (r_Op (sReq s)) = norm_op (r_Op (sReq s')) \<and>
          ledger_step C (sReq s) = ledger_step C (sReq s')))"
proof (intro conjI allI impI; elim conjE)
  let ?D = "honest_proposal C R"
  have inv: "cluster_inv C ?D t M H v L S" by (rule cluster_inv_run [OF run(2) cluster_inv_fresh [OF run(1)] faulty(1)])
  then have snd: "sound C (may_claim M H S) ?D L (S l)" if "l \<in> H" for l using that by (simp add: cluster_inv_def)
  fix k
  show "StatusCode (S i) k = ''E''" if k: "1 \<le> k" "k < eExecSeq (S i)"
  proof -
    obtain s where s: "bget (eLog (S i)) k = Some s" "sExecuted s" using snd [OF ij(1)] k unfolding sound_def by blast
    then show ?thesis using backed_proposed [OF sound_slot [OF snd [OF ij(1)] s(1)] s(2)] by (simp add: StatusCode_def)
  qed
  have slot: "\<exists>s. bget (eLog (S l)) k = Some s \<and> certified s \<and> ?D (sDigest s) (sReq s)"
    if l: "l \<in> H" and st: "StatusCode (S l) k \<in> {''C'', ''E''}" for l
  proof -
    obtain s where s: "bget (eLog (S l)) k = Some s" using st by (cases "bget (eLog (S l)) k") (simp_all add: StatusCode_def)
    then show ?thesis
      using StatusCode_cases [OF s] st sound_slot [OF snd [OF l] s] by (auto simp: slot_backed_def certified_def)
  qed
  assume st: "StatusCode (S i) k \<in> {''C'', ''E''}" "StatusCode (S j) k \<in> {''C'', ''E''}"
  obtain s s' where s: "bget (eLog (S i)) k = Some s" "certified s" "?D (sDigest s) (sReq s)"
    and s': "bget (eLog (S j)) k = Some s'" "certified s'" "?D (sDigest s') (sReq s')"
    using slot [OF ij(1) st(1)] slot [OF ij(2) st(2)] by blast
  have "sDigest s = sDigest s'" by (rule certified_agree [OF inv tight faulty(2) ij s(1) s'(1) s(2) s'(2)])
  then show "\<exists>s s'. bget (eLog (S i)) k = Some s \<and> bget (eLog (S j)) k = Some s' \<and>
      same_txn (sReq s) (sReq s') \<and> norm_op (r_Op (sReq s)) = norm_op (r_Op (sReq s')) \<and>
      ledger_step C (sReq s) = ledger_step C (sReq s')"
    using s s' same_digest_same_txn [OF hash plain, of "sReq s" "sReq s'"] same_digest_same_step [OF hash plain, of "sReq s" "sReq s'"]
    by (intro exI [of _ s] exI [of _ s']) (simp add: honest_proposal_def)
qed

theorem status_tells_truth_witness:
  "StatusCode (sample_stage 3 2) 1 = ''E'' \<and> StatusCode (sample_stage 3 4) 1 = ''E'' \<and>
   (\<exists>s s'. bget (eLog (sample_stage 3 2)) 1 = Some s \<and> bget (eLog (sample_stage 3 4)) 1 = Some s' \<and> same_txn (sReq s) (sReq s'))"
proof -
  have hash: "collision_free plain_crypto sample_reqs" and plain: "separable sample_reqs"
    by (simp_all add: collision_free_def separable_def sample_reqs_def sep_free_def sample_req_def)
  note st = status_tells_truth [OF sample_tight(1,2) _ _ sample_tight(3) sample_fresh sample_cluster_run hash plain]
  have E: "StatusCode (sample_stage 3 2) 1 = ''E''" "StatusCode (sample_stage 3 4) 1 = ''E''"
    using st [of 2 4] st [of 4 2] sample_stage_3(2) [of 2] sample_stage_3(2) [of 4] by simp_all
  then show ?thesis using st [of 2 4, THEN conjunct2, rule_format, of 1] by auto
qed

end
