(* ===== verification/Wire.thy ===== *)
theory Wire
  imports Replica
begin

text \<open>
  How the messages of an engine travel (\<open>internal/pbft/sender.go\<close>, the broadcast functions of
  \<open>engine.go\<close> and \<open>viewchange.go\<close>, \<open>internal/twopc/hub.go\<close>): encoding, signing, the sender over the hub,
  and the hubs of all servers with the links between them. JSON encoding is a parameter, and so is
  what happens to a call on its way.
\<close>

subsection \<open>Encoding\<close>

record encoder =
  enc_Request :: "Request \<Rightarrow> string + bytes"
  enc_PrePrepare :: "PrePrepareMsg \<Rightarrow> string + bytes"
  enc_Phase :: "PhaseMsg \<Rightarrow> string + bytes"
  enc_Cert :: "CertificateMsg \<Rightarrow> string + bytes"
  enc_ViewChange :: "ViewChangeMsg \<Rightarrow> string + bytes"
  enc_NewView :: "NewViewMsg \<Rightarrow> string + bytes"
  enc_DiscardSeq :: "DiscardSeqMsg \<Rightarrow> string + bytes"

fun marshal :: "encoder \<Rightarrow> payload \<Rightarrow> string + bytes" where
  "marshal E (MClientRequest m) = enc_Request E m"
| "marshal E (MPrePrepare m) = enc_PrePrepare E m"
| "marshal E (MPrepare m) = enc_Phase E m"
| "marshal E (MPrepareCert m) = enc_Cert E m"
| "marshal E (MCommit m) = enc_Phase E m"
| "marshal E (MCommitCert m) = enc_Cert E m"
| "marshal E (MViewChange m) = enc_ViewChange E m"
| "marshal E (MNewView m) = enc_NewView E m"
| "marshal E (MDiscardSeq m) = enc_DiscardSeq E m"
| "marshal E Malformed = Inl []"

text \<open>What is encoded decodes to what it was.\<close>

definition codec_ok :: "encoder \<Rightarrow> codec \<Rightarrow> bool" where
  "codec_ok E J \<longleftrightarrow>
     (\<forall>m b. enc_Request E m = Inr b \<longrightarrow> dec_Request J b = Some m) \<and>
     (\<forall>m b. enc_PrePrepare E m = Inr b \<longrightarrow> dec_PrePrepare J b = Some m) \<and>
     (\<forall>m b. enc_Phase E m = Inr b \<longrightarrow> dec_Phase J b = Some m) \<and>
     (\<forall>m b. enc_Cert E m = Inr b \<longrightarrow> dec_Cert J b = Some m) \<and>
     (\<forall>m b. enc_ViewChange E m = Inr b \<longrightarrow> dec_ViewChange J b = Some m) \<and>
     (\<forall>m b. enc_NewView E m = Inr b \<longrightarrow> dec_NewView J b = Some m) \<and>
     (\<forall>m b. enc_DiscardSeq E m = Inr b \<longrightarrow> dec_DiscardSeq J b = Some m)"

subsection \<open>Links\<close>

text \<open>A call is answered, or its request or its answer is lost, with the error the caller sees.\<close>

datatype fate = Answered | RequestLost string | AnswerLost string

record links =
  lk_Dial :: "int \<Rightarrow> string option"
  lk_Call :: "int \<Rightarrow> fate"

definition wire_call :: "crypto_ops \<Rightarrow> links \<Rightarrow> (int \<Rightarrow> hub) \<Rightarrow> int \<Rightarrow> envelope \<Rightarrow> call_result" where
  "wire_call C K W to env =
     (case lk_Call K to of
        Answered \<Rightarrow> fst (service_Send C (W to) env)
      | RequestLost err \<Rightarrow> CallError err
      | AnswerLost err \<Rightarrow> CallError err)"

definition arrives :: "links \<Rightarrow> hub \<Rightarrow> int \<Rightarrow> envelope \<Rightarrow> bool" where
  "arrives K h to env \<longleftrightarrow> w_Signature env \<noteq> None \<and> \<not> isl (peer (lk_Dial K) h to) \<and>
     (case lk_Call K to of RequestLost _ \<Rightarrow> False | _ \<Rightarrow> True)"

text \<open>\<open>Hub.Send\<close> of server \<open>self\<close>, among the hubs \<open>W\<close> of all servers.\<close>

definition wire_Send :: "crypto_ops \<Rightarrow> links \<Rightarrow> int \<Rightarrow> envelope \<Rightarrow> int \<Rightarrow> (int \<Rightarrow> hub) \<Rightarrow> string option \<times> (int \<Rightarrow> hub)" where
  "wire_Send C K self env to W =
     (case Send (lk_Dial K) (wire_call C K W) (W self) to env of
        (err, h) \<Rightarrow>
          (err, if arrives K (W self) to env then (W(self := h))(to := snd (service_Send C ((W(self := h)) to) env))
                else W(self := h)))"

subsection \<open>The sender of an engine\<close>

record HubSender =
  hs_Topo :: topology
  hs_Self :: int
  hs_View :: int

definition NewHubSender :: "topology \<Rightarrow> int \<Rightarrow> int \<Rightarrow> HubSender" where
  "NewHubSender t self view = \<lparr>hs_Topo = t, hs_Self = self, hs_View = view\<rparr>"

definition HubSender_Sign :: "crypto_ops \<Rightarrow> HubSender \<Rightarrow> (int \<Rightarrow> hub) \<Rightarrow> envelope \<Rightarrow> envelope" where
  "HubSender_Sign C s W env = Sign C (W (hs_Self s)) env"

definition HubSender_Send ::
    "crypto_ops \<Rightarrow> links \<Rightarrow> HubSender \<Rightarrow> int \<Rightarrow> envelope \<Rightarrow> (int \<Rightarrow> hub) \<Rightarrow> string option \<times> (int \<Rightarrow> hub)" where
  "HubSender_Send C K s to env W = wire_Send C K (hs_Self s) env to W"

definition HubSender_Primary :: "HubSender \<Rightarrow> int" where
  "HubSender_Primary s =
     (case ServerByID (hs_Topo s) (hs_Self s) of
        None \<Rightarrow> hs_Self s
      | Some srv \<Rightarrow> PrimaryOf (hs_Topo s) (srv_Cluster srv) (hs_View s))"

definition HubSender_SetView :: "int \<Rightarrow> HubSender \<Rightarrow> HubSender" where
  "HubSender_SetView v s = s\<lparr>hs_View := v\<rparr>"

text \<open>One goroutine per peer; the error kept is that of the first to fail.\<close>

fun send_every :: "crypto_ops \<Rightarrow> links \<Rightarrow> int \<Rightarrow> envelope \<Rightarrow> int list \<Rightarrow> (int \<Rightarrow> hub) \<Rightarrow> string option \<times> (int \<Rightarrow> hub)" where
  "send_every C K self env [] W = (None, W)"
| "send_every C K self env (i # is) W =
     (case wire_Send C K self env i W of
        (err, W) \<Rightarrow>
          (case send_every C K self env is W of
             (err', W) \<Rightarrow> (if err = None then err' else err, W)))"

text \<open>\<open>order\<close> is the order in which the goroutines get their turn.\<close>

definition cluster_peers :: "HubSender \<Rightarrow> int list" where
  "cluster_peers s =
     (case ServerByID (hs_Topo s) (hs_Self s) of
        None \<Rightarrow> []
      | Some srv \<Rightarrow> filter (\<lambda>i. i \<noteq> hs_Self s) (map srv_ID (ServersInCluster (hs_Topo s) (srv_Cluster srv))))"

definition HubSender_BroadcastCluster ::
    "crypto_ops \<Rightarrow> links \<Rightarrow> (int list \<Rightarrow> int list) \<Rightarrow> HubSender \<Rightarrow> envelope \<Rightarrow> (int \<Rightarrow> hub) \<Rightarrow> string option \<times> (int \<Rightarrow> hub)" where
  "HubSender_BroadcastCluster C K order s env W = send_every C K (hs_Self s) env (order (cluster_peers s)) W"

subsection \<open>What the engine sends\<close>

definition broadcast_as ::
    "crypto_ops \<Rightarrow> encoder \<Rightarrow> links \<Rightarrow> (int list \<Rightarrow> int list) \<Rightarrow> HubSender \<Rightarrow> string \<Rightarrow> payload \<Rightarrow> (int \<Rightarrow> hub) \<Rightarrow>
     string option \<times> (int \<Rightarrow> hub)" where
  "broadcast_as C E K order s typ m W =
     (case marshal E m of
        Inl err \<Rightarrow> (Some err, W)
      | Inr payload \<Rightarrow>
          HubSender_BroadcastCluster C K order s (HubSender_Sign C s W (NewEnvelope (hs_Self s) typ payload)) W)"

definition send_broadcastPrePrepare where
  "send_broadcastPrePrepare C E K order s msg = broadcast_as C E K order s ''PRE_PREPARE'' (MPrePrepare msg)"

definition broadcastPrepareCert where
  "broadcastPrepareCert C E K order s cert = broadcast_as C E K order s ''PREPARE_CERT'' (MPrepareCert cert)"

definition broadcastCommitCert where
  "broadcastCommitCert C E K order s cert = broadcast_as C E K order s ''COMMIT_CERT'' (MCommitCert cert)"

definition broadcastViewChange where
  "broadcastViewChange C E K order s msg = broadcast_as C E K order s ''VIEW_CHANGE'' (MViewChange msg)"

definition broadcastNewView where
  "broadcastNewView C E K order s msg = broadcast_as C E K order s ''NEW_VIEW'' (MNewView msg)"

definition broadcastDiscardSeq where
  "broadcastDiscardSeq C E K order s msg = broadcast_as C E K order s ''DISCARD_SEQ'' (MDiscardSeq msg)"

text \<open>A vote carries the signature of the vote, not of the envelope; an encoding error leaves the
  payload empty.\<close>

definition send_vote ::
    "crypto_ops \<Rightarrow> encoder \<Rightarrow> links \<Rightarrow> HubSender \<Rightarrow> int \<Rightarrow> string \<Rightarrow> payload \<Rightarrow> bytes \<Rightarrow> (int \<Rightarrow> hub) \<Rightarrow> (int \<Rightarrow> hub)" where
  "send_vote C E K s to typ m sig W =
     (let payload = (case marshal E m of Inl _ \<Rightarrow> [] | Inr b \<Rightarrow> b);
          env = (NewEnvelope (hs_Self s) typ payload)\<lparr>w_Signature := Some sig\<rparr>
      in snd (HubSender_Send C K s to env W))"

text \<open>What the model of the engine notes as an effect, sent.\<close>

fun send_effect ::
    "crypto_ops \<Rightarrow> encoder \<Rightarrow> links \<Rightarrow> (int list \<Rightarrow> int list) \<Rightarrow> HubSender \<Rightarrow> effect \<Rightarrow> (int \<Rightarrow> hub) \<Rightarrow> (int \<Rightarrow> hub)" where
  "send_effect C E K order s (ESend to (MPrepare m) sig) W = send_vote C E K s to ''PREPARE'' (MPrepare m) sig W"
| "send_effect C E K order s (ESend to (MCommit m) sig) W = send_vote C E K s to ''COMMIT'' (MCommit m) sig W"
| "send_effect C E K order s (EBroadcast (MPrePrepare m)) W = snd (send_broadcastPrePrepare C E K order s m W)"
| "send_effect C E K order s (EBroadcast (MPrepareCert m)) W = snd (broadcastPrepareCert C E K order s m W)"
| "send_effect C E K order s (EBroadcast (MCommitCert m)) W = snd (broadcastCommitCert C E K order s m W)"
| "send_effect C E K order s (EBroadcast (MViewChange m)) W = snd (broadcastViewChange C E K order s m W)"
| "send_effect C E K order s (EBroadcast (MNewView m)) W = snd (broadcastNewView C E K order s m W)"
| "send_effect C E K order s (EBroadcast (MDiscardSeq m)) W = snd (broadcastDiscardSeq C E K order s m W)"
| "send_effect C E K order s x W = W"

subsection \<open>What one send does to the hubs\<close>

definition received :: "crypto_ops \<Rightarrow> links \<Rightarrow> int \<Rightarrow> envelope \<Rightarrow> (int \<Rightarrow> hub) \<Rightarrow> int \<Rightarrow> hub" where
  "received C K self env W i = (if arrives K (W self) i env then snd (service_Send C (W i) env) else W i)"

definition acknowledged :: "crypto_ops \<Rightarrow> links \<Rightarrow> int \<Rightarrow> envelope \<Rightarrow> (int \<Rightarrow> hub) \<Rightarrow> int \<Rightarrow> bool" where
  "acknowledged C K self env W i \<longleftrightarrow>
     arrives K (W self) i env \<and> lk_Call K i = Answered \<and> \<not> isl (Deliver C (W i) env)"

text \<open>A send changes the sender's connections, to that peer only.\<close>

definition relinked :: "int set \<Rightarrow> hub \<Rightarrow> hub \<Rightarrow> bool" where
  "relinked A h h' \<longleftrightarrow> (\<exists>P. h' = h\<lparr>h_Peers := P\<rparr> \<and> P - A = h_Peers h - A)"

lemma relinked_refl [simp]: "relinked A h h"
  unfolding relinked_def by (rule exI [of _ "h_Peers h"]) simp

lemma relinked_trans: "relinked A h h' \<Longrightarrow> relinked B h' h'' \<Longrightarrow> relinked (A \<union> B) h h''"
  by (auto simp: relinked_def) blast

lemma relinked_insert: "relinked {i} h (h\<lparr>h_Peers := insert i (h_Peers h)\<rparr>)" "relinked {i} h (dropPeer h i)"
  by (auto simp: relinked_def dropPeer_def intro: exI [of _ "insert i (h_Peers h)"] exI [of _ "h_Peers h - {i}"])

lemma arrives_relinked:
  assumes "relinked A h h'" and "i \<notin> A"
  shows "arrives K h' i env = arrives K h i env"
proof -
  obtain P where P: "h' = h\<lparr>h_Peers := P\<rparr>" "P - A = h_Peers h - A" using assms(1) by (auto simp: relinked_def)
  then have "i \<in> P \<longleftrightarrow> i \<in> h_Peers h" using assms(2) by blast
  then show ?thesis by (auto simp: arrives_def peer_def P(1) split: option.splits fate.splits)
qed

lemma wire_Send_effect:
  assumes "to \<noteq> self" and "wire_Send C K self env to W = (err, W')"
  shows "relinked {to} (W self) (W' self)" "W' to = received C K self env W to"
    "j \<noteq> self \<Longrightarrow> j \<noteq> to \<Longrightarrow> W' j = W j"
    "err = None \<longleftrightarrow> acknowledged C K self env W to"
proof -
  let ?s = "Send (lk_Dial K) (wire_call C K W) (W self) to env"
  have err: "err = fst ?s" and W': "W' = (if arrives K (W self) to env
      then (W(self := snd ?s))(to := snd (service_Send C ((W(self := snd ?s)) to) env)) else W(self := snd ?s))"
    using assms(2) by (auto simp: wire_Send_def split: prod.splits if_splits)
  have "relinked {to} (W self) (snd ?s)"
  proof (cases "w_Signature env = None \<or> isl (peer (lk_Dial K) (W self) to)")
    case True then show ?thesis by (auto simp: Send_def split: sum.splits)
  next
    case False
    then obtain h where h: "peer (lk_Dial K) (W self) to = Inr h" by (cases "peer (lk_Dial K) (W self) to") auto
    then have "relinked {to} (W self) h" by (auto simp: peer_def relinked_insert split: if_splits option.splits)
    moreover have "relinked {to} h (snd ?s)" using False h by (auto simp: Send_def relinked_insert split: call_result.split)
    ultimately show ?thesis using relinked_trans by fastforce
  qed
  then show "relinked {to} (W self) (W' self)" using assms(1) by (simp add: W')
  show "W' to = received C K self env W to" "j \<noteq> self \<Longrightarrow> j \<noteq> to \<Longrightarrow> W' j = W j"
    using assms(1) by (simp_all add: W' received_def)
  show "err = None \<longleftrightarrow> acknowledged C K self env W to"
    by (auto simp: err Send_def acknowledged_def arrives_def wire_call_def service_Send_def isl_def
        split: sum.splits fate.splits)
qed

text \<open>The sends of a broadcast do not get in each other's way, whatever their order.\<close>

lemma send_every_effect:
  assumes "distinct js" and "self \<notin> set js" and "send_every C K self env js W = (err, W')"
  shows "relinked (set js) (W self) (W' self) \<and> (\<forall>i\<in>set js. W' i = received C K self env W i) \<and>
    (\<forall>j. j \<noteq> self \<longrightarrow> j \<notin> set js \<longrightarrow> W' j = W j) \<and> (err = None \<longleftrightarrow> (\<forall>i\<in>set js. acknowledged C K self env W i))"
  using assms
proof (induction js arbitrary: W err)
  case (Cons i js)
  obtain e1 W1 where s: "wire_Send C K self env i W = (e1, W1)" by (cases "wire_Send C K self env i W")
  obtain e2 where r: "send_every C K self env js W1 = (e2, W')" and err: "err = (if e1 = None then e2 else e1)"
    using Cons.prems(3) by (auto simp: s split: prod.splits)
  have i: "i \<noteq> self" "i \<notin> set js" using Cons.prems by auto
  note st = wire_Send_effect [OF i(1) s]
  note IH = Cons.IH [OF _ _ r]
  have same: "received C K self env W1 j = received C K self env W j" "acknowledged C K self env W1 j = acknowledged C K self env W j"
    if "j \<in> set js" for j
  proof -
    have j: "j \<noteq> self" "j \<noteq> i" using that i Cons.prems(2) by auto
    then show "received C K self env W1 j = received C K self env W j" "acknowledged C K self env W1 j = acknowledged C K self env W j"
      using arrives_relinked [OF st(1), of j] st(3) [OF j] by (simp_all add: received_def acknowledged_def)
  qed
  have "relinked (set (i # js)) (W self) (W' self)"
    using relinked_trans [OF st(1)] IH Cons.prems by auto
  moreover have "\<forall>j\<in>set (i # js). W' j = received C K self env W j"
    using IH Cons.prems i same st(2) by auto
  moreover have "\<forall>j. j \<noteq> self \<longrightarrow> j \<notin> set (i # js) \<longrightarrow> W' j = W j" using IH Cons.prems st(3) by auto
  moreover have "err = None \<longleftrightarrow> (\<forall>j\<in>set (i # js). acknowledged C K self env W j)"
    using IH Cons.prems same st(4) by (auto simp: err)
  ultimately show ?case by blast
qed simp

subsection \<open>The sender of the two-phase commit\<close>

record HubMessenger =
  hm_Self :: int

definition NewHubMessenger :: "int \<Rightarrow> HubMessenger" where
  "NewHubMessenger self = \<lparr>hm_Self = self\<rparr>"

definition HubMessenger_Sign :: "crypto_ops \<Rightarrow> HubMessenger \<Rightarrow> (int \<Rightarrow> hub) \<Rightarrow> envelope \<Rightarrow> envelope" where
  "HubMessenger_Sign C m W env = Sign C (W (hm_Self m)) env"

definition HubMessenger_Send ::
    "crypto_ops \<Rightarrow> links \<Rightarrow> HubMessenger \<Rightarrow> int \<Rightarrow> envelope \<Rightarrow> (int \<Rightarrow> hub) \<Rightarrow> string option \<times> (int \<Rightarrow> hub)" where
  "HubMessenger_Send C K m to env W = wire_Send C K (hm_Self m) env to W"

fun send_in_turn :: "crypto_ops \<Rightarrow> links \<Rightarrow> HubMessenger \<Rightarrow> envelope \<Rightarrow> int list \<Rightarrow> (int \<Rightarrow> hub) \<Rightarrow> string option \<times> (int \<Rightarrow> hub)" where
  "send_in_turn C K m env [] W = (None, W)"
| "send_in_turn C K m env (i # is) W =
     (if i = hm_Self m then send_in_turn C K m env is W
      else case HubMessenger_Send C K m i env W of
             (Some err, W) \<Rightarrow> (Some err, W)
           | (None, W) \<Rightarrow> send_in_turn C K m env is W)"

definition wire_SendToCluster ::
    "crypto_ops \<Rightarrow> links \<Rightarrow> topology \<Rightarrow> HubMessenger \<Rightarrow> int \<Rightarrow> envelope \<Rightarrow> (int \<Rightarrow> hub) \<Rightarrow> string option \<times> (int \<Rightarrow> hub)" where
  "wire_SendToCluster C K t m cluster env W =
     send_in_turn C K m (HubMessenger_Sign C m W env) (map srv_ID (ServersInCluster t cluster)) W"

text \<open>The list of servers that \<open>Twopc\<close> notes as sent to is what the wire does: each of them has taken
  the envelope, and of the others at most the one at which the loop stopped has.\<close>

lemma send_in_turn_effect:
  assumes "distinct js" and "send_in_turn C K m env js W = (err, W')"
    and "send_each (acknowledged C K (hm_Self m) env W) (hm_Self m) js = (sent, ok)"
  shows "(err = None \<longleftrightarrow> ok) \<and> set sent \<subseteq> set js - {hm_Self m} \<and>
    (\<forall>i\<in>set sent. W' i = snd (service_Send C (W i) env)) \<and>
    (\<exists>stop. set_option stop \<subseteq> set js \<and> (\<forall>j. j \<noteq> hm_Self m \<longrightarrow> j \<notin> set sent \<longrightarrow> W' j = (if stop = Some j then received C K (hm_Self m) env W j else W j)))"
  using assms
proof (induction js arbitrary: W sent)
  case (Cons i js)
  let ?s = "hm_Self m"
  show ?case
  proof (cases "i = ?s")
    case True
    then have r: "distinct js" "send_in_turn C K m env js W = (err, W')"
        "send_each (acknowledged C K ?s env W) ?s js = (sent, ok)" using Cons.prems by simp_all
    have "set_option stop \<subseteq> set (i # js)" if "set_option stop \<subseteq> set js" for stop using that by auto
    then show ?thesis using Cons.IH [OF r] by (meson Diff_mono equalityD1 order_trans set_subset_Cons)
  next
    case False
    obtain e1 W1 where w: "wire_Send C K ?s env i W = (e1, W1)" by (cases "wire_Send C K ?s env i W")
    note st = wire_Send_effect [OF False w]
    show ?thesis
    proof (cases e1)
      case (Some x)
      then have up: "\<not> acknowledged C K ?s env W i" using st(4) by simp
      then have "sent = []" "\<not> ok" "err = Some x" "W' = W1"
        using Cons.prems(2,3) False by (simp_all add: HubMessenger_Send_def w Some)
      then show ?thesis using st(2,3) by (auto intro!: exI [of _ "Some i"])
    next
      case None
      then have up: "acknowledged C K ?s env W i" using st(4) by simp
      have i: "i \<notin> set js" "distinct js" using Cons.prems(1) by simp_all
      have same: "acknowledged C K ?s env W1 j = acknowledged C K ?s env W j" "received C K ?s env W1 j = received C K ?s env W j"
        if "j \<noteq> ?s" "j \<noteq> i" for j
        using arrives_relinked [OF st(1), of j] st(3) [OF that] that by (simp_all add: acknowledged_def received_def)
      have cong: "send_each (acknowledged C K ?s env W) ?s ks = send_each (acknowledged C K ?s env W1) ?s ks" if "i \<notin> set ks" for ks
        using that by (induction ks) (auto simp: same)
      obtain sent' where r: "send_in_turn C K m env js W1 = (err, W')"
        "send_each (acknowledged C K ?s env W1) ?s js = (sent', ok)" and sent: "sent = i # sent'"
        using Cons.prems(2,3) False up by (auto simp: HubMessenger_Send_def w None cong [OF i(1)] split: prod.splits)
      note IH = Cons.IH [OF i(2) r]
      have sub: "set sent' \<subseteq> set js - {?s}" using IH by blast
      obtain stop where stop: "set_option stop \<subseteq> set js" "\<forall>j. j \<noteq> ?s \<longrightarrow> j \<notin> set sent' \<longrightarrow> W' j = (if stop = Some j then received C K ?s env W1 j else W1 j)"
        using IH by blast
      have old: "W1 j = W j" if "j \<noteq> ?s" "j \<noteq> i" for j using st(3) that by blast
      have "i \<notin> set sent'" "stop \<noteq> Some i" using sub stop(1) i(1) by auto
      then have "W' i = W1 i" using stop(2) False by simp
      then have "W' i = snd (service_Send C (W i) env)" using st(2) up by (simp add: received_def acknowledged_def)
      moreover have "W' j = snd (service_Send C (W j) env)" if "j \<in> set sent'" for j
      proof -
        have "j \<noteq> ?s" "j \<noteq> i" using sub that i(1) by auto
        then show ?thesis using IH that old by metis
      qed
      ultimately have "\<forall>j\<in>set sent. W' j = snd (service_Send C (W j) env)" by (simp add: sent)
      moreover have "set_option stop \<subseteq> set (i # js) \<and> (\<forall>j. j \<noteq> ?s \<longrightarrow> j \<notin> set sent \<longrightarrow> W' j = (if stop = Some j then received C K ?s env W j else W j))"
        using stop old same(2) by (auto simp: sent)
      moreover have "err = None \<longleftrightarrow> ok" "set sent \<subseteq> set (i # js) - {?s}" using IH sub False by (auto simp: sent)
      ultimately show ?thesis by blast
    qed
  qed
qed simp

subsection \<open>From one engine to the others\<close>

fun broadcast_type :: "payload \<Rightarrow> string" where
  "broadcast_type (MPrePrepare m) = ''PRE_PREPARE''"
| "broadcast_type (MPrepareCert m) = ''PREPARE_CERT''"
| "broadcast_type (MCommitCert m) = ''COMMIT_CERT''"
| "broadcast_type (MViewChange m) = ''VIEW_CHANGE''"
| "broadcast_type (MNewView m) = ''NEW_VIEW''"
| "broadcast_type (MDiscardSeq m) = ''DISCARD_SEQ''"
| "broadcast_type m = []"

lemma send_effect_broadcast:
  "broadcast_type m \<noteq> [] \<Longrightarrow> send_effect C E K order s (EBroadcast m) W = snd (broadcast_as C E K order s (broadcast_type m) m W)"
  by (cases m)
     (simp_all add: send_broadcastPrePrepare_def broadcastPrepareCert_def broadcastCommitCert_def broadcastViewChange_def
        broadcastNewView_def broadcastDiscardSeq_def)

lemma decode_marshal:
  "codec_ok E J \<Longrightarrow> marshal E m = Inr b \<Longrightarrow> broadcast_type m \<noteq> [] \<Longrightarrow>
   IsPBFT (broadcast_type m) \<and> decode_pbft J (broadcast_type m) b = m"
  by (cases m) (auto simp: codec_ok_def decode_pbft_def decoded_def IsPBFT_def)

lemma broadcast_type_checked: "broadcast_type m \<notin> {''CLIENT_REQUEST'', ''PREPARE'', ''COMMIT''}"
  by (cases m) simp_all

lemma own_signature_delivers:
  assumes "0 < self" and "typ \<notin> {''CLIENT_REQUEST'', ''PREPARE'', ''COMMIT''}"
    and "\<forall>x. ring_Verify C (h_Ring h) self x (ring_Sign C (h_Ring h') x)"
  shows "Deliver C h (Sign C h' (NewEnvelope self typ b)) = Inject h (Sign C h' (NewEnvelope self typ b))"
  using assms by (simp add: Deliver_def Verify_def SenderID_def Sign_def NewEnvelope_def SigningBytesFromEnvelope_def)

definition reachable :: "links \<Rightarrow> hub \<Rightarrow> int \<Rightarrow> bool" where
  "reachable K h i \<longleftrightarrow> \<not> isl (peer (lk_Dial K) h i) \<and> (case lk_Call K i of RequestLost _ \<Rightarrow> False | _ \<Rightarrow> True)"

text \<open>C6: What one engine broadcasts, the others handle. When JSON reads back what it wrote and the peers
  hold the sender's key, a message the engine broadcasts is appended as one envelope to the queue
  of every other server of its cluster that can be reached and has room, in whatever order the
  sending goroutines run and whatever happens to the calls to the others; no other queue changes.
  When a peer takes the envelope from its queue, its engine handles exactly that message, from
  exactly that sender.\<close>

theorem broadcast_delivers:
  assumes codec: "codec_ok E J" "marshal E m = Inr b" "broadcast_type m \<noteq> []"
    and keys: "0 < hs_Self s" "\<forall>i\<in>set (cluster_peers s). \<forall>x. ring_Verify C (h_Ring (W i)) (hs_Self s) x (ring_Sign C (h_Ring (W (hs_Self s))) x)"
    and peers: "distinct (cluster_peers s)" "\<forall>xs. mset (order xs) = mset xs"
  shows "\<exists>env. let W' = send_effect C E K order s (EBroadcast m) W in
    (\<forall>i\<in>set (cluster_peers s). W' i =
       (if reachable K (W (hs_Self s)) i \<and> length (h_Inbound (W i)) < h_InboundCap (W i)
        then (W i)\<lparr>h_Inbound := h_Inbound (W i) @ [env]\<rparr> else W i)) \<and>
    (\<forall>j. j \<noteq> hs_Self s \<longrightarrow> j \<notin> set (cluster_peers s) \<longrightarrow> W' j = W j) \<and>
    (\<exists>sig. \<forall>I N r. dispatch C J I N env r = with_hooks C (net_up N) (on_engine (\<lambda>e. Handle C I e
       \<lparr>env_SenderId = hs_Self s, env_Payload = m, env_Signature = sig\<rparr>)) r)"
proof -
  let ?self = "hs_Self s"
  define env where "env = Sign C (W ?self) (NewEnvelope ?self (broadcast_type m) b)"
  let ?r = "send_every C K ?self env (order (cluster_peers s)) W" and ?W' = "send_effect C E K order s (EBroadcast m) W"
  have W': "?W' = snd ?r"
    using codec by (simp add: send_effect_broadcast broadcast_as_def HubSender_BroadcastCluster_def HubSender_Sign_def env_def)
  have set: "set (order (cluster_peers s)) = set (cluster_peers s)" using peers(2) by (metis set_mset_mset)
  have "mset (order (cluster_peers s)) = mset (cluster_peers s)" using peers(2) by simp
  then have dist: "distinct (order (cluster_peers s))" using mset_eq_imp_distinct_iff peers(1) by blast
  have self: "?self \<notin> set (cluster_peers s)" by (simp add: cluster_peers_def split: option.split)
  from send_every_effect [OF dist, of ?self C K env W "fst ?r" "snd ?r"]
  have eff: "\<forall>i\<in>set (cluster_peers s). snd ?r i = received C K ?self env W i"
      "\<forall>j. j \<noteq> ?self \<longrightarrow> j \<notin> set (cluster_peers s) \<longrightarrow> snd ?r j = W j"
    using self by (simp_all add: set)
  have rec: "received C K ?self env W i = (if reachable K (W ?self) i \<and> length (h_Inbound (W i)) < h_InboundCap (W i)
        then (W i)\<lparr>h_Inbound := h_Inbound (W i) @ [env]\<rparr> else W i)" if "i \<in> set (cluster_peers s)" for i
  proof -
    have "Deliver C (W i) env = Inject (W i) env"
      unfolding env_def by (rule own_signature_delivers [OF keys(1) broadcast_type_checked]) (use keys(2) that in blast)
    moreover have "arrives K (W ?self) i env = reachable K (W ?self) i" by (simp add: arrives_def reachable_def env_def Sign_def)
    ultimately show ?thesis by (simp add: received_def service_Send_def Inject_def)
  qed
  have hnd: "\<forall>I N r. dispatch C J I N env r = with_hooks C (net_up N) (on_engine (\<lambda>e. Handle C I e
       \<lparr>env_SenderId = ?self, env_Payload = m, env_Signature = (case w_Signature env of None \<Rightarrow> [] | Some s \<Rightarrow> s)\<rparr>)) r"
    using decode_marshal [OF codec] by (simp add: dispatch_def env_def Sign_def NewEnvelope_def)
  show ?thesis
    unfolding W' Let_def
  proof (intro exI [of _ env] conjI ballI)
    fix i assume i: "i \<in> set (cluster_peers s)"
    show "snd ?r i = (if reachable K (W ?self) i \<and> length (h_Inbound (W i)) < h_InboundCap (W i)
        then (W i)\<lparr>h_Inbound := h_Inbound (W i) @ [env]\<rparr> else W i)"
      using eff(1) rec [OF i] i by metis
  qed (rule eff(2), rule exI, rule hnd)
qed

text \<open>An encoding of one message, for the example: server 3 cannot be dialled.\<close>

definition sample_cert_msg :: CertificateMsg where
  "sample_cert_msg = \<lparr>cm_Seq = 1, cm_View = 0, cm_Digest = ''d'', cm_Sigs = []\<rparr>"

definition sample_encoder :: encoder where
  "sample_encoder = \<lparr>enc_Request = \<lambda>_. Inl [], enc_PrePrepare = \<lambda>_. Inl [], enc_Phase = \<lambda>_. Inl [],
     enc_Cert = \<lambda>m. if m = sample_cert_msg then Inr ''c'' else Inl [], enc_ViewChange = \<lambda>_. Inl [],
     enc_NewView = \<lambda>_. Inl [], enc_DiscardSeq = \<lambda>_. Inl []\<rparr>"

definition sample_links :: links where
  "sample_links = \<lparr>lk_Dial = \<lambda>i. if i = 3 then Some ''refused'' else None, lk_Call = \<lambda>_. Answered\<rparr>"

definition sample_hubs :: "int \<Rightarrow> hub" where
  "sample_hubs i = NewHub i sample_topo (sample_ring i) 256"

lemma sample_keys: "1 \<le> i \<Longrightarrow> i \<le> 8 \<Longrightarrow> ring_Verify plain_crypto (sample_ring j) i x (ring_Sign plain_crypto (sample_ring i) x)"
proof -
  assume "1 \<le> i" "i \<le> 8"
  then have "i \<in> set [1..8]" by simp
  then have "map_of (map (\<lambda>k. (k, sample_key k)) [1..8]) i = Some (sample_key i)" by (simp add: map_of_map_restrict)
  then show ?thesis
    by (simp add: ring_Verify_def PublicKey_def ring_Sign_def sample_ring_def plain_crypto_def)
qed

lemma sample_cluster_peers: "cluster_peers (NewHubSender sample_topo 1 0) = [2, 3, 4]"
  by (simp add: cluster_peers_def NewHubSender_def ServerByID_def ServersInCluster_def)

theorem broadcast_delivers_witness:
  "let W = send_effect plain_crypto sample_encoder sample_links rev (NewHubSender sample_topo 1 0)
             (EBroadcast (MPrepareCert sample_cert_msg)) sample_hubs
   in h_Inbound (W 3) = [] \<and> length (h_Inbound (W 2)) = 1 \<and> h_Inbound (W 4) = h_Inbound (W 2)"
proof -
  define J where "J = sample_codec\<lparr>dec_Cert := \<lambda>_. Some sample_cert_msg\<rparr>"
  let ?s = "NewHubSender sample_topo 1 0"
  have codec: "codec_ok sample_encoder J"
    by (simp add: codec_ok_def sample_encoder_def J_def)
  have enc: "marshal sample_encoder (MPrepareCert sample_cert_msg) = Inr ''c''" by (simp add: sample_encoder_def)
  have self: "hs_Self ?s = 1" by (simp add: NewHubSender_def)
  have keys: "\<forall>i\<in>set (cluster_peers ?s). \<forall>x. ring_Verify plain_crypto (h_Ring (sample_hubs i)) (hs_Self ?s) x
      (ring_Sign plain_crypto (h_Ring (sample_hubs (hs_Self ?s))) x)"
    by (simp add: sample_hubs_def NewHub_def self sample_keys)
  have reach: "reachable sample_links (sample_hubs 1) 2" "\<not> reachable sample_links (sample_hubs 1) 3"
      "reachable sample_links (sample_hubs 1) 4"
    by (simp_all add: reachable_def sample_links_def peer_def sample_hubs_def NewHub_def ServerByID_def)
  have hubs: "h_Inbound (sample_hubs i) = []" "h_InboundCap (sample_hubs i) = 256" for i
    by (simp_all add: sample_hubs_def NewHub_def)
  obtain env where "\<forall>i\<in>set (cluster_peers ?s).
      send_effect plain_crypto sample_encoder sample_links rev ?s (EBroadcast (MPrepareCert sample_cert_msg)) sample_hubs i =
       (if reachable sample_links (sample_hubs (hs_Self ?s)) i \<and> length (h_Inbound (sample_hubs i)) < h_InboundCap (sample_hubs i)
        then (sample_hubs i)\<lparr>h_Inbound := h_Inbound (sample_hubs i) @ [env]\<rparr> else sample_hubs i)"
    using broadcast_delivers [OF codec enc _ _ keys, where order = rev and K = sample_links]
    by (simp add: self sample_cluster_peers Let_def) blast
  then show ?thesis using reach by (simp add: sample_cluster_peers self hubs Let_def)
qed

end
