(* ===== verification/Floats.thy ===== *)
theory Floats
  imports Complex_Main Prelude
begin

text \<open>
  Go's \<open>float64\<close> and the formatting of numbers and durations, as far as the reports of the drivers
  use them. A finite float is the rational number it stands for; an operation is the exact one
  followed by rounding to 53 significant bits, to nearest with ties to even. Numbers here are far
  from overflow and underflow.
\<close>

subsection \<open>Rounding to 53 bits\<close>

fun bit_len :: "nat \<Rightarrow> nat" where
  "bit_len n = (if n = 0 then 0 else Suc (bit_len (n div 2)))"

declare bit_len.simps [simp del]

lemma bit_len_bounds: "0 < n \<Longrightarrow> 2 ^ bit_len n \<le> 2 * n \<and> n < 2 ^ bit_len n"
proof (induction n rule: bit_len.induct)
  case (1 n)
  show ?case
  proof (cases "n div 2 = 0")
    case True
    then have "n = 1" using 1(2) by (simp add: div_eq_0_iff) 
    then show ?thesis by (simp add: bit_len.simps [of "Suc 0"] bit_len.simps [of 0])
  next
    case False
    then have IH: "2 ^ bit_len (n div 2) \<le> 2 * (n div 2)" "n div 2 < 2 ^ bit_len (n div 2)"
      using 1(1) 1(2) by simp_all
    have "bit_len n = Suc (bit_len (n div 2))" using 1(2) by (simp add: bit_len.simps [of n])
    moreover have "2 * (n div 2) \<le> n" "n < 2 * (n div 2 + 1)" by simp_all
    ultimately show ?thesis using IH by simp
  qed
qed

text \<open>The exponent of a positive number: \<open>2 ^ exponent x \<le> x < 2 ^ (exponent x + 1)\<close>.\<close>

definition exponent :: "rat \<Rightarrow> int" where
  "exponent x = (case quotient_of x of (n, d) \<Rightarrow>
     let b = int (bit_len (nat n)) - int (bit_len (nat d)) in if 2 powi b \<le> x then b else b - 1)"

lemma ratio_bounds:
  fixes n d p q :: rat
  assumes "0 < n" "0 < d" "p \<le> 2 * n" "n < p" "q \<le> 2 * d" "d < q"
  shows "p / q / 2 \<le> n / d" "n / d < p / q * 2"
proof -
  have "p * d \<le> 2 * n * d" using assms by (intro mult_right_mono) simp_all
  also have "\<dots> \<le> 2 * n * q" using assms by (intro mult_left_mono) simp_all
  finally show "p / q / 2 \<le> n / d" using assms by (simp add: field_simps)
  have "n * q \<le> n * (2 * d)" using assms by (intro mult_left_mono) simp_all
  also have "\<dots> < p * (2 * d)" using assms by (intro mult_strict_right_mono) simp_all
  finally show "n / d < p / q * 2" using assms by (simp add: field_simps)
qed

lemma exponent_bounds:
  assumes "0 < x"
  shows "2 powi exponent x \<le> x" "x < 2 powi (exponent x + 1)"
proof -
  obtain n d where q: "quotient_of x = (n, d)" by fastforce
  have d: "0 < d" using quotient_of_denom_pos [OF q] .
  have x: "x = of_int n / of_int d" by (rule quotient_of_div [OF q])
  have n: "0 < n" using assms d by (simp add: x zero_less_divide_iff)
  define a where "a = bit_len (nat n)"
  define c where "c = bit_len (nat d)"
  have cast: "(2 :: rat) ^ bit_len (nat k) \<le> 2 * of_int k \<and> of_int k < (2 :: rat) ^ bit_len (nat k)" if "0 < k" for k
  proof -
    have "of_nat (2 ^ bit_len (nat k)) \<le> (of_nat (2 * nat k) :: rat)" "(of_nat (nat k) :: rat) < of_nat (2 ^ bit_len (nat k))"
      using bit_len_bounds [of "nat k"] that by (simp_all only: of_nat_le_iff of_nat_less_iff zero_less_nat_eq)
    then show ?thesis using that by simp
  qed
  have b: "2 powi (int a - int c) / 2 \<le> x" "x < 2 powi (int a - int c) * 2"
    using ratio_bounds [of "of_int n" "of_int d" "2 ^ a" "2 ^ c"] cast [OF n] cast [OF d] n d
    by (simp_all add: x power_int_diff a_def c_def)
  have e: "exponent x = (if 2 powi (int a - int c) \<le> x then int a - int c else int a - int c - 1)"
    by (simp add: exponent_def q a_def c_def Let_def)
  show "2 powi exponent x \<le> x" "x < 2 powi (exponent x + 1)"
    using b by (auto simp: e power_int_diff power_int_add)
qed

definition round_even :: "rat \<Rightarrow> int" where
  "round_even x = (let f = \<lfloor>x\<rfloor>; r = x - of_int f in if r < 1/2 \<or> r = 1/2 \<and> even f then f else f + 1)"

lemma round_even_error: "\<bar>of_int (round_even x) - x\<bar> \<le> 1/2"
proof -
  have "of_int \<lfloor>x\<rfloor> \<le> x" "x < of_int \<lfloor>x\<rfloor> + 1" by linarith+
  then show ?thesis by (auto simp: round_even_def Let_def)
qed

lemma round_even_int [simp]: "round_even (of_int n) = n"
  by (simp add: round_even_def)

definition round_pos :: "rat \<Rightarrow> rat" where
  "round_pos x = (let u = 2 powi (exponent x - 52) in of_int (round_even (x / u)) * u)"

definition fl :: "rat \<Rightarrow> rat" where
  "fl x = (if x = 0 then 0 else if x < 0 then - round_pos (- x) else round_pos x)"

text \<open>The relative error is at most \<open>2 ^ -53\<close>.\<close>

lemma round_pos_error:
  assumes "0 < x"
  shows "\<bar>round_pos x - x\<bar> \<le> x / 2 ^ 53"
proof -
  define u :: rat where "u = 2 powi (exponent x - 52)"
  have u: "0 < u" by (simp add: u_def)
  have "\<bar>of_int (round_even (x / u)) - x / u\<bar> * u \<le> 1/2 * u"
    using round_even_error [of "x / u"] u by (intro mult_right_mono) simp_all
  moreover have "\<bar>of_int (round_even (x / u)) - x / u\<bar> * u = \<bar>(of_int (round_even (x / u)) - x / u) * u\<bar>"
    using u by (simp add: abs_mult)
  moreover have "(of_int (round_even (x / u)) - x / u) * u = of_int (round_even (x / u)) * u - x"
    using u by (simp add: left_diff_distrib)
  moreover have "1/2 * u = 2 powi exponent x / 2 ^ 53" by (simp add: u_def power_int_diff)
  ultimately show ?thesis
    using exponent_bounds(1) [OF assms] by (simp add: round_pos_def Let_def u_def [symmetric] field_simps)
qed

lemma fl_error: "\<bar>fl x - x\<bar> \<le> \<bar>x\<bar> / 2 ^ 53"
proof (cases "x < 0")
  case True
  then have "\<bar>round_pos (- x) - - x\<bar> \<le> \<bar>x\<bar> / 2 ^ 53" using round_pos_error [of "- x"] by simp
  moreover have "\<bar>fl x - x\<bar> = \<bar>round_pos (- x) - - x\<bar>" using True by (simp add: fl_def)
  ultimately show ?thesis by simp
qed (use round_pos_error [of x] in \<open>simp add: fl_def\<close>)

lemma fl_bounds:
  assumes "0 \<le> x"
  shows "fl x \<le> x * (1 + 1 / 2 ^ 53)" "x * (1 - 1 / 2 ^ 53) \<le> fl x"
proof -
  have "fl x - x \<le> x / 2 ^ 53" "- (fl x - x) \<le> x / 2 ^ 53" using fl_error [of x] assms by linarith+
  then show "fl x \<le> x * (1 + 1 / 2 ^ 53)" "x * (1 - 1 / 2 ^ 53) \<le> fl x" by (simp_all add: algebra_simps)
qed

lemma fl_nonneg: "0 \<le> x \<Longrightarrow> 0 \<le> fl x"
  using fl_bounds(2) [of x] mult_nonneg_nonneg [of x "1 - 1 / 2 ^ 53"] by simp

text \<open>Seconds of a duration in nanoseconds.\<close>

definition Seconds :: "int \<Rightarrow> rat" where
  "Seconds d = fl (fl (of_int (go_div d 1000000000)) + fl (fl (of_int (go_mod d 1000000000)) / 1000000000))"

subsection \<open>Text\<close>

text \<open>\<open>%.kf\<close>: the exact value of the float, rounded to \<open>k\<close> decimals with ties to even.\<close>

definition pad_left :: "char \<Rightarrow> nat \<Rightarrow> string \<Rightarrow> string" where
  "pad_left c n s = replicate (n - length s) c @ s"

definition fixed :: "nat \<Rightarrow> rat \<Rightarrow> string" where
  "fixed k x =
     (let n = round_even (\<bar>x\<bar> * 10 ^ k); digits = itoa (n div 10 ^ k);
          frac = (if k = 0 then [] else CHR ''.'' # pad_left CHR ''0'' k (itoa (n mod 10 ^ k)))
      in (if x < 0 then ''-'' else []) @ digits @ frac)"

text \<open>\<open>Duration.Round\<close> and \<open>Duration.String\<close>; a duration is far from the ends of its range.\<close>

definition Round :: "int \<Rightarrow> int \<Rightarrow> int" where
  "Round m d =
     (if m \<le> 0 then d
      else (let r = go_mod d m in
            if d < 0 then (if - r + - r < m then d - r else d - m - r)
            else if r + r < m then d - r else d + m - r))"

fun strip_zeros :: "string \<Rightarrow> string" where
  "strip_zeros [] = []"
| "strip_zeros (c # cs) = (case strip_zeros cs of [] \<Rightarrow> if c = CHR ''0'' then [] else [c] | s \<Rightarrow> c # s)"

definition fraction :: "int \<Rightarrow> nat \<Rightarrow> string" where
  "fraction v prec =
     (let r = v mod 10 ^ prec in if r = 0 then [] else CHR ''.'' # strip_zeros (pad_left CHR ''0'' prec (itoa r)))"

definition micro_s :: string where
  "micro_s = [char_of (194 :: nat), char_of (181 :: nat), CHR ''s'']"

definition duration_abs :: "int \<Rightarrow> string" where
  "duration_abs u =
     (if u = 0 then ''0s''
      else if u < 1000 then itoa u @ ''ns''
      else if u < 1000000 then itoa (u div 1000) @ fraction u 3 @ micro_s
      else if u < 1000000000 then itoa (u div 1000000) @ fraction u 6 @ ''ms''
      else (let s = u div 1000000000; m = s div 60; h = m div 60 in
            (if h > 0 then itoa h @ ''h'' else []) @ (if m > 0 then itoa (m mod 60) @ ''m'' else []) @
            itoa (s mod 60) @ fraction u 9 @ ''s''))"

definition Duration_String :: "int \<Rightarrow> string" where
  "Duration_String d = (if d < 0 then CHR ''-'' # duration_abs (- d) else duration_abs d)"

text \<open>A duration rounded to milliseconds, as the reports print it.\<close>

definition dur_ms :: "int \<Rightarrow> string" where
  "dur_ms d = Duration_String (Round 1000000 d)"

lemma Round_near: "0 \<le> d \<Longrightarrow> 0 < m \<Longrightarrow> m dvd Round m d \<and> 2 * \<bar>Round m d - d\<bar> \<le> m"
proof -
  assume d: "0 \<le> d" and m: "0 < m"
  have r: "go_mod d m = d mod m" using d m by (simp add: go_mod_def go_div_nonneg minus_div_mult_eq_mod)
  have "0 \<le> d mod m" "d mod m < m" using m by simp_all
  moreover have "m dvd d - d mod m" by (simp add: dvd_minus_mod)
  then have "m dvd d - d mod m" "m dvd d + m - d mod m" by (metis, metis add.commute add_diff_eq dvd_add_triv_left_iff)
  moreover have "\<bar>m - d mod m\<bar> = m - d mod m" using pos_mod_bound [OF m, of d] by (simp only: abs_of_pos diff_gt_0_iff_gt)
  ultimately show "m dvd Round m d \<and> 2 * \<bar>Round m d - d\<bar> \<le> m"
    using d m by (auto simp: Round_def r Let_def)
qed

end
