(* ===== verification/Report.thy ===== *)
theory Report
  imports Smallbank Floats
begin

text \<open>
  What the drivers print about a run: the benchmark's statistics and report
  (\<open>internal/smallbank/metrics.go\<close>), its progress bar (\<open>progress.go\<close>) and the runner's performance
  line (\<open>internal/testcase/metrics.go\<close>). Times are nanoseconds since some moment; \<open>None\<close> is Go's
  zero time, which is before all others.
\<close>

subsection \<open>Times\<close>

definition time_before :: "int option \<Rightarrow> int option \<Rightarrow> bool" where
  "time_before a b = (case b of None \<Rightarrow> False | Some y \<Rightarrow> (case a of None \<Rightarrow> True | Some x \<Rightarrow> x < y))"

text \<open>\<open>Time.Sub\<close> saturates: the zero time is centuries away.\<close>

definition time_sub :: "int option \<Rightarrow> int option \<Rightarrow> int" where
  "time_sub a b =
     (case (a, b) of
        (None, None) \<Rightarrow> 0
      | (None, Some _) \<Rightarrow> - (2 ^ 63)
      | (Some _, None) \<Rightarrow> 2 ^ 63 - 1
      | (Some x, Some y) \<Rightarrow> x - y)"

subsection \<open>Statistics\<close>

text \<open>The index of a percentile: \<open>int(float64(n) * p)\<close>, \<open>p\<close> the float nearest to the constant.\<close>

definition percentile_index :: "rat \<Rightarrow> int \<Rightarrow> int" where
  "percentile_index p n = \<lfloor>fl (fl (of_int n) * fl p)\<rfloor>"

record bucketStats =
  bs_Count :: int
  bs_Committed :: int
  bs_Mean :: int
  bs_P50 :: int
  bs_P95 :: int
  bs_P99 :: int
  bs_Throughput :: rat
  bs_Wall :: int

definition no_stats :: bucketStats where
  "no_stats = \<lparr>bs_Count = 0, bs_Committed = 0, bs_Mean = 0, bs_P50 = 0, bs_P95 = 0, bs_P99 = 0, bs_Throughput = 0, bs_Wall = 0\<rparr>"

text \<open>One sample in the loop: (committed, latencies, total, first send, last reply).\<close>

type_synonym stats_acc = "int \<times> int list \<times> int \<times> int option \<times> int option"

definition stats_one :: "SampleRecord \<Rightarrow> stats_acc \<Rightarrow> stats_acc" where
  "stats_one r acc =
     (case acc of (committed, lats, tot, first, last_reply) \<Rightarrow>
        (let first = (if first = None \<or> time_before (sm_SentAt r) first then sm_SentAt r else first) in
         if sm_Committed r then
           (committed + 1, lats @ [sm_Latency r], tot + sm_Latency r, first,
            if sm_RepliedAt r \<noteq> None \<and> (last_reply = None \<or> time_before last_reply (sm_RepliedAt r))
            then sm_RepliedAt r else last_reply)
         else (committed, lats, tot, first, last_reply)))"

definition stats :: "(SampleRecord \<Rightarrow> bool) \<Rightarrow> WorkloadMetrics \<Rightarrow> bucketStats" where
  "stats keep m =
     (let samples = filter keep (wm_Records m) in
      if samples = [] then no_stats
      else case fold stats_one samples (0, [], 0, None, None) of
             (committed, lats, tot, first, last_reply) \<Rightarrow>
               (let s = no_stats\<lparr>bs_Count := int (length samples), bs_Committed := committed\<rparr> in
                if committed = 0 then s
                else (let wall = time_sub last_reply first; wall = (if wall \<le> 0 then 1000000 else wall)
                      in s\<lparr>bs_Mean := go_div tot committed,
                           bs_P50 := percentile lats (percentile_index (50/100)),
                           bs_P95 := percentile lats (percentile_index (95/100)),
                           bs_P99 := percentile lats (percentile_index (99/100)),
                           bs_Wall := wall,
                           bs_Throughput := fl (fl (of_int committed) / Seconds wall)\<rparr>)))"

definition latency_text :: "bucketStats \<Rightarrow> string" where
  "latency_text s = '' mean='' @ dur_ms (bs_Mean s) @ '' p50='' @ dur_ms (bs_P50 s) @ '' p95='' @ dur_ms (bs_P95 s) @
     '' p99='' @ dur_ms (bs_P99 s)"

definition bucket_text :: "bucketStats \<Rightarrow> string" where
  "bucket_text s = ''committed='' @ itoa (bs_Committed s) @ ''/'' @ itoa (bs_Count s) @
     '' throughput='' @ fixed 3 (bs_Throughput s) @ '' txns/s''"

definition newline :: string where
  "newline = [char_of (10 :: nat)]"

definition Report :: "WorkloadMetrics \<Rightarrow> string" where
  "Report m =
     (let all = stats (\<lambda>_. True) m; intra = stats (\<lambda>r. \<not> sm_CrossShard r) m; cross = stats sm_CrossShard m;
          writes = stats (\<lambda>r. sm_Kind r \<noteq> KindBalance \<and> sm_Committed r) m
      in ''SmallBank metrics:'' @ newline @
         ''  overall:  '' @ bucket_text all @ '' wall='' @ dur_ms (bs_Wall all) @ latency_text all @ newline @
         ''  writes:   committed='' @ itoa (bs_Committed writes) @ '' (excl. Bal) throughput='' @
           fixed 3 (bs_Throughput writes) @ '' txns/s mean='' @ dur_ms (bs_Mean writes) @ newline @
         ''  intra:    '' @ bucket_text intra @ latency_text intra @ newline @
         ''  cross:    '' @ bucket_text cross @ latency_text cross @ newline @
         ''  penalties applied: '' @ itoa (sint (wm_Penalties m)))"

text \<open>The runner's line; \<open>Testcase\<close> has the figures.\<close>

definition Performance :: "txnRecord list \<Rightarrow> string" where
  "Performance m =
     (case Metrics_Snapshot m of (committed, wall, meanLat) \<Rightarrow>
        if committed = 0 then ''Performance: no committed transactions''
        else ''Performance: committed='' @ itoa committed @ '' throughput='' @
             fixed 2 (fl (fl (of_int committed) / Seconds wall)) @ '' txns/sec mean_latency='' @ dur_ms meanLat)"

subsection \<open>The progress bar\<close>

record progressBar =
  pb_label :: string
  pb_total :: int
  pb_width :: int
  pb_out :: string
  pb_closed :: bool

definition progressBarWidth :: int where
  "progressBarWidth = 40"

definition newProgressBar :: "string \<Rightarrow> int \<Rightarrow> progressBar" where
  "newProgressBar label n =
     \<lparr>pb_label = label, pb_total = (if n < 1 then 1 else n), pb_width = progressBarWidth, pb_out = [], pb_closed = False\<rparr>"

text \<open>\<open>strings.Repeat\<close> panics on a negative count.\<close>

definition Repeat :: "char \<Rightarrow> int \<Rightarrow> string option" where
  "Repeat c n = (if n < 0 then None else Some (replicate (nat n) c))"

definition bar_done :: "progressBar \<Rightarrow> int \<Rightarrow> int" where
  "bar_done p d = (let d = (if d > pb_total p then pb_total p else d) in if d < 0 then 0 else d)"

definition bar_filled :: "progressBar \<Rightarrow> int \<Rightarrow> int" where
  "bar_filled p d =
     (let n = \<lfloor>fl (fl (fl (of_int d) * fl (of_int (pb_width p))) / fl (of_int (pb_total p)))\<rfloor>
      in if n > pb_width p then pb_width p else n)"

definition bar_text :: "progressBar \<Rightarrow> int \<Rightarrow> string option" where
  "bar_text p filled =
     (case (Repeat (CHR ''='') filled, Repeat (CHR ''-'') (pb_width p - filled)) of
        (Some a, Some b) \<Rightarrow> Some (a @ b) | _ \<Rightarrow> None)"

text \<open>\<open>None\<close> is a panic. The receiver may be nil, and then nothing happens: see \<open>on_bar\<close>.\<close>

definition bar_update :: "int \<Rightarrow> string \<Rightarrow> progressBar \<Rightarrow> progressBar option" where
  "bar_update d note p =
     (if pb_closed p then Some p
      else (let d = bar_done p d; pct = fl (fl (fl (of_int d) * 100) / fl (of_int (pb_total p))) in
            case bar_text p (bar_filled p d) of
              None \<Rightarrow> None
            | Some bar \<Rightarrow>
                (let line = ''SmallBank '' @ pb_label p @ replicate (8 - length (pb_label p)) (CHR '' '') @ '' ['' @ bar @ ''] '' @
                       itoa d @ ''/'' @ itoa (pb_total p) @ '' ('' @ pad_left (CHR '' '') 3 (fixed 0 pct) @ ''%)'';
                     line = (if note \<noteq> [] then line @ '' '' @ note else line);
                     line = (if length line < 100 then line @ replicate (100 - length line) (CHR '' '') else line)
                 in Some (p\<lparr>pb_out := pb_out p @ char_of (13 :: nat) # line\<rparr>))))"

definition bar_finish :: "int \<Rightarrow> string \<Rightarrow> progressBar \<Rightarrow> progressBar option" where
  "bar_finish d note p =
     (if pb_closed p then Some p
      else map_option (\<lambda>p. p\<lparr>pb_out := pb_out p @ newline, pb_closed := True\<rparr>) (bar_update d note p))"

definition bar_message :: "string \<Rightarrow> progressBar \<Rightarrow> progressBar option" where
  "bar_message text p = Some (p\<lparr>pb_out := pb_out p @ char_of (13 :: nat) # text @ newline\<rparr>)"

definition on_bar :: "(progressBar \<Rightarrow> progressBar option) \<Rightarrow> progressBar option \<Rightarrow> progressBar option option" where
  "on_bar f p = (case p of None \<Rightarrow> Some None | Some p \<Rightarrow> map_option Some (f p))"

subsection \<open>What the statistics are\<close>

text \<open>The index of a percentile grows with it, and never reaches the last sample but of one.\<close>

lemma fl_mult_le:
  assumes "0 \<le> m" and "0 \<le> p" and "p * (1 + 1 / 2 ^ 53) ^ 2 \<le> q * (1 - 1 / 2 ^ 53) ^ 2"
  shows "fl (m * fl p) \<le> fl (m * fl q)"
proof -
  let ?u = "1 + 1 / 2 ^ 53 :: rat" and ?l = "1 - 1 / 2 ^ 53 :: rat"
  have q: "0 \<le> q"
  proof -
    have "0 \<le> p * ?u ^ 2" using assms(2) by simp
    then have "0 \<le> q * ?l ^ 2" using assms(3) by (rule order_trans)
    then show ?thesis by (simp add: zero_le_mult_iff)
  qed
  have "fl (m * fl p) \<le> m * fl p * ?u" using assms fl_nonneg [of p] by (intro fl_bounds(1)) simp
  also have "\<dots> \<le> m * (p * ?u) * ?u"
    using assms(1) fl_bounds(1) [OF assms(2)] by (intro mult_right_mono mult_left_mono) simp_all
  also have "\<dots> = m * (p * ?u ^ 2)" by (simp add: power2_eq_square)
  also have "\<dots> \<le> m * (q * ?l ^ 2)" using assms(1,3) by (rule mult_left_mono [rotated])
  also have "\<dots> = m * (q * ?l) * ?l" by (simp add: power2_eq_square)
  also have "\<dots> \<le> m * fl q * ?l"
    using assms(1) fl_bounds(2) [OF q] by (intro mult_right_mono mult_left_mono) simp_all
  also have "\<dots> \<le> fl (m * fl q)" using assms(1) fl_nonneg [OF q] by (intro fl_bounds(2)) simp
  finally show ?thesis .
qed

lemma percentile_index_bounds:
  assumes "0 \<le> n"
  shows "0 \<le> percentile_index (50/100) n" "percentile_index (50/100) n \<le> percentile_index (95/100) n"
    "percentile_index (95/100) n \<le> percentile_index (99/100) n"
    "percentile_index (99/100) n \<le> n" "0 < n \<Longrightarrow> percentile_index (99/100) n < n"
proof -
  let ?m = "fl (of_int n)"
  have m: "0 \<le> ?m" using assms by (simp add: fl_nonneg)
  show "0 \<le> percentile_index (50/100) n"
    unfolding percentile_index_def using m fl_nonneg [of "50/100"] by (simp add: fl_nonneg)
  show "percentile_index (50/100) n \<le> percentile_index (95/100) n"
    unfolding percentile_index_def by (intro floor_mono fl_mult_le [OF m]) (simp_all add: power2_eq_square)
  show "percentile_index (95/100) n \<le> percentile_index (99/100) n"
    unfolding percentile_index_def by (intro floor_mono fl_mult_le [OF m]) (simp_all add: power2_eq_square)
  let ?u = "1 + 1 / 2 ^ 53 :: rat"
  have "fl (?m * fl (99/100)) \<le> ?m * fl (99/100) * ?u" using m by (intro fl_bounds(1)) (simp add: fl_nonneg)
  also have "\<dots> \<le> (of_int n * ?u) * (99/100 * ?u) * ?u"
    using fl_bounds(1) [of "of_int n"] fl_bounds(1) [of "99/100"] assms m fl_nonneg [of "99/100"]
    by (intro mult_right_mono mult_mono) simp_all
  finally have le: "fl (?m * fl (99/100)) \<le> of_int n * (99/100 * ?u ^ 3)"
    by (simp add: power3_eq_cube mult.assoc)
  also have "\<dots> \<le> of_int n" using assms by (intro mult_left_le) (simp_all add: power3_eq_cube)
  finally show "percentile_index (99/100) n \<le> n" by (simp add: percentile_index_def floor_le_iff)
  show "percentile_index (99/100) n < n" if "0 < n"
  proof -
    have "of_int n * (99/100 * ?u ^ 3) < of_int n * 1" using that by (intro mult_strict_left_mono) (simp_all add: power3_eq_cube)
    then show ?thesis using le by (simp add: percentile_index_def floor_less_iff)
  qed
qed

lemma stats_fold:
  "\<exists>f' l'. fold stats_one rs (c, ls, t, f, l) =
     (c + int (length (filter sm_Committed rs)), ls @ map sm_Latency (filter sm_Committed rs),
      t + sum_list (map sm_Latency (filter sm_Committed rs)), f', l')"
proof (induction rs arbitrary: c ls t f l)
  case (Cons r rs)
  show ?case
  proof (cases "sm_Committed r")
    case True
    then obtain f1 l1 where "stats_one r (c, ls, t, f, l) = (c + 1, ls @ [sm_Latency r], t + sm_Latency r, f1, l1)"
      by (simp add: stats_one_def Let_def)
    then show ?thesis using Cons [of "c + 1" "ls @ [sm_Latency r]" "t + sm_Latency r" f1 l1] True by (simp add: ac_simps)
  next
    case False
    then obtain f1 where "stats_one r (c, ls, t, f, l) = (c, ls, t, f1, l)" by (simp add: stats_one_def Let_def)
    then show ?thesis using Cons [of c ls t f1 l] False by simp
  qed
qed simp

lemma stats_counts:
  "bs_Count (stats P m) = int (length (filter P (wm_Records m)))"
  "bs_Committed (stats P m) = int (length (filter sm_Committed (filter P (wm_Records m))))"
proof -
  let ?rs = "filter P (wm_Records m)"
  obtain f l where "fold stats_one ?rs (0, [], 0, None, None) =
      (int (length (filter sm_Committed ?rs)), map sm_Latency (filter sm_Committed ?rs),
       sum_list (map sm_Latency (filter sm_Committed ?rs)), f, l)"
    using stats_fold [of ?rs 0 "[]" 0 None None] by auto
  then show "bs_Count (stats P m) = int (length ?rs)" "bs_Committed (stats P m) = int (length (filter sm_Committed ?rs))"
    by (auto simp: stats_def Let_def no_stats_def)
qed

lemma stats_percentiles:
  fixes P :: "SampleRecord \<Rightarrow> bool" and m :: WorkloadMetrics
  defines "ls \<equiv> map sm_Latency (filter sm_Committed (filter P (wm_Records m)))"
  assumes "ls \<noteq> []"
  shows "bs_P50 (stats P m) = percentile ls (percentile_index (50/100))"
    "bs_P95 (stats P m) = percentile ls (percentile_index (95/100))"
    "bs_P99 (stats P m) = percentile ls (percentile_index (99/100))"
    "bs_Mean (stats P m) = go_div (sum_list ls) (int (length ls))" "0 < bs_Wall (stats P m)"
proof -
  let ?rs = "filter P (wm_Records m)"
  obtain f l where "fold stats_one ?rs (0, [], 0, None, None) = (int (length ls), ls, sum_list ls, f, l)"
    using stats_fold [of ?rs 0 "[]" 0 None None] by (auto simp: ls_def simp del: filter_filter)
  moreover have "?rs \<noteq> []"
  proof
    assume "?rs = []"
    then show False using assms(2) unfolding ls_def by (simp only: filter.simps list.map)
  qed
  ultimately show "bs_P50 (stats P m) = percentile ls (percentile_index (50/100))"
    "bs_P95 (stats P m) = percentile ls (percentile_index (95/100))"
    "bs_P99 (stats P m) = percentile ls (percentile_index (99/100))"
    "bs_Mean (stats P m) = go_div (sum_list ls) (int (length ls))" "0 < bs_Wall (stats P m)"
    using assms(2) by (simp_all add: stats_def Let_def)
qed

lemma percentile_nth:
  "ls \<noteq> [] \<Longrightarrow> 0 \<le> idx (int (length ls) - 1) \<Longrightarrow> percentile ls idx = sort ls ! nat (idx (int (length ls) - 1))"
  by (simp add: percentile_def Let_def)

text \<open>The progress bar: whatever it is told, it draws exactly its width and does not panic.\<close>

lemma bar_draws:
  assumes "0 \<le> pb_width p" "1 \<le> pb_total p"
  shows "\<exists>bar. bar_text p (bar_filled p (bar_done p d)) = Some bar \<and> length bar = nat (pb_width p)"
    and "\<exists>p'. bar_update d note p = Some p' \<and> pb_width p' = pb_width p \<and> pb_total p' = pb_total p"
proof -
  let ?d = "bar_done p d"
  have "0 \<le> ?d" using assms by (simp add: bar_done_def Let_def)
  then have "0 \<le> fl (fl (fl (of_int ?d) * fl (of_int (pb_width p))) / fl (of_int (pb_total p)))"
    using assms by (intro fl_nonneg divide_nonneg_nonneg mult_nonneg_nonneg) simp_all
  then have f: "0 \<le> bar_filled p ?d" "bar_filled p ?d \<le> pb_width p"
    using assms by (simp_all add: bar_filled_def Let_def)
  then have "bar_text p (bar_filled p ?d) =
      Some (replicate (nat (bar_filled p ?d)) (CHR ''='') @ replicate (nat (pb_width p - bar_filled p ?d)) (CHR ''-''))"
    by (simp add: bar_text_def Repeat_def)
  moreover have "nat (bar_filled p ?d) + nat (pb_width p - bar_filled p ?d) = nat (pb_width p)" using f by simp
  ultimately show t: "\<exists>bar. bar_text p (bar_filled p ?d) = Some bar \<and> length bar = nat (pb_width p)" by simp
  then show "\<exists>p'. bar_update d note p = Some p' \<and> pb_width p' = pb_width p \<and> pb_total p' = pb_total p"
    by (auto simp: bar_update_def Let_def)
qed

lemma length_filter_split: "length (filter P xs) = length (filter Q (filter P xs)) + length (filter (\<lambda>x. \<not> Q x) (filter P xs))"
  by (induction xs) auto

text \<open>C36: The benchmark's report adds up. The samples of the whole are those within and across shards,
  and so are the committed ones. For every group with a committed sample the three percentiles are
  latencies of committed samples in the order p50, p95, p99, in spite of the rounding of the index
  in floating point. But from two samples on the largest latency is never among them: p99 is at most
  the second largest, and of two samples it is the smaller.\<close>

theorem report_statistics:
  fixes m :: WorkloadMetrics and P :: "SampleRecord \<Rightarrow> bool"
  defines "ls \<equiv> map sm_Latency (filter sm_Committed (filter P (wm_Records m)))"
  assumes "ls \<noteq> []"
  shows "let all = stats (\<lambda>_. True) m; intra = stats (\<lambda>r. \<not> sm_CrossShard r) m; cross = stats sm_CrossShard m; s = stats P m in
    bs_Count all = bs_Count intra + bs_Count cross \<and> bs_Committed all = bs_Committed intra + bs_Committed cross \<and>
    bs_P50 s \<le> bs_P95 s \<and> bs_P95 s \<le> bs_P99 s \<and> {bs_P50 s, bs_P95 s, bs_P99 s} \<subseteq> set ls \<and>
    (2 \<le> length ls \<longrightarrow> bs_P99 s \<le> sort ls ! (length ls - 2))"
proof -
  let ?n = "int (length ls) - 1"
  have n: "0 \<le> ?n" using assms(2) by (cases ls) simp_all
  note b = percentile_index_bounds [OF n]
  define i j k where "i = nat (percentile_index (50/100) ?n)" and "j = nat (percentile_index (95/100) ?n)"
    and "k = nat (percentile_index (99/100) ?n)"
  have ijk: "i \<le> j" "j \<le> k" "k < length ls" and k2: "2 \<le> length ls \<Longrightarrow> k \<le> length ls - 2"
    using b n by (auto simp: i_def j_def k_def)
  note st = stats_percentiles [of P m, folded ls_def, OF assms(2)]
  have s: "bs_P50 (stats P m) = sort ls ! i" "bs_P95 (stats P m) = sort ls ! j" "bs_P99 (stats P m) = sort ls ! k"
    unfolding st i_def j_def k_def using b by (simp_all add: percentile_nth [OF assms(2)])
  have mono: "sort ls ! a \<le> sort ls ! c" if "a \<le> c" "c < length ls" for a c
    using that by (intro sorted_nth_mono) simp_all
  have mem: "sort ls ! a \<in> set ls" if "a < length ls" for a
    using nth_mem [of a "sort ls"] that by simp
  have cnt: "length (filter sm_Committed (wm_Records m)) =
      length (filter sm_Committed (filter (\<lambda>r. \<not> sm_CrossShard r) (wm_Records m))) +
      length (filter sm_Committed (filter sm_CrossShard (wm_Records m)))"
    using length_filter_split [of sm_Committed "wm_Records m" "\<lambda>r. \<not> sm_CrossShard r"]
    by (simp add: conj_commute)
  have all: "length (wm_Records m) = length (filter (\<lambda>r. \<not> sm_CrossShard r) (wm_Records m)) + length (filter sm_CrossShard (wm_Records m))"
    using length_filter_split [of "\<lambda>_. True" "wm_Records m" "\<lambda>r. \<not> sm_CrossShard r"] by simp
  have "2 \<le> length ls \<longrightarrow> sort ls ! k \<le> sort ls ! (length ls - 2)" using k2 by (auto intro: mono)
  then show ?thesis
    using ijk mono [of i j] mono [of j k] mem [of i] mem [of j] mem [of k] cnt all
    unfolding Let_def s stats_counts by simp
qed

definition sample_metrics :: WorkloadMetrics where
  "sample_metrics = \<lparr>wm_Records = map (\<lambda>l. \<lparr>sm_Kind = KindSendPayment, sm_CrossShard = False, sm_Committed = True,
     sm_SentAt = Some 0, sm_RepliedAt = Some l, sm_Latency = l\<rparr>) [9, 4], wm_Penalties = 0\<rparr>"

theorem report_statistics_witness: "bs_P99 (stats (\<lambda>_. True) sample_metrics) = 4"
proof -
  have ls: "map sm_Latency (filter sm_Committed (filter (\<lambda>_. True) (wm_Records sample_metrics))) = [9, 4]"
    by (simp add: sample_metrics_def)
  let ?p = "bs_P99 (stats (\<lambda>_. True) sample_metrics)"
  note all = report_statistics [where P = "\<lambda>_. True" and m = sample_metrics, unfolded ls Let_def, simplified]
  have "?p = 9 \<or> ?p = 4" using all by blast
  moreover have "?p \<le> 4" using all by blast
  ultimately show ?thesis by linarith
qed

subsection \<open>The oracle's report\<close>

text \<open>What the comparison with the expected results prints, in lines (\<open>oracle.go\<close>). \<open>ord\<close> is the order in
  which Go iterates over a map of occurrences, \<open>ordb\<close> that for the balances.\<close>

definition surplus_lines :: "((string \<times> nat) list \<Rightarrow> (string \<times> nat) list) \<Rightarrow> string \<Rightarrow> (string, nat) bucket \<Rightarrow> (string, nat) bucket \<Rightarrow> string list" where
  "surplus_lines ord label ca cb =
     concat (map (\<lambda>(k, n). if count_of cb k < n then replicate (n - count_of cb k) (''          '' @ label @ k) else []) (ord ca))"

definition datastore_lines :: "((string \<times> nat) list \<Rightarrow> (string \<times> nat) list) \<Rightarrow> string \<Rightarrow> string list \<Rightarrow> string list \<Rightarrow> string list" where
  "datastore_lines ord c actual expEntries =
     (if multisetEqual actual expEntries
      then [''  [OK]   '' @ c @ '' datastore: '' @ itoa (int (length actual)) @ '' entries match (multiset)'']
      else (let ca = counter actual; cb = counter expEntries in
            (''  [FAIL] '' @ c @ '' datastore mismatch:'') #
            surplus_lines ord ''unexpected: '' ca cb @ surplus_lines ord ''missing:    '' cb ca))"

definition balance_line_of :: "expectedSet \<Rightarrow> string \<times> int64 \<Rightarrow> string" where
  "balance_line_of x iv =
     (case iv of (item, v) \<Rightarrow>
        (case bget (x_Balances x) item of
           None \<Rightarrow> ''  [WARN] bal['' @ item @ ''] not in oracle (untouched)''
         | Some w \<Rightarrow>
             if v \<noteq> w then ''  [FAIL] bal['' @ item @ '']: actual='' @ itoa (sint v) @ '' expected='' @ itoa (sint w)
             else ''  [OK]   bal['' @ item @ ''] = '' @ itoa (sint v)))"

definition dump_lines ::
    "((string \<times> nat) list \<Rightarrow> (string \<times> nat) list) \<Rightarrow> ((string \<times> int64) list \<Rightarrow> (string \<times> int64) list) \<Rightarrow>
     expectedSet \<Rightarrow> OracleDump \<Rightarrow> string list" where
  "dump_lines ord ordb x d =
     [[], ''=== SET '' @ itoa (d_Set d) @ '' ===''] @ map (balance_line_of x) (ordb (d_Balances d)) @
     concat (map (\<lambda>c. datastore_lines ord c (case bget (d_Datastore d) c of None \<Rightarrow> [] | Some es \<Rightarrow> es)
                        (case bget (x_Committed x) c of None \<Rightarrow> [] | Some es \<Rightarrow> es)) [''C1'', ''C2'', ''C3''])"

definition result_lines :: "int \<Rightarrow> string list" where
  "result_lines rc = [[], if rc = 0 then ''RESULT: ALL PASS'' else ''RESULT: MISMATCHES FOUND'']"

text \<open>An unknown set ends the report without a result.\<close>

fun verify_lines ::
    "((string \<times> nat) list \<Rightarrow> (string \<times> nat) list) \<Rightarrow> ((string \<times> int64) list \<Rightarrow> (string \<times> int64) list) \<Rightarrow>
     expectedSet list \<Rightarrow> OracleDump list \<Rightarrow> int \<Rightarrow> string list" where
  "verify_lines ord ordb xs [] rc = result_lines rc"
| "verify_lines ord ordb xs (d # ds) rc =
     (case findExpectedSet xs (d_Set d) of
        Inl err \<Rightarrow> []
      | Inr x \<Rightarrow> dump_lines ord ordb x d @ verify_lines ord ordb xs ds (if dump_ok x d then rc else 1))"

text \<open>The mismatch lines are the two multiset differences, entry by entry.\<close>

lemma count_replicates:
  "distinct ks \<Longrightarrow> count (mset (concat (map (\<lambda>k. replicate (c k) k) ks))) x = (if x \<in> set ks then c x else 0)"
  by (induction ks) auto

lemma counter_order:
  assumes "mset (ord (counter a)) = mset (counter a)"
  shows "ord (counter a) = map (\<lambda>k. (k, count (mset a) k)) (map fst (ord (counter a)))"
    "distinct (map fst (ord (counter a)))" "set (map fst (ord (counter a))) = set a"
proof -
  have set: "set (ord (counter a)) = set (counter a)" using assms mset_eq_setD by blast
  then have "p \<in> set (ord (counter a)) \<Longrightarrow> p = (fst p, count (mset a) (fst p))" for p
    using counter_get [of "fst p" "snd p" a] by (cases p) (simp add: count_list_mset)
  then show "ord (counter a) = map (\<lambda>k. (k, count (mset a) k)) (map fst (ord (counter a)))"
    by (simp add: comp_def map_idI)
  have "sorted_wrt (<) (map fst (counter a))" using counter_keys [of a] by (simp add: bkeys_ok_def)
  then have "distinct (map fst (counter a))" using strict_sorted_iff by blast
  moreover have "mset (map fst (ord (counter a))) = mset (map fst (counter a))" using assms by simp
  ultimately show "distinct (map fst (ord (counter a)))" using mset_eq_imp_distinct_iff by blast
  show "set (map fst (ord (counter a))) = set a" using set counter_keys [of a] by simp
qed

lemma surplus_lines_mset:
  assumes "mset (ord (counter a)) = mset (counter a)"
  shows "mset (surplus_lines ord label (counter a) (counter b)) =
    image_mset (\<lambda>k. ''          '' @ label @ k) (mset a - mset b)"
proof -
  let ?f = "\<lambda>k. ''          '' @ label @ k" and ?ks = "map fst (ord (counter a))"
  let ?c = "\<lambda>k. count (mset a) k - count (mset b) k"
  note co = counter_order [of ord a, OF assms]
  have "surplus_lines ord label (counter a) (counter b) = concat (map (\<lambda>k. replicate (?c k) (?f k)) ?ks)"
    unfolding surplus_lines_def
    by (subst co(1)) (auto simp: comp_def counter_count count_list_mset intro!: arg_cong [where f = concat])
  also have "\<dots> = map ?f (concat (map (\<lambda>k. replicate (?c k) k) ?ks))" by (simp add: map_concat comp_def)
  finally have "mset (surplus_lines ord label (counter a) (counter b)) =
      image_mset ?f (mset (concat (map (\<lambda>k. replicate (?c k) k) ?ks)))" by (simp only: mset_map)
  moreover have "mset (concat (map (\<lambda>k. replicate (?c k) k) ?ks)) = mset a - mset b"
  proof (rule multiset_eqI)
    fix x
    have "count (mset (concat (map (\<lambda>k. replicate (?c k) k) ?ks))) x = (if x \<in> set a then ?c x else 0)"
      using count_replicates [OF co(2), of ?c x] unfolding co(3) .
    also have "\<dots> = count (mset a - mset b) x" by (cases "x \<in> set a") (simp_all add: not_in_iff [THEN iffD1])
    finally show "count (mset (concat (map (\<lambda>k. replicate (?c k) k) ?ks))) x = count (mset a - mset b) x" .
  qed
  ultimately show ?thesis by simp
qed

text \<open>The report on a mismatch names exactly what differs. In whatever order Go iterates over its maps,
  the entries a cluster has too many of and those it lacks are printed once for each copy: the lines
  after the FAIL line are, as a multiset, the two differences of the committed entries and the
  expected ones, so there are none exactly if the two are equal, and then the OK line is printed
  instead.\<close>

theorem mismatch_report_exact:
  assumes "\<forall>m. mset (ord m) = mset m"
  shows "datastore_lines ord c actual expEntries =
      (if mset actual = mset expEntries
       then [''  [OK]   '' @ c @ '' datastore: '' @ itoa (int (length actual)) @ '' entries match (multiset)'']
       else (''  [FAIL] '' @ c @ '' datastore mismatch:'') # tl (datastore_lines ord c actual expEntries)) \<and>
    (if mset actual = mset expEntries then {#} else mset (tl (datastore_lines ord c actual expEntries))) =
      image_mset (\<lambda>k. ''          unexpected: '' @ k) (mset actual - mset expEntries) +
      image_mset (\<lambda>k. ''          missing:    '' @ k) (mset expEntries - mset actual)"
proof -
  have o: "mset (ord (counter xs)) = mset (counter xs)" for xs using assms by blast
  have "mset (surplus_lines ord ''unexpected: '' (counter actual) (counter expEntries)) =
      image_mset (\<lambda>k. ''          unexpected: '' @ k) (mset actual - mset expEntries)"
    using surplus_lines_mset [of ord actual "''unexpected: ''" expEntries, OF o] by simp
  moreover have "mset (surplus_lines ord ''missing:    '' (counter expEntries) (counter actual)) =
      image_mset (\<lambda>k. ''          missing:    '' @ k) (mset expEntries - mset actual)"
    using surplus_lines_mset [of ord expEntries "''missing:    ''" actual, OF o] by simp
  ultimately show ?thesis
    by (cases "mset actual = mset expEntries") (simp_all add: datastore_lines_def multisetEqual_mset Let_def)
qed

theorem mismatch_report_exact_witness:
  "datastore_lines rev ''C1'' [''a''] [''b''] = [''  [FAIL] C1 datastore mismatch:'', ''          unexpected: a'', ''          missing:    b''] \<and>
   mset (tl (datastore_lines rev ''C1'' [''a''] [''b''])) = {#''          unexpected: a'', ''          missing:    b''#}"
proof -
  have "\<forall>m. mset (rev m) = mset (m :: (string \<times> nat) list)" by simp
  from mismatch_report_exact [of rev "''C1''" "[''a'']" "[''b'']", OF this]
  have "mset (tl (datastore_lines rev ''C1'' [''a''] [''b''])) =
      image_mset (\<lambda>k. ''          unexpected: '' @ k) (mset [''a''] - mset [''b'']) +
      image_mset (\<lambda>k. ''          missing:    '' @ k) (mset [''b''] - mset [''a''])"
    by simp
  then show ?thesis
    by (simp add: datastore_lines_def multisetEqual_def counter_def surplus_lines_def count_of_def Let_def)
qed

end
