(* ===== verification/Console.thy ===== *)
theory Console
  imports Verdict Report
begin

text \<open>
  The client program (\<open>cmd/client/main.go\<close>) and the runner's interactive menu
  (\<open>internal/testcase/menu.go\<close>): reading commands, what they print, when the menu ends, and the exit
  codes of the three things the program can do. Standard input is a text that ends; standard output
  is what was printed. Text is ASCII.
\<close>

subsection \<open>Reading\<close>

text \<open>\<open>ReadString\<close> up to a newline: the line and what follows; at the end of the input an error, and
  with it the last line if it has no newline.\<close>

definition ReadString :: "string \<Rightarrow> (string \<times> string) option" where
  "ReadString s =
     (case dropWhile (\<lambda>c. c \<noteq> CHR 0x0A) s of
        [] \<Rightarrow> None
      | _ # rest \<Rightarrow> Some (takeWhile (\<lambda>c. c \<noteq> CHR 0x0A) s, rest))"

lemma ReadString_shorter: "ReadString s = Some (l, rest) \<Longrightarrow> length rest < length s"
proof -
  assume "ReadString s = Some (l, rest)"
  then obtain c where "dropWhile (\<lambda>c. c \<noteq> CHR 0x0A) s = c # rest" by (auto simp: ReadString_def split: list.splits)
  then have "length (c # rest) \<le> length s" using length_dropWhile_le [of "\<lambda>c. c \<noteq> CHR 0x0A" s] by simp
  then show ?thesis by simp
qed

definition white :: "char \<Rightarrow> bool" where
  "white c \<longleftrightarrow> re_space c \<or> c = CHR 0x0B"

fun fields_from :: "string \<Rightarrow> string \<Rightarrow> string list" where
  "fields_from w [] = (if w = [] then [] else [w])"
| "fields_from w (c # cs) =
     (if white c then (if w = [] then fields_from [] cs else w # fields_from [] cs) else fields_from (w @ [c]) cs)"

definition Fields :: "string \<Rightarrow> string list" where
  "Fields s = fields_from [] s"

text \<open>\<open>fmt.Sscanf(s, "%d", &item)\<close>: the number at the start of a word; what follows it is not looked at.\<close>

definition Sscanf_d :: "string \<Rightarrow> int option" where
  "Sscanf_d s =
     (let (neg, s) = (case s of [] \<Rightarrow> (False, [])
                      | c # cs \<Rightarrow> if c = CHR ''-'' then (True, cs) else if c = CHR ''+'' then (False, cs) else (False, s))
      in case digits1 s of
           None \<Rightarrow> None
         | Some (ds, _) \<Rightarrow> go_Atoi ((if neg then ''-'' else []) @ ds))"

subsection \<open>Menu commands\<close>

definition println :: "string \<Rightarrow> string" where
  "println s = s @ [CHR 0x0A]"

definition Runner_PrintBalance :: "env \<Rightarrow> session \<Rightarrow> int \<Rightarrow> string" where
  "Runner_PrintBalance E s item =
     (let t = ss_Topo s; cluster = ClusterOf t item in
      println (''PrintBalance item='' @ itoa item @ '' (cluster C'' @ itoa cluster @ '')'') @
      concat (map (\<lambda>srv. println (''  '' @ server_name (srv_ID srv) @ '': '' @
                (case Remote_PrintBalance (en_Cloud E) (ds_Remote s) (srv_ID srv) item of
                   Inl err \<Rightarrow> ''ERROR '' @ err | Inr line \<Rightarrow> line))) (ServersInCluster t cluster)))"

text \<open>The error of the call, which the menu ignores.\<close>

definition Runner_PrintDatastore :: "env \<Rightarrow> session \<Rightarrow> int \<Rightarrow> string + string" where
  "Runner_PrintDatastore E s i =
     (case Remote_PrintDatastore (en_Cloud E) (ds_Remote s) i of
        Inl err \<Rightarrow> Inl err
      | Inr out \<Rightarrow> Inr (println (''PrintDatastore '' @ server_name i) @ out))"

datatype menu_next = Stay | NextSet | Leave

text \<open>One line at the prompt: what it prints and where it leads; \<open>final\<close> says that no set follows.\<close>

definition menu_line :: "env \<Rightarrow> bool \<Rightarrow> session \<Rightarrow> string \<Rightarrow> string \<times> menu_next" where
  "menu_line E final s line =
     (let line = TrimSpace line; parts = Fields line in
      if line = [] then ([], Stay)
      else if parts ! 0 = ''next'' then (if final then (println ''No more sets.'', Leave) else ([], NextSet))
      else if parts ! 0 = ''quit'' \<or> parts ! 0 = ''exit'' then ([], Leave)
      else if parts ! 0 = ''Performance'' then (println (Performance (rn_Metrics (ss_Runner s))), Stay)
      else if parts ! 0 = ''PrintBalance'' then
        (if length parts < 2 then (println ''usage: PrintBalance <item>'', Stay)
         else case Sscanf_d (parts ! 1) of
                None \<Rightarrow> (println ''invalid item'', Stay)
              | Some item \<Rightarrow> (Runner_PrintBalance E s item, Stay))
      else if parts ! 0 = ''PrintDatastore'' then
        (if length parts < 2 then (println ''usage: PrintDatastore <server>'', Stay)
         else case ParseServerID (parts ! 1) of
                Inl err \<Rightarrow> (println err, Stay)
              | Inr i \<Rightarrow> (case Runner_PrintDatastore E s i of Inl _ \<Rightarrow> [] | Inr out \<Rightarrow> out, Stay))
      else (println ''unknown command'', Stay))"

text \<open>The prompt until a command leads on, or the input ends: what is printed, the rest of the input,
  and \<open>None\<close> for the error of reading.\<close>

function menu :: "env \<Rightarrow> bool \<Rightarrow> session \<Rightarrow> string \<Rightarrow> string \<times> string \<times> menu_next option" where
  "menu E final s input =
     (case ReadString input of
        None \<Rightarrow> (''> '', [], None)
      | Some (line, rest) \<Rightarrow>
          (case menu_line E final s line of
             (out, Stay) \<Rightarrow> (case menu E final s rest of (out', rest', next) \<Rightarrow> (''> '' @ out @ out', rest', next))
           | (out, next) \<Rightarrow> (''> '' @ out, rest, Some next)))"
  by pat_completeness auto
termination
  by (relation "measure (\<lambda>(E, final, s, input). length input)") (auto simp: ReadString_shorter)

declare menu.simps [simp del]

definition set_header_text :: "TestSet \<Rightarrow> string" where
  "set_header_text ts = println [] @ println (''=== Running Set '' @ itoa (set_Number ts) @ '' ('' @
     itoa (int (length (set_Txns ts))) @ '' transactions) ==='')"

definition commands_text :: "TestSet \<Rightarrow> string" where
  "commands_text ts = println (''Set '' @ itoa (set_Number ts) @
     '' complete. Commands: PrintBalance <item> | PrintDatastore <server> | Performance | next | quit'')"

text \<open>The error, what was printed, and the session at the end.\<close>

fun run_menu :: "env \<Rightarrow> TestSet list \<Rightarrow> string \<Rightarrow> session \<Rightarrow> string option \<times> string \<times> session" where
  "run_menu E [] input s = (None, println ''All sets complete.'', s)"
| "run_menu E (ts # tss) input s =
     (case RunSet E ts s of
        (Inl err, s) \<Rightarrow> (Some (''set '' @ itoa (set_Number ts) @ '': '' @ err), set_header_text ts, s)
      | (Inr _, s) \<Rightarrow>
          (case menu E (tss = []) s input of
             (out, rest, None) \<Rightarrow> (Some ''EOF'', set_header_text ts @ commands_text ts @ out, s)
           | (out, rest, Some NextSet) \<Rightarrow>
               (case run_menu E tss rest s of
                  (err, out', s) \<Rightarrow> (err, set_header_text ts @ commands_text ts @ out @ out', s))
           | (out, rest, Some _) \<Rightarrow> (None, set_header_text ts @ commands_text ts @ out, s)))"

definition RunInteractive :: "env \<Rightarrow> TestFile \<Rightarrow> string \<Rightarrow> session \<Rightarrow> string option \<times> string \<times> session" where
  "RunInteractive E f input s = run_menu E (file_Sets f) input s"

subsection \<open>The client program\<close>

text \<open>A field with \<open>%-4s\<close> or \<open>%-20s\<close>.\<close>

definition pad_right :: "nat \<Rightarrow> string \<Rightarrow> string" where
  "pad_right n s = s @ replicate (n - length s) (CHR '' '')"

text \<open>\<open>get\<close> is the status of a server's health endpoint at an address, or the error of the call.\<close>

definition health_url :: "server \<Rightarrow> string" where
  "health_url s = ''http://'' @ srv_Host s @ '':'' @ itoa (srv_Port s + 10000) @ ''/health''"

fun health_loop :: "(string \<Rightarrow> string + int) \<Rightarrow> server list \<Rightarrow> int \<Rightarrow> int \<Rightarrow> string \<times> int \<times> int" where
  "health_loop get [] up down = ([], up, down)"
| "health_loop get (s # ss) up down =
     (let name = ''  '' @ pad_right 4 (server_name (srv_ID s)) @ '' '' @ pad_right 20 (Addr s) @ '' '' in
      case get (health_url s) of
        Inl err \<Rightarrow> (case health_loop get ss up (down + 1) of (out, r) \<Rightarrow> (println (name @ ''DOWN ('' @ err @ '')'') @ out, r))
      | Inr status \<Rightarrow>
          if status = 200 then (case health_loop get ss (up + 1) down of (out, r) \<Rightarrow> (println (name @ ''UP'') @ out, r))
          else (case health_loop get ss up (down + 1) of
                  (out, r) \<Rightarrow> (println (name @ ''BAD ('' @ itoa status @ '')'') @ out, r)))"

definition runHealthcheck :: "topology \<Rightarrow> (string \<Rightarrow> string + int) \<Rightarrow> int \<times> string" where
  "runHealthcheck t get =
     (case health_loop get (Servers t) 0 0 of
        (out, up, down) \<Rightarrow>
          (if down > 0 then 1 else 0,
           out @ println [] @ println (''healthcheck: '' @ itoa up @ '' up, '' @ itoa down @ '' down (of '' @ itoa (TotalServers t) @ '')'')))"

text \<open>The benchmark with the flags of the program; the skew is in the random source \<open>R\<close>. \<open>None\<close> is a run
  that does not end.\<close>

definition flag_config :: "nat \<Rightarrow> int64 \<Rightarrow> bench_config" where
  "flag_config txns amt =
     \<lparr>cf_Txns = txns, cf_Amt = amt, cf_SettleTimeout = 300000, cf_MultiStepTimeout = 10000, cf_Pace = 25\<rparr>"

definition runSmallBank :: "env \<Rightarrow> topology \<Rightarrow> 'r rng \<Rightarrow> int \<Rightarrow> bench_config \<Rightarrow> 'r bench \<Rightarrow> (int \<times> 'r bench) option" where
  "runSmallBank E t R hot cfg b =
     map_option (\<lambda>(err, b). (if err = None then 0 else 1, b)) (Run E t R hot cfg b)"

text \<open>All sets in a row, with a dump of the deployment after each if the results are to be verified.\<close>

fun auto_sets :: "env \<Rightarrow> bool \<Rightarrow> int list \<Rightarrow> TestSet list \<Rightarrow> OracleDump list \<Rightarrow> session \<Rightarrow> (string + OracleDump list) \<times> session" where
  "auto_sets E verify items [] dumps s = (Inr dumps, s)"
| "auto_sets E verify items (ts # tss) dumps s =
     (case RunSet E ts s of
        (Inl err, s) \<Rightarrow> (Inl (''set '' @ itoa (set_Number ts) @ '': '' @ err), s)
      | (Inr _, s) \<Rightarrow>
          if verify then
            (case CollectOracleDump (Remote_PrintBalance (en_Cloud E) (ds_Remote s))
                    (Remote_FetchDatastoreOracle (en_Cloud E) (ds_Remote s)) (ss_Topo s) ts items of
               (Some err, _) \<Rightarrow> (Inl (''oracle dump set '' @ itoa (set_Number ts) @ '': '' @ err), s)
             | (None, d) \<Rightarrow> auto_sets E verify items tss (dumps @ [d]) s)
          else auto_sets E verify items tss dumps s)"

text \<open>The files are read through \<open>fs_Open\<close> and \<open>fs_Read\<close>, and \<open>fs_Json\<close> decodes an oracle.\<close>

record files =
  fs_Open :: "string \<Rightarrow> string + string"
  fs_Read :: "string \<Rightarrow> string + bytes"
  fs_Json :: "bytes \<Rightarrow> string + expectedSet list"

definition loadExpected :: "files \<Rightarrow> string \<Rightarrow> string + expectedSet list" where
  "loadExpected fs path = (case fs_Read fs path of Inl err \<Rightarrow> Inl err | Inr b \<Rightarrow> fs_Json fs b)"

text \<open>\<open>now\<close> is the time of the start.\<close>

definition NewRemote :: "(int \<Rightarrow> replica) \<Rightarrow> remote" where
  "NewRemote servers = \<lparr>rm_Conns = {}, rm_Servers = servers\<rparr>"

definition new_session :: "topology \<Rightarrow> (int \<Rightarrow> replica) \<Rightarrow> int \<Rightarrow> session" where
  "new_session t servers now =
     \<lparr>ds_Remote = NewRemote servers, ds_Now = now, ss_Runner = NewRunner t\<rparr>"

definition runTestfile :: "env \<Rightarrow> files \<Rightarrow> string \<Rightarrow> bool \<Rightarrow> string \<Rightarrow> string \<Rightarrow> session \<Rightarrow> int \<times> session" where
  "runTestfile E fs path auto verify input s =
     (case ParseFile (fs_Open fs) path of
        Inl err \<Rightarrow> (1, s)
      | Inr f \<Rightarrow>
          if auto then
            (case auto_sets E (verify \<noteq> []) (AllItems f) (file_Sets f) [] s of
               (Inl err, s) \<Rightarrow> (1, s)
             | (Inr dumps, s) \<Rightarrow>
                 if verify \<noteq> [] then
                   (case VerifyDumps (loadExpected fs) verify dumps of
                      (rc, Some err) \<Rightarrow> (1, s)
                    | (rc, None) \<Rightarrow> (rc, s))
                 else (0, s))
          else (case RunInteractive E f input s of
                  (Some err, _, s) \<Rightarrow> (1, s)
                | (None, _, s) \<Rightarrow> (0, s)))"

definition usage_text :: "topology \<Rightarrow> string" where
  "usage_text t = println ''2pcbyz client'' @
     println (''topology: '' @ itoa (NumClusters t) @ '' clusters x '' @ itoa (ClusterSize t) @ '' nodes = '' @
       itoa (TotalServers t) @ '' servers, f='' @ itoa (F t) @ '', quorum='' @ itoa (Quorum t)) @
     println ''usage:'' @ println ''  --healthcheck'' @
     println ''  --testfile test/Lab4_Testset_1_36node.csv'' @
     println ''  --benchmark smallbank --txns 1000 --skew 0.9''"

record flags =
  fl_Healthcheck :: bool
  fl_Testfile :: string
  fl_Benchmark :: string
  fl_Auto :: bool
  fl_Verify :: string
  fl_Txns :: nat
  fl_Amt :: int64

text \<open>What the program does, from its flags: the exit code and, without a task, the usage; \<open>None\<close> if it does not end.\<close>

definition client_main ::
    "env \<Rightarrow> files \<Rightarrow> (string \<Rightarrow> string + int) \<Rightarrow> 'r rng \<Rightarrow> 'r \<Rightarrow> int \<Rightarrow> (int \<Rightarrow> replica) \<Rightarrow> int \<Rightarrow> string \<Rightarrow>
     (string \<Rightarrow> string) \<Rightarrow> flags \<Rightarrow> (int \<times> string) option" where
  "client_main E fs get R seed hot servers now input environ opts =
     (let t = Load environ in
      if fl_Healthcheck opts then Some (runHealthcheck t get)
      else if fl_Benchmark opts = ''smallbank'' then
        map_option (\<lambda>r. (fst r, [])) (runSmallBank E t R hot (flag_config (fl_Txns opts) (fl_Amt opts))
          (NewBench t (NewRemote servers) now seed))
      else if fl_Testfile opts \<noteq> [] then
        Some (fst (runTestfile E fs (fl_Testfile opts) (fl_Auto opts) (fl_Verify opts) input (new_session t servers now)), [])
      else Some (0, usage_text t))"

subsection \<open>What the menu does to a deployment\<close>

text \<open>Of the input only the complete lines count, and of those only the ones that lead on.\<close>

definition verb :: "string \<Rightarrow> string" where
  "verb line = (case Fields (TrimSpace line) of [] \<Rightarrow> [] | w # _ \<Rightarrow> w)"

definition leads_on :: "string \<Rightarrow> bool" where
  "leads_on w \<longleftrightarrow> w = ''next'' \<or> w = ''quit'' \<or> w = ''exit''"

function orders :: "string \<Rightarrow> string list" where
  "orders input =
     (case ReadString input of
        None \<Rightarrow> []
      | Some (line, rest) \<Rightarrow> (if leads_on (verb line) then verb line # orders rest else orders rest))"
  by pat_completeness auto
termination by (relation "measure length") (auto simp: ReadString_shorter)

declare orders.simps [simp del]

fun supervised :: "env \<Rightarrow> TestSet list \<Rightarrow> string list \<Rightarrow> session \<Rightarrow> string option \<times> session" where
  "supervised E [] vs s = (None, s)"
| "supervised E (ts # tss) vs s =
     (case RunSet E ts s of
        (Inl err, s) \<Rightarrow> (Some (''set '' @ itoa (set_Number ts) @ '': '' @ err), s)
      | (Inr _, s) \<Rightarrow>
          (case vs of
             [] \<Rightarrow> (Some ''EOF'', s)
           | v # vs \<Rightarrow> if v = ''next'' \<and> tss \<noteq> [] then supervised E tss vs s else (None, s)))"

lemma fields_from_empty: "fields_from w s = [] \<longleftrightarrow> w = [] \<and> list_all white s"
  by (induction w s rule: fields_from.induct) (auto split: if_splits)

lemma TrimSpace_no_white: "TrimSpace s \<noteq> [] \<Longrightarrow> \<not> list_all white (TrimSpace s)"
proof
  let ?sp = "\<lambda>c. re_space c \<or> c = CHR 0x0B"
  assume ne: "TrimSpace s \<noteq> []" and all: "list_all white (TrimSpace s)"
  then have d: "dropWhile ?sp (rev (dropWhile ?sp s)) \<noteq> []" by (simp add: TrimSpace_def Let_def)
  then have "\<not> ?sp (hd (dropWhile ?sp (rev (dropWhile ?sp s))))" by (rule hd_dropWhile)
  moreover have "hd (dropWhile ?sp (rev (dropWhile ?sp s))) \<in> set (TrimSpace s)"
    using d by (simp add: TrimSpace_def Let_def)
  ultimately show False using all unfolding list_all_iff white_def by blast
qed

lemma menu_line_next:
  "snd (menu_line E final s line) =
     (if \<not> leads_on (verb line) then Stay else if verb line = ''next'' \<and> \<not> final then NextSet else Leave)"
proof (cases "TrimSpace line = []")
  case True
  then show ?thesis by (simp add: menu_line_def verb_def leads_on_def Fields_def)
next
  case False
  then obtain w ws where w: "Fields (TrimSpace line) = w # ws"
    using TrimSpace_no_white fields_from_empty [of "[]" "TrimSpace line"]
    by (cases "Fields (TrimSpace line)") (auto simp: Fields_def)
  then have v: "verb line = w" by (simp add: verb_def)
  show ?thesis
    using False by (simp add: menu_line_def w v leads_on_def Let_def split: option.split sum.split)
qed

lemma menu_orders:
  "case menu E final s input of (out, rest, next) \<Rightarrow>
     next = (case orders input of [] \<Rightarrow> None
             | v # vs \<Rightarrow> Some (if v = ''next'' \<and> \<not> final then NextSet else Leave)) \<and>
     (orders input \<noteq> [] \<longrightarrow> orders rest = tl (orders input))"
proof (induction E final s input rule: menu.induct)
  case (1 E final s input)
  show ?case
  proof (cases "ReadString input")
    case None
    then show ?thesis by (simp add: menu.simps [of E final s input] orders.simps [of input])
  next
    case (Some lr)
    obtain line rest where lr: "lr = (line, rest)" by (cases lr)
    obtain out nx where ml: "menu_line E final s line = (out, nx)" by (cases "menu_line E final s line")
    note ns = menu_line_next [of E final s line, unfolded ml, simplified]
    have o: "orders input = (if leads_on (verb line) then verb line # orders rest else orders rest)"
      using Some lr by (simp add: orders.simps [of input])
    show ?thesis
    proof (cases "leads_on (verb line)")
      case True
      then show ?thesis using Some lr ml ns by (auto simp: menu.simps [of E final s input] o split: menu_next.split)
    next
      case False
      then show ?thesis
        using "1.IH" [OF Some lr [symmetric] ml [symmetric]] Some lr ml ns
        by (auto simp: menu.simps [of E final s input] o split: prod.splits)
    qed
  qed
qed

text \<open>C33: The menu runs the sets it is told to, and nothing else it does touches a deployment. Whatever is
  typed, the outcome of an interactive run and the state it leaves behind are those of running the
  sets of the file in order, each next one after a complete line whose first word is \<open>next\<close>, until a
  \<open>quit\<close>, an \<open>exit\<close> or a \<open>next\<close> after the last set ends it. Input that ends earlier, even with a
  \<open>quit\<close> that lacks its newline, is an error.\<close>

theorem menu_only_runs_sets:
  "case RunInteractive E f input s of (err, out, s') \<Rightarrow> (err, s') = supervised E (file_Sets f) (orders input) s"
proof -
  have "case run_menu E tss input s of (err, out, s') \<Rightarrow> (err, s') = supervised E tss (orders input) s" for tss
  proof (induction tss arbitrary: input s)
    case (Cons ts tss)
    obtain r s1 where r: "RunSet E ts s = (r, s1)" by (cases "RunSet E ts s")
    obtain out rest nx where m: "menu E (tss = []) s1 input = (out, rest, nx)" by (cases "menu E (tss = []) s1 input")
    note mo = menu_orders [where E = E and final = "tss = []" and s = s1 and input = input, unfolded m, simplified]
    note IH = Cons.IH [of rest s1]
    show ?case
    proof (cases "orders input")
      case Nil
      then show ?thesis using mo by (cases r) (simp_all add: r m)
    next
      case (Cons v vs)
      then show ?thesis using mo IH by (cases r) (auto simp: r m split: prod.splits menu_next.splits if_splits)
    qed
  qed simp
  then show ?thesis by (simp add: RunInteractive_def)
qed

subsection \<open>Exit codes\<close>

lemma health_loop_down:
  "case health_loop get ss up down of (out, up', down') \<Rightarrow>
     up' = up + int (length (filter (\<lambda>s. get (health_url s) = Inr 200) ss)) \<and>
     down' = down + int (length (filter (\<lambda>s. get (health_url s) \<noteq> Inr 200) ss))"
  by (induction get ss up down rule: health_loop.induct) (auto simp: Let_def split: sum.split prod.splits)

lemma healthcheck_exit: "fst (runHealthcheck t get) = 0 \<longleftrightarrow> (\<forall>s\<in>set (Servers t). get (health_url s) = Inr 200)"
  using health_loop_down [where get = get and ss = "Servers t" and up = 0 and down = 0]
  by (auto simp: runHealthcheck_def filter_empty_conv split: prod.splits)

lemma collect_balances_set: "d_Set (snd (collect_balances bal ts t items d)) = d_Set d"
  by (induction bal ts t items d rule: collect_balances.induct) (auto simp: Let_def split: option.split sum.split)

lemma collect_logs_set: "d_Set (snd (collect_logs lg ts t cs d)) = d_Set d"
  by (induction lg ts t cs d rule: collect_logs.induct) (auto simp: Let_def split: option.split sum.split)

lemma CollectOracleDump_set: "d_Set (snd (CollectOracleDump bal lg t ts items)) = set_Number ts"
  using collect_balances_set [of bal ts t items "\<lparr>d_Set = set_Number ts, d_Balances = [], d_Datastore = []\<rparr>"]
  by (auto simp: CollectOracleDump_def collect_logs_set simp del: collect_logs.simps split: prod.split option.split)

text \<open>A sequence of deployments, each next one what a set of the file leaves behind when it runs without
  an error; and the dump taken after a set.\<close>

definition clean_run :: "env \<Rightarrow> TestSet list \<Rightarrow> session list \<Rightarrow> bool" where
  "clean_run E tss ss \<longleftrightarrow> length ss = Suc (length tss) \<and>
     (\<forall>n < length tss. \<exists>sent. RunSet E (tss ! n) (ss ! n) = (Inr sent, ss ! Suc n))"

definition dump_after :: "env \<Rightarrow> int list \<Rightarrow> TestSet \<Rightarrow> session \<Rightarrow> string option \<times> OracleDump" where
  "dump_after E items ts s =
     CollectOracleDump (Remote_PrintBalance (en_Cloud E) (ds_Remote s))
       (Remote_FetchDatastoreOracle (en_Cloud E) (ds_Remote s)) (ss_Topo s) ts items"

lemma clean_run_Nil: "clean_run E [] ss \<longleftrightarrow> (\<exists>s. ss = [s])"
  by (auto simp: clean_run_def length_Suc_conv)

lemma clean_run_Cons:
  "clean_run E (ts # tss) ss \<longleftrightarrow>
     (\<exists>s s1 ss' sent. ss = s # s1 # ss' \<and> RunSet E ts s = (Inr sent, s1) \<and> clean_run E tss (s1 # ss'))"
  by (cases ss; cases "tl ss") (auto simp: clean_run_def All_less_Suc2)

lemma dump_after_set: "dump_after E items ts s = (None, d) \<Longrightarrow> d_Set d = set_Number ts"
  using CollectOracleDump_set by (metis dump_after_def snd_conv)

lemma auto_sets_dumps:
  "auto_sets E v items tss ds s = (Inr dumps, s') \<longleftrightarrow>
   (\<exists>ss ds'. clean_run E tss ss \<and> ss ! 0 = s \<and> ss ! length tss = s' \<and> dumps = ds @ ds' \<and>
      (if v then length ds' = length tss \<and> (\<forall>n < length tss. dump_after E items (tss ! n) (ss ! Suc n) = (None, ds' ! n))
       else ds' = []))"
proof (induction tss arbitrary: ds s)
  case Nil
  show ?case by (auto simp: clean_run_Nil)
next
  case (Cons ts tss)
  obtain r s1 where r: "RunSet E ts s = (r, s1)" by (cases "RunSet E ts s")
  show ?case
  proof (cases r)
    case (Inl err)
    then show ?thesis using r by (auto simp: clean_run_Cons)
  next
    case (Inr sent)
    show ?thesis
    proof (cases v)
      case False
      have "auto_sets E v items (ts # tss) ds s = auto_sets E v items tss ds s1" using r Inr False by simp
      also have "\<dots> = (Inr dumps, s') \<longleftrightarrow> (\<exists>ss. clean_run E tss ss \<and> ss ! 0 = s1 \<and> ss ! length tss = s' \<and> dumps = ds)"
        unfolding Cons.IH using False by auto
      also have "\<dots> \<longleftrightarrow> (\<exists>ss. clean_run E (ts # tss) ss \<and> ss ! 0 = s \<and> ss ! length (ts # tss) = s' \<and> dumps = ds)"
      proof (intro iffI; elim exE conjE)
        fix ss assume a: "clean_run E tss ss" "ss ! 0 = s1" "ss ! length tss = s'" "dumps = ds"
        then obtain ss' where "ss = s1 # ss'" by (cases ss) (auto simp: clean_run_def)
        then show "\<exists>ss. clean_run E (ts # tss) ss \<and> ss ! 0 = s \<and> ss ! length (ts # tss) = s' \<and> dumps = ds"
          using a r Inr by (intro exI [of _ "s # ss"]) (simp add: clean_run_Cons)
      next
        fix ss assume a: "clean_run E (ts # tss) ss" "ss ! 0 = s" "ss ! length (ts # tss) = s'" "dumps = ds"
        then show "\<exists>ss. clean_run E tss ss \<and> ss ! 0 = s1 \<and> ss ! length tss = s' \<and> dumps = ds"
          using r Inr by (intro exI [of _ "tl ss"]) (auto simp: clean_run_Cons)
      qed
      finally show ?thesis using False by simp
    next
      case True
      obtain e d where d: "dump_after E items ts s1 = (e, d)" by (cases "dump_after E items ts s1")
      show ?thesis
      proof (cases e)
        case (Some err)
        then show ?thesis using r Inr True d [unfolded dump_after_def]
          by (auto simp: clean_run_Cons All_less_Suc2 dump_after_def)
      next
        case None
        have "auto_sets E v items (ts # tss) ds s = auto_sets E v items tss (ds @ [d]) s1"
          using r Inr True d [unfolded dump_after_def] None by simp
        also have "\<dots> = (Inr dumps, s') \<longleftrightarrow> (\<exists>ss ds'. clean_run E tss ss \<and> ss ! 0 = s1 \<and> ss ! length tss = s' \<and>
            dumps = (ds @ [d]) @ ds' \<and> length ds' = length tss \<and>
            (\<forall>n < length tss. dump_after E items (tss ! n) (ss ! Suc n) = (None, ds' ! n)))"
          unfolding Cons.IH using True by simp
        also have "\<dots> \<longleftrightarrow> (\<exists>ss ds'. clean_run E (ts # tss) ss \<and> ss ! 0 = s \<and> ss ! length (ts # tss) = s' \<and>
            dumps = ds @ ds' \<and> length ds' = length (ts # tss) \<and>
            (\<forall>n < length (ts # tss). dump_after E items ((ts # tss) ! n) (ss ! Suc n) = (None, ds' ! n)))"
        proof (intro iffI; elim exE conjE)
          fix ss ds' assume a: "clean_run E tss ss" "ss ! 0 = s1" "ss ! length tss = s'" "dumps = (ds @ [d]) @ ds'"
            "length ds' = length tss" "\<forall>n < length tss. dump_after E items (tss ! n) (ss ! Suc n) = (None, ds' ! n)"
          then obtain ss' where "ss = s1 # ss'" by (cases ss) (auto simp: clean_run_def)
          then show "\<exists>ss ds'. clean_run E (ts # tss) ss \<and> ss ! 0 = s \<and> ss ! length (ts # tss) = s' \<and>
              dumps = ds @ ds' \<and> length ds' = length (ts # tss) \<and>
              (\<forall>n < length (ts # tss). dump_after E items ((ts # tss) ! n) (ss ! Suc n) = (None, ds' ! n))"
            using a r Inr d None by (intro exI [of _ "s # ss"] exI [of _ "d # ds'"]) (simp add: clean_run_Cons All_less_Suc2)
        next
          fix ss ds' assume a: "clean_run E (ts # tss) ss" "ss ! 0 = s" "ss ! length (ts # tss) = s'" "dumps = ds @ ds'"
            "length ds' = length (ts # tss)"
            "\<forall>n < length (ts # tss). dump_after E items ((ts # tss) ! n) (ss ! Suc n) = (None, ds' ! n)"
          then obtain ss' ds1 where "ss = s # s1 # ss'" "clean_run E tss (s1 # ss')" "ds' = d # ds1"
            using r Inr d None by (cases ds') (auto simp: clean_run_Cons)
          then show "\<exists>ss ds'. clean_run E tss ss \<and> ss ! 0 = s1 \<and> ss ! length tss = s' \<and>
              dumps = (ds @ [d]) @ ds' \<and> length ds' = length tss \<and>
              (\<forall>n < length tss. dump_after E items (tss ! n) (ss ! Suc n) = (None, ds' ! n))"
            using a by (intro exI [of _ "s1 # ss'"] exI [of _ ds1]) (simp add: All_less_Suc2)
        qed
        finally show ?thesis using True by simp
      qed
    qed
  qed
qed

lemma verify_dumps_rc: "rc \<in> {0, 1} \<Longrightarrow> fst (verify_dumps xs ds rc) \<in> {0, 1} \<and> (fst (verify_dumps xs ds rc) = 0 \<longrightarrow> snd (verify_dumps xs ds rc) = None)"
  by (induction xs ds rc rule: verify_dumps.induct) (auto split: sum.split)

lemma VerifyDumps_zero:
  assumes "VerifyDumps load path dumps = (rc, e)"
  shows "fst (case e of None \<Rightarrow> (rc, s) | Some err \<Rightarrow> (1, s)) = 0 \<longleftrightarrow>
   (\<exists>xs. load path = Inr xs \<and>
      list_all (\<lambda>d. case findExpectedSet xs (d_Set d) of Inl _ \<Rightarrow> False | Inr x \<Rightarrow> dump_ok x d) dumps)"
proof (cases "load path")
  case (Inr xs)
  then show ?thesis
    using assms verify_dumps_rc [of 0 xs dumps] verify_dumps_zero [of xs dumps 0]
    by (auto simp: VerifyDumps_def split: option.splits)
qed (use assms in \<open>auto simp: VerifyDumps_def\<close>)

text \<open>The dumps taken along a run match the oracle exactly if the dump after each set does.\<close>

lemma dumps_match:
  assumes "clean_run E tss ss"
  shows "(\<exists>ds. length ds = length tss \<and> (\<forall>n < length tss. dump_after E items (tss ! n) (ss ! Suc n) = (None, ds ! n)) \<and>
      list_all (\<lambda>d. case findExpectedSet xs (d_Set d) of Inl _ \<Rightarrow> False | Inr x \<Rightarrow> dump_ok x d) ds) \<longleftrightarrow>
    list_all (\<lambda>(ts, s). \<exists>d x. dump_after E items ts s = (None, d) \<and> findExpectedSet xs (set_Number ts) = Inr x \<and> dump_ok x d)
      (zip tss (tl ss))"
  (is "?L \<longleftrightarrow> ?R")
proof
  have len: "length (zip tss (tl ss)) = length tss" "n < length tss \<Longrightarrow> zip tss (tl ss) ! n = (tss ! n, ss ! Suc n)" for n
    using assms by (simp_all add: clean_run_def nth_tl)
  have ok: "(case findExpectedSet xs n of Inl _ \<Rightarrow> False | Inr x \<Rightarrow> dump_ok x d) \<longleftrightarrow>
      (\<exists>x. findExpectedSet xs n = Inr x \<and> dump_ok x d)" for n d
    by (simp split: sum.split)
  let ?ok = "\<lambda>ts s d x. dump_after E items ts s = (None, d) \<and> findExpectedSet xs (set_Number ts) = Inr x \<and> dump_ok x d"
  have R_iff: "?R \<longleftrightarrow> (\<forall>n < length tss. \<exists>d x. ?ok (tss ! n) (ss ! Suc n) d x)"
    unfolding list_all_length len(1) using len(2) by (intro all_cong) simp
  show ?R if L: ?L
  proof -
    obtain ds where ds: "length ds = length tss" "\<forall>n < length tss. dump_after E items (tss ! n) (ss ! Suc n) = (None, ds ! n)"
      "\<forall>n < length tss. \<exists>x. findExpectedSet xs (d_Set (ds ! n)) = Inr x \<and> dump_ok x (ds ! n)"
      using L unfolding list_all_length ok by auto
    then show ?R unfolding R_iff using dump_after_set by metis
  qed
  assume R: ?R
  let ?ds = "map (\<lambda>n. snd (dump_after E items (tss ! n) (ss ! Suc n))) [0..<length tss]"
  have d: "dump_after E items (tss ! n) (ss ! Suc n) = (None, ?ds ! n) \<and>
      (\<exists>x. findExpectedSet xs (d_Set (?ds ! n)) = Inr x \<and> dump_ok x (?ds ! n))" if n: "n < length tss" for n
  proof -
    obtain d x where d: "?ok (tss ! n) (ss ! Suc n) d x" using R n unfolding R_iff by blast
    then have "?ds ! n = d" "d_Set d = set_Number (tss ! n)" using n dump_after_set [of E items "tss ! n" "ss ! Suc n" d] by simp_all
    then show ?thesis using d by auto
  qed
  then have "list_all (\<lambda>d. case findExpectedSet xs (d_Set d) of Inl _ \<Rightarrow> False | Inr x \<Rightarrow> dump_ok x d) ?ds"
    unfolding ok list_all_length by simp
  then show ?L using d by (intro exI [of _ ?ds]) simp
qed

text \<open>C34: What exit code 0 says. A scripted run of a test file exits with 0 exactly if the file parses
  and there is a sequence of deployments, the first the one the run was started on and each next one
  what \<open>RunSet\<close> leaves behind when it runs the next set of the file without an error, such that, where an
  oracle file is named, the oracle loads and after each set the dump of the deployment could be taken,
  the oracle knows the set, and the dump is what it expects. An error in any set, even the last, is
  thus seen in the exit code. The health check exits with 0 exactly if every server of the topology
  answers 200. Without an oracle, 0 says nothing about results.\<close>

theorem exit_code_zero:
  "(fst (runTestfile E fs path True verify input s) = 0 \<longleftrightarrow>
     (\<exists>f ss. ParseFile (fs_Open fs) path = Inr f \<and>
        clean_run E (file_Sets f) ss \<and> ss ! 0 = s \<and>
        (if verify = [] then True
         else \<exists>xs. loadExpected fs verify = Inr xs \<and>
           list_all (\<lambda>(ts, s'). \<exists>d x. dump_after E (AllItems f) ts s' = (None, d) \<and>
               findExpectedSet xs (set_Number ts) = Inr x \<and> dump_ok x d) (zip (file_Sets f) (tl ss))))) \<and>
   (fst (runHealthcheck t get) = 0 \<longleftrightarrow> list_all (\<lambda>s. get (health_url s) = Inr 200) (Servers t))"
proof (intro conjI)
  show "fst (runHealthcheck t get) = 0 \<longleftrightarrow> list_all (\<lambda>s. get (health_url s) = Inr 200) (Servers t)"
    by (simp add: healthcheck_exit list_all_iff)
  show "fst (runTestfile E fs path True verify input s) = 0 \<longleftrightarrow>
     (\<exists>f ss. ParseFile (fs_Open fs) path = Inr f \<and>
        clean_run E (file_Sets f) ss \<and> ss ! 0 = s \<and>
        (if verify = [] then True
         else \<exists>xs. loadExpected fs verify = Inr xs \<and>
           list_all (\<lambda>(ts, s'). \<exists>d x. dump_after E (AllItems f) ts s' = (None, d) \<and>
               findExpectedSet xs (set_Number ts) = Inr x \<and> dump_ok x d) (zip (file_Sets f) (tl ss))))"
  proof (cases "ParseFile (fs_Open fs) path")
    case (Inr f)
    let ?tss = "file_Sets f" and ?items = "AllItems f"
    have exit: "fst (runTestfile E fs path True verify input s) = 0 \<longleftrightarrow>
        (\<exists>dumps s'. auto_sets E (verify \<noteq> []) ?items ?tss [] s = (Inr dumps, s') \<and>
           (verify = [] \<or> (\<exists>xs. loadExpected fs verify = Inr xs \<and>
              list_all (\<lambda>d. case findExpectedSet xs (d_Set d) of Inl _ \<Rightarrow> False | Inr x \<Rightarrow> dump_ok x d) dumps)))"
    proof (cases "auto_sets E (verify \<noteq> []) ?items ?tss [] s")
      case (Pair r s')
      then show ?thesis
      proof (cases r)
        case ok: (Inr dumps)
        obtain rc e where v: "VerifyDumps (loadExpected fs) verify dumps = (rc, e)" by (cases "VerifyDumps (loadExpected fs) verify dumps")
        then show ?thesis using Inr Pair ok VerifyDumps_zero [OF v, of s'] by (simp add: runTestfile_def)
      qed (use Inr in \<open>simp add: runTestfile_def\<close>)
    qed
    let ?M = "\<lambda>xs ds. list_all (\<lambda>d. case findExpectedSet xs (d_Set d) of Inl _ \<Rightarrow> False | Inr x \<Rightarrow> dump_ok x d) ds"
    let ?N = "\<lambda>xs ss. list_all (\<lambda>(ts, s'). \<exists>d x. dump_after E ?items ts s' = (None, d) \<and>
               findExpectedSet xs (set_Number ts) = Inr x \<and> dump_ok x d) (zip ?tss (tl ss))"
    have "(\<exists>dumps s'. auto_sets E True ?items ?tss [] s = (Inr dumps, s') \<and> (\<exists>xs. loadExpected fs verify = Inr xs \<and> ?M xs dumps)) \<longleftrightarrow>
        (\<exists>ss xs. clean_run E ?tss ss \<and> ss ! 0 = s \<and> loadExpected fs verify = Inr xs \<and>
           (\<exists>ds. length ds = length ?tss \<and> (\<forall>n < length ?tss. dump_after E ?items (?tss ! n) (ss ! Suc n) = (None, ds ! n)) \<and> ?M xs ds))"
      unfolding auto_sets_dumps by auto
    also have "\<dots> \<longleftrightarrow> (\<exists>ss xs. clean_run E ?tss ss \<and> ss ! 0 = s \<and> loadExpected fs verify = Inr xs \<and> ?N xs ss)"
      by (intro ex_cong1 conj_cong refl dumps_match)
    finally have checked: "(\<exists>dumps s'. auto_sets E True ?items ?tss [] s = (Inr dumps, s') \<and>
        (\<exists>xs. loadExpected fs verify = Inr xs \<and> ?M xs dumps)) \<longleftrightarrow>
        (\<exists>ss xs. clean_run E ?tss ss \<and> ss ! 0 = s \<and> loadExpected fs verify = Inr xs \<and> ?N xs ss)" .
    show ?thesis
    proof (cases "verify = []")
      case True
      then show ?thesis unfolding exit auto_sets_dumps using Inr by simp
    next
      case False
      then show ?thesis using exit checked Inr by simp
    qed
  qed (simp add: runTestfile_def)
qed

subsection \<open>What a benchmark counts\<close>

definition answered :: "env \<Rightarrow> topology \<Rightarrow> 'r bench \<Rightarrow> opMeta \<Rightarrow> bool" where
  "answered E t b m \<longleftrightarrow> collect_result t (Remote_LookupReply (en_Cloud E) (ds_Remote b)) (om_LastReq m) \<noteq> None"

lemma record_unresolved_length:
  "length (wm_Records (bn_Metrics (record_unresolved metas b))) =
     length (wm_Records (bn_Metrics b)) + length (filter (\<lambda>m. \<not> om_Done m) metas) \<and>
   ds_Remote (record_unresolved metas b) = ds_Remote b"
  unfolding record_unresolved_def
  by (induction metas arbitrary: b) (auto simp: add_metrics_def RecordSample_def)

lemma resolve_round_length:
  "length (wm_Records (bn_Metrics (snd (resolve_round E t metas b)))) =
     length (wm_Records (bn_Metrics b)) + length (filter (\<lambda>m. \<not> om_Done m \<and> answered E t b m) metas)"
proof (induction metas arbitrary: b)
  case (Cons m metas)
  let ?look = "Remote_LookupReply (en_Cloud E) (ds_Remote b)"
  have same: "answered E t (b\<lparr>bn_Metrics := w\<rparr>) = answered E t b" for w by (simp add: answered_def fun_eq_iff)
  show ?case
  proof (cases "om_Done m")
    case True
    then show ?thesis using Cons.IH [of b] by (simp add: case_prod_beta)
  next
    case False
    show ?thesis
    proof (cases "collect_result t ?look (om_LastReq m)")
      case None
      then show ?thesis using False Cons.IH [of b] by (simp add: tryResolve_def answered_def case_prod_beta)
    next
      case (Some r)
      let ?w = "recordResult m r (ds_Now b) (bn_Metrics b)"
      have "wm_Records ?w = wm_Records (bn_Metrics b) @ [last (wm_Records ?w)]" by (simp add: recordResult_def RecordSample_def)
      then have "length (wm_Records ?w) = length (wm_Records (bn_Metrics b)) + 1" by (metis length_append_singleton Suc_eq_plus1)
      moreover have "answered E t b m" by (simp add: answered_def Some)
      ultimately show ?thesis
        using False Some Cons.IH [of "b\<lparr>bn_Metrics := ?w\<rparr>"] by (simp add: tryResolve_def same case_prod_beta)
    qed
  qed
qed simp

text \<open>An operation that is late is counted twice. The benchmark records every operation that has not
  settled in time as not committed, and then drains: each of them that a look finds answered is
  recorded again with its result. So after the first round of the drain the report's count exceeds
  the number of operations by the number of late ones answered by then, and a late operation that
  committed counts once as committed and once as not.\<close>

theorem late_operations_counted_twice:
  "let late = filter (\<lambda>m. \<not> om_Done m) metas; b' = snd (resolve_round E t metas (record_unresolved metas b)) in
     bs_Count (stats (\<lambda>_. True) (bn_Metrics b')) =
     int (length (wm_Records (bn_Metrics b)) + length late + length (filter (answered E t b) late))"
proof -
  have "answered E t (record_unresolved metas b) = answered E t b"
    using record_unresolved_length [of metas b] by (simp add: answered_def fun_eq_iff)
  then have "length (wm_Records (bn_Metrics (snd (resolve_round E t metas (record_unresolved metas b))))) =
      length (wm_Records (bn_Metrics b)) + length (filter (\<lambda>m. \<not> om_Done m) metas) +
      length (filter (answered E t b) (filter (\<lambda>m. \<not> om_Done m) metas))"
    using resolve_round_length [of E t metas "record_unresolved metas b"] record_unresolved_length [of metas b]
    by (simp add: conj_commute)
  then show ?thesis by (simp add: stats_counts Let_def)
qed

end
