(* ===== verification/Service.thy ===== *)
theory Service
  imports Console
begin

text \<open>
  A server process (\<open>cmd/server/main.go\<close>, \<open>cmd/keygen/main.go\<close>): the life of its hub
  (\<open>internal/transport/hub.go\<close>: listening, serving, stopping), the endpoint for health checks, and the
  start of the process with its key files. The network's answer to \<open>listen\<close> is a parameter.
\<close>

subsection \<open>The life of a hub\<close>

record running =
  rg_Replica :: replica
  rg_Listener :: "string option"
  rg_Serving :: bool
  rg_Closed :: bool
  rg_StoreOpen :: bool
  rg_Cancelled :: bool

text \<open>A replica just constructed; \<open>rg_Closed\<close> says that the inbound channel is closed.\<close>

definition constructed :: "replica \<Rightarrow> running" where
  "constructed r = \<lparr>rg_Replica = r, rg_Listener = None, rg_Serving = False, rg_Closed = False, rg_StoreOpen = True, rg_Cancelled = False\<rparr>"

definition rg_Hub :: "running \<Rightarrow> hub" where
  "rg_Hub g = r_Hub (rg_Replica g)"

definition on_hub :: "(hub \<Rightarrow> hub) \<Rightarrow> running \<Rightarrow> running" where
  "on_hub f g = g\<lparr>rg_Replica := (rg_Replica g)\<lparr>r_Hub := f (rg_Hub g)\<rparr>\<rparr>"

text \<open>\<open>listen\<close> gives the address that was bound, or an error.\<close>

definition Hub_Start :: "(string \<Rightarrow> string + string) \<Rightarrow> string \<Rightarrow> running \<Rightarrow> string + running" where
  "Hub_Start listen addr g =
     (case listen addr of
        Inl err \<Rightarrow> Inl (''listen '' @ addr @ '': '' @ err)
      | Inr bound \<Rightarrow> Inr (g\<lparr>rg_Listener := Some bound, rg_Serving := True\<rparr>))"

definition Hub_Addr :: "running \<Rightarrow> string" where
  "Hub_Addr g = (case rg_Listener g of None \<Rightarrow> [] | Some a \<Rightarrow> a)"

definition Replica_Addr :: "running \<Rightarrow> string" where
  "Replica_Addr g = Hub_Addr g"

text \<open>\<open>GracefulStop\<close> waits for the calls being served, so none is served afterwards; a second \<open>Stop\<close> does
  nothing.\<close>

definition Hub_Stop :: "running \<Rightarrow> running" where
  "Hub_Stop g =
     (if rg_Closed g then g
      else (on_hub (\<lambda>h. h\<lparr>h_Peers := {}\<rparr>) (g\<lparr>rg_Serving := False\<rparr>))\<lparr>rg_Closed := True\<rparr>)"

definition Store_Close :: "running \<Rightarrow> running" where
  "Store_Close g = (if \<not> rg_StoreOpen g then g else g\<lparr>rg_StoreOpen := False\<rparr>)"

definition Replica_Stop :: "running \<Rightarrow> running" where
  "Replica_Stop g = Store_Close (Hub_Stop g)"

text \<open>A send on a closed channel panics (\<open>None\<close>), even in a select with a default.\<close>

definition channel_send :: "running \<Rightarrow> envelope \<Rightarrow> (string + running) option" where
  "channel_send g env =
     (if rg_Closed g then None
      else Some (case Inject (rg_Hub g) env of Inl err \<Rightarrow> Inl err | Inr h \<Rightarrow> Inr (on_hub (\<lambda>_. h) g)))"

definition Hub_Deliver :: "crypto_ops \<Rightarrow> running \<Rightarrow> envelope \<Rightarrow> (string + running) option" where
  "Hub_Deliver C g env =
     (if w_Type env \<in> {''CLIENT_REQUEST'', ''PREPARE'', ''COMMIT''} then channel_send g env
      else if \<not> Verify C (rg_Hub g) env then Some (Inl (''invalid signature from sender '' @ itoa (w_SenderId env)))
      else channel_send g env)"

lemma Hub_Deliver_open:
  "\<not> rg_Closed g \<Longrightarrow> Hub_Deliver C g env = Some (case Deliver C (rg_Hub g) env of Inl err \<Rightarrow> Inl err | Inr h \<Rightarrow> Inr (on_hub (\<lambda>_. h) g))"
  by (simp add: Hub_Deliver_def Deliver_def channel_send_def split: sum.split)

text \<open>A call from outside is served while the server runs, and refused after.\<close>

definition remote_call :: "crypto_ops \<Rightarrow> envelope \<Rightarrow> running \<Rightarrow> (call_result \<times> running) option" where
  "remote_call C env g =
     (if \<not> rg_Serving g then Some (CallError ''unavailable'', g)
      else case Hub_Deliver C g env of
             None \<Rightarrow> None
           | Some (Inl err) \<Rightarrow> Some (Ack False err, g)
           | Some (Inr g) \<Rightarrow> Some (Ack True [], g))"

text \<open>The store of a replica. Once \<open>Store_Close\<close> has dropped its database, the first access to it panics,
  and a panic in the goroutine of a handler ends the process. \<open>touch env r\<close> says whether the handler
  of an envelope reaches for the store. What is known of it: only the handlers of PBFT and two-phase
  commit messages have the store, and a handler that does not touch it neither changes it nor depends
  on what it holds.\<close>

definition set_store :: "store \<Rightarrow> replica \<Rightarrow> replica" where
  "set_store st = on_node (on_engine (on_store (\<lambda>_. st)))"

definition touch_law :: "crypto_ops \<Rightarrow> codec \<Rightarrow> iteration \<Rightarrow> (envelope \<Rightarrow> replica \<Rightarrow> bool) \<Rightarrow> bool" where
  "touch_law C J I touch \<longleftrightarrow> (\<forall>env r.
     (touch env r \<longrightarrow> IsPBFT (w_Type env) \<or> Is2PC (w_Type env)) \<and>
     (\<not> touch env r \<longrightarrow> (\<forall>N st. dispatch C J I N env (set_store st r) = set_store st (dispatch C J I N env r))))"

text \<open>A turn of \<open>Run\<close>: it waits (\<open>Blocked\<close>), dispatches the next envelope, whose handler panics if it
  touches a closed store, or ends since the channel is closed and empty or the context is cancelled;
  \<open>pick\<close> is the choice of the select when an envelope is ready too.\<close>

datatype run_turn = Blocked | Dispatched running | Ended | Panicked

definition Replica_turn ::
    "bool \<Rightarrow> (envelope \<Rightarrow> replica \<Rightarrow> bool) \<Rightarrow> crypto_ops \<Rightarrow> codec \<Rightarrow> iteration \<Rightarrow> network \<Rightarrow> running \<Rightarrow> run_turn" where
  "Replica_turn pick touch C J I N g =
     (case h_Inbound (rg_Hub g) of
        [] \<Rightarrow> if rg_Cancelled g \<or> rg_Closed g then Ended else Blocked
      | env # rest \<Rightarrow>
          (let r = (rg_Replica g)\<lparr>r_Hub := (rg_Hub g)\<lparr>h_Inbound := rest\<rparr>\<rparr> in
           if rg_Cancelled g \<and> pick then Ended
           else if \<not> rg_StoreOpen g \<and> touch env r then Panicked
           else Dispatched (g\<lparr>rg_Replica := dispatch C J I N env r\<rparr>)))"

subsection \<open>A process that is stopped\<close>

text \<open>What happens to a process from its start on, until a panic ends it; \<open>m\<close> counts the envelopes it has
  accepted and \<open>n\<close> those it has dispatched.\<close>

inductive life ::
    "(envelope \<Rightarrow> replica \<Rightarrow> bool) \<Rightarrow> crypto_ops \<Rightarrow> codec \<Rightarrow> iteration \<Rightarrow> running \<Rightarrow> nat \<Rightarrow> nat \<Rightarrow> running \<Rightarrow> bool"
  for touch :: "envelope \<Rightarrow> replica \<Rightarrow> bool" and C :: crypto_ops and J :: codec and I :: iteration and g0 :: running where
  start: "life touch C J I g0 0 0 g0"
| call: "life touch C J I g0 m n g \<Longrightarrow> remote_call C env g = Some (ack, g') \<Longrightarrow>
    life touch C J I g0 (if ack = Ack True [] then m + 1 else m) n g'"
| turn: "life touch C J I g0 m n g \<Longrightarrow> Replica_turn pick touch C J I N g = Dispatched g' \<Longrightarrow> life touch C J I g0 m (n + 1) g'"
| inner: "life touch C J I g0 m n g \<Longrightarrow> h_Inbound (r_Hub r) = h_Inbound (rg_Hub g) \<Longrightarrow>
    life touch C J I g0 m n (g\<lparr>rg_Replica := r\<rparr>)"
| cancel: "life touch C J I g0 m n g \<Longrightarrow> life touch C J I g0 m n (g\<lparr>rg_Cancelled := True\<rparr>)"
| stop: "life touch C J I g0 m n g \<Longrightarrow> life touch C J I g0 m n (Replica_Stop g)"

lemma dispatch_inbound: "h_Inbound (r_Hub (dispatch C J I N env r)) = h_Inbound (r_Hub r)"
proof -
  have "h_Inbound (snd (Send dial call h i e)) = h_Inbound h" for dial call h i e
    by (auto simp: Send_def peer_def dropPeer_def split: sum.split option.split call_result.split)
  then show ?thesis
    by (auto simp: dispatch_def with_hooks_def on_node_def handlePing_def handle2PC_def Let_def split: sum.split)
qed

lemma remote_call_inbound:
  assumes "remote_call C env g = Some (ack, g')"
  shows "rg_Serving g' = rg_Serving g \<and> rg_Closed g' = rg_Closed g \<and> rg_Cancelled g' = rg_Cancelled g \<and>
    rg_StoreOpen g' = rg_StoreOpen g \<and>
    length (h_Inbound (rg_Hub g')) = length (h_Inbound (rg_Hub g)) + (if ack = Ack True [] then 1 else 0)"
proof (cases "rg_Serving g \<and> \<not> rg_Closed g")
  case True
  then show ?thesis
    using assms Deliver_cases [of C "rg_Hub g" env]
    by (auto simp: remote_call_def Hub_Deliver_open on_hub_def rg_Hub_def split: sum.splits)
next
  case False
  then show ?thesis
    using assms by (auto simp: remote_call_def Hub_Deliver_def channel_send_def split: if_splits)
qed

lemma untouched_store:
  assumes "touch_law C J I touch" and "\<not> touch env r"
  shows "replica_store (dispatch C J I N env r) = replica_store r"
proof -
  have same: "set_store (replica_store r) r = r"
    by (simp add: set_store_def on_node_def on_engine_def on_store_def)
  have "dispatch C J I N env (set_store (replica_store r) r) = set_store (replica_store r) (dispatch C J I N env r)"
    using assms unfolding touch_law_def by blast
  then have "dispatch C J I N env r = set_store (replica_store r) (dispatch C J I N env r)" unfolding same .
  then have "replica_store (dispatch C J I N env r) = replica_store (set_store (replica_store r) (dispatch C J I N env r))" by simp
  then show ?thesis by (simp add: set_store_def on_node_def on_engine_def on_store_def)
qed


definition store_bound :: "envelope \<Rightarrow> replica \<Rightarrow> bool" where
  "store_bound env r \<longleftrightarrow> IsPBFT (w_Type env) \<or> Is2PC (w_Type env)"

text \<open>The law holds for one reading at least: every such handler touches the store.\<close>

lemma store_bound_law: "touch_law C J I store_bound"
  by (auto simp: touch_law_def store_bound_def dispatch_def handlePing_def set_store_def on_node_def Let_def split: sum.split)

definition waiting_replica :: replica where
  "waiting_replica = (sample_replica 2)\<lparr>r_Hub := (r_Hub (sample_replica 2))\<lparr>h_Inbound := [NewEnvelope 1 ''PRE_PREPARE'' []]\<rparr>\<rparr>"

lemma pre_prepare_locks:
  defines "e \<equiv> onPrePrepare plain_crypto ((sample_engine 2)\<lparr>eHooks := True\<rparr>) sample_pp"
  shows "lock_owner (eStore e) 5 = Some 1" and "eEffects (n_Engine n) = eEffects e \<Longrightarrow> run_hooks C up n = n"
proof -
  let ?a = "adopt (pp_Digest sample_pp) (pp_Req sample_pp) 1 ((sample_engine 2)\<lparr>eHooks := True\<rparr>)"
  have on: "e = processPrePrepare plain_crypto ?a sample_pp"
    by (simp add: e_def onPrePrepare_def sample_pp_def opMatchesCluster_def norm_op_def SameCluster_def sample_req_def
        sample_cluster gapClearLocked_def)
  have val: "validateRequest ?a (pp_Req sample_pp) 1"
    by (simp add: validateRequest_def sample_pp_def norm_op_def sample_req_def Let_def adopt_steps
        locksReadyForSeq_def lockItemsForOp.simps IsLocked_def)
  have np: "\<not> is_primary ?a" using sample_primary_iff [of 2] by (simp add: adopt_steps)
  have "5 \<in> set (lockItemsForOp (pp_Req sample_pp))"
    by (simp add: sample_pp_def sample_req_def lockItemsForOp.simps)
  moreover have seq: "pp_Seq sample_pp = 1" by (simp add: sample_pp_def)
  moreover have "\<not> ByzantineBackup (eFault ?a)" by (simp add: adopt_steps DefaultFaultConfig_def)
  ultimately show "lock_owner (eStore e) 5 = Some 1"
    using backup_vote_cases [OF np, of plain_crypto sample_pp] val by (simp add: on Let_def)
  show "run_hooks C up n = n" if "eEffects (n_Engine n) = eEffects e"
  proof (rule run_hooks_idle)
    have "eEffects ?a = []" by (simp add: adopt_steps)
    then show "\<forall>x\<in>set (eEffects (n_Engine n)). hook_of x = None"
      using backup_vote_cases [OF np, of plain_crypto sample_pp] that by (auto simp: on Let_def split: if_splits)
  qed
qed


subsection \<open>The server program\<close>

text \<open>The fatal errors, in the order of the checks.\<close>

datatype server_error = MissingId | BadId string | NotInTopology int int | LoadKeys ring_error | StartReplica string

definition healthAddr :: "server \<Rightarrow> string" where
  "healthAddr s = srv_Host s @ '':'' @ itoa (srv_Port s + 10000)"

definition health_body :: "server \<Rightarrow> running \<Rightarrow> string" where
  "health_body s g = ''OK '' @ server_name (srv_ID s) @ '' cluster=C'' @ itoa (srv_Cluster s) @ '' grpc='' @
     Replica_Addr g @ [CHR 0x0A]"

text \<open>The routes of the process: the health check beside those of the replica.\<close>

definition serve_http :: "crypto_ops \<Rightarrow> json \<Rightarrow> (int \<Rightarrow> bool) \<Rightarrow> server \<Rightarrow> http_request \<Rightarrow> running \<Rightarrow> http_response \<times> running" where
  "serve_http C J up s q g =
     (if hq_Path q = ''/health'' then (http_ok (health_body s g), g)
      else case RegisterHTTP C J up q (rg_Replica g) of (resp, r) \<Rightarrow> (resp, g\<lparr>rg_Replica := r\<rparr>))"

text \<open>What the outside gives a starting process: the environment, files, listeners.\<close>

record machine =
  mc_Env :: "string \<Rightarrow> string"
  mc_Keys :: keydir
  mc_Fresh :: "int \<Rightarrow> bytes \<times> bytes"
  mc_Join :: "string \<Rightarrow> string \<Rightarrow> string"
  mc_Disk :: "string \<Rightarrow> string + store"
  mc_Listen :: "string \<Rightarrow> string + string"

datatype server_exit = Fatal server_error | Serving server running string

definition listen_error :: "machine \<Rightarrow> string \<Rightarrow> string option" where
  "listen_error M addr = (case mc_Listen M addr of Inl err \<Rightarrow> Some (''listen '' @ addr @ '': '' @ err) | Inr _ \<Rightarrow> None)"

text \<open>\<open>NewReplica\<close> starts the hub; \<open>Hub_Start\<close> adds the address it got. \<open>keysDir\<close> is the directory of the keys.\<close>

definition server_main :: "machine \<Rightarrow> string \<Rightarrow> string \<Rightarrow> server_exit \<times> keydir" where
  "server_main M idFlag keysDir =
     (if idFlag = [] then (Fatal MissingId, mc_Keys M)
      else case ParseServerID idFlag of
             Inl err \<Rightarrow> (Fatal (BadId err), mc_Keys M)
           | Inr i \<Rightarrow>
               (let t = Load (mc_Env M) in
                case ServerByID t i of
                  None \<Rightarrow> (Fatal (NotInTopology i (TotalServers t)), mc_Keys M)
                | Some self \<Rightarrow>
                    (case LoadOrCreateKeyRing t (srv_ID self) keysDir (mc_Fresh M) (mc_Keys M) of
                       (Inl err, keys) \<Rightarrow> (Fatal (LoadKeys err), keys)
                     | (Inr ring, keys) \<Rightarrow>
                         (case NewReplica (mc_Join M) (mc_Disk M) (listen_error M) (srv_ID self) t ring of
                            Inl err \<Rightarrow> (Fatal (StartReplica err), keys)
                          | Inr r \<Rightarrow>
                              (case Hub_Start (mc_Listen M) (Addr self) (constructed r) of
                                 Inl err \<Rightarrow> (Fatal (StartReplica err), keys)
                               | Inr g \<Rightarrow> (Serving self g (healthAddr self), keys))))))"

text \<open>The program that makes keys; \<open>absPath\<close> is \<open>filepath.Abs\<close>.\<close>

definition keygen_main :: "(string \<Rightarrow> string) \<Rightarrow> (string \<Rightarrow> string + string) \<Rightarrow> string \<Rightarrow> (int \<Rightarrow> bytes \<times> bytes) \<Rightarrow> keydir \<Rightarrow> (string + string) \<times> keydir" where
  "keygen_main environ absPath out fresh files =
     (let t = Load environ in
      case absPath out of
        Inl err \<Rightarrow> (Inl (''resolve output dir: '' @ err), files)
      | Inr dir \<Rightarrow> (Inr (println (''generated '' @ itoa (TotalServers t) @ '' keypairs in '' @ dir)), GenerateAllKeys t dir fresh files))"

subsection \<open>Health checks of a deployment\<close>

text \<open>What the client's check gets from the processes that run: \<open>refused\<close> is the error of a call to an
  address where nobody listens.\<close>

definition health_get :: "string \<Rightarrow> topology \<Rightarrow> (server \<Rightarrow> running option) \<Rightarrow> string \<Rightarrow> string + int" where
  "health_get refused t procs url =
     (case find (\<lambda>s. procs s \<noteq> None \<and> url = ''http://'' @ healthAddr s @ ''/health'') (Servers t) of
        None \<Rightarrow> Inl refused
      | Some _ \<Rightarrow> Inr 200)"

lemma health_url_addr: "health_url s = ''http://'' @ healthAddr s @ ''/health''"
  by (simp add: health_url_def healthAddr_def)

lemma healthAddr_inj: "srv_Host a = srv_Host b \<Longrightarrow> healthAddr a = healthAddr b \<longleftrightarrow> srv_Port a = srv_Port b"
  by (auto simp: healthAddr_def itoa_inj)

lemma healthcheck_sees_all:
  assumes "distinct (map healthAddr (Servers t))"
  shows "fst (runHealthcheck t (health_get refused t procs)) = 0 \<longleftrightarrow> (\<forall>s\<in>set (Servers t). procs s \<noteq> None)"
proof -
  have "health_get refused t procs (health_url s) = Inr 200 \<longleftrightarrow> procs s \<noteq> None" if s: "s \<in> set (Servers t)" for s
  proof -
    have "a = s" if "a \<in> set (Servers t)" "healthAddr a = healthAddr s" for a
      using that s assms by (simp add: distinct_map inj_on_def)
    then have "find (\<lambda>a. procs a \<noteq> None \<and> health_url s = ''http://'' @ healthAddr a @ ''/health'') (Servers t) = None \<longleftrightarrow> procs s = None"
      using s by (auto simp: find_None_iff health_url_addr)
    then show ?thesis by (auto simp: health_get_def split: option.split)
  qed
  then show ?thesis by (simp add: healthcheck_exit)
qed

subsection \<open>Lost keys\<close>

text \<open>C35: A server that misses its own key file gives every server a new key. Let server \<open>a\<close> start in an
  empty directory, which makes keys for all and loads its ring; let the file of server \<open>b\<close> be missing
  when \<open>b\<close> starts, because it was lost or because \<open>b\<close> looked before \<open>a\<close> had written it. Then \<open>b\<close> makes new
  keys for all and overwrites the files of the others: whatever \<open>a\<close> signs from then on, with the key it
  holds, \<open>b\<close> rejects, and what the files now say of \<open>a\<close> is the new key.\<close>

theorem missing_key_replaces_all:
  assumes lens: "\<forall>s\<in>set (Servers t). length (fst (fresh (srv_ID s))) = 32 \<and> length (snd (fresh (srv_ID s))) = 64"
      "\<forall>s\<in>set (Servers t). length (fst (fresh' (srv_ID s))) = 32 \<and> length (snd (fresh' (srv_ID s))) = 64"
    and ids: "a \<in> srv_ID ` set (Servers t)" "b \<in> srv_ID ` set (Servers t)"
    and unrelated: "\<forall>m. \<not> ed_verify C (fst (fresh' a)) m (ed_sign C (snd (fresh a)) m)"
    and empty: "files (keyPath dir a) = None"
  shows "\<exists>ra rb files1 files2. LoadOrCreateKeyRing t a dir fresh files = (Inr ra, files1) \<and>
    LoadOrCreateKeyRing t b dir fresh' (files1(keyPath dir b := None)) = (Inr rb, files2) \<and>
    (\<forall>m. \<not> ring_Verify C rb a m (ring_Sign C ra m)) \<and>
    files2 (keyPath dir a) = Some (Some \<lparr>kf_ServerID = a, kf_PublicHex = hex (fst (fresh' a)), kf_PrivateHex = hex (snd (fresh' a))\<rparr>)"
proof -
  let ?f1 = "GenerateAllKeys t dir fresh files"
  let ?f2 = "GenerateAllKeys t dir fresh' (?f1(keyPath dir b := None))"
  obtain ra where ra: "LoadKeyRing t a dir ?f1 = Inr ra" "Private ra = snd (fresh a)"
    using load_generated [OF lens(1) ids(1)] by blast
  obtain rb where rb: "LoadKeyRing t b dir ?f2 = Inr rb" "PublicKey rb a = Some (fst (fresh' a))"
    using load_generated [OF lens(2) ids(2)] ids(1) by blast
  have "?f2 (keyPath dir a) = Some (Some \<lparr>kf_ServerID = a, kf_PublicHex = hex (fst (fresh' a)), kf_PrivateHex = hex (snd (fresh' a))\<rparr>)"
    using ids(1) by (simp add: GenerateAllKeys_def fold_writeKeyFile)
  moreover have "\<not> ring_Verify C rb a m (ring_Sign C ra m)" for m
    using unrelated by (simp add: ring_Verify_def ring_Sign_def ra rb)
  ultimately show ?thesis
    using ra(1) rb(1) empty by (intro exI [of _ ra] exI [of _ rb] exI [of _ ?f1] exI [of _ ?f2]) (simp add: LoadOrCreateKeyRing_def)
qed

theorem missing_key_replaces_all_witness:
  "let C = plain_crypto\<lparr>ed_verify := \<lambda>k m s. s = k @ k @ m\<rparr>;
       key = (\<lambda>c. (replicate 32 c, replicate 64 c))
   in \<exists>ra rb files1 files2. LoadOrCreateKeyRing sample_topo 1 ''d'' (\<lambda>_. key (CHR ''a'')) (\<lambda>_. None) = (Inr ra, files1) \<and>
     LoadOrCreateKeyRing sample_topo 2 ''d'' (\<lambda>_. key (CHR ''b'')) (files1(keyPath ''d'' 2 := None)) = (Inr rb, files2) \<and>
     \<not> ring_Verify C rb 1 ''m'' (ring_Sign C ra ''m'')"
proof -
  let ?C = "plain_crypto\<lparr>ed_verify := \<lambda>k m s. s = k @ k @ m\<rparr>"
  let ?a = "\<lambda>_ :: int. (replicate 32 (CHR ''a''), replicate 64 (CHR ''a''))" and ?b = "\<lambda>_ :: int. (replicate 32 (CHR ''b''), replicate 64 (CHR ''b''))"
  have bad: "\<forall>m. \<not> ed_verify ?C (fst (?b 1)) m (ed_sign ?C (snd (?a 1)) m)"
    by (simp add: plain_crypto_def numeral_eq_Suc)
  have "\<exists>ra rb files1 files2. LoadOrCreateKeyRing sample_topo 1 ''d'' ?a (\<lambda>_. None) = (Inr ra, files1) \<and>
      LoadOrCreateKeyRing sample_topo 2 ''d'' ?b (files1(keyPath ''d'' 2 := None)) = (Inr rb, files2) \<and>
      (\<forall>m. \<not> ring_Verify ?C rb 1 m (ring_Sign ?C ra m)) \<and>
      files2 (keyPath ''d'' 1) = Some (Some \<lparr>kf_ServerID = 1, kf_PublicHex = hex (fst (?b 1)), kf_PrivateHex = hex (snd (?b 1))\<rparr>)"
    by (rule missing_key_replaces_all [OF _ _ _ _ bad]) simp_all
  then show ?thesis unfolding Let_def by blast
qed

end
