(* ===== verification/Progress.thy ===== *)
theory Progress
  imports Cluster Wire Client
begin

text \<open>
  Progress of the normal case: a client request that reaches a correct primary is executed and
  answered by all live servers of the cluster. The servers exchange their messages over links that
  lose nothing; \<open>dispatch\<close> starts a goroutine for every message, so any message on a link may be
  handled next, and only for the PRE-PREPARE is it asked that nothing overtakes it (\<open>orderly\<close>). No
  timer fires meanwhile, and the other servers of the cluster are down.
\<close>

subsection \<open>A network of engines\<close>

text \<open>What the effects of a server put on its links, as in \<open>send_effect\<close>. \<open>sg\<close> is the signature the hub
  puts on a broadcast, which no handler looks at.\<close>

fun posted :: "(int \<Rightarrow> payload \<Rightarrow> bytes) \<Rightarrow> int \<Rightarrow> int list \<Rightarrow> effect \<Rightarrow> (int \<times> Envelope) list" where
  "posted sg self ps (ESend to m sig) = [(to, \<lparr>env_SenderId = self, env_Payload = m, env_Signature = sig\<rparr>)]"
| "posted sg self ps (EBroadcast m) = map (\<lambda>i. (i, \<lparr>env_SenderId = self, env_Payload = m, env_Signature = sg self m\<rparr>)) ps"
| "posted sg self ps _ = []"

definition peers_of :: "engine \<Rightarrow> int list" where
  "peers_of e = cluster_peers (NewHubSender (eTopo e) (eSelf e) (eSenderView e))"

text \<open>What a handler has sent to \<open>i\<close>: the effects it added.\<close>

definition outgoing :: "(int \<Rightarrow> payload \<Rightarrow> bytes) \<Rightarrow> engine \<Rightarrow> engine \<Rightarrow> int \<Rightarrow> Envelope list" where
  "outgoing sg e e' i =
     map snd (filter (\<lambda>m. fst m = i)
       (concat (map (posted sg (eSelf e) (peers_of e)) (drop (length (eEffects e)) (eEffects e')))))"

record network =
  nEng :: "int \<Rightarrow> engine"
  nLink :: "int \<Rightarrow> int \<Rightarrow> Envelope list"

definition turn_to :: "(int \<Rightarrow> payload \<Rightarrow> bytes) \<Rightarrow> int \<Rightarrow> engine \<Rightarrow> network \<Rightarrow> network" where
  "turn_to sg j e' N =
     N\<lparr>nEng := (nEng N)(j := e'),
       nLink := (nLink N)(j := (\<lambda>i. nLink N j i @ outgoing sg (nEng N j) e' i))\<rparr>"

text \<open>Server \<open>j\<close> handles the message at place \<open>n\<close> of those server \<open>i\<close> has sent it and it has not handled
  yet. The handlers of messages run in goroutines of their own, so any of them may be the next.\<close>

definition deliver ::
    "crypto_ops \<Rightarrow> iteration \<Rightarrow> (int \<Rightarrow> payload \<Rightarrow> bytes) \<Rightarrow> int \<times> int \<times> nat \<Rightarrow> network \<Rightarrow> network option" where
  "deliver C I sg d N =
     (case d of (i, j, n) \<Rightarrow>
        (let msgs = nLink N i j in
         if n < length msgs
         then Some (turn_to sg j (Handle C I (nEng N j) (msgs ! n))
                (N\<lparr>nLink := (nLink N)(i := (nLink N i)(j := take n msgs @ drop (Suc n) msgs))\<rparr>))
         else None))"

fun deliver_seq ::
    "crypto_ops \<Rightarrow> iteration \<Rightarrow> (int \<Rightarrow> payload \<Rightarrow> bytes) \<Rightarrow> (int \<times> int \<times> nat) list \<Rightarrow> network \<Rightarrow> network option" where
  "deliver_seq C I sg [] N = Some N"
| "deliver_seq C I sg (d # ds) N = (case deliver C I sg d N of None \<Rightarrow> None | Some N \<Rightarrow> deliver_seq C I sg ds N)"

text \<open>A delivery is orderly when it does not let a message overtake a PRE-PREPARE of the same sender.\<close>

definition is_proposal :: "Envelope \<Rightarrow> bool" where
  "is_proposal env = (case env_Payload env of MPrePrepare _ \<Rightarrow> True | _ \<Rightarrow> False)"

definition in_order :: "int \<times> int \<times> nat \<Rightarrow> network \<Rightarrow> bool" where
  "in_order d N = (case d of (i, j, n) \<Rightarrow>
     (\<exists>m\<in>set (nLink N i j). is_proposal m) \<longrightarrow> n < length (nLink N i j) \<and> is_proposal (nLink N i j ! n))"

fun orderly ::
    "crypto_ops \<Rightarrow> iteration \<Rightarrow> (int \<Rightarrow> payload \<Rightarrow> bytes) \<Rightarrow> (int \<times> int \<times> nat) list \<Rightarrow> network \<Rightarrow> bool" where
  "orderly C I sg [] N \<longleftrightarrow> True"
| "orderly C I sg (d # ds) N \<longleftrightarrow> in_order d N \<and> (case deliver C I sg d N of None \<Rightarrow> True | Some N \<Rightarrow> orderly C I sg ds N)"

lemma some_in_order:
  assumes "nLink N i j \<noteq> []"
  shows "\<exists>n. n < length (nLink N i j) \<and> in_order (i, j, n) N"
proof (cases "\<exists>m\<in>set (nLink N i j). is_proposal m")
  case True
  then obtain n where "n < length (nLink N i j)" "is_proposal (nLink N i j ! n)" by (auto simp: in_set_conv_nth)
  then show ?thesis by (auto simp: in_order_def)
next
  case False
  then show ?thesis using assms by (intro exI [of _ 0]) (auto simp: in_order_def)
qed

text \<open>Why order matters there: without the proposal a backup drops the certificates.\<close>

lemma overtaken_lost:
  "bget (eLog e) (cm_Seq c) = None \<Longrightarrow> onPrepareCert C e c = e \<and> onCommitCert C e c = e"
  by (simp add: onPrepareCert_def onCommitCert_def)

text \<open>The request of a client arrives at server \<open>p\<close>, and its primary loop takes its turn.\<close>

definition client_turn :: "crypto_ops \<Rightarrow> iteration \<Rightarrow> Request \<Rightarrow> engine \<Rightarrow> engine" where
  "client_turn C I req e =
     (let e = Handle C I e \<lparr>env_SenderId = 0, env_Payload = MClientRequest req, env_Signature = []\<rparr>
      in case ingress_turn C e of None \<Rightarrow> e | Some e' \<Rightarrow> e')"

definition client_arrives ::
    "crypto_ops \<Rightarrow> iteration \<Rightarrow> (int \<Rightarrow> payload \<Rightarrow> bytes) \<Rightarrow> Request \<Rightarrow> int \<Rightarrow> (int \<Rightarrow> engine) \<Rightarrow> network" where
  "client_arrives C I sg req p S =
     turn_to sg p (client_turn C I req (S p)) \<lparr>nEng = S, nLink = (\<lambda>_ _. [])\<rparr>"

subsection \<open>The conditions\<close>

text \<open>What does not change while a request is served.\<close>

definition like :: "engine \<Rightarrow> engine \<Rightarrow> bool" where
  "like a b \<longleftrightarrow> eSelf b = eSelf a \<and> eTopo b = eTopo a \<and> eCluster b = eCluster a \<and> eRing b = eRing a \<and>
     eSink b = eSink a \<and> eFault b = eFault a \<and> eView b = eView a \<and> eSenderView b = eSenderView a \<and>
     ePrepareCollect b = ePrepareCollect a \<and> eCommitQuorum b = eCommitQuorum a"

text \<open>A server that can take request \<open>req\<close> as number \<open>k\<close>: correct, everything before executed, nothing
  of it or after it in the log, and the transfer possible.\<close>

definition can_serve :: "Request \<Rightarrow> int \<Rightarrow> engine \<Rightarrow> bool" where
  "can_serve req k e \<longleftrightarrow>
     Alive (eFault e) \<and> \<not> ByzantineLeader (eFault e) \<and> \<not> ByzantineBackup (eFault e) \<and> eSink e \<and>
     eExecSeq e = k \<and> (\<forall>n\<ge>k. bget (eLog e) n = None) \<and>
     SameCluster (eTopo e) (r_X req) (r_Y req) \<and> norm_op (r_Op req) = OpIntra \<and> r_X req \<noteq> r_Y req \<and>
     GetClientTS (eStore e) (r_ClientID req) < r_TS req \<and> \<not> GetBalance (eStore e) (r_X req) <s r_Amt req \<and>
     \<not> IsLocked (eStore e) (r_X req) \<and> \<not> IsLocked (eStore e) (r_Y req) \<and> store_ok (eStore e)"

text \<open>The primary \<open>p\<close> and the backups \<open>js\<close> that are up make a quorum, agree on the view, and hold each
  other's keys.\<close>

definition live_quorum :: "crypto_ops \<Rightarrow> int \<Rightarrow> int list \<Rightarrow> int \<Rightarrow> int \<Rightarrow> (int \<Rightarrow> engine) \<Rightarrow> bool" where
  "live_quorum C p js v q S \<longleftrightarrow> distinct (p # js) \<and> 2 \<le> q \<and> q \<le> int (length (p # js)) \<and>
     (\<forall>i\<in>set (p # js). eSelf (S i) = i \<and> eView (S i) = v \<and> Primary (S i) = p \<and>
        ePrepareCollect (S i) = q \<and> eCommitQuorum (S i) = q \<and>
        (\<forall>j\<in>set (p # js). \<forall>x. ring_Verify C (eRing (S i)) j x (ring_Sign C (eRing (S j)) x))) \<and>
     distinct (peers_of (S p)) \<and> set js \<subseteq> set (peers_of (S p))"

text \<open>The primary has nothing else to do, and knows enough servers to be up.\<close>

definition idle_primary :: "crypto_ops \<Rightarrow> Request \<Rightarrow> int \<Rightarrow> engine \<Rightarrow> bool" where
  "idle_primary C req k e \<longleftrightarrow> eNextSeq e = k \<and> eClientIngress e = [] \<and>
     \<not> clientTxnInFlight C e req \<and> ePrepareCollect e \<le> clusterHonestLive e"

text \<open>A server has executed the request as number \<open>k\<close> and told the client so.\<close>

definition served :: "crypto_ops \<Rightarrow> Request \<Rightarrow> int \<Rightarrow> engine \<Rightarrow> engine \<Rightarrow> bool" where
  "served C req k e0 e \<longleftrightarrow> eExecSeq e = k + 1 \<and> slot_req e k = [req] \<and>
     ledger_of (eStore e) = ledger_step C req (ledger_of (eStore e0)) \<and>
     EReply (mk_reply req k ResultCommitted) \<in> set (eEffects e)"

subsection \<open>Outgoing messages\<close>

lemma outgoing_effects:
  "eEffects e' = eEffects e @ fx \<Longrightarrow>
   outgoing sg e e' i = map snd (filter (\<lambda>m. fst m = i) (concat (map (posted sg (eSelf e) (peers_of e)) fx)))"
  by (simp add: outgoing_def)

lemma outgoing_none:
  assumes "eEffects e' = eEffects e @ fx" and "\<forall>x\<in>set fx. \<forall>s ps. posted sg s ps x = []"
  shows "outgoing sg e e' i = []"
proof -
  have "concat (map (posted sg (eSelf e) (peers_of e)) fx) = []" using assms(2) by simp
  then show ?thesis by (simp add: outgoing_effects [OF assms(1)])
qed

lemma outgoing_send:
  "eEffects e' = eEffects e @ [ESign b, ESend to m sig] \<Longrightarrow>
   outgoing sg e e' i = (if i = to then [\<lparr>env_SenderId = eSelf e, env_Payload = m, env_Signature = sig\<rparr>] else [])"
  by (simp add: outgoing_effects)

lemma filter_once: "distinct xs \<Longrightarrow> filter (\<lambda>x. x = i) xs = (if i \<in> set xs then [i] else [])"
  by (induction xs) auto

lemma outgoing_broadcast:
  assumes fx: "eEffects e' = eEffects e @ EBroadcast m # fx" and none: "\<forall>x\<in>set fx. \<forall>s ps. posted sg s ps x = []"
    and dist: "distinct (peers_of e)"
  shows "outgoing sg e e' i = (if i \<in> set (peers_of e)
    then [\<lparr>env_SenderId = eSelf e, env_Payload = m, env_Signature = sg (eSelf e) m\<rparr>] else [])"
proof -
  have "concat (map (posted sg (eSelf e) (peers_of e)) fx) = []" using none by simp
  then show ?thesis
    using filter_once [OF dist, of i] by (simp add: outgoing_effects [OF fx] filter_map comp_def)
qed

subsection \<open>What stays\<close>

lemma like_refl [simp]: "like e e"
  by (simp add: like_def)

lemma like_trans: "like a b \<Longrightarrow> like b c \<Longrightarrow> like a c"
  by (simp add: like_def)

lemma like_core: "same_core a b \<Longrightarrow> like a b"
  by (simp add: like_def same_core_fields)

lemma like_upd [simp]:
  "like a (put_slot k s e) = like a e" "like a (emit x e) = like a e" "like a (e\<lparr>eStore := st\<rparr>) = like a e"
  "like a (e\<lparr>eExecSeq := n\<rparr>) = like a e" "like a (e\<lparr>eNextSeq := n\<rparr>) = like a e" "like a (e\<lparr>eTimerSet := b\<rparr>) = like a e"
  "like a (e\<lparr>eClientIngress := xs\<rparr>) = like a e"
  by (simp_all add: like_def put_slot_def emit_def)

lemma like_adopt [simp]: "like a (adopt d r k e) = like a e"
  by (cases "bget (eLog e) k") (simp_all add: adopt_def ensureSeqLocked_def cancelViewChangeTimerLocked_def)

lemma like_Primary: "like a b \<Longrightarrow> Primary b = Primary a"
  by (rule Primary_cong) (simp_all add: like_def)

lemma like_is_primary: "like a b \<Longrightarrow> is_primary b = is_primary a"
  by (rule is_primary_cong) (simp_all add: like_def)

lemma like_peers: "like a b \<Longrightarrow> peers_of b = peers_of a"
  by (simp add: like_def peers_of_def)

lemma like_verifyCert: "like a b \<Longrightarrow> verifyCert C b c p q = verifyCert C a c p q"
  by (simp add: like_def verifyCert_def)

text \<open>A server before the request is executed, as it was but for locks.\<close>

definition pending :: "engine \<Rightarrow> int \<Rightarrow> engine \<Rightarrow> bool" where
  "pending e0 k e \<longleftrightarrow> like e0 e \<and> (\<forall>n>k. bget (eLog e) n = None) \<and> eExecSeq e = k \<and>
     store_ok (eStore e) \<and> ledger_of (eStore e) = ledger_of (eStore e0)"

lemma pending_upd [simp]:
  "pending e0 k (put_slot k s e) = pending e0 k e" "pending e0 k (emit x e) = pending e0 k e"
  by (auto simp: pending_def) (auto simp: put_slot_def emit_def)

definition done_by :: "crypto_ops \<Rightarrow> Request \<Rightarrow> int \<Rightarrow> engine \<Rightarrow> engine \<Rightarrow> bool" where
  "done_by C r k e0 e \<longleftrightarrow> like e0 e \<and> served C r k e0 e \<and> (\<forall>n>k. bget (eLog e) n = None)"

text \<open>The slot that gets its commit certificate is the only one there is to execute.\<close>

lemma commit_executes:
  fixes C :: crypto_ops and c :: CertificateMsg
  assumes p: "pending e0 k e" and r: "can_serve r k e0"
    and s: "bget (eLog e) k = Some s" "\<not> sDiscarded s" "\<not> sExecuted s" "sReq s = r"
  defines "e' \<equiv> tryExecute C (put_slot k (s\<lparr>sCommitCert := Some c\<rparr>) e)"
  shows "done_by C r k e0 e' \<and> eEffects e' = eEffects e @ [EReply (mk_reply r k ResultCommitted)] \<and>
    bget (eLog e') k = Some (s\<lparr>sCommitCert := Some c, sExecuted := True\<rparr>)"
proof -
  let ?s = "s\<lparr>sCommitCert := Some c\<rparr>" and ?t = "s\<lparr>sCommitCert := Some c, sExecuted := True\<rparr>"
  let ?a = "put_slot k ?s e"
  let ?b = "put_slot k ?t ?a\<lparr>eExecSeq := k + 1\<rparr>"
  have ex: "eExecSeq ?a = k" "bget (eLog ?a) k = Some ?s" "eExecSeq (put_slot k ?t ?a) = k" using p by (simp_all add: put_slot_def pending_def)
  have op: "norm_op (r_Op r) = OpIntra" using r by (simp add: can_serve_def)
  have "exec_round C ?a = Some (executeIntra C ?b r k)"
    using ex s op by (simp add: exec_round_def Let_def execute_op_def)
  moreover have core: "same_core ?b (executeIntra C ?b r k)" by (rule same_core_execute)
  moreover have "exec_round C (executeIntra C ?b r k) = None"
    using same_core_fields(1,2) [OF core] p by (simp add: exec_round_def pending_def) (simp add: put_slot_def)
  ultimately have e': "e' = executeIntra C ?b r k" by (simp add: e'_def tryExecute.simps)
  note f = same_core_fields [OF core, folded e']
  have bal: "\<not> GetBalance (eStore ?b) (r_X r) <s r_Amt r"
    using p r by (simp add: pending_def can_serve_def ledger_bal [symmetric] put_slot_def)
  have sink: "eSink ?b" using p r by (simp add: pending_def like_def can_serve_def put_slot_def)
  have fx: "eEffects e' = eEffects e @ [EReply (mk_reply r k ResultCommitted)]"
    using bal sink
    by (simp add: e' executeIntra_def ApplyTransfer_def Let_def sendClientReply_def append_entry_def releaseLocksForOp_def on_store_def put_slot_def)
  have slot: "bget (eLog e') k = Some ?t" by (simp add: f put_slot_def)
  have "eStore ?b = eStore e" by (simp add: put_slot_def)
  then have led: "ledger_of (eStore e') = ledger_step C r (ledger_of (eStore e0))"
    using execute_op_refines [of ?b C r k c] p op by (simp add: e' execute_op_def pending_def)
  have "like e0 e'" using like_trans [OF _ like_core [OF core]] p by (simp add: e' pending_def)
  moreover have "\<forall>n>k. bget (eLog e') n = None" using p by (simp add: f put_slot_def pending_def)
  moreover have "eExecSeq e' = k + 1" by (simp add: f)
  ultimately show ?thesis using fx slot led s by (simp add: done_by_def served_def slot_req_def)
qed

subsection \<open>A backup\<close>

definition proposed :: "crypto_ops \<Rightarrow> Request \<Rightarrow> seqState" where
  "proposed C r = emptySlot\<lparr>sDigest := Digest C r, sReq := r, sPrePrepare := True\<rparr>"

lemma proposed_simps [simp]:
  "sDigest (proposed C r) = Digest C r" "sReq (proposed C r) = r" "sPrePrepare (proposed C r)"
  "\<not> sDiscarded (proposed C r)" "\<not> sExecuted (proposed C r)" "sPrepares (proposed C r) = []"
  "sCommits (proposed C r) = []" "sPrepareCert (proposed C r) = None" "sCommitCert (proposed C r) = None"
  by (simp_all add: proposed_def emptySlot_def)

definition vote :: "crypto_ops \<Rightarrow> Request \<Rightarrow> int \<Rightarrow> int \<Rightarrow> PhaseMsg" where
  "vote C r k v = \<lparr>pm_Seq = k, pm_View = v, pm_Digest = Digest C r\<rparr>"

definition ballot :: "crypto_ops \<Rightarrow> Request \<Rightarrow> int \<Rightarrow> int \<Rightarrow> phase \<Rightarrow> bytes" where
  "ballot C r k v p = PhaseSigningBytes (phase_name p) k v (Digest C r)"

definition proposal_msg :: "crypto_ops \<Rightarrow> Request \<Rightarrow> int \<Rightarrow> int \<Rightarrow> PrePrepareMsg" where
  "proposal_msg C r k v = \<lparr>pp_Seq = k, pp_View = v, pp_Digest = Digest C r, pp_Req = r\<rparr>"

definition good_cert :: "crypto_ops \<Rightarrow> Request \<Rightarrow> int \<Rightarrow> engine \<Rightarrow> phase \<Rightarrow> CertificateMsg \<Rightarrow> bool" where
  "good_cert C r k e p c \<longleftrightarrow> cm_Seq c = k \<and> cm_View c = eView e \<and> cm_Digest c = Digest C r \<and>
     verifyCert C e c p (phase_quorum e p)"

lemma adopt_free:
  "bget (eLog e) k = None \<Longrightarrow> bget (eLog (adopt (Digest C r) r k e)) n = (if n = k then Some (proposed C r) else bget (eLog e) n)"
  by (simp add: adopt_slot revive_def proposed_def emptySlot_def)

lemma pending_adopt:
  assumes "can_serve r k e0" and "like e0 e" "eLog e = eLog e0" "eExecSeq e = k" "eStore e = eStore e0"
  shows "pending e0 k (adopt (Digest C r) r k e)"
  using assms adopt_free [of e k C r] by (auto simp: pending_def can_serve_def adopt_steps)

lemma can_serve_validates:
  assumes r: "can_serve r k e0" "r_Op r = OpIntra" and e: "eStore e = eStore e0"
  shows "validateRequest e r k"
  using r by (simp add: validateRequest_def can_serve_def e norm_op_def Let_def locksReadyForSeq_def lockItemsForOp.simps)

lemma backup_takes_proposal:
  fixes C :: crypto_ops
  assumes r: "can_serve r k e0" "r_Op r = OpIntra" and b: "\<not> is_primary e0"
  defines "e' \<equiv> onPrePrepare C e0 (proposal_msg C r k (eView e0))"
  shows "pending e0 k e' \<and> bget (eLog e') k = Some (proposed C r) \<and>
    eEffects e' = eEffects e0 @ [ESign (ballot C r k (eView e0) Prep),
      ESend (Primary e0) (MPrepare (vote C r k (eView e0))) (ring_Sign C (eRing e0) (ballot C r k (eView e0) Prep))]"
proof -
  let ?m = "proposal_msg C r k (eView e0)" and ?a = "adopt (Digest C r) r k e0"
  have free: "bget (eLog e0) k = None" using r by (simp add: can_serve_def)
  have e': "e' = processPrePrepare C ?a ?m"
    using r free
    by (auto simp: e'_def onPrePrepare_def proposal_msg_def opMatchesCluster_def can_serve_def gapClearLocked_def
        gap_ok_def list_all_iff)
  have a: "pending e0 k ?a" by (rule pending_adopt [OF r(1)]) (use r in \<open>simp_all add: can_serve_def\<close>)
  have la: "like e0 ?a" by simp
  have na: "\<not> is_primary ?a" using like_is_primary [OF la] b by simp
  have core: "same_core ?a e'" unfolding e' by (rule backup_process_core [OF na])
  note f = same_core_fields [OF core]
  have "validateRequest ?a r k" by (rule can_serve_validates [OF r]) (simp add: adopt_steps)
  moreover have "\<not> ByzantineBackup (eFault ?a)" using r by (simp add: adopt_steps can_serve_def)
  ultimately have fx: "eEffects e' = eEffects e0 @ [ESign (ballot C r k (eView e0) Prep),
      ESend (Primary e0) (MPrepare (vote C r k (eView e0))) (ring_Sign C (eRing e0) (ballot C r k (eView e0) Prep))]"
    using backup_vote_cases [OF na, of C ?m]
    by (simp add: Let_def e' like_Primary [OF la] adopt_steps proposal_msg_def ballot_def vote_def phase_name_def)
  have "store_ok (eStore e') \<and> ledger_of (eStore e') = ledger_of (eStore e0)"
    using backup_process_ledger [OF na, of C ?m] a by (simp add: e' pending_def)
  then have "pending e0 k e'"
    using a like_trans [OF la like_core [OF core]] by (simp add: pending_def f)
  then show ?thesis using fx adopt_free [OF free, of C r k] by (simp add: f)
qed

lemma send_commit_backup:
  assumes "\<not> is_primary e"
  shows "sendCommit C e k v d = emit (ESend (Primary e) (MCommit \<lparr>pm_Seq = k, pm_View = v, pm_Digest = d\<rparr>)
      (ring_Sign C (eRing e) (PhaseSigningBytes ''COMMIT'' k v d))) (emit (ESign (PhaseSigningBytes ''COMMIT'' k v d)) e)"
  using assms by (simp add: sendCommit_def Let_def is_primary_def)

lemma backup_prepares:
  fixes C :: crypto_ops
  assumes l: "like e0 e" and s: "bget (eLog e) k = Some s" "sDigest s = Digest C r" "sPrePrepare s"
    and b: "\<not> is_primary e0" and c: "good_cert C r k e0 Prep c"
  shows "onPrepareCert C e c = emit (ESend (Primary e0) (MCommit (vote C r k (eView e0))) (ring_Sign C (eRing e0) (ballot C r k (eView e0) Comm)))
      (emit (ESign (ballot C r k (eView e0) Comm)) (put_slot k (s\<lparr>sPrepareCert := Some c\<rparr>) e))"
proof -
  let ?q = "put_slot k (s\<lparr>sPrepareCert := Some c\<rparr>) e"
  have lq: "like e0 ?q" using l by simp
  have fr: "eView e = eView e0" "ePrepareCollect e = ePrepareCollect e0" "eRing ?q = eRing e0" "eRing e = eRing e0"
    using l by (simp_all add: like_def put_slot_def)
  have np: "\<not> is_primary ?q" using like_is_primary [OF lq] b by simp
  have "onPrepareCert C e c = sendCommit C ?q k (eView e0) (Digest C r)"
    using c s by (simp add: onPrepareCert_def good_cert_def fr like_verifyCert [OF l] phase_quorum_def)
  then show ?thesis
    by (simp add: send_commit_backup [OF np] like_Primary [OF lq] fr vote_def ballot_def phase_name_def)
qed

lemma backup_commits:
  assumes p: "pending e0 k e" and s: "bget (eLog e) k = Some (proposed C r\<lparr>sPrepareCert := pc\<rparr>)"
    and c: "good_cert C r k e0 Comm c" and r: "can_serve r k e0"
  shows "done_by C r k e0 (onCommitCert C e c) \<and> eEffects (onCommitCert C e c) = eEffects e @ [EReply (mk_reply r k ResultCommitted)] \<and>
    bget (eLog (onCommitCert C e c)) k = Some (proposed C r\<lparr>sPrepareCert := pc, sCommitCert := Some c, sExecuted := True\<rparr>)"
proof -
  have l: "like e0 e" using p by (simp add: pending_def)
  have "eView e = eView e0" "eCommitQuorum e = eCommitQuorum e0" using l by (simp_all add: like_def)
  then have "onCommitCert C e c = tryExecute C (put_slot k ((proposed C r\<lparr>sPrepareCert := pc\<rparr>)\<lparr>sCommitCert := Some c\<rparr>) e)"
    using c s by (simp add: onCommitCert_def good_cert_def like_verifyCert [OF l] phase_quorum_def)
  then show ?thesis using commit_executes [OF p r s, of C c] by simp
qed

subsection \<open>Votes of one phase\<close>

definition keys_ok :: "crypto_ops \<Rightarrow> (int \<Rightarrow> engine) \<Rightarrow> int set \<Rightarrow> bool" where
  "keys_ok C S P \<longleftrightarrow> (\<forall>i\<in>P. \<forall>j\<in>P. \<forall>x. ring_Verify C (eRing (S i)) j x (ring_Sign C (eRing (S j)) x))"

text \<open>The votes of the servers \<open>V\<close>, each with its own signature.\<close>

definition tally :: "crypto_ops \<Rightarrow> (int \<Rightarrow> engine) \<Rightarrow> int set \<Rightarrow> bytes \<Rightarrow> int set \<Rightarrow> (int, bytes) bucket \<Rightarrow> bool" where
  "tally C S P b V votes \<longleftrightarrow> bkeys_ok votes \<and> fst ` set votes = V \<and> V \<subseteq> P \<and>
     (\<forall>(i, sig)\<in>set votes. sig = ring_Sign C (eRing (S i)) b)"

lemma tally_card: "tally C S P b V votes \<Longrightarrow> length votes = card V"
  using bkeys_ok_card by (auto simp: tally_def)

lemma tally_finite: "tally C S P b V votes \<Longrightarrow> finite V"
  by (auto simp: tally_def)

lemma tally_empty [simp]: "tally C S P b {} []"
  by (simp add: tally_def)

lemma tally_add:
  assumes t: "tally C S P b V votes" and keys: "keys_ok C S P" and j: "j \<in> P" "j \<notin> V" and p: "p \<in> P"
  shows "\<exists>votes'. add_vote C (eRing (S p)) b votes j (ring_Sign C (eRing (S j)) b) = Some votes' \<and>
    tally C S P b (insert j V) votes'"
proof -
  let ?sig = "ring_Sign C (eRing (S j)) b"
  have "bget votes j = None" using j(2) t bget_key [of votes j] by (cases "bget votes j") (auto simp: tally_def)
  then have "add_vote C (eRing (S p)) b votes j ?sig = Some (bput j ?sig votes)"
    using keys j(1) p by (simp add: add_vote_def keys_ok_def)
  moreover have "tally C S P b (insert j V) (bput j ?sig votes)"
    using t j bput_set [of j ?sig votes] by (auto simp: tally_def)
  ultimately show ?thesis by blast
qed

text \<open>Enough of them make a certificate every server accepts.\<close>

lemma tally_cert:
  fixes s :: seqState
  defines "votes \<equiv> \<lambda>ph. case ph of Prep \<Rightarrow> sPrepares s | Comm \<Rightarrow> sCommits s"
  assumes t: "tally C S P (ballot C r k v ph) V (votes ph)" and keys: "keys_ok C S P" and d: "sDigest s = Digest C r"
    and same: "\<forall>i\<in>P. eView (S i) = v \<and> ePrepareCollect (S i) = q \<and> eCommitQuorum (S i) = q"
    and e: "eView e = v" "ePrepareCollect e = q" "eCommitQuorum e = q" and p: "p \<in> P" and enough: "q \<le> int (card V)"
  shows "\<exists>c. buildCertLocked e k s ph = Some c \<and> (\<forall>i\<in>P. good_cert C r k (S i) ph c)"
proof -
  have pq: "phase_quorum (x::engine) ph = q" if "ePrepareCollect x = q" "eCommitQuorum x = q" for x
    using that by (cases ph) (simp_all add: phase_quorum_def)
  have at: "\<exists>c. buildCertLocked e k s ph = Some c \<and> good_cert C r k (S i) ph c" if i: "i \<in> P" for i
  proof -
    let ?e = "e\<lparr>eRing := eRing (S i)\<rparr>"
    have "ring_Verify C (eRing (S i)) j (ballot C r k v ph) sig" if "(j, sig) \<in> set (votes ph)" for j sig
    proof -
      have "sig = ring_Sign C (eRing (S j)) (ballot C r k v ph)" "j \<in> P"
        using t that by (auto simp: tally_def)
      then show ?thesis using keys i by (simp add: keys_ok_def)
    qed
    then have "list_all (\<lambda>(j, sig). ring_Verify C (eRing (S i)) j (ballot C r k v ph) sig) (votes ph)"
      by (auto simp: list_all_iff)
    then have "votes_ok (C, eRing ?e, PhaseSigningBytes (phase_name ph) k (eView ?e) (sDigest s)) (votes ph)"
      using t d e by (simp add: votes_ok_def tally_def ballot_def)
    moreover have "phase_quorum ?e ph = q" using e by (intro pq) simp_all
    moreover have "fst ` set (votes ph) = V" using t by (simp add: tally_def)
    ultimately obtain c where c: "buildCertLocked ?e k s ph = Some c"
        "cm_Seq c = k" "cm_View c = v" "cm_Digest c = Digest C r" "verifyCert C ?e c ph q"
      using built_certificate [of C ?e ph k s] enough d e by (auto simp: votes_def split: option.splits)
    have "buildCertLocked ?e k s ph = buildCertLocked e k s ph" by (simp add: buildCertLocked_def cong: if_cong phase.case_cong)
    then have "buildCertLocked e k s ph = Some c" using c(1) by simp
    moreover have "verifyCert C ?e c ph q = verifyCert C (S i) c ph q" by (simp add: verifyCert_def cong: if_cong)
    then have "good_cert C r k (S i) ph c" using c same i by (simp add: good_cert_def pq)
    ultimately show ?thesis by blast
  qed
  obtain c where c: "buildCertLocked e k s ph = Some c" using at [OF p] by blast
  then have "good_cert C r k (S i) ph c" if "i \<in> P" for i using at [OF that] by auto
  with c show ?thesis by blast
qed

definition phase_ok ::
    "crypto_ops \<Rightarrow> Request \<Rightarrow> int \<Rightarrow> (int \<Rightarrow> engine) \<Rightarrow> int set \<Rightarrow> int \<Rightarrow> int \<Rightarrow> phase \<Rightarrow> int set \<Rightarrow>
     (int, bytes) bucket \<Rightarrow> CertificateMsg option \<Rightarrow> bool" where
  "phase_ok C r k S P v q ph V votes co \<longleftrightarrow> tally C S P (ballot C r k v ph) V votes \<and>
     (co = None \<longleftrightarrow> int (card V) < q) \<and> (\<forall>c. co = Some c \<longrightarrow> (\<forall>i\<in>P. good_cert C r k (S i) ph c))"

subsection \<open>The primary\<close>

definition pcert :: "engine \<Rightarrow> int \<Rightarrow> CertificateMsg option" where
  "pcert e k = (case bget (eLog e) k of None \<Rightarrow> None | Some s \<Rightarrow> sPrepareCert s)"

definition ccert :: "engine \<Rightarrow> int \<Rightarrow> CertificateMsg option" where
  "ccert e k = (case bget (eLog e) k of None \<Rightarrow> None | Some s \<Rightarrow> sCommitCert s)"

text \<open>The primary \<open>p\<close> with the PREPARE votes of \<open>V\<close> and the COMMIT votes of \<open>W\<close>.\<close>

definition primary_at ::
    "crypto_ops \<Rightarrow> Request \<Rightarrow> int \<Rightarrow> (int \<Rightarrow> engine) \<Rightarrow> int set \<Rightarrow> int \<Rightarrow> int \<Rightarrow> engine \<Rightarrow> int set \<Rightarrow> int set \<Rightarrow> engine \<Rightarrow> bool" where
  "primary_at C r k S P v q e0 V W e \<longleftrightarrow> like e0 e \<and>
     (\<exists>s. bget (eLog e) k = Some s \<and> sDigest s = Digest C r \<and> sReq s = r \<and> sPrePrepare s \<and> \<not> sDiscarded s \<and>
        phase_ok C r k S P v q Prep V (sPrepares s) (sPrepareCert s) \<and>
        phase_ok C r k S P v q Comm W (sCommits s) (sCommitCert s) \<and> (sExecuted s \<longleftrightarrow> sCommitCert s \<noteq> None) \<and>
        (if sCommitCert s = None then pending e0 k e else done_by C r k e0 e))"

text \<open>The servers agree on their view and quorum, and \<open>p\<close> leads them.\<close>

definition agreed :: "crypto_ops \<Rightarrow> (int \<Rightarrow> engine) \<Rightarrow> int set \<Rightarrow> int \<Rightarrow> int \<Rightarrow> int \<Rightarrow> bool" where
  "agreed C S P v q p \<longleftrightarrow> p \<in> P \<and> keys_ok C S P \<and>
     (\<forall>i\<in>P. eSelf (S i) = i \<and> eView (S i) = v \<and> Primary (S i) = p \<and> ePrepareCollect (S i) = q \<and> eCommitQuorum (S i) = q)"

lemma primary_frame:
  assumes a: "agreed C S P v q p" and l: "like (S p) e"
  shows "eView e = v" "eCommitQuorum e = q" "ePrepareCollect e = q" "eRing e = eRing (S p)" "eSelf e = p" "is_primary e"
proof -
  have s: "eSelf (S p) = p" "eView (S p) = v" "Primary (S p) = p" "ePrepareCollect (S p) = q" "eCommitQuorum (S p) = q"
    using a by (auto simp: agreed_def)
  then show "eView e = v" "eCommitQuorum e = q" "ePrepareCollect e = q" "eRing e = eRing (S p)" "eSelf e = p"
    using l by (simp_all add: like_def)
  show "is_primary e" using like_is_primary [OF l] s by (simp add: is_primary_def)
qed

lemma done_by_put:
  "done_by C r k e0 e \<Longrightarrow> sReq s = r \<Longrightarrow> \<not> sDiscarded s \<Longrightarrow> done_by C r k e0 (put_slot k s e)"
  by (simp add: done_by_def served_def slot_req_def) (simp add: put_slot_def)

lemma certs_put [simp]:
  "pcert (put_slot k s e) k = sPrepareCert s" "ccert (put_slot k s e) k = sCommitCert s"
  "pcert (emit x e) k = pcert e k" "ccert (emit x e) k = ccert e k"
  by (simp_all add: pcert_def ccert_def put_slot_def emit_def)

lemma commit_vote:
  fixes C :: crypto_ops and S :: "int \<Rightarrow> engine" and j :: int
  assumes a: "agreed C S P v q p" and r: "can_serve r k (S p)" and at: "primary_at C r k S P v q (S p) V W e"
    and prep: "q \<le> int (card V)" and j: "j \<in> P" "j \<notin> W"
  defines "e' \<equiv> onCommit C e j (vote C r k v) (ring_Sign C (eRing (S j)) (ballot C r k v Comm))"
  shows "primary_at C r k S P v q (S p) V (insert j W) e' \<and> pcert e' k = pcert e k \<and>
    (eEffects e' = eEffects e \<and> ccert e' k = ccert e k \<or>
     (\<exists>c. ccert e k = None \<and> ccert e' k = Some c \<and>
        eEffects e' = eEffects e @ [EBroadcast (MCommitCert c), EReply (mk_reply r k ResultCommitted)]))"
proof -
  obtain s where l: "like (S p) e" and s: "bget (eLog e) k = Some s" "sDigest s = Digest C r" "sReq s = r" "sPrePrepare s" "\<not> sDiscarded s"
    and ph: "phase_ok C r k S P v q Prep V (sPrepares s) (sPrepareCert s)" "phase_ok C r k S P v q Comm W (sCommits s) (sCommitCert s)"
    and ex: "sExecuted s \<longleftrightarrow> sCommitCert s \<noteq> None" "if sCommitCert s = None then pending (S p) k e else done_by C r k (S p) e"
    using at by (auto simp: primary_at_def)
  have p: "p \<in> P" "keys_ok C S P" "\<forall>i\<in>P. eView (S i) = v \<and> ePrepareCollect (S i) = q \<and> eCommitQuorum (S i) = q"
    using a by (auto simp: agreed_def)
  note fr = primary_frame [OF a l]
  have t: "tally C S P (ballot C r k v Comm) W (sCommits s)" using ph(2) by (simp add: phase_ok_def)
  obtain votes where votes: "add_vote C (eRing (S p)) (ballot C r k v Comm) (sCommits s) j (ring_Sign C (eRing (S j)) (ballot C r k v Comm)) = Some votes"
    and t': "tally C S P (ballot C r k v Comm) (insert j W) votes"
    using tally_add [OF t p(2) j p(1)] by blast
  have card: "int (card (insert j W)) = int (card W) + 1" using j(2) tally_finite [OF t] by simp
  have ready: "int (length votes) \<ge> q \<longleftrightarrow> q \<le> int (card W) + 1" using tally_card [OF t'] card by simp
  obtain pc where pc: "sPrepareCert s = Some pc" using ph(1) prep by (cases "sPrepareCert s") (auto simp: phase_ok_def)
  let ?s = "s\<lparr>sCommits := votes\<rparr>"
  have e': "e' = (if q \<le> int (card W) + 1 \<and> sCommitCert s = None
      then (let cert = buildCertLocked e k ?s Comm; e = put_slot k (?s\<lparr>sCommitCert := cert\<rparr>) e
            in case cert of None \<Rightarrow> e | Some cert \<Rightarrow> onCommitCert C (emit (EBroadcast (MCommitCert cert)) e) cert)
      else put_slot k ?s e)"
    using pc s(1,2) votes ready
    by (simp add: e'_def onCommit_def vote_def fr ballot_def phase_name_def Let_def)
  show ?thesis
  proof (cases "q \<le> int (card W) + 1 \<and> sCommitCert s = None")
    case True
    obtain c where c: "buildCertLocked e k ?s Comm = Some c" "\<forall>i\<in>P. good_cert C r k (S i) Comm c"
      using tally_cert [of C S P r k v Comm "insert j W" ?s q e p] t' p s fr card True by auto
    let ?a = "emit (EBroadcast (MCommitCert c)) (put_slot k (?s\<lparr>sCommitCert := Some c\<rparr>) e)"
    have la: "like (S p) ?a" using l by simp
    have pa: "pending (S p) k ?a" using ex(2) True by simp
    have sa: "bget (eLog ?a) k = Some (?s\<lparr>sCommitCert := Some c\<rparr>)" by (simp add: emit_def put_slot_def)
    have g: "cm_Seq c = k" "cm_View c = v" "cm_Digest c = Digest C r" "verifyCert C (S p) c Comm q"
      using c(2) p by (auto simp: good_cert_def phase_quorum_def)
    have fa: "eView ?a = v" "eCommitQuorum ?a = q" using fr by (simp_all add: emit_def put_slot_def)
    have on: "onCommitCert C ?a c = tryExecute C (put_slot k ((?s\<lparr>sCommitCert := Some c\<rparr>)\<lparr>sCommitCert := Some c\<rparr>) ?a)"
      using s g sa fa by (simp add: onCommitCert_def like_verifyCert [OF la])
    note ran = commit_executes [OF pa r sa, of C c, folded on]
    have e2: "e' = onCommitCert C ?a c" using True by (simp add: e' c Let_def)
    have d: "done_by C r k (S p) e'" "eEffects e' = eEffects e @ [EBroadcast (MCommitCert c), EReply (mk_reply r k ResultCommitted)]"
      "bget (eLog e') k = Some (?s\<lparr>sCommitCert := Some c, sExecuted := True\<rparr>)"
      using ran s True ex by (simp_all add: e2) (simp_all add: put_slot_def)
    moreover have "phase_ok C r k S P v q Comm (insert j W) votes (Some c)" using t' c card True by (simp add: phase_ok_def)
    ultimately have "primary_at C r k S P v q (S p) V (insert j W) e'"
      using s ph(1) by (simp add: primary_at_def) (simp add: done_by_def)
    then show ?thesis using d True by (simp add: pcert_def ccert_def s(1))
  next
    case False
    have e2: "e' = put_slot k ?s e" unfolding e' by (rule if_not_P [OF False])
    have "phase_ok C r k S P v q Comm (insert j W) votes (sCommitCert s)"
      using t' ph(2) card False by (auto simp: phase_ok_def)
    moreover have "if sCommitCert s = None then pending (S p) k e' else done_by C r k (S p) e'"
      using ex(2) s by (simp add: e2 done_by_put)
    moreover have "bget (eLog e') k = Some ?s" "like (S p) e'" using l by (simp_all add: e2) (simp add: put_slot_def)
    ultimately have "primary_at C r k S P v q (S p) V (insert j W) e'"
      using s ph(1) ex(1) by (simp add: primary_at_def)
    then show ?thesis using s(1) by (simp add: e2) (simp add: put_slot_def pcert_def ccert_def)
  qed
qed

text \<open>The primary takes its own certificate and votes on it at once.\<close>

lemma own_commit:
  assumes a: "agreed C S P v q p" and l: "like (S p) e" and t: "sPrePrepare t" "sDigest t = Digest C r" "sPrepareCert t = Some c"
    and c: "good_cert C r k (S p) Prep c"
  shows "onPrepareCert C (emit (EBroadcast m) (put_slot k t e)) c =
    onCommit C (emit (ESign (ballot C r k v Comm)) (put_slot k t (emit (EBroadcast m) (put_slot k t e)))) p
      (vote C r k v) (ring_Sign C (eRing (S p)) (ballot C r k v Comm))"
proof -
  let ?a = "emit (EBroadcast m) (put_slot k t e)"
  let ?q = "put_slot k t ?a"
  have la: "like (S p) ?a" "like (S p) ?q" "like (S p) (emit x ?q)" for x using l by simp_all
  have g: "cm_Seq c = k" "cm_View c = v" "cm_Digest c = Digest C r" "verifyCert C (S p) c Prep q"
    using c a by (auto simp: good_cert_def phase_quorum_def agreed_def)
  have slot: "bget (eLog ?a) k = Some t" by (simp add: emit_def put_slot_def)
  have t': "t\<lparr>sPrepareCert := Some c\<rparr> = t" using t(3) by simp
  have "onPrepareCert C ?a c = sendCommit C ?q k v (Digest C r)"
    using t g primary_frame [OF a la(1)] slot by (simp add: onPrepareCert_def like_verifyCert [OF la(1)] t')
  moreover have "Primary (emit x ?q) = eSelf (emit x ?q)" for x
    using primary_frame(6) [OF a la(3)] by (simp only: is_primary_def)
  ultimately show ?thesis
    using primary_frame [OF a la(2)] by (simp add: sendCommit_def Let_def ballot_def vote_def phase_name_def)
qed

text \<open>The vote that completes the first quorum also makes the primary cast its own COMMIT.\<close>

lemma prepare_vote:
  fixes C :: crypto_ops and S :: "int \<Rightarrow> engine" and j :: int
  assumes a: "agreed C S P v q p" and r: "can_serve r k (S p)" and at: "primary_at C r k S P v q (S p) V W e"
    and early: "int (card V) < q \<Longrightarrow> W = {}" and q: "2 \<le> q" and j: "j \<in> P" "j \<notin> V"
  defines "e' \<equiv> onPrepare C e j (vote C r k v) (ring_Sign C (eRing (S j)) (ballot C r k v Prep))"
  shows "primary_at C r k S P v q (S p) (insert j V) (if int (card V) + 1 = q then {p} else W) e' \<and> ccert e' k = ccert e k \<and>
    (eEffects e' = eEffects e \<and> pcert e' k = pcert e k \<or>
     (\<exists>c. pcert e k = None \<and> ccert e k = None \<and> pcert e' k = Some c \<and>
        eEffects e' = eEffects e @ [EBroadcast (MPrepareCert c), ESign (ballot C r k v Comm)]))"
proof -
  obtain s where l: "like (S p) e" and s: "bget (eLog e) k = Some s" "sDigest s = Digest C r" "sReq s = r" "sPrePrepare s" "\<not> sDiscarded s"
    and ph: "phase_ok C r k S P v q Prep V (sPrepares s) (sPrepareCert s)" "phase_ok C r k S P v q Comm W (sCommits s) (sCommitCert s)"
    and ex: "sExecuted s \<longleftrightarrow> sCommitCert s \<noteq> None" "if sCommitCert s = None then pending (S p) k e else done_by C r k (S p) e"
    using at by (auto simp: primary_at_def)
  have p: "p \<in> P" "keys_ok C S P" "\<forall>i\<in>P. eView (S i) = v \<and> ePrepareCollect (S i) = q \<and> eCommitQuorum (S i) = q"
    using a by (auto simp: agreed_def)
  note fr = primary_frame [OF a l]
  have t: "tally C S P (ballot C r k v Prep) V (sPrepares s)" using ph(1) by (simp add: phase_ok_def)
  obtain votes where votes: "add_vote C (eRing (S p)) (ballot C r k v Prep) (sPrepares s) j (ring_Sign C (eRing (S j)) (ballot C r k v Prep)) = Some votes"
    and t': "tally C S P (ballot C r k v Prep) (insert j V) votes"
    using tally_add [OF t p(2) j p(1)] by blast
  have card: "int (card (insert j V)) = int (card V) + 1" using j(2) tally_finite [OF t] by simp
  have ready: "int (length votes) \<ge> q \<and> sPrepareCert s = None \<longleftrightarrow> int (card V) + 1 = q"
    using tally_card [OF t'] card ph(1) by (auto simp: phase_ok_def)
  let ?s = "s\<lparr>sPrepares := votes\<rparr>"
  have e': "e' = (if int (card V) + 1 = q
      then (let cert = buildCertLocked e k ?s Prep; e = put_slot k (?s\<lparr>sPrepareCert := cert\<rparr>) e
            in case cert of None \<Rightarrow> e | Some cert \<Rightarrow> onPrepareCert C (emit (EBroadcast (MPrepareCert cert)) e) cert)
      else put_slot k ?s e)"
    using s(1,2,4) votes ready
    by (simp add: e'_def onPrepare_def vote_def fr ballot_def phase_name_def Let_def)
  show ?thesis
  proof (cases "int (card V) + 1 = q")
    case True
    have W: "W = {}" using early True by simp
    have none: "sPrepareCert s = None" "sCommitCert s = None" "sExecuted s = False"
      using ready True ph(2) q ex(1) by (auto simp: W phase_ok_def)
    obtain c where c: "buildCertLocked e k ?s Prep = Some c" "\<forall>i\<in>P. good_cert C r k (S i) Prep c"
      using tally_cert [of C S P r k v Prep "insert j V" ?s q e p] t' p s fr card True by auto
    let ?t = "?s\<lparr>sPrepareCert := Some c\<rparr>"
    let ?a = "emit (EBroadcast (MPrepareCert c)) (put_slot k ?t e)"
    let ?b = "emit (ESign (ballot C r k v Comm)) (put_slot k ?t ?a)"
    have la: "like (S p) ?b" using l by simp
    have "onPrepareCert C ?a c = onCommit C ?b p (vote C r k v) (ring_Sign C (eRing (S p)) (ballot C r k v Comm))"
      by (rule own_commit [OF a l]) (use s c(2) p in simp_all)
    then have e2: "e' = onCommit C ?b p (vote C r k v) (ring_Sign C (eRing (S p)) (ballot C r k v Comm))"
      using True by (simp add: e' c Let_def)
    have sb: "bget (eLog ?b) k = Some ?t" by (simp add: emit_def put_slot_def)
    have prep: "phase_ok C r k S P v q Prep (insert j V) votes (Some c)" using t' c card True by (simp add: phase_ok_def)
    have atb: "primary_at C r k S P v q (S p) (insert j V) {} ?b"
      unfolding primary_at_def using sb s prep none ph(2) la ex by (intro conjI exI [of _ ?t]) (auto simp: W)
    have qV: "q \<le> int (card (insert j V))" using card True by simp
    have f: "primary_at C r k S P v q (S p) (insert j V) {p} e'" "pcert e' k = Some c"
      "eEffects e' = eEffects ?b \<and> ccert e' k = ccert ?b k \<or> (\<exists>c. ccert e' k = Some c)"
      using commit_vote [OF a r atb qV p(1), folded e2] by auto
    have "ccert e' k = None"
      using f(1) q by (auto simp: primary_at_def phase_ok_def ccert_def)
    then have "eEffects e' = eEffects ?b" using f(3) by simp
    then show ?thesis
      using f \<open>ccert e' k = None\<close> none s(1) True by (simp add: ccert_def pcert_def) (simp add: put_slot_def)
  next
    case False
    have e2: "e' = put_slot k ?s e" unfolding e' by (rule if_not_P [OF False])
    have "phase_ok C r k S P v q Prep (insert j V) votes (sPrepareCert s)"
      using t' ph(1) card False by (auto simp: phase_ok_def)
    moreover have "if sCommitCert s = None then pending (S p) k e' else done_by C r k (S p) e'"
      using ex(2) s by (simp add: e2 done_by_put)
    moreover have "bget (eLog e') k = Some ?s" "like (S p) e'" using l by (simp_all add: e2) (simp add: put_slot_def)
    ultimately have "primary_at C r k S P v q (S p) (insert j V) W e'"
      using s ph(2) ex(1) by (simp add: primary_at_def)
    then show ?thesis using s(1) False by (simp add: e2) (simp add: put_slot_def pcert_def ccert_def)
  qed
qed

subsection \<open>The proposal\<close>

lemma clientReq_op [simp]: "clientReq (req\<lparr>r_Op := op\<rparr>) = clientReq req"
  by (simp add: clientReq_def)

text \<open>The primary takes the locks of a transfer under the number of its slot; taking them again
  finds them its own.\<close>

lemma acquire_pair:
  assumes "\<not> IsLocked s x" "\<not> IsLocked s y" "x \<noteq> y" and ok: "store_ok s"
  shows "\<exists>s'. acquire_items AcquireLock k [x, y] s = (True, s') \<and> acquire_items AcquireLockForSeq k [x, y] s' = (True, s') \<and>
    LockSeq s' x = k \<and> LockSeq s' y = k \<and> store_ok s' \<and> ledger_of s' = ledger_of s"
proof -
  let ?s1 = "s\<lparr>locks := bput x k (locks s)\<rparr>"
  let ?s2 = "?s1\<lparr>locks := bput y k (locks ?s1)\<rparr>"
  have got: "acquire_items AcquireLock k [x, y] s = (True, ?s2)" using assms by (simp add: AcquireLock_def IsLocked_def)
  have own: "LockSeq ?s2 x = k" "LockSeq ?s2 y = k" "IsLocked ?s2 x" "IsLocked ?s2 y"
    using assms(3) by (simp_all add: LockSeq_def IsLocked_def)
  then have "acquire_items AcquireLockForSeq k [x, y] ?s2 = (True, ?s2)" by (simp add: AcquireLockForSeq_def)
  then show ?thesis using own got acquire_ledgers(1) [OF ok, of k "[x, y]"] by auto
qed

text \<open>The checks before a proposal pass, and the locks are taken.\<close>

lemma primary_assigns:
  fixes C :: crypto_ops and e :: engine
  assumes prim: "is_primary e" and s: "can_serve req k e" and idle: "idle_primary C req k e"
  defines "r \<equiv> req\<lparr>r_Op := OpIntra\<rparr>" and "e1 \<equiv> e\<lparr>eClientIngress := []\<rparr>"
  shows "\<exists>st. client_turn C I req e = propose C (e1\<lparr>eNextSeq := k + 1, eStore := st\<rparr>) r k True \<and>
    acquire_items AcquireLockForSeq k [r_X r, r_Y r] st = (True, st) \<and> LockSeq st (r_X r) = k \<and> LockSeq st (r_Y r) = k \<and>
    store_ok st \<and> ledger_of st = ledger_of (eStore e)"
proof -
  have op: "norm_op (r_Op req) = OpIntra" and r: "can_serve r k e" "r_Op r = OpIntra"
    using s by (simp_all add: can_serve_def r_def norm_op_def)
  have turn: "client_turn C I req e = startConsensus C e1 req"
    using s idle prim op
    by (simp add: client_turn_def Handle_def onClientRequest_def can_serve_def idle_primary_def StartClientConsensus_def
        isPrimaryIngress_def enqueuePrimary_def ingress_capacity_def ingress_turn_def Let_def e1_def)
  obtain st where st: "acquire_items AcquireLock k [r_X r, r_Y r] (eStore e) = (True, st)"
      "acquire_items AcquireLockForSeq k [r_X r, r_Y r] st = (True, st)" "LockSeq st (r_X r) = k" "LockSeq st (r_Y r) = k"
      "store_ok st" "ledger_of st = ledger_of (eStore e)"
    using acquire_pair [of "eStore e" "r_X r" "r_Y r" k] r by (auto simp: can_serve_def)
  have "like e e1" by (simp add: like_def e1_def)
  from like_is_primary [OF this] have prim1: "is_primary e1" using prim by simp
  have "awaitStartable e1 r" "validateForStartQuick C e1 r"
    using r idle
    by (simp_all add: awaitStartable_def validateForStartQuick_def can_serve_def idle_primary_def waitAcquirableForOp_def
        canAcquireForOp_def lockItemsForOp.simps norm_op_def Let_def clientTxnInFlight_def r_def e1_def)
  moreover have "\<not> clusterHonestLive e1 < ePrepareCollect e1"
    using idle by (auto simp: idle_primary_def clusterHonestLive_def Let_def e1_def split: if_splits)
  moreover have "acquireLocksForOp (e1\<lparr>eNextSeq := k + 1\<rparr>) k r = (True, e1\<lparr>eNextSeq := k + 1, eStore := st\<rparr>)"
    using st(1) r by (simp add: acquireLocksForOp_def lockItemsForOp.simps e1_def)
  moreover have "req\<lparr>r_Op := norm_op (r_Op req)\<rparr> = r" "eNextSeq e1 = k" using idle by (simp_all add: op r_def e1_def idle_primary_def)
  ultimately have "startConsensus C e1 req = propose C (e1\<lparr>eNextSeq := k + 1, eStore := st\<rparr>) r k True"
    using prim1 r by (simp add: startConsensus_def Let_def assignSeq_def)
  then show ?thesis using turn st by auto
qed

lemma primary_starts:
  fixes C :: crypto_ops and S :: "int \<Rightarrow> engine" and I :: iteration
  assumes a: "agreed C S P v q p" and s: "can_serve req k (S p)" and idle: "idle_primary C req k (S p)" and q: "2 \<le> q"
  defines "r \<equiv> req\<lparr>r_Op := OpIntra\<rparr>" and "e' \<equiv> client_turn C I req (S p)"
  shows "primary_at C r k S P v q (S p) {p} {} e' \<and> pcert e' k = None \<and> ccert e' k = None \<and>
    eEffects e' = eEffects (S p) @ [EBroadcast (MPrePrepare (proposal_msg C r k v)), ESign (ballot C r k v Prep), EWatch k r]"
proof -
  let ?e1 = "S p\<lparr>eClientIngress := []\<rparr>" and ?m = "proposal_msg C r k v"
  have p: "p \<in> P" "eSelf (S p) = p" "Primary (S p) = p" "eView (S p) = v" "ePrepareCollect (S p) = q"
    using a by (auto simp: agreed_def)
  have prim: "is_primary (S p)" using p by (simp add: is_primary_def)
  have r: "can_serve r k (S p)" "r_Op r = OpIntra" using s by (simp_all add: can_serve_def r_def norm_op_def)
  obtain st where st: "e' = propose C (?e1\<lparr>eNextSeq := k + 1, eStore := st\<rparr>) r k True"
      "acquire_items AcquireLockForSeq k [r_X r, r_Y r] st = (True, st)" "LockSeq st (r_X r) = k" "LockSeq st (r_Y r) = k"
      "store_ok st" "ledger_of st = ledger_of (eStore (S p))"
    using primary_assigns [OF prim s idle, of I] unfolding e'_def r_def by blast
  let ?e3 = "?e1\<lparr>eNextSeq := k + 1, eStore := st\<rparr>"
  have l1: "like (S p) ?e3" by (simp add: like_def)
  note e' = st(1)
  let ?e4 = "adopt (Digest C r) r k ?e3"
  define e5 where "e5 = emit (EBroadcast (MPrePrepare ?m)) ?e4"
  define e6 where "e6 = emit (ESign (ballot C r k v Prep)) (e5\<lparr>eStore := st\<rparr>)"
  have l6: "like (S p) e5" "like (S p) e6" using l1 by (simp_all add: e5_def e6_def)
  have f6: "eFault e5 = eFault (S p)" "eSelf e6 = p" "eRing e5 = eRing (S p)" using l6 p(2) by (simp_all only: like_def)
  have f5: "eStore e5 = st" "is_primary e5" "Primary e6 = p"
    using like_is_primary [OF l6(1)] like_Primary [OF l6(2)] prim p by (simp_all add: e5_def adopt_steps)
  note f5 = f5 f6
  have val: "validateRequest e5 r k"
  proof -
    have "GetBalance st (r_X r) = GetBalance (eStore (S p)) (r_X r)" "GetClientTS st (r_ClientID r) = GetClientTS (eStore (S p)) (r_ClientID r)"
      using st(6) by (simp_all add: ledger_of_def)
    then show ?thesis
      using r st(3,4) by (simp add: validateRequest_def f5 norm_op_def Let_def can_serve_def locksReadyForSeq_def lockItemsForOp.simps)
  qed
  have "processPrePrepare C e5 ?m = sendPrepare C (e5\<lparr>eStore := st\<rparr>) k v (Digest C r)"
    using val st(2) r f5
    by (simp add: processPrePrepare_def proposal_msg_def can_serve_def ensureLocksForOp_def lockItemsForOp.simps)
  also have "\<dots> = onPrepare C e6 p (vote C r k v) (ring_Sign C (eRing (S p)) (ballot C r k v Prep))"
    using f5 r by (simp add: sendPrepare_def can_serve_def Let_def vote_def e6_def ballot_def phase_name_def)
  finally have proc: "processPrePrepare C e5 ?m = onPrepare C e6 p (vote C r k v) (ring_Sign C (eRing (S p)) (ballot C r k v Prep))" .
  have slots: "bget (eLog e6) n = (if n = k then Some (proposed C r) else bget (eLog (S p)) n)" for n
    using adopt_free [of ?e3 k C r n] r by (simp add: e6_def e5_def emit_def can_serve_def)
  have "pending (S p) k e6"
    using l6(2) slots r st by (simp add: pending_def can_serve_def) (simp add: e6_def e5_def emit_def adopt_steps)
  then have at: "primary_at C r k S P v q (S p) {} {} e6"
    using l6(2) slots q by (simp add: primary_at_def phase_ok_def)
  let ?e7 = "processPrePrepare C e5 ?m"
  have f7: "primary_at C r k S P v q (S p) {p} {} ?e7" "ccert ?e7 k = ccert e6 k"
    "eEffects ?e7 = eEffects e6 \<or> (\<exists>c. pcert ?e7 k = Some c)"
    using prepare_vote [OF a r(1) at _ q p(1)] q unfolding proc by auto
  have none: "pcert ?e7 k = None" "ccert e6 k = None"
    using f7(1) q slots by (auto simp: primary_at_def phase_ok_def pcert_def ccert_def)
  have e7: "e' = emit (EWatch k r) ?e7"
    using r s p
    by (simp add: e' propose_def Let_def broadcastPrePrepare_def can_serve_def proposal_msg_def watchPrepareQuorum_def adopt_steps e5_def)
  have "eEffects ?e7 = eEffects (S p) @ [EBroadcast (MPrePrepare ?m), ESign (ballot C r k v Prep)]"
    using f7(3) none by (simp add: e6_def e5_def) (simp add: emit_def adopt_steps)
  moreover have "primary_at C r k S P v q (S p) {p} {} e'"
    using f7(1) by (auto simp: e7 primary_at_def done_by_def served_def slot_req_def emit_def like_def pending_def)
  ultimately show ?thesis using none f7(2) by (simp add: e7)
qed

subsection \<open>What is on the links\<close>

definition wrap :: "(int \<Rightarrow> payload \<Rightarrow> bytes) \<Rightarrow> int \<Rightarrow> payload \<Rightarrow> Envelope" where
  "wrap sg i m = \<lparr>env_SenderId = i, env_Payload = m, env_Signature = sg i m\<rparr>"

text \<open>What the primary has for a backup that has or has not handled the proposal and the certificates,
  and what a backup has for the primary.\<close>

definition down :: "crypto_ops \<Rightarrow> Request \<Rightarrow> int \<Rightarrow> int \<Rightarrow> bool \<Rightarrow> bool \<Rightarrow> bool \<Rightarrow> engine \<Rightarrow> payload list" where
  "down C r k v a b d e = (if a then [] else [MPrePrepare (proposal_msg C r k v)]) @
     (case pcert e k of None \<Rightarrow> [] | Some c \<Rightarrow> if b then [] else [MPrepareCert c]) @
     (case ccert e k of None \<Rightarrow> [] | Some c \<Rightarrow> if d then [] else [MCommitCert c])"

definition ballot_of :: "crypto_ops \<Rightarrow> Request \<Rightarrow> int \<Rightarrow> int \<Rightarrow> (int \<Rightarrow> engine) \<Rightarrow> phase \<Rightarrow> int \<Rightarrow> Envelope" where
  "ballot_of C r k v S ph j = \<lparr>env_SenderId = j, env_Payload = (case ph of Prep \<Rightarrow> MPrepare (vote C r k v) | Comm \<Rightarrow> MCommit (vote C r k v)),
     env_Signature = ring_Sign C (eRing (S j)) (ballot C r k v ph)\<rparr>"

definition up :: "crypto_ops \<Rightarrow> Request \<Rightarrow> int \<Rightarrow> int \<Rightarrow> (int \<Rightarrow> engine) \<Rightarrow> bool \<Rightarrow> bool \<Rightarrow> int \<Rightarrow> Envelope list" where
  "up C r k v S x y j = (if x then [ballot_of C r k v S Prep j] else []) @ (if y then [ballot_of C r k v S Comm j] else [])"

text \<open>A backup that has taken the proposal (\<open>a\<close>), and the commit certificate (\<open>d\<close>).\<close>

definition backup_at :: "crypto_ops \<Rightarrow> Request \<Rightarrow> int \<Rightarrow> engine \<Rightarrow> bool \<Rightarrow> bool \<Rightarrow> engine \<Rightarrow> bool" where
  "backup_at C r k e0 a d e \<longleftrightarrow>
     (if \<not> a then e = e0
      else if \<not> d then pending e0 k e \<and> (\<exists>pc. bget (eLog e) k = Some (proposed C r\<lparr>sPrepareCert := pc\<rparr>))
      else done_by C r k e0 e \<and> (\<exists>s. bget (eLog e) k = Some s \<and> sDigest s = Digest C r \<and> sReq s = r \<and> sPrePrepare s \<and> \<not> sDiscarded s))"

lemma backup_like: "backup_at C r k e0 a d e \<Longrightarrow> like e0 e"
  by (auto simp: backup_at_def pending_def done_by_def split: if_splits)

lemma done_by_emit: "done_by C r k e0 e \<Longrightarrow> done_by C r k e0 (emit x e)"
  by (simp add: done_by_def served_def slot_req_def) (simp add: emit_def)

lemma backup_hears_proposal:
  fixes C :: crypto_ops and S :: "int \<Rightarrow> engine" and I :: iteration and sg :: "int \<Rightarrow> payload \<Rightarrow> bytes"
  assumes a: "agreed C S P v q p" and j: "j \<in> P" "j \<noteq> p" and r: "can_serve r k (S j)" "r_Op r = OpIntra"
  defines "e' \<equiv> Handle C I (S j) (wrap sg p (MPrePrepare (proposal_msg C r k v)))"
  shows "backup_at C r k (S j) True False e' \<and>
    outgoing sg (S j) e' x = (if x = p then [ballot_of C r k v S Prep j] else [])"
proof -
  have s: "eSelf (S j) = j" "Primary (S j) = p" "eView (S j) = v" using a j(1) by (auto simp: agreed_def)
  have b: "\<not> is_primary (S j)" using s j(2) by (simp add: is_primary_def)
  have e: "e' = onPrePrepare C (S j) (proposal_msg C r k (eView (S j)))"
    using r s by (simp add: can_serve_def e'_def Handle_def wrap_def)
  note t = backup_takes_proposal [OF r b, of C, folded e]
  have "outgoing sg (S j) e' x = (if x = p then [ballot_of C r k v S Prep j] else [])"
    using outgoing_send [of e' "S j" "ballot C r k v Prep" p "MPrepare (vote C r k v)"] t s by (simp add: ballot_of_def)
  moreover have "\<exists>pc. proposed C r = proposed C r\<lparr>sPrepareCert := pc\<rparr>"
    by (rule exI [of _ None]) (simp add: proposed_def emptySlot_def)
  ultimately show ?thesis using t by (simp add: backup_at_def)
qed

lemma backup_hears_cert:
  fixes C :: crypto_ops and S :: "int \<Rightarrow> engine" and I :: iteration and sg :: "int \<Rightarrow> payload \<Rightarrow> bytes"
  assumes a: "agreed C S P v q p" and j: "j \<in> P" "j \<noteq> p" and r: "can_serve r k (S j)"
    and at: "backup_at C r k (S j) True d e"
  shows "good_cert C r k (S j) Prep c \<Longrightarrow> let e' = Handle C I e (wrap sg p (MPrepareCert c)) in
      backup_at C r k (S j) True d e' \<and> (\<forall>x. outgoing sg e e' x = (if x = p then [ballot_of C r k v S Comm j] else []))"
    and "good_cert C r k (S j) Comm c \<Longrightarrow> \<not> d \<Longrightarrow> let e' = Handle C I e (wrap sg p (MCommitCert c)) in
      backup_at C r k (S j) True True e' \<and> (\<forall>x. outgoing sg e e' x = [])"
proof -
  have l: "like (S j) e" using at by (rule backup_like)
  have s: "eSelf (S j) = j" "Primary (S j) = p" "eView (S j) = v" using a j(1) by (auto simp: agreed_def)
  have b: "\<not> is_primary (S j)" using s j(2) by (simp add: is_primary_def)
  have alive: "Alive (eFault e)" and self: "eSelf e = j" using l r s by (simp_all add: like_def can_serve_def)
  {
    assume c: "good_cert C r k (S j) Prep c"
    let ?e = "Handle C I e (wrap sg p (MPrepareCert c))"
    obtain t where t: "bget (eLog e) k = Some t" "sDigest t = Digest C r" "sPrePrepare t"
      and st: "backup_at C r k (S j) True d (put_slot k (t\<lparr>sPrepareCert := Some c\<rparr>) e)"
    proof (cases d)
      case True
      then obtain t where dn: "done_by C r k (S j) e" "bget (eLog e) k = Some t" "sDigest t = Digest C r" "sReq t = r" "sPrePrepare t" "\<not> sDiscarded t"
        using at by (auto simp: backup_at_def)
      show ?thesis
        by (rule that [OF dn(2)]) (use dn True in \<open>simp_all add: backup_at_def done_by_put\<close>, auto simp: put_slot_def)
    next
      case False
      then obtain pc where dn: "pending (S j) k e" "bget (eLog e) k = Some (proposed C r\<lparr>sPrepareCert := pc\<rparr>)"
        using at by (auto simp: backup_at_def)
      show ?thesis
        by (rule that [OF dn(2)]) (use dn False in \<open>simp_all add: backup_at_def\<close>, auto simp: put_slot_def)
    qed
    have e: "?e = emit (ESend p (MCommit (vote C r k v)) (ring_Sign C (eRing (S j)) (ballot C r k v Comm)))
        (emit (ESign (ballot C r k v Comm)) (put_slot k (t\<lparr>sPrepareCert := Some c\<rparr>) e))"
      using backup_prepares [OF l t b c] alive s by (simp add: Handle_def wrap_def)
    have "backup_at C r k (S j) True d ?e"
      using st unfolding e by (auto simp: backup_at_def done_by_emit) (auto simp: emit_def)
    moreover have fx: "eEffects ?e = eEffects e @ [ESign (ballot C r k v Comm),
        ESend p (MCommit (vote C r k v)) (ring_Sign C (eRing (S j)) (ballot C r k v Comm))]"
      unfolding e by (simp add: emit_def put_slot_def)
    moreover have "outgoing sg e ?e x = (if x = p then [ballot_of C r k v S Comm j] else [])" for x
      using outgoing_send [OF fx, of sg x] self by (simp add: ballot_of_def)
    ultimately show "let e' = ?e in backup_at C r k (S j) True d e' \<and> (\<forall>x. outgoing sg e e' x = (if x = p then [ballot_of C r k v S Comm j] else []))"
      by (simp add: Let_def)
  next
    assume c: "good_cert C r k (S j) Comm c" "\<not> d"
    then obtain pc where p: "pending (S j) k e" "bget (eLog e) k = Some (proposed C r\<lparr>sPrepareCert := pc\<rparr>)"
      using at by (auto simp: backup_at_def)
    have e: "Handle C I e (wrap sg p (MCommitCert c)) = onCommitCert C e c" using alive by (simp add: Handle_def wrap_def)
    note t = backup_commits [OF p c(1) r]
    have "outgoing sg e (onCommitCert C e c) x = []" for x by (rule outgoing_none) (use t in auto)
    then show "let e' = Handle C I e (wrap sg p (MCommitCert c)) in
      backup_at C r k (S j) True True e' \<and> (\<forall>x. outgoing sg e e' x = [])"
      using t by (auto simp: backup_at_def e Let_def)
  }
qed

text \<open>What the primary sends on a vote, if anything, goes to every backup.\<close>

definition tells :: "(int \<Rightarrow> payload \<Rightarrow> bytes) \<Rightarrow> int \<Rightarrow> int list \<Rightarrow> engine \<Rightarrow> engine \<Rightarrow> payload list \<Rightarrow> bool" where
  "tells sg p ps e e' ms \<longleftrightarrow> (\<forall>x. outgoing sg e e' x = (if x \<in> set ps then map (wrap sg p) ms else []))"

lemma tells_none: "eEffects e' = eEffects e \<Longrightarrow> tells sg p ps e e' []"
  by (simp add: tells_def outgoing_def)

lemma tells_broadcast:
  assumes "eEffects e' = eEffects e @ EBroadcast m # fx" "\<forall>x\<in>set fx. \<forall>s ps. posted sg s ps x = []"
    and "eSelf e = p" "peers_of e = ps" "distinct ps"
  shows "tells sg p ps e e' [m]"
  using outgoing_broadcast [OF assms(1,2)] assms(3-5) by (simp add: tells_def wrap_def)


text \<open>The certificate the primary makes on a vote, if any.\<close>

definition announces :: "int \<Rightarrow> engine \<Rightarrow> engine \<Rightarrow> payload list \<Rightarrow> bool" where
  "announces k e e' ms \<longleftrightarrow>
     ms = [] \<and> pcert e' k = pcert e k \<and> ccert e' k = ccert e k \<or>
     (\<exists>c. ms = [MPrepareCert c] \<and> pcert e k = None \<and> pcert e' k = Some c \<and> ccert e' k = ccert e k) \<or>
     (\<exists>c. ms = [MCommitCert c] \<and> ccert e k = None \<and> ccert e' k = Some c \<and> pcert e' k = pcert e k)"

lemma primary_hears:
  fixes C :: crypto_ops and S :: "int \<Rightarrow> engine" and I :: iteration
  assumes a: "agreed C S P v q p" and r: "can_serve r k (S p)" and at: "primary_at C r k S P v q (S p) V W e"
    and early: "int (card V) < q \<Longrightarrow> W = {}" and q: "2 \<le> q" and j: "j \<in> P" and ps: "distinct (peers_of (S p))"
  shows "j \<notin> V \<Longrightarrow> \<exists>ms. let e' = Handle C I e (ballot_of C r k v S Prep j) in
      primary_at C r k S P v q (S p) (insert j V) (if int (card V) + 1 = q then {p} else W) e' \<and>
      announces k e e' ms \<and> tells sg p (peers_of (S p)) e e' ms"
    and "q \<le> int (card V) \<Longrightarrow> j \<notin> W \<Longrightarrow> \<exists>ms. let e' = Handle C I e (ballot_of C r k v S Comm j) in
      primary_at C r k S P v q (S p) V (insert j W) e' \<and>
      announces k e e' ms \<and> tells sg p (peers_of (S p)) e e' ms"
proof -
  have l: "like (S p) e" using at by (simp add: primary_at_def)
  have f: "Alive (eFault e)" "eSelf e = p" "peers_of e = peers_of (S p)"
    using l r a like_peers [OF l] by (auto simp: like_def can_serve_def agreed_def)
  {
    assume v: "j \<notin> V"
    have h: "Handle C I e (ballot_of C r k v S Prep j) = onPrepare C e j (vote C r k v) (ring_Sign C (eRing (S j)) (ballot C r k v Prep))"
      using f by (simp add: Handle_def ballot_of_def)
    show "\<exists>ms. let e' = Handle C I e (ballot_of C r k v S Prep j) in
      primary_at C r k S P v q (S p) (insert j V) (if int (card V) + 1 = q then {p} else W) e' \<and>
      announces k e e' ms \<and> tells sg p (peers_of (S p)) e e' ms"
      using prepare_vote [OF a r at early q j v] tells_none tells_broadcast [OF _ _ f(2,3) ps]
      unfolding h Let_def announces_def by fastforce
  next
    assume v: "q \<le> int (card V)" "j \<notin> W"
    have h: "Handle C I e (ballot_of C r k v S Comm j) = onCommit C e j (vote C r k v) (ring_Sign C (eRing (S j)) (ballot C r k v Comm))"
      using f by (simp add: Handle_def ballot_of_def)
    show "\<exists>ms. let e' = Handle C I e (ballot_of C r k v S Comm j) in
      primary_at C r k S P v q (S p) V (insert j W) e' \<and>
      announces k e e' ms \<and> tells sg p (peers_of (S p)) e e' ms"
      using commit_vote [OF a r at v(1) j v(2)] tells_none tells_broadcast [OF _ _ f(2,3) ps]
      unfolding h Let_def announces_def by fastforce
  }
qed

subsection \<open>The invariant of the network\<close>

lemma primary_certs:
  assumes "primary_at C r k S P v q e0 V W e"
  shows "pcert e k = None \<longleftrightarrow> int (card V) < q" "ccert e k = None \<longleftrightarrow> int (card W) < q"
    "pcert e k = Some c \<Longrightarrow> j \<in> P \<Longrightarrow> good_cert C r k (S j) Prep c"
    "ccert e k = Some c \<Longrightarrow> j \<in> P \<Longrightarrow> good_cert C r k (S j) Comm c"
    "finite V" "finite W" "V \<subseteq> P" "W \<subseteq> P"
  using assms by (auto simp: primary_at_def phase_ok_def pcert_def ccert_def tally_finite tally_def)

lemma down_announced:
  assumes "announces k e e' ms" "b \<Longrightarrow> pcert e k \<noteq> None" "d \<Longrightarrow> ccert e k \<noteq> None"
  shows "mset (map f (down C r k v a b d e')) = mset (map f (down C r k v a b d e)) + mset (map f ms)"
  using assms by (auto simp: announces_def down_def split: option.splits)

text \<open>Who has handled what: the backups that took the proposal and the certificates, and those whose
  PREPARE and COMMIT the primary has.\<close>

record net_stage =
  tProposal :: "int set"
  tPrepCert :: "int set"
  tCommCert :: "int set"
  tPrepare :: "int set"
  tCommit :: "int set"

definition stage_weight :: "net_stage \<Rightarrow> nat" where
  "stage_weight g = card (tProposal g) + card (tPrepCert g) + card (tCommCert g) + card (tPrepare g) + card (tCommit g)"

text \<open>The COMMIT votes the primary has, its own from the moment it has a PREPARE certificate.\<close>

definition commit_votes :: "int \<Rightarrow> int \<Rightarrow> net_stage \<Rightarrow> int set" where
  "commit_votes q p g = (if int (card (insert p (tPrepare g))) < q then {} else insert p (tCommit g))"

definition stage_ok :: "int list \<Rightarrow> net_stage \<Rightarrow> bool" where
  "stage_ok js g \<longleftrightarrow> tProposal g \<subseteq> set js \<and> tPrepCert g \<subseteq> tProposal g \<and> tCommCert g \<subseteq> tProposal g \<and>
     tPrepare g \<subseteq> tProposal g \<and> tCommit g \<subseteq> tPrepCert g"

definition at_stage ::
    "crypto_ops \<Rightarrow> (int \<Rightarrow> payload \<Rightarrow> bytes) \<Rightarrow> Request \<Rightarrow> int \<Rightarrow> int \<Rightarrow> int \<Rightarrow> int \<Rightarrow> int list \<Rightarrow> (int \<Rightarrow> engine) \<Rightarrow>
     net_stage \<Rightarrow> network \<Rightarrow> bool" where
  "at_stage C sg r k v q p js S g N \<longleftrightarrow> stage_ok js g \<and>
     (tPrepCert g \<noteq> {} \<longrightarrow> pcert (nEng N p) k \<noteq> None) \<and> (tCommCert g \<noteq> {} \<longrightarrow> ccert (nEng N p) k \<noteq> None) \<and>
     primary_at C r k S (set (p # js)) v q (S p) (insert p (tPrepare g)) (commit_votes q p g) (nEng N p) \<and>
     (\<forall>j\<in>set js. backup_at C r k (S j) (j \<in> tProposal g) (j \<in> tCommCert g) (nEng N j) \<and>
        mset (nLink N p j) = mset (map (wrap sg p)
          (down C r k v (j \<in> tProposal g) (j \<in> tPrepCert g) (j \<in> tCommCert g) (nEng N p))) \<and>
        mset (nLink N j p) = mset (up C r k v S (j \<in> tProposal g - tPrepare g) (j \<in> tPrepCert g - tCommit g) j)) \<and>
     (\<forall>i\<in>set (p # js). \<forall>j\<in>set (p # js). (i = p \<longleftrightarrow> j = p) \<longrightarrow> nLink N i j = [])"

lemma mset_take_one: "n < length xs \<Longrightarrow> mset (take n xs @ drop (Suc n) xs) = mset xs - {#xs ! n#}"
  using id_take_nth_drop [of n xs] by (metis add_mset_add_single add_diff_cancel_right' mset_append mset.simps(2) union_mset_add_mset_right)

lemma deliver_Some:
  assumes "deliver C I sg (i, j, n) N = Some N'" and "i \<noteq> j"
  shows "\<exists>m ms. m = nLink N i j ! n \<and> m \<in> set (nLink N i j) \<and> mset ms = mset (nLink N i j) - {#m#} \<and>
    nEng N' = (nEng N)(j := Handle C I (nEng N j) m) \<and>
    (\<forall>a b. nLink N' a b = (if a = i \<and> b = j then ms
       else if a = j then nLink N j b @ outgoing sg (nEng N j) (Handle C I (nEng N j) m) b else nLink N a b))"
proof -
  let ?L = "nLink N i j"
  have n: "n < length ?L" using assms(1) by (auto simp: deliver_def Let_def split: if_splits)
  show ?thesis
    by (intro exI [of _ "?L ! n"] exI [of _ "take n ?L @ drop (Suc n) ?L"])
       (use assms n mset_take_one [OF n] in \<open>auto simp: deliver_def turn_to_def Let_def\<close>)
qed

lemma wrap_simps [simp]:
  "is_proposal (wrap sg p m) = (case m of MPrePrepare _ \<Rightarrow> True | _ \<Rightarrow> False)" "wrap sg p m = wrap sg p m' \<longleftrightarrow> m = m'"
  by (auto simp: is_proposal_def wrap_def)

lemma stage_sets:
  assumes "stage_ok js g"
  shows "finite (tProposal g)" "finite (tPrepCert g)" "finite (tCommCert g)" "finite (tPrepare g)" "finite (tCommit g)"
    "tPrepCert g \<subseteq> set js" "tCommCert g \<subseteq> set js" "tPrepare g \<subseteq> set js" "tCommit g \<subseteq> set js"
proof -
  show "tPrepCert g \<subseteq> set js" "tCommCert g \<subseteq> set js" "tPrepare g \<subseteq> set js" "tCommit g \<subseteq> set js"
    using assms by (auto simp: stage_ok_def)
  then show "finite (tProposal g)" "finite (tPrepCert g)" "finite (tCommCert g)" "finite (tPrepare g)" "finite (tCommit g)"
    using assms by (auto simp: stage_ok_def intro: finite_subset)
qed

lemma stage_backup:
  assumes st: "at_stage C sg r k v q p js S g N" and j: "j \<in> set js" "j \<noteq> p" and ok: "stage_ok js g'"
    and votes: "tPrepare g' = tPrepare g" "tCommit g' = tCommit g"
    and others: "\<And>x. x \<noteq> j \<Longrightarrow> (x \<in> tProposal g' \<longleftrightarrow> x \<in> tProposal g) \<and> (x \<in> tPrepCert g' \<longleftrightarrow> x \<in> tPrepCert g) \<and>
        (x \<in> tCommCert g' \<longleftrightarrow> x \<in> tCommCert g)"
    and certs: "tPrepCert g' \<noteq> {} \<Longrightarrow> pcert (nEng N p) k \<noteq> None" "tCommCert g' \<noteq> {} \<Longrightarrow> ccert (nEng N p) k \<noteq> None"
    and eng: "nEng N' = (nEng N)(j := e')" "backup_at C r k (S j) (j \<in> tProposal g') (j \<in> tCommCert g') e'"
    and link: "\<And>a b. nLink N' a b = (if a = p \<and> b = j then ms else if a = j then nLink N j b @ out b else nLink N a b)"
    and down: "mset ms = mset (map (wrap sg p) (down C r k v (j \<in> tProposal g') (j \<in> tPrepCert g') (j \<in> tCommCert g') (nEng N p)))"
    and up: "mset (nLink N j p @ out p) = mset (up C r k v S (j \<in> tProposal g' - tPrepare g') (j \<in> tPrepCert g' - tCommit g') j)"
    and out: "\<And>x. x \<noteq> p \<Longrightarrow> out x = []"
  shows "at_stage C sg r k v q p js S g' N'"
proof -
  have p: "nEng N' p = nEng N p" using eng(1) j(2) by simp
  have W: "commit_votes q p g' = commit_votes q p g" by (simp add: commit_votes_def votes)
  show ?thesis
    unfolding at_stage_def
  proof (intro conjI ballI)
    show "stage_ok js g'" by (rule ok)
    show "tPrepCert g' \<noteq> {} \<longrightarrow> pcert (nEng N' p) k \<noteq> None" "tCommCert g' \<noteq> {} \<longrightarrow> ccert (nEng N' p) k \<noteq> None"
      using certs p by simp_all
    show "primary_at C r k S (set (p # js)) v q (S p) (insert p (tPrepare g')) (commit_votes q p g') (nEng N' p)"
      unfolding W votes p using st by (simp add: at_stage_def)
  next
    fix x assume x: "x \<in> set js"
    have old: "x \<noteq> j \<Longrightarrow> backup_at C r k (S x) (x \<in> tProposal g) (x \<in> tCommCert g) (nEng N x)"
      "x \<noteq> j \<Longrightarrow> mset (nLink N p x) = mset (map (wrap sg p) (down C r k v (x \<in> tProposal g) (x \<in> tPrepCert g) (x \<in> tCommCert g) (nEng N p)))"
      "x \<noteq> j \<Longrightarrow> mset (nLink N x p) = mset (up C r k v S (x \<in> tProposal g - tPrepare g) (x \<in> tPrepCert g - tCommit g) x)"
      using st x by (auto simp: at_stage_def)
    show "backup_at C r k (S x) (x \<in> tProposal g') (x \<in> tCommCert g') (nEng N' x)"
      using old(1) eng others [of x] by (cases "x = j") simp_all
    show "mset (nLink N' p x) = mset (map (wrap sg p) (down C r k v (x \<in> tProposal g') (x \<in> tPrepCert g') (x \<in> tCommCert g') (nEng N' p)))"
      using old(2) down p others [of x] j(2) by (cases "x = j") (simp_all add: link)
    show "mset (nLink N' x p) = mset (up C r k v S (x \<in> tProposal g' - tPrepare g') (x \<in> tPrepCert g' - tCommit g') x)"
      using old(3) up others [of x] j(2) votes by (cases "x = j") (simp_all add: link)
  next
    fix x y assume xy: "x \<in> set (p # js)" "y \<in> set (p # js)"
    show "(x = p \<longleftrightarrow> y = p) \<longrightarrow> nLink N' x y = []"
    proof
      assume "x = p \<longleftrightarrow> y = p"
      moreover from this have "nLink N x y = []" using st xy by (simp only: at_stage_def)
      ultimately show "nLink N' x y = []" using out [of y] j(2) by (auto simp: link)
    qed
  qed
qed

text \<open>A backup handles one of the messages of the primary.\<close>

lemma stage_down:
  assumes a: "agreed C S (set (p # js)) v q p" and r: "\<forall>i\<in>set (p # js). can_serve r k (S i)" "r_Op r = OpIntra"
    and st: "at_stage C sg r k v q p js S g N" and j: "j \<in> set js" "p \<notin> set js"
    and d: "deliver C I sg (p, j, n) N = Some N'" and ord: "in_order (p, j, n) N"
  shows "\<exists>g'. at_stage C sg r k v q p js S g' N' \<and> stage_weight g' = Suc (stage_weight g)"
proof -
  have jp: "j \<noteq> p" using j by blast
  have ok: "stage_ok js g" using st by (simp add: at_stage_def)
  note fin = stage_sets [OF ok]
  have at: "primary_at C r k S (set (p # js)) v q (S p) (insert p (tPrepare g)) (commit_votes q p g) (nEng N p)" using st by (simp add: at_stage_def)
  let ?a = "j \<in> tProposal g" and ?b = "j \<in> tPrepCert g" and ?d = "j \<in> tCommCert g"
  have b: "backup_at C r k (S j) ?a ?d (nEng N j)"
    "mset (nLink N p j) = mset (map (wrap sg p) (down C r k v ?a ?b ?d (nEng N p)))"
    using st j(1) by (auto simp: at_stage_def)
  have certs: "tPrepCert g \<noteq> {} \<longrightarrow> pcert (nEng N p) k \<noteq> None" "tCommCert g \<noteq> {} \<longrightarrow> ccert (nEng N p) k \<noteq> None"
    using st by (simp_all add: at_stage_def)
  have up: "mset (nLink N j p) = mset (up C r k v S (?a \<and> j \<notin> tPrepare g) (?b \<and> j \<notin> tCommit g) j)"
    using st j(1) by (simp add: at_stage_def)
  obtain m ms where m: "m = nLink N p j ! n" "m \<in> set (nLink N p j)" "mset ms = mset (nLink N p j) - {#m#}"
    and N': "nEng N' = (nEng N)(j := Handle C I (nEng N j) m)"
    "\<And>a b. nLink N' a b = (if a = p \<and> b = j then ms
       else if a = j then nLink N j b @ outgoing sg (nEng N j) (Handle C I (nEng N j) m) b else nLink N a b)"
    using deliver_Some [OF d] jp by blast
  have set: "set (nLink N p j) = wrap sg p ` set (down C r k v ?a ?b ?d (nEng N p))" using arg_cong [OF b(2), of set_mset] by simp
  have jP: "j \<in> set (p # js)" and rj: "can_serve r k (S j)" using j r by auto
  show ?thesis
  proof (cases ?a)
    case False
    have no: "\<not> ?b" "\<not> ?d" "j \<notin> tPrepare g" "j \<notin> tCommit g" using False ok by (auto simp: stage_ok_def)
    have "wrap sg p (MPrePrepare (proposal_msg C r k v)) \<in> set (nLink N p j)" using False by (simp add: set down_def)
    then have "\<exists>x\<in>set (nLink N p j). is_proposal x" by (rule bexI [rotated]) simp
    then have "is_proposal m" using ord m(1) unfolding in_order_def by simp
    then have me: "m = wrap sg p (MPrePrepare (proposal_msg C r k v))"
      using m(2) unfolding set by (auto simp: down_def split: option.splits if_splits)
    have e: "nEng N j = S j" using b(1) False by (simp add: backup_at_def)
    note h = backup_hears_proposal [OF a jP jp rj r(2), where sg = sg and I = I]
    note hb = h [THEN conjunct1] and ho = h [THEN conjunct2]
    have "at_stage C sg r k v q p js S (g\<lparr>tProposal := insert j (tProposal g)\<rparr>) N'"
    proof (rule stage_backup [OF st j(1) jp _ _ _ _ _ _ N'(1) _ N'(2)])
      show "stage_ok js (g\<lparr>tProposal := insert j (tProposal g)\<rparr>)" using ok j(1) by (auto simp: stage_ok_def)
    qed (use certs m(3) b(2) hb ho no False up in \<open>simp_all add: me down_def up_def e\<close>)
    then show ?thesis
      using False fin by (intro exI [of _ "g\<lparr>tProposal := insert j (tProposal g)\<rparr>"]) (simp add: stage_weight_def)
  next
    case True
    then have b1: "backup_at C r k (S j) True ?d (nEng N j)" using b(1) by simp
    note h = backup_hears_cert [OF a jP jp rj b1, where sg = sg and I = I]
    have "(\<exists>c. m = wrap sg p (MPrepareCert c) \<and> pcert (nEng N p) k = Some c \<and> \<not> ?b) \<or>
        (\<exists>c. m = wrap sg p (MCommitCert c) \<and> ccert (nEng N p) k = Some c \<and> \<not> ?d)"
      using m(2) True unfolding set by (auto simp: down_def split: option.splits if_splits)
    then show ?thesis
    proof (elim disjE exE conjE)
      fix c assume c: "m = wrap sg p (MPrepareCert c)" "pcert (nEng N p) k = Some c" "\<not> ?b"
      have no: "j \<notin> tCommit g" using c(3) ok by (auto simp: stage_ok_def)
      note h' = h(1) [OF primary_certs(3) [OF at c(2) jP], folded c(1), unfolded Let_def]
      have "at_stage C sg r k v q p js S (g\<lparr>tPrepCert := insert j (tPrepCert g)\<rparr>) N'"
      proof (rule stage_backup [OF st j(1) jp _ _ _ _ _ _ N'(1) _ N'(2)])
        show "stage_ok js (g\<lparr>tPrepCert := insert j (tPrepCert g)\<rparr>)" using ok True by (auto simp: stage_ok_def)
      qed (use certs m(3) b(2) h' no True c up in \<open>simp_all add: down_def up_def split: option.split\<close>)
      then show ?thesis
        using c(3) fin by (intro exI [of _ "g\<lparr>tPrepCert := insert j (tPrepCert g)\<rparr>"]) (simp add: stage_weight_def)
    next
      fix c assume c: "m = wrap sg p (MCommitCert c)" "ccert (nEng N p) k = Some c" "\<not> ?d"
      note h' = h(2) [OF primary_certs(4) [OF at c(2) jP] c(3), folded c(1), unfolded Let_def]
      have "at_stage C sg r k v q p js S (g\<lparr>tCommCert := insert j (tCommCert g)\<rparr>) N'"
      proof (rule stage_backup [OF st j(1) jp _ _ _ _ _ _ N'(1) _ N'(2)])
        show "stage_ok js (g\<lparr>tCommCert := insert j (tCommCert g)\<rparr>)" using ok True by (auto simp: stage_ok_def)
      qed (use certs m(3) b(2) h' True c up in \<open>simp_all add: down_def split: option.split\<close>)
      then show ?thesis
        using c(3) fin by (intro exI [of _ "g\<lparr>tCommCert := insert j (tCommCert g)\<rparr>"]) (simp add: stage_weight_def)
    qed
  qed
qed

lemma peers_other: "eSelf e \<notin> set (peers_of e)"
  by (simp add: peers_of_def cluster_peers_def NewHubSender_def split: option.split)

lemma stage_primary:
  assumes st: "at_stage C sg r k v q p js S g N" and j: "j \<in> set js" "p \<notin> set js" and ok: "stage_ok js g'"
    and same: "tProposal g' = tProposal g" "tPrepCert g' = tPrepCert g" "tCommCert g' = tCommCert g"
    and others: "\<And>x. x \<noteq> j \<Longrightarrow> (x \<in> tPrepare g' \<longleftrightarrow> x \<in> tPrepare g) \<and> (x \<in> tCommit g' \<longleftrightarrow> x \<in> tCommit g)"
    and eng: "nEng N' = (nEng N)(p := e')"
    and at: "primary_at C r k S (set (p # js)) v q (S p) (insert p (tPrepare g')) (commit_votes q p g') e'"
    and says: "announces k (nEng N p) e' ms"
    and out: "\<And>x. out x = (if x \<in> set ps then map (wrap sg p) ms else [])" "set js \<subseteq> set ps" "p \<notin> set ps"
    and link: "\<And>a b. nLink N' a b = (if a = j \<and> b = p then rest else if a = p then nLink N p b @ out b else nLink N a b)"
    and up: "mset rest = mset (up C r k v S (j \<in> tProposal g' - tPrepare g') (j \<in> tPrepCert g' - tCommit g') j)"
  shows "at_stage C sg r k v q p js S g' N'"
proof -
  have jp: "j \<noteq> p" using j by blast
  have certs: "tPrepCert g \<noteq> {} \<longrightarrow> pcert (nEng N p) k \<noteq> None" "tCommCert g \<noteq> {} \<longrightarrow> ccert (nEng N p) k \<noteq> None"
    using st by (simp_all add: at_stage_def)
  show ?thesis
    unfolding at_stage_def
  proof (intro conjI ballI)
    show "stage_ok js g'" by (rule ok)
    show "tPrepCert g' \<noteq> {} \<longrightarrow> pcert (nEng N' p) k \<noteq> None" "tCommCert g' \<noteq> {} \<longrightarrow> ccert (nEng N' p) k \<noteq> None"
      using certs says by (auto simp: eng same announces_def)
    show "primary_at C r k S (set (p # js)) v q (S p) (insert p (tPrepare g')) (commit_votes q p g') (nEng N' p)"
      using at by (simp add: eng)
  next
    fix x assume x: "x \<in> set js"
    then have xp: "x \<noteq> p" using j(2) by blast
    have old: "backup_at C r k (S x) (x \<in> tProposal g) (x \<in> tCommCert g) (nEng N x)"
      "mset (nLink N p x) = mset (map (wrap sg p) (down C r k v (x \<in> tProposal g) (x \<in> tPrepCert g) (x \<in> tCommCert g) (nEng N p)))"
      "mset (nLink N x p) = mset (up C r k v S (x \<in> tProposal g - tPrepare g) (x \<in> tPrepCert g - tCommit g) x)"
      using st x by (simp_all add: at_stage_def)
    show "backup_at C r k (S x) (x \<in> tProposal g') (x \<in> tCommCert g') (nEng N' x)"
      using old(1) xp by (simp add: eng same)
    have gain: "mset (map (wrap sg p) (down C r k v (x \<in> tProposal g) (x \<in> tPrepCert g) (x \<in> tCommCert g) e')) =
        mset (map (wrap sg p) (down C r k v (x \<in> tProposal g) (x \<in> tPrepCert g) (x \<in> tCommCert g) (nEng N p))) + mset (map (wrap sg p) ms)"
      by (rule down_announced [OF says]) (use certs in auto)
    have "mset (nLink N' p x) = mset (nLink N p x) + mset (map (wrap sg p) ms)"
      using jp x out(2) by (auto simp: link out(1))
    then show "mset (nLink N' p x) = mset (map (wrap sg p) (down C r k v (x \<in> tProposal g') (x \<in> tPrepCert g') (x \<in> tCommCert g') (nEng N' p)))"
      using old(2) gain by (simp add: eng same)
    show "mset (nLink N' x p) = mset (up C r k v S (x \<in> tProposal g' - tPrepare g') (x \<in> tPrepCert g' - tCommit g') x)"
      using old(3) up others [of x] xp same by (cases "x = j") (simp_all add: link)
  next
    fix x y assume xy: "x \<in> set (p # js)" "y \<in> set (p # js)"
    show "(x = p \<longleftrightarrow> y = p) \<longrightarrow> nLink N' x y = []"
    proof
      assume "x = p \<longleftrightarrow> y = p"
      moreover from this have "nLink N x y = []" using st xy by (simp only: at_stage_def)
      ultimately show "nLink N' x y = []" using jp by (auto simp: link out(1,3))
    qed
  qed
qed

text \<open>The primary handles one of the votes of a backup.\<close>

lemma stage_up:
  assumes a: "agreed C S (set (p # js)) v q p" and r: "\<forall>i\<in>set (p # js). can_serve r k (S i)" and q: "2 \<le> q"
    and ps: "distinct (peers_of (S p))" "set js \<subseteq> set (peers_of (S p))"
    and st: "at_stage C sg r k v q p js S g N" and j: "j \<in> set js" "p \<notin> set js"
    and d: "deliver C I sg (j, p, n) N = Some N'"
  shows "\<exists>g'. at_stage C sg r k v q p js S g' N' \<and> stage_weight g' = Suc (stage_weight g)"
proof -
  have jp: "j \<noteq> p" and jP: "j \<in> set (p # js)" and rp: "can_serve r k (S p)" using j r by auto
  have ok: "stage_ok js g" using st by (simp add: at_stage_def)
  note fin = stage_sets [OF ok]
  let ?V = "insert p (tPrepare g)" and ?W = "commit_votes q p g"
  have at: "primary_at C r k S (set (p # js)) v q (S p) ?V ?W (nEng N p)" using st by (simp add: at_stage_def)
  let ?x = "j \<in> tProposal g \<and> j \<notin> tPrepare g" and ?y = "j \<in> tPrepCert g \<and> j \<notin> tCommit g"
  have link: "mset (nLink N j p) = mset (up C r k v S ?x ?y j)" using st j(1) by (simp add: at_stage_def)
  obtain m ms where m: "m \<in> set (nLink N j p)" "mset ms = mset (nLink N j p) - {#m#}"
    and N': "nEng N' = (nEng N)(p := Handle C I (nEng N p) m)"
    "\<And>a b. nLink N' a b = (if a = j \<and> b = p then ms
       else if a = p then nLink N p b @ outgoing sg (nEng N p) (Handle C I (nEng N p) m) b else nLink N a b)"
    using deliver_Some [OF d] jp by blast
  have self: "p \<notin> set (peers_of (S p))" using peers_other [of "S p"] a by (simp add: agreed_def)
  have none: "?W = {}" if "int (card ?V) < q" using that by (simp add: commit_votes_def)
  have full: "q \<le> int (card ?V)" if "tPrepCert g \<noteq> {}" using that st primary_certs(1) [OF at] by (auto simp: at_stage_def)
  have p: "p \<notin> tPrepare g" "p \<notin> tCommit g" using fin(8,9) j(2) by auto
  have "set (nLink N j p) = set (up C r k v S ?x ?y j)" using arg_cong [OF link, of set_mset] by simp
  then have "m = ballot_of C r k v S Prep j \<and> ?x \<or> m = ballot_of C r k v S Comm j \<and> ?y"
    using m(1) by (auto simp: up_def split: if_splits)
  then show ?thesis
  proof (elim disjE conjE)
    assume me: "m = ballot_of C r k v S Prep j" and x: "j \<in> tProposal g" "j \<notin> tPrepare g"
    let ?g = "g\<lparr>tPrepare := insert j (tPrepare g)\<rparr>"
    have v: "j \<notin> ?V" using x jp by simp
    have card: "int (card (insert j ?V)) = int (card ?V) + 1" using v fin(4) by simp
    have "tCommit g = {}" if "int (card ?V) < q"
    proof -
      have "tPrepCert g = {}" using full that by force
      then show ?thesis using ok by (simp add: stage_ok_def)
    qed
    then have W: "(if int (card ?V) + 1 = q then {p} else ?W) = commit_votes q p ?g"
      using card by (simp add: commit_votes_def insert_commute)
    have V: "insert j ?V = insert p (tPrepare ?g)" by (simp add: insert_commute)
    obtain ms' where h: "primary_at C r k S (set (p # js)) v q (S p) (insert p (tPrepare ?g)) (commit_votes q p ?g) (Handle C I (nEng N p) m)"
        "announces k (nEng N p) (Handle C I (nEng N p) m) ms'" "tells sg p (peers_of (S p)) (nEng N p) (Handle C I (nEng N p) m) ms'"
      using primary_hears(1) [OF a rp at none q jP ps(1) v, of I sg, folded me, unfolded Let_def W V] by blast
    have "at_stage C sg r k v q p js S ?g N'"
    proof (rule stage_primary [OF st j _ _ _ _ _ N'(1) h(1,2) _ ps(2) self N'(2)])
      show "stage_ok js ?g" using ok x by (auto simp: stage_ok_def)
      show "mset ms = mset (up C r k v S (j \<in> tProposal ?g - tPrepare ?g) (j \<in> tPrepCert ?g - tCommit ?g) j)"
        using m(2) link x by (simp add: me up_def)
    qed (use h(3) in \<open>simp_all add: tells_def\<close>)
    then show ?thesis using x fin by (intro exI [of _ ?g]) (simp add: stage_weight_def)
  next
    assume me: "m = ballot_of C r k v S Comm j" and y: "j \<in> tPrepCert g" "j \<notin> tCommit g"
    let ?g = "g\<lparr>tCommit := insert j (tCommit g)\<rparr>"
    have qV: "q \<le> int (card ?V)" using full y by blast
    have v: "j \<notin> ?W" using y jp by (simp add: commit_votes_def)
    have W: "insert j ?W = commit_votes q p ?g" using qV by (simp add: commit_votes_def insert_commute)
    have V: "?V = insert p (tPrepare ?g)" by simp
    obtain ms' where h: "primary_at C r k S (set (p # js)) v q (S p) (insert p (tPrepare ?g)) (commit_votes q p ?g) (Handle C I (nEng N p) m)"
        "announces k (nEng N p) (Handle C I (nEng N p) m) ms'" "tells sg p (peers_of (S p)) (nEng N p) (Handle C I (nEng N p) m) ms'"
      using primary_hears(2) [OF a rp at none q jP ps(1) qV v, of I sg, folded me, unfolded Let_def W] by auto
    have "at_stage C sg r k v q p js S ?g N'"
    proof (rule stage_primary [OF st j _ _ _ _ _ N'(1) h(1,2) _ ps(2) self N'(2)])
      show "stage_ok js ?g" using ok y by (auto simp: stage_ok_def)
      show "mset ms = mset (up C r k v S (j \<in> tProposal ?g - tPrepare ?g) (j \<in> tPrepCert ?g - tCommit ?g) j)"
        using m(2) link y by (auto simp: me up_def ballot_of_def)
    qed (use h(3) in \<open>simp_all add: tells_def\<close>)
    then show ?thesis using y fin by (intro exI [of _ ?g]) (simp add: stage_weight_def)
  qed
qed

lemma live_agreed: "live_quorum C p js v q S \<Longrightarrow> agreed C S (set (p # js)) v q p"
  by (simp add: live_quorum_def agreed_def keys_ok_def)

lemma can_serve_intra: "can_serve req k e \<Longrightarrow> can_serve (req\<lparr>r_Op := OpIntra\<rparr>) k e"
  by (simp add: can_serve_def norm_op_def)

lemma stage_start:
  assumes live: "live_quorum C p js v q S" and s: "can_serve req k (S p)" and idle: "idle_primary C req k (S p)"
  shows "at_stage C sg (req\<lparr>r_Op := OpIntra\<rparr>) k v q p js S
    \<lparr>tProposal = {}, tPrepCert = {}, tCommCert = {}, tPrepare = {}, tCommit = {}\<rparr> (client_arrives C I sg req p S)"
proof -
  let ?r = "req\<lparr>r_Op := OpIntra\<rparr>" and ?e = "client_turn C I req (S p)"
  let ?g = "\<lparr>tProposal = {}, tPrepCert = {}, tCommCert = {}, tPrepare = {}, tCommit = {}\<rparr>"
  have q: "2 \<le> q" "p \<notin> set js" "distinct (peers_of (S p))" "set js \<subseteq> set (peers_of (S p))" "eSelf (S p) = p"
    using live by (auto simp: live_quorum_def)
  note st = primary_starts [OF live_agreed [OF live] s idle q(1), of I]
  have "tells sg p (peers_of (S p)) (S p) ?e [MPrePrepare (proposal_msg C ?r k v)]"
    by (rule tells_broadcast [of _ _ _ "[ESign (ballot C ?r k v Prep), EWatch k ?r]"]) (use st q in auto)
  then have out: "outgoing sg (S p) ?e x = (if x \<in> set (peers_of (S p)) then map (wrap sg p) (down C ?r k v False False False ?e) else [])" for x
    using st by (simp add: tells_def down_def)
  have pp: "p \<notin> set (peers_of (S p))" using peers_other [of "S p"] q by simp
  have W: "commit_votes q p ?g = {}" using q(1) by (simp add: commit_votes_def)
  have link: "nLink (client_arrives C I sg req p S) a b = (if a = p then outgoing sg (S p) ?e b else [])" for a b
    by (simp add: client_arrives_def turn_to_def)
  have eng: "nEng (client_arrives C I sg req p S) x = (if x = p then ?e else S x)" for x
    by (simp add: client_arrives_def turn_to_def)
  show ?thesis
    unfolding at_stage_def W
  proof (intro conjI ballI impI)
    show "primary_at C ?r k S (set (p # js)) v q (S p) (insert p (tPrepare ?g)) {} (nEng (client_arrives C I sg req p S) p)"
      using st by (simp add: eng)
  next
    fix j assume j: "j \<in> set js"
    then have jp: "j \<noteq> p" using q(2) by blast
    show "backup_at C ?r k (S j) (j \<in> tProposal ?g) (j \<in> tCommCert ?g) (nEng (client_arrives C I sg req p S) j)"
      using jp by (simp add: eng backup_at_def)
    show "mset (nLink (client_arrives C I sg req p S) p j) = mset (map (wrap sg p)
        (down C ?r k v (j \<in> tProposal ?g) (j \<in> tPrepCert ?g) (j \<in> tCommCert ?g) (nEng (client_arrives C I sg req p S) p)))"
      using j q(4) by (auto simp: link eng out)
    show "mset (nLink (client_arrives C I sg req p S) j p) =
        mset (up C ?r k v S (j \<in> tProposal ?g - tPrepare ?g) (j \<in> tPrepCert ?g - tCommit ?g) j)"
      using jp by (simp add: link up_def)
  next
    fix x y assume "x = p \<longleftrightarrow> y = p"
    then show "nLink (client_arrives C I sg req p S) x y = []" using pp by (auto simp: link out)
  qed (simp_all add: stage_ok_def)
qed

definition net_inv ::
    "crypto_ops \<Rightarrow> (int \<Rightarrow> payload \<Rightarrow> bytes) \<Rightarrow> Request \<Rightarrow> int \<Rightarrow> int \<Rightarrow> int \<Rightarrow> int \<Rightarrow> int list \<Rightarrow> (int \<Rightarrow> engine) \<Rightarrow>
     nat \<Rightarrow> network \<Rightarrow> bool" where
  "net_inv C sg r k v q p js S w N \<longleftrightarrow> (\<exists>g. at_stage C sg r k v q p js S g N \<and> w = stage_weight g)"

definition among :: "int set \<Rightarrow> (int \<times> int \<times> nat) list \<Rightarrow> bool" where
  "among P ds \<longleftrightarrow> (\<forall>(i, j, n)\<in>set ds. i \<in> P \<and> j \<in> P)"

lemma among_simps [simp]: "among P []" "among P ((i, j, n) # ds) \<longleftrightarrow> i \<in> P \<and> j \<in> P \<and> among P ds"
  by (auto simp: among_def)

text \<open>Each delivery brings one server one message further.\<close>

lemma net_inv_step:
  assumes live: "live_quorum C p js v q S" and r: "\<forall>i\<in>set (p # js). can_serve r k (S i)" "r_Op r = OpIntra"
    and inv: "net_inv C sg r k v q p js S w N" and d: "deliver C I sg (i, j, n) N = Some N'" "i \<in> set (p # js)" "j \<in> set (p # js)"
    and ord: "in_order (i, j, n) N"
  shows "net_inv C sg r k v q p js S (Suc w) N'"
proof -
  obtain g where st: "at_stage C sg r k v q p js S g N" and w: "w = stage_weight g"
    using inv by (auto simp: net_inv_def)
  have q: "2 \<le> q" "p \<notin> set js" "distinct (peers_of (S p))" "set js \<subseteq> set (peers_of (S p))"
    using live by (auto simp: live_quorum_def)
  have "nLink N i j \<noteq> []" using d(1) by (auto simp: deliver_def Let_def split: if_splits)
  then consider "i = p" "j \<in> set js" | "j = p" "i \<in> set js" using st d(2,3) by (auto simp: at_stage_def)
  then show ?thesis
  proof cases
    case 1
    then show ?thesis
      using stage_down [OF live_agreed [OF live] r st _ q(2), of j I n N'] d(1) ord w by (auto simp: net_inv_def)
  next
    case 2
    then show ?thesis
      using stage_up [OF live_agreed [OF live] r(1) q(1,3,4) st _ q(2), of i I n N'] d(1) w by (auto simp: net_inv_def)
  qed
qed

lemma net_inv_seq:
  assumes live: "live_quorum C p js v q S" and r: "\<forall>i\<in>set (p # js). can_serve r k (S i)" "r_Op r = OpIntra"
  shows "net_inv C sg r k v q p js S w N \<Longrightarrow> deliver_seq C I sg ds N = Some N' \<Longrightarrow> among (set (p # js)) ds \<Longrightarrow>
    orderly C I sg ds N \<Longrightarrow> net_inv C sg r k v q p js S (w + length ds) N'"
proof (induction ds arbitrary: w N)
  case (Cons d ds)
  obtain i j n where d: "d = (i, j, n)" by (cases d) auto
  obtain N1 where N1: "deliver C I sg d N = Some N1" "deliver_seq C I sg ds N1 = Some N'"
    using Cons.prems(2) by (auto split: option.splits)
  have more: "i \<in> set (p # js)" "j \<in> set (p # js)" "among (set (p # js)) ds" "in_order (i, j, n) N" "orderly C I sg ds N1"
    using Cons.prems(3,4) N1(1) by (auto simp: d)
  show ?case using Cons.IH [OF net_inv_step [OF live r Cons.prems(1) N1(1) [unfolded d] more(1,2,4)] N1(2) more(3,5)] by simp
qed simp

lemma stage_bound:
  assumes ok: "stage_ok js g" and dist: "distinct js"
  shows "stage_weight g \<le> 5 * length js"
proof -
  have b: "card A \<le> length js" if "A \<subseteq> set js" for A
    using card_mono [OF _ that] distinct_card [OF dist] by simp
  have "tProposal g \<subseteq> set js" using ok by (simp add: stage_ok_def)
  from b [OF this] show ?thesis using stage_sets(6-9) [OF ok, THEN b] by (simp add: stage_weight_def)
qed

lemma net_inv_bound: "net_inv C sg r k v q p js S w N \<Longrightarrow> distinct js \<Longrightarrow> w \<le> 5 * length js"
  using stage_bound by (auto simp: net_inv_def at_stage_def)

text \<open>With nothing left to deliver, everybody has gone all the way.\<close>

lemma net_inv_quiet:
  assumes live: "live_quorum C p js v q S" and inv: "net_inv C sg r k v q p js S w N"
    and quiet: "\<forall>i\<in>set (p # js). \<forall>j\<in>set (p # js). nLink N i j = []"
  shows "\<forall>i\<in>set (p # js). served C r k (S i) (nEng N i)"
proof -
  obtain g where st: "at_stage C sg r k v q p js S g N" using inv by (auto simp: net_inv_def)
  have ok: "stage_ok js g" using st by (simp add: at_stage_def)
  have at: "primary_at C r k S (set (p # js)) v q (S p) (insert p (tPrepare g)) (commit_votes q p g) (nEng N p)" using st by (simp add: at_stage_def)
  note c = primary_certs(1,2) [OF at]
  have q: "2 \<le> q" "distinct (p # js)" "q \<le> int (length (p # js))" using live by (auto simp: live_quorum_def)
  have card: "int (card (set (p # js))) \<ge> q" using distinct_card [OF q(2)] q(3) by simp
  have links: "mset (down C r k v (j \<in> tProposal g) (j \<in> tPrepCert g) (j \<in> tCommCert g) (nEng N p)) = {#}"
    "mset (up C r k v S (j \<in> tProposal g \<and> j \<notin> tPrepare g) (j \<in> tPrepCert g \<and> j \<notin> tCommit g) j) = {#}"
    "backup_at C r k (S j) (j \<in> tProposal g) (j \<in> tCommCert g) (nEng N j)" if "j \<in> set js" for j
  proof -
    have no: "nLink N p j = []" "nLink N j p = []" using quiet that by auto
    have "backup_at C r k (S j) (j \<in> tProposal g) (j \<in> tCommCert g) (nEng N j) \<and>
      mset (nLink N p j) = mset (map (wrap sg p) (down C r k v (j \<in> tProposal g) (j \<in> tPrepCert g) (j \<in> tCommCert g) (nEng N p))) \<and>
      mset (nLink N j p) = mset (up C r k v S (j \<in> tProposal g - tPrepare g) (j \<in> tPrepCert g - tCommit g) j)"
      using st that unfolding at_stage_def by blast
    then show "mset (down C r k v (j \<in> tProposal g) (j \<in> tPrepCert g) (j \<in> tCommCert g) (nEng N p)) = {#}"
      "mset (up C r k v S (j \<in> tProposal g \<and> j \<notin> tPrepare g) (j \<in> tPrepCert g \<and> j \<notin> tCommit g) j) = {#}"
      "backup_at C r k (S j) (j \<in> tProposal g) (j \<in> tCommCert g) (nEng N j)"
      unfolding no by simp_all
  qed
  have all1: "j \<in> tProposal g" "j \<in> tPrepare g" if "j \<in> set js" for j
    using links(1,2) [OF that] by (auto simp: down_def up_def split: if_splits)
  then have "set (p # js) \<subseteq> insert p (tPrepare g)" by auto
  then have "card (set (p # js)) \<le> card (insert p (tPrepare g))" by (intro card_mono) (use stage_sets [OF ok] in simp_all)
  then have V: "\<not> int (card (insert p (tPrepare g))) < q" using card by simp
  then obtain pc where "pcert (nEng N p) k = Some pc" using c(1) by auto
  then have all2: "j \<in> tPrepCert g" "j \<in> tCommit g" if "j \<in> set js" for j
    using links(1,2) [OF that] by (auto simp: down_def up_def split: if_splits)
  then have "set (p # js) \<subseteq> insert p (tCommit g)" by auto
  then have "card (set (p # js)) \<le> card (insert p (tCommit g))" by (intro card_mono) (use stage_sets [OF ok] in simp_all)
  then have W: "\<not> int (card (commit_votes q p g)) < q" using card V by (simp add: commit_votes_def)
  then obtain cc where "ccert (nEng N p) k = Some cc" using c(2) by auto
  then have all3: "j \<in> tCommCert g" if "j \<in> set js" for j
    using links(1) [OF that] by (auto simp: down_def split: if_splits)
  have "done_by C r k (S j) (nEng N j)" if "j \<in> set js" for j
    using links(3) [OF that] all1 [OF that] all3 [OF that] by (simp add: backup_at_def)
  moreover have "done_by C r k (S p) (nEng N p)"
    using at W primary_certs(2) [OF at] by (auto simp: primary_at_def ccert_def)
  ultimately show ?thesis by (auto simp: done_by_def)
qed

lemma net_inv_finishes:
  assumes live: "live_quorum C p js v q S" and r: "\<forall>i\<in>set (p # js). can_serve r k (S i)" "r_Op r = OpIntra"
  shows "net_inv C sg r k v q p js S w N \<Longrightarrow> \<exists>ds N'. among (set (p # js)) ds \<and> orderly C I sg ds N \<and>
    deliver_seq C I sg ds N = Some N' \<and> (\<forall>i\<in>set (p # js). served C r k (S i) (nEng N' i))"
proof (induction "5 * length js - w" arbitrary: w N rule: less_induct)
  case less
  have dist: "distinct js" using live by (simp add: live_quorum_def)
  show ?case
  proof (cases "\<forall>i\<in>set (p # js). \<forall>j\<in>set (p # js). nLink N i j = []")
    case True
    then show ?thesis using net_inv_quiet [OF live less.prems] by (intro exI [of _ "[]"] exI [of _ N]) simp
  next
    case False
    then obtain i j where ij: "i \<in> set (p # js)" "j \<in> set (p # js)" "nLink N i j \<noteq> []" by blast
    obtain n where n: "n < length (nLink N i j)" "in_order (i, j, n) N" using some_in_order [OF ij(3)] by blast
    then obtain N1 where N1: "deliver C I sg (i, j, n) N = Some N1" by (simp add: deliver_def Let_def)
    have inv: "net_inv C sg r k v q p js S (Suc w) N1" by (rule net_inv_step [OF live r less.prems N1 ij(1,2) n(2)])
    then have "5 * length js - Suc w < 5 * length js - w" using net_inv_bound [OF inv dist] by simp
    then obtain ds N' where "among (set (p # js)) ds" "orderly C I sg ds N1" "deliver_seq C I sg ds N1 = Some N'"
        "\<forall>i\<in>set (p # js). served C r k (S i) (nEng N' i)"
      using less.hyps [OF _ inv] by blast
    then show ?thesis using N1 ij(1,2) n(2) by (intro exI [of _ "(i, j, n) # ds"] exI [of _ N']) simp
  qed
qed

subsection \<open>What the client collects\<close>

definition replies_of :: "engine \<Rightarrow> Reply list" where
  "replies_of e = concat (map (\<lambda>x. case x of EReply r \<Rightarrow> [r] | _ \<Rightarrow> []) (eEffects e))"

text \<open>The replies of the servers, in the order in which they reach the collector.\<close>

definition collected :: "network \<Rightarrow> int list \<Rightarrow> ReplyCollector" where
  "collected N servers = fold collector_Record (concat (map (\<lambda>i. replies_of (nEng N i)) servers)) []"

lemma fold_Record: "fold collector_Record rs c = c @ rs"
  by (induction rs arbitrary: c) (simp_all add: collector_Record_def)

lemma collected_quorum:
  assumes "\<forall>i\<in>set servers. EReply (mk_reply (req\<lparr>r_Op := op\<rparr>) k result) \<in> set (eEffects (nEng N i))"
  shows "int (length servers) \<le> MatchingCount (collected N servers) req result"
  using assms
proof (induction servers)
  case (Cons i servers)
  let ?r = "mk_reply (req\<lparr>r_Op := op\<rparr>) k result"
  have "?r \<in> set (replies_of (nEng N i))" using Cons.prems unfolding replies_of_def by force
  moreover have "reply_matches req result ?r" by (simp add: reply_matches_def mk_reply_def)
  ultimately have "1 \<le> length (filter (reply_matches req result) (replies_of (nEng N i)))"
    by (metis (no_types, lifting) One_nat_def Suc_leI filter_empty_conv length_greater_0_conv)
  moreover have "int (length servers) \<le> MatchingCount (collected N servers) req result" using Cons by simp
  ultimately show ?case by (simp add: MatchingCount_def collected_def fold_Record)
qed (simp add: MatchingCount_def)

subsection \<open>Properties\<close>

text \<open>C4: A client request is served. Let a primary and the backups that are up make a quorum of two or more,
  agree on the view and the quorum, and hold each other's keys, and let the primary broadcast to all of
  these. Let all of them, backups too, stand at the same sequence number \<open>k\<close>: everything below executed,
  nothing from \<open>k\<close> on in the log; and let them be correct and be able to execute the request: a
  transfer between two different items of the cluster, neither locked, covered by the balance, with a
  timestamp newer than the client's last. Let nothing else be going on at the primary: its next number is \<open>k\<close>,
  its queue is empty. When the request reaches the primary, let these servers
  handle what they send each other in any order in which no certificate overtakes the
  PRE-PREPARE still on its way from the same sender; all else may overtake. Then there are at most
  five deliveries per backup; when nothing is left to handle, every one of them has
  executed the request as number \<open>k\<close>, its ledger is the old one after the transfer, and it has
  sent the client a reply that says so, and the collector of the client counts a quorum of matching
  replies; and from any point on the way that end can be reached. A certificate that does overtake
  the PRE-PREPARE is dropped (\<open>overtaken_lost\<close>), and its loss is what C5 is about.\<close>

theorem client_request_served:
  assumes live: "live_quorum C p js v q S" and able: "\<forall>i\<in>set (p # js). can_serve req k (S i)"
    and idle: "idle_primary C req k (S p)"
    and run: "among (set (p # js)) ds" "deliver_seq C I sg ds (client_arrives C I sg req p S) = Some N"
    and order: "orderly C I sg ds (client_arrives C I sg req p S)"
  defines "all_served \<equiv> \<lambda>N. (\<forall>i\<in>set (p # js). served C (req\<lparr>r_Op := OpIntra\<rparr>) k (S i) (nEng N i)) \<and>
    q \<le> MatchingCount (collected N (p # js)) req ResultCommitted"
  shows "length ds \<le> 5 * length js \<and>
    ((\<forall>i\<in>set (p # js). \<forall>j\<in>set (p # js). nLink N i j = []) \<longrightarrow> all_served N) \<and>
    (\<exists>ds' N'. among (set (p # js)) ds' \<and> orderly C I sg ds' N \<and> deliver_seq C I sg ds' N = Some N' \<and> all_served N')"
proof -
  let ?r = "req\<lparr>r_Op := OpIntra\<rparr>"
  have able': "\<forall>i\<in>set (p # js). can_serve ?r k (S i)" using able can_serve_intra by blast
  have op: "r_Op ?r = OpIntra" by simp
  have sp: "can_serve req k (S p)" using able by simp
  have "net_inv C sg ?r k v q p js S 0 (client_arrives C I sg req p S)"
    using stage_start [OF live sp idle, of sg I] unfolding net_inv_def by (intro exI conjI) (assumption, simp add: stage_weight_def)
  then have inv: "net_inv C sg ?r k v q p js S (length ds) N"
    using net_inv_seq [OF live able' op _ run(2,1) order] by fastforce
  have dist: "distinct js" and q: "q \<le> int (length (p # js))" using live by (simp_all add: live_quorum_def)
  have all: "all_served N" if "\<forall>i\<in>set (p # js). served C ?r k (S i) (nEng N i)" for N
    using that q collected_quorum [where servers = "p # js" and req = req and op = OpIntra and k = k and result = ResultCommitted and N = N] unfolding all_served_def served_def by fastforce
  show ?thesis
    using net_inv_bound [OF inv dist] net_inv_quiet [OF live inv] net_inv_finishes [OF live able' op inv, of I] all by blast
qed

lemma sample_live: "live_quorum plain_crypto 1 [2, 3] 0 3 sample_engine"
proof -
  have "peers_of (sample_engine 1) = [2, 3, 4]" using sample_cluster_peers by (simp add: peers_of_def)
  then show ?thesis by (simp add: live_quorum_def sample_primary sample_keys)
qed

lemma sample_can_serve: "can_serve sample_req 1 (sample_engine i)"
  by (simp add: can_serve_def DefaultFaultConfig_def SameCluster_def sample_cluster sample_req_def norm_op_def IsLocked_def)

lemma sample_idle: "idle_primary plain_crypto sample_req 1 (sample_engine 1)"
  by (simp add: idle_primary_def clientTxnInFlight_def clusterHonestLive_def DefaultFaultConfig_def)
     (simp add: sample_engine_def fresh_engine_def Let_def)

text \<open>With server 4 down, the other three are just enough.\<close>

theorem client_request_served_witness:
  "\<forall>I sg. \<exists>ds N. deliver_seq plain_crypto I sg ds (client_arrives plain_crypto I sg sample_req 1 sample_engine) = Some N \<and>
     eExecSeq (nEng N 3) = 2 \<and> GetBalance (eStore (nEng N 3)) 5 = 7 \<and> GetBalance (eStore (nEng N 3)) 7 = 13 \<and>
     3 \<le> MatchingCount (collected N [1, 2, 3]) sample_req ResultCommitted"
proof (intro allI)
  fix I :: iteration and sg :: "int \<Rightarrow> payload \<Rightarrow> bytes"
  let ?r = "sample_req\<lparr>r_Op := OpIntra\<rparr>" and ?N = "client_arrives plain_crypto I sg sample_req 1 sample_engine"
  obtain ds N where N: "deliver_seq plain_crypto I sg ds ?N = Some N"
      "\<forall>i\<in>set (1 # [2, 3]). served plain_crypto ?r 1 (sample_engine i) (nEng N i)"
      "3 \<le> MatchingCount (collected N [1, 2, 3]) sample_req ResultCommitted"
    using client_request_served [OF sample_live _ sample_idle, where ds = "[]" and I = I and sg = sg] sample_can_serve by auto
  then have s: "served plain_crypto ?r 1 (sample_engine 3) (nEng N 3)" by simp
  then have "lg_bal (ledger_of (eStore (nEng N 3))) i = lg_bal (ledger_step plain_crypto ?r (ledger_of (empty_store 10 100))) i" for i
    by (simp add: served_def)
  then have "GetBalance (eStore (nEng N 3)) 5 = 7" "GetBalance (eStore (nEng N 3)) 7 = 13"
    by (simp_all add: ledger_bal ledger_step_def norm_op_def sample_req_def lg_entry_def lg_stamp_def Let_def)
  then show "\<exists>ds N. deliver_seq plain_crypto I sg ds ?N = Some N \<and>
     eExecSeq (nEng N 3) = 2 \<and> GetBalance (eStore (nEng N 3)) 5 = 7 \<and> GetBalance (eStore (nEng N 3)) 7 = 13 \<and>
     3 \<le> MatchingCount (collected N [1, 2, 3]) sample_req ResultCommitted"
    using N(1,3) s by (auto simp: served_def)
qed

end
