(* ===== verification/Lag.thy ===== *)
theory Lag
  imports Cluster
begin

text \<open>
  A backup that has missed a proposal. There is no retransmission and no state transfer: a slot that
  is not in the log stays out of it until its PRE-PREPARE, a NEW-VIEW or a DISCARD brings it, and the
  gap check keeps everything above it out as well.
\<close>

text \<open>Slot \<open>k\<close> is neither executed nor in the log, and nothing above it is.\<close>

definition missing :: "int \<Rightarrow> engine \<Rightarrow> bool" where
  "missing k e \<longleftrightarrow> \<not> is_primary e \<and> 1 \<le> k \<and> eExecSeq e \<le> k \<and> (\<forall>n\<ge>k. bget (eLog e) n = None)"

text \<open>What may arrive: anything of the normal case but the proposal for slot \<open>k\<close>.\<close>

definition bypasses :: "int \<Rightarrow> Envelope \<Rightarrow> bool" where
  "bypasses k env = (case env_Payload env of
      MPrePrepare m \<Rightarrow> pp_Seq m \<noteq> k | MViewChange _ \<Rightarrow> False | MNewView _ \<Rightarrow> False | MDiscardSeq _ \<Rightarrow> False | _ \<Rightarrow> True)"

text \<open>The new signatures are for slots below \<open>k\<close>.\<close>

definition votes_below :: "int \<Rightarrow> engine \<Rightarrow> engine \<Rightarrow> bool" where
  "votes_below k e e' \<longleftrightarrow> eView e' = eView e \<and>
     (\<forall>b\<in>signed e'. b \<in> signed e \<or> (\<exists>p n d. n < k \<and> b = PhaseSigningBytes (phase_name p) n (eView e) d))"

lemma votes_below_refl [simp]: "votes_below k e e"
  by (simp add: votes_below_def)

lemma votes_below_trans: "votes_below k a b \<Longrightarrow> votes_below k b c \<Longrightarrow> votes_below k a c"
  by (fastforce simp: votes_below_def)

lemma sealed_below: "missing k e \<Longrightarrow> sealed e n d \<Longrightarrow> n < k"
  by (cases "n < k") (auto simp: missing_def sealed_def proposal_def split: option.splits)

lemma votes_below_evolves: "missing k e \<Longrightarrow> evolves e e' \<Longrightarrow> votes_below k e e'"
  using sealed_below unfolding votes_below_def evolves_def by blast

lemma missing_core: "missing k e \<Longrightarrow> same_core e e' \<Longrightarrow> missing k e'"
  using is_primary_cong [of e' e] by (auto simp: missing_def same_core_fields)

lemma missing_put: "missing k e \<Longrightarrow> n < k \<Longrightarrow> missing k (put_slot n s e)"
  by (simp add: missing_def) (simp add: put_slot_def)

lemma missing_emit [simp]: "missing k (emit x e) = missing k e"
  by (simp add: missing_def) (simp add: emit_def)

lemma missing_tryExecute:
  assumes m: "missing k e"
  shows "missing k (tryExecute C e)"
proof -
  let ?e = "tryExecute C e"
  note log = tryExecute_log [of e C, THEN conjunct2, rule_format]
  have "bget (eLog e) k = None" "eExecSeq e \<le> k" using m by (simp_all add: missing_def)
  then have exec: "eExecSeq ?e \<le> k" using log [of k] by (cases "eExecSeq ?e \<le> k") auto
  have "bget (eLog ?e) n = None" if "k \<le> n" for n using log [of n] m exec that by (auto simp: missing_def)
  moreover have "is_primary ?e = is_primary e" using evolves_tryExecute by (simp add: evolves_def)
  ultimately show ?thesis using m exec by (simp add: missing_def)
qed

lemma missing_slot: "missing k e \<Longrightarrow> bget (eLog e) n = Some s \<Longrightarrow> n < k"
  by (cases "n < k") (auto simp: missing_def)

lemma missing_onPrePrepare:
  assumes m: "missing k e" and other: "pp_Seq msg \<noteq> k"
  shows "missing k (onPrePrepare C e msg) \<and> votes_below k e (onPrePrepare C e msg)"
proof (cases "onPrePrepare C e msg = e")
  case False
  let ?a = "adopt (pp_Digest msg) (pp_Req msg) (pp_Seq msg) e"
  have ok: "pp_View msg = eView e" "gapClearLocked e (pp_Seq msg)" "onPrePrepare C e msg = processPrePrepare C ?a msg"
    using False by (auto simp: onPrePrepare_def split: if_splits)
  have "\<not> k < pp_Seq msg" using ok(2) m missing_slot_gap [of e k "pp_Seq msg"] by (auto simp: missing_def)
  then have lt: "pp_Seq msg < k" using other by simp
  have a: "missing k ?a" using m lt by (simp add: missing_def adopt_steps adopt_slot)
  then have "\<not> is_primary ?a" by (simp add: missing_def)
  then have "missing k (processPrePrepare C ?a msg)" by (rule missing_core [OF a backup_process_core])
  moreover have "votes_below k ?a (processPrePrepare C ?a msg)"
    by (rule votes_below_evolves [OF a evolves_processPrePrepare]) (simp_all add: ok(1) sealed_adopt adopt_steps)
  moreover have "votes_below k e ?a" by (simp add: votes_below_def adopt_steps)
  ultimately show ?thesis unfolding ok(3) using votes_below_trans by blast
qed (use m in simp)

lemma missing_onPrepareCert:
  assumes m: "missing k e"
  shows "missing k (onPrepareCert C e c)"
proof (cases "onPrepareCert C e c = e")
  case False
  then obtain s where s: "bget (eLog e) (cm_Seq c) = Some s"
    and on: "onPrepareCert C e c = sendCommit C (put_slot (cm_Seq c) (s\<lparr>sPrepareCert := Some c\<rparr>) e) (cm_Seq c) (cm_View c) (cm_Digest c)"
    by (auto simp: onPrepareCert_def split: option.splits if_splits)
  let ?q = "put_slot (cm_Seq c) (s\<lparr>sPrepareCert := Some c\<rparr>) e"
  have q: "missing k ?q" by (rule missing_put [OF m missing_slot [OF m s]])
  then have "Primary ?q \<noteq> eSelf ?q" by (simp add: missing_def is_primary_def)
  then show ?thesis unfolding on using q by (simp add: sendCommit_def Let_def)
qed (use m in simp)

lemma missing_onCommitCert:
  assumes m: "missing k e"
  shows "missing k (onCommitCert C e c)"
proof (cases "onCommitCert C e c = e")
  case False
  then obtain s where s: "bget (eLog e) (cm_Seq c) = Some s"
    and on: "onCommitCert C e c = tryExecute C (put_slot (cm_Seq c) (s\<lparr>sCommitCert := Some c\<rparr>) e)"
    by (auto simp: onCommitCert_def split: option.splits if_splits)
  show ?thesis unfolding on by (rule missing_tryExecute [OF missing_put [OF m missing_slot [OF m s]]])
qed (use m in simp)

lemma missing_Handle:
  assumes m: "missing k e" and env: "bypasses k env"
  shows "missing k (Handle C I e env) \<and> votes_below k e (Handle C I e env)"
proof (cases "Alive (eFault e)")
  case alive: True
  have np: "\<not> is_primary e" using m by (simp add: missing_def)
  show ?thesis
  proof (cases "env_Payload env")
    case (MClientRequest req)
    have i: "idle_step e (onBackupClientRequest C e req)" by (rule idle_onBackup)
    note f = idle_step_fields [OF i]
    have "missing k (onBackupClientRequest C e req)" using m f by (simp add: missing_def evolves_def)
    then show ?thesis using MClientRequest alive np votes_below_evolves [OF m f(1)] by (simp add: Handle_def onClientRequest_def)
  next
    case (MPrePrepare msg)
    then show ?thesis using alive env missing_onPrePrepare [OF m, of msg C] by (simp add: Handle_def bypasses_def)
  next
    case (MPrepareCert c)
    then show ?thesis
      using alive missing_onPrepareCert [OF m] votes_below_evolves [OF m evolves_onPrepareCert] by (simp add: Handle_def)
  next
    case (MCommitCert c)
    then show ?thesis
      using alive missing_onCommitCert [OF m] votes_below_evolves [OF m evolves_onCommitCert] by (simp add: Handle_def)
  qed (use m env alive np in \<open>simp_all add: Handle_def bypasses_def onPrepare_def onCommit_def\<close>)
qed (use m in \<open>simp add: Handle_def\<close>)

subsection \<open>Properties\<close>

text \<open>C5: One missed proposal leaves a backup behind. A backup that lost the PRE-PREPARE of slot \<open>k\<close>
  and has nothing at or above \<open>k\<close> in its log may be sent any proposals of other slots, votes,
  certificates and client requests, in any order: without that one PRE-PREPARE, a NEW-VIEW or a
  DISCARD it never executes slot \<open>k\<close> or a later one, keeps nothing of them, and votes for none of
  them, so from there on it is no part of any quorum.\<close>

theorem missed_proposal_lags:
  assumes "missing k e" and "\<forall>env\<in>set envs. bypasses k env"
  shows "let e' = fold (\<lambda>env e. Handle C I e env) envs e in
    eExecSeq e' \<le> k \<and> (\<forall>n\<ge>k. bget (eLog e') n = None) \<and>
    (\<forall>p n d. PhaseSigningBytes (phase_name p) n (eView e) d \<in> signed e' - signed e \<longrightarrow> n < k)"
proof -
  have "missing k (fold (\<lambda>env e. Handle C I e env) envs e) \<and> votes_below k e (fold (\<lambda>env e. Handle C I e env) envs e)"
    using assms
  proof (induction envs arbitrary: e)
    case (Cons env envs)
    have env: "bypasses k env" and rest: "\<forall>env\<in>set envs. bypasses k env" using Cons.prems(2) by auto
    note h = missing_Handle [OF Cons.prems(1) env, of C I]
    show ?case using Cons.IH [OF h [THEN conjunct1] rest] votes_below_trans [OF h [THEN conjunct2]] by simp
  qed simp
  then show ?thesis by (auto simp: missing_def votes_below_def phase_bytes_inj Let_def)
qed

text \<open>Server 2 was down when slot 1 was proposed; the certificates of the others do not help it.\<close>

theorem missed_proposal_lags_witness:
  "\<forall>I. let e' = fold (\<lambda>env e. Handle plain_crypto I e env)
             [from_peer (MPrepareCert (sample_cert Prep)), from_peer (MCommitCert (sample_cert Comm)),
              from_peer (MPrePrepare (sample_pp\<lparr>pp_Seq := 2\<rparr>))] (sample_engine 2)
   in eExecSeq e' \<le> 1 \<and> bget (eLog e') 2 = None"
proof
  fix I :: iteration
  have m: "missing 1 (sample_engine 2)" using sample_primary_iff [of 2] by (simp add: missing_def)
  show "let e' = fold (\<lambda>env e. Handle plain_crypto I e env)
             [from_peer (MPrepareCert (sample_cert Prep)), from_peer (MCommitCert (sample_cert Comm)),
              from_peer (MPrePrepare (sample_pp\<lparr>pp_Seq := 2\<rparr>))] (sample_engine 2)
   in eExecSeq e' \<le> 1 \<and> bget (eLog e') 2 = None"
    using missed_proposal_lags [OF m, of "[from_peer (MPrepareCert (sample_cert Prep)), from_peer (MCommitCert (sample_cert Comm)),
      from_peer (MPrePrepare (sample_pp\<lparr>pp_Seq := 2\<rparr>))]" plain_crypto I]
    by (simp add: Let_def bypasses_def from_peer_def)
qed

end
